(* ===== verification/Prelude.thy ===== *)
theory Prelude
  imports Main "HOL-Library.Word" "HOL-Library.Monad_Syntax"
begin

unbundle bit_operations_syntax

text \<open>
  The vocabulary the component theories share: machine words, byte buffers with checked
  reads and writes, fixed-width integers in memory, and NUL-terminated strings.

  A value of type \<^typ>\<open>'a option\<close> returned by a definition that models a C function
  is \<^term>\<open>None\<close> exactly where the C run leaves the behaviour the language defines (an access
  outside the buffer, a shift by the width of the operand, a copy of a negative length). The
  error codes a function returns itself are ordinary values.
\<close>

section \<open>Words and byte order\<close>

type_synonym u8 = "8 word"
type_synonym u16 = "16 word"
type_synonym u32 = "32 word"
type_synonym u64 = "64 word"
type_synonym bytes = "u8 list"

named_theorems mem_simps \<open>reading and writing byte buffers\<close>
named_theorems enc_simps \<open>integers as bytes and back\<close>

datatype endian = LE | BE

definition be16 :: "u16 \<Rightarrow> bytes" where
  "be16 w = [ucast (drop_bit 8 w), ucast w]"

definition be32 :: "u32 \<Rightarrow> bytes" where
  "be32 w = [ucast (drop_bit 24 w), ucast (drop_bit 16 w), ucast (drop_bit 8 w), ucast w]"

fun of_be16 :: "bytes \<Rightarrow> u16" where
  "of_be16 [a, b] = push_bit 8 (ucast a) OR ucast b"
| "of_be16 _ = 0"

fun of_be32 :: "bytes \<Rightarrow> u32" where
  "of_be32 [a, b, c, d] =
     push_bit 24 (ucast a) OR push_bit 16 (ucast b) OR push_bit 8 (ucast c) OR ucast d"
| "of_be32 _ = 0"

definition enc32 :: "endian \<Rightarrow> u32 \<Rightarrow> bytes" where
  "enc32 e w = (case e of BE \<Rightarrow> be32 w | LE \<Rightarrow> rev (be32 w))"

definition dec32 :: "endian \<Rightarrow> bytes \<Rightarrow> u32" where
  "dec32 e bs = (case e of BE \<Rightarrow> of_be32 bs | LE \<Rightarrow> of_be32 (rev bs))"

definition enc16 :: "endian \<Rightarrow> u16 \<Rightarrow> bytes" where
  "enc16 e w = (case e of BE \<Rightarrow> be16 w | LE \<Rightarrow> rev (be16 w))"

definition dec16 :: "endian \<Rightarrow> bytes \<Rightarrow> u16" where
  "dec16 e bs = (case e of BE \<Rightarrow> of_be16 bs | LE \<Rightarrow> of_be16 (rev bs))"

lemma length_be16 [simp, enc_simps]: "length (be16 w) = 2"
  by (simp add: be16_def)

lemma length_be32 [simp, enc_simps]: "length (be32 w) = 4"
  by (simp add: be32_def)

lemma length_enc32 [simp, enc_simps]: "length (enc32 e w) = 4"
  by (simp add: enc32_def split: endian.split)

lemma length_enc16 [simp, enc_simps]: "length (enc16 e w) = 2"
  by (simp add: enc16_def split: endian.split)

lemma of_be16_be16 [simp, enc_simps]: "of_be16 (be16 w) = w"
proof (rule bit_word_eqI)
  fix n assume "n < LENGTH(16)"
  then show "bit (of_be16 (be16 w)) n = bit w n"
    by (cases "n < 8") (auto simp: be16_def bit_simps)
qed

lemma of_be32_be32 [simp, enc_simps]: "of_be32 (be32 w) = w"
proof (rule bit_word_eqI)
  fix n assume "n < LENGTH(32)"
  then show "bit (of_be32 (be32 w)) n = bit w n"
    by (cases "n < 8"; cases "n < 16"; cases "n < 24") (auto simp: be32_def bit_simps)
qed

lemma dec32_enc32 [simp, enc_simps]: "dec32 e (enc32 e w) = w"
  by (simp add: dec32_def enc32_def split: endian.split)

lemma dec16_enc16 [simp, enc_simps]: "dec16 e (enc16 e w) = w"
  by (simp add: dec16_def enc16_def split: endian.split)

lemma be32_of_be32 [enc_simps]:
  assumes "length bs = 4"
  shows "be32 (of_be32 bs) = bs"
proof -
  from assms obtain a b c d where "bs = [a, b, c, d]"
    by (auto simp: length_Suc_conv eval_nat_numeral)
  then show ?thesis
    by (auto simp: be32_def intro!: bit_word_eqI) (auto simp: bit_simps not_less dest: bit_imp_le_length)
qed

lemma enc32_dec32 [enc_simps]: "length bs = 4 \<Longrightarrow> enc32 e (dec32 e bs) = bs"
  by (cases e) (simp_all add: enc32_def dec32_def be32_of_be32)


text \<open>Subtraction of unsigned 32-bit values, with its wrap-around.\<close>

definition usub32 :: "nat \<Rightarrow> nat \<Rightarrow> nat" where
  "usub32 a b = nat ((int a - int b) mod 2 ^ 32)"

lemma usub32_le [simp]: "b \<le> a \<Longrightarrow> a < 2 ^ 32 \<Longrightarrow> usub32 a b = a - b"
proof -
  assume "b \<le> a" and "a < 2 ^ 32"
  then have "0 \<le> int a - int b" and "int a - int b < 2 ^ 32" by simp_all
  then have "(int a - int b) mod 2 ^ 32 = int a - int b" by (rule mod_pos_pos_trivial)
  then show ?thesis by (simp add: usub32_def)
qed

lemma unat_of_nat_u32: "n < 2 ^ 32 \<Longrightarrow> unat (of_nat n :: u32) = n"
  by (simp add: unat_of_nat)

lemma signed_small: "n < 2 ^ 31 \<Longrightarrow> signed_take_bit 31 (int n) = int n"
  by (rule signed_take_bit_int_eq_self) simp_all

lemma sint_small: "unat (w :: u32) < 2 ^ 31 \<Longrightarrow> sint w = int (unat w)"
  unfolding sint_uint uint_nat using signed_small [of "unat w"] by simp

section \<open>Byte buffers\<close>

text \<open>\<open>peek b i n\<close> reads \<open>n\<close> bytes at index \<open>i\<close> (\<open>memcpy\<close> out of \<open>b\<close>), \<open>poke b i xs\<close>
  writes \<open>xs\<close> there; both are \<^term>\<open>None\<close> when the range leaves the buffer.\<close>

definition peek :: "'a list \<Rightarrow> nat \<Rightarrow> nat \<Rightarrow> 'a list option" where
  "peek b i n = (if i + n \<le> length b then Some (take n (drop i b)) else None)"

definition poke :: "'a list \<Rightarrow> nat \<Rightarrow> 'a list \<Rightarrow> 'a list option" where
  "poke b i xs =
     (if i + length xs \<le> length b then Some (take i b @ xs @ drop (i + length xs) b) else None)"

definition idx :: "'a list \<Rightarrow> nat \<Rightarrow> 'a option" where
  "idx b i = (if i < length b then Some (b ! i) else None)"

lemma poke_Some_iff [mem_simps]:
  "poke b i xs = Some c \<longleftrightarrow>
     i + length xs \<le> length b \<and> c = take i b @ xs @ drop (i + length xs) b"
  by (auto simp: poke_def)

lemma peek_Some_iff [mem_simps]:
  "peek b i n = Some xs \<longleftrightarrow> i + n \<le> length b \<and> xs = take n (drop i b)"
  by (auto simp: peek_def)

lemma idx_Some_iff [mem_simps]: "idx b i = Some x \<longleftrightarrow> i < length b \<and> x = b ! i"
  by (auto simp: idx_def)

lemma length_poke: "poke b i xs = Some c \<Longrightarrow> length c = length b"
  by (auto simp: mem_simps)

lemma length_peek: "peek b i n = Some xs \<Longrightarrow> length xs = n"
  by (auto simp: mem_simps)

lemma poke_defined: "i + length xs \<le> length b \<Longrightarrow> \<exists>c. poke b i xs = Some c"
  by (simp add: poke_def)

lemma peek_poke_same: "poke b i xs = Some c \<Longrightarrow> peek c i (length xs) = Some xs"
  by (auto simp: mem_simps)

lemma peek_poke_before:
  "poke b i xs = Some c \<Longrightarrow> j + n \<le> i \<Longrightarrow> peek c j n = peek b j n"
  by (auto simp: poke_Some_iff peek_def min_absorb2 min_absorb1 intro!: nth_equalityI)

lemma peek_poke_after:
  "poke b i xs = Some c \<Longrightarrow> i + length xs \<le> j \<Longrightarrow> peek c j n = peek b j n"
  by (auto simp: poke_Some_iff peek_def min_absorb2 min_absorb1 intro!: nth_equalityI)

lemma peek_append [simp]: "peek (a @ b) 0 (length a) = Some a"
  by (simp add: peek_def)

section \<open>NUL-terminated strings\<close>

text \<open>The bytes of a string literal, and the C string that starts at index \<open>i\<close> of a buffer
  (\<^term>\<open>None\<close> if no NUL follows inside the buffer). A C string value is its bytes before the NUL.\<close>

definition str :: "string \<Rightarrow> bytes" where
  "str s = map of_char s"

definition cstr :: "bytes \<Rightarrow> bytes" where
  "cstr b = takeWhile (\<lambda>c. c \<noteq> 0) b"

definition is_cstr :: "bytes \<Rightarrow> bool" where
  "is_cstr s \<longleftrightarrow> 0 \<notin> set s"

definition cstr_at :: "bytes \<Rightarrow> nat \<Rightarrow> bytes option" where
  "cstr_at b i = (let s = cstr (drop i b) in if i + length s < length b then Some s else None)"

lemma cstr_append_nul [simp]: "is_cstr s \<Longrightarrow> cstr (s @ 0 # r) = s"
  by (auto simp: cstr_def is_cstr_def takeWhile_append)

lemma is_cstr_cstr [simp]: "is_cstr (cstr b)"
  by (auto simp: cstr_def is_cstr_def dest: set_takeWhileD)

lemma is_cstr_Nil [simp]: "is_cstr []"
  by (simp add: is_cstr_def)

lemma is_cstr_Cons [simp]: "is_cstr (c # s) \<longleftrightarrow> c \<noteq> 0 \<and> is_cstr s"
  by (auto simp: is_cstr_def)

lemma is_cstr_append [simp]: "is_cstr (s @ t) \<longleftrightarrow> is_cstr s \<and> is_cstr t"
  by (auto simp: is_cstr_def)

lemma length_str [simp]: "length (str s) = length s"
  by (simp add: str_def)

lemma cstr_at_append:
  "is_cstr s \<Longrightarrow> cstr_at (a @ s @ 0 # r) (length a) = Some s"
  by (simp add: cstr_at_def)

section \<open>Lookup tables\<close>

text \<open>\<open>tab_ok f i ts\<close>: the entries of a table agree with \<open>f\<close> from index \<open>i\<close> on.\<close>

fun tab_ok :: "('a::len word \<Rightarrow> 'b) \<Rightarrow> 'a word \<Rightarrow> 'b list \<Rightarrow> bool" where
  "tab_ok f i [] = True"
| "tab_ok f i (t # ts) = (f i = t \<and> tab_ok f (i + 1) ts)"

lemma tab_ok_nth: "tab_ok f i ts \<Longrightarrow> j < length ts \<Longrightarrow> ts ! j = f (i + of_nat j)"
proof (induction ts arbitrary: i j)
  case (Cons t ts)
  then show ?case by (cases j) (auto simp: algebra_simps)
qed simp

lemma tab_ok_u8:
  assumes "tab_ok f 0 ts" and "length ts = 256"
  shows "ts ! unat (x :: u8) = f x"
proof -
  have "unat x < length ts"
    using assms(2) unsigned_less [of x, where 'a = nat] by simp
  with tab_ok_nth [OF assms(1)] show ?thesis by simp
qed

lemma and_ff_u8 [simp]: "(x :: u8) AND 0xff = x"
proof (rule bit_word_eqI)
  fix n assume "n < LENGTH(8)"
  then have "bit (0xff :: u8) n"
    by (auto simp: less_Suc_eq eval_nat_numeral)
  then show "bit (x AND 0xff) n = bit x n" by (simp add: bit_simps)
qed

section \<open>Masks\<close>

lemma div_eq_range:
  assumes "0 < (d :: nat)"
  shows "n div d = q \<longleftrightarrow> q * d \<le> n \<and> n \<le> q * d + (d - 1)"
proof
  assume "n div d = q"
  then show "q * d \<le> n \<and> n \<le> q * d + (d - 1)"
    using div_times_less_eq_dividend [of n d] dividend_less_div_times [of d n] assms by auto
next
  assume "q * d \<le> n \<and> n \<le> q * d + (d - 1)"
  then show "n div d = q"
    using assms by (intro div_nat_eqI) (auto simp: algebra_simps)
qed

lemma clear_low: "(x :: 'a::len word) AND NOT (push_bit j 1 - 1) = push_bit j (drop_bit j x)"
  by (rule bit_word_eqI) (auto simp: mask_eq_exp_minus_1 [symmetric] push_bit_of_1 bit_simps)

lemma unat_clear_low: "unat ((x :: 'a::len word) AND NOT (push_bit j 1 - 1)) = unat x div 2 ^ j * 2 ^ j"
proof -
  have "unat x div 2 ^ j * 2 ^ j < 2 ^ LENGTH('a)"
    using unsigned_less [of x, where 'a = nat] by (meson div_times_less_eq_dividend le_less_trans)
  moreover have "unat (push_bit j (drop_bit j x)) = take_bit LENGTH('a) (push_bit j (drop_bit j (unat x)))"
    using take_bit_nat_eq_self [OF unsigned_less [of x, where 'a = nat]]
    by (simp only: unsigned_push_bit_eq unsigned_drop_bit_eq)
  ultimately show ?thesis
    unfolding clear_low by (simp add: push_bit_eq_mult drop_bit_eq_div take_bit_eq_mod)
qed

lemma unat_drop_bit: "unat (drop_bit k (x :: 'a::len word)) = unat x div 2 ^ k"
proof -
  have "unat (drop_bit k x) = drop_bit k (take_bit LENGTH('a) (unat x))"
    by (rule unsigned_drop_bit_eq)
  also have "\<dots> = unat x div 2 ^ k"
    unfolding take_bit_nat_eq_self [OF unsigned_less [of x, where 'a = nat]] by (rule drop_bit_eq_div)
  finally show ?thesis .
qed

lemma nat_or_mask: "(n :: nat) OR (2 ^ j - 1) = n div 2 ^ j * 2 ^ j + (2 ^ j - 1)"
proof -
  have eq: "n OR mask j = push_bit j (drop_bit j n) OR mask j"
    by (rule bit_eqI) (auto simp: bit_simps)
  have "push_bit j (drop_bit j n) OR mask j = push_bit j (drop_bit j n) + mask j"
    by (rule disjunctive_add [symmetric]) (auto simp: bit_simps)
  with eq show ?thesis
    by (simp add: mask_eq_exp_minus_1 push_bit_eq_mult drop_bit_eq_div)
qed

lemma unat_set_low:
  assumes "j < LENGTH('a)"
  shows "unat ((x :: 'a::len word) OR (push_bit j 1 - 1)) = unat x div 2 ^ j * 2 ^ j + (2 ^ j - 1)"
proof -
  have "push_bit j 1 - 1 = (mask j :: 'a word)"
    by (simp add: mask_eq_exp_minus_1 push_bit_of_1)
  then have "push_bit j 1 - 1 = (of_nat (mask j) :: 'a word)"
    by (simp only: of_nat_mask_eq)
  then have "unat (push_bit j 1 - 1 :: 'a word) = take_bit LENGTH('a) (mask j)"
    by (simp only: unsigned_of_nat of_nat_id)
  then have "unat (push_bit j 1 - 1 :: 'a word) = 2 ^ j - 1"
    using assms by (simp only: take_bit_of_mask min_absorb2 less_imp_le) (simp add: mask_eq_exp_minus_1)
  then show ?thesis
    by (simp only: unsigned_or_eq nat_or_mask)
qed

section \<open>Bits of integers in memory\<close>

lemma bit_byte: "8 \<le> n \<Longrightarrow> \<not> bit (x :: u8) n"
  by (auto dest: bit_imp_le_length)

lemma bit_of_be32:
  "bit (of_be32 [a, b, c, d]) n \<longleftrightarrow>
     (if n < 8 then bit d n else if n < 16 then bit c (n - 8)
      else if n < 24 then bit b (n - 16) else bit a (n - 24))"
proof (cases "n < 32")
  case True
  then show ?thesis by (auto simp: bit_simps bit_byte dest: bit_imp_le_length)
next
  case False
  then have "\<not> bit (of_be32 [a, b, c, d]) n" by (auto dest: bit_imp_le_length)
  with False show ?thesis by (simp add: bit_byte)
qed

end
