(* ===== verification/Contracts.thy ===== *)
theory Contracts
  imports Prelude
begin

text \<open>
  The interfaces of the library, as locales. Each is interpreted on the code's own model in
  the theory of the component that provides it: running checksums (\<open>stream_sum\<close>,
  \<open>tabled_sum\<close>), key-value stores (\<open>kv_store\<close>), self-inverse stream ciphers
  (\<open>stream_cipher\<close>) and guarded state machines (\<open>machine\<close>).
\<close>

section \<open>Running checksums\<close>

text \<open>A checksum that is fed byte by byte: \<open>run\<close> is the loop of the code, \<open>step\<close> its body.\<close>

locale stream_sum =
  fixes step :: "'s \<Rightarrow> u8 \<Rightarrow> 's"
    and run :: "'s \<Rightarrow> bytes \<Rightarrow> 's"
  assumes run_Nil: "run s [] = s"
    and run_Cons: "run s (b # bs) = run (step s b) bs"
begin

lemma run_foldl: "run s bs = foldl step s bs"
  by (induction bs arbitrary: s) (simp_all add: run_Nil run_Cons)

lemma run_append: "run s (xs @ ys) = run (run s xs) ys"
  by (simp add: run_foldl)

lemma run_chunks: "run s (concat cs) = foldl run s cs"
  by (induction cs arbitrary: s) (simp_all add: run_Nil run_append)

end

text \<open>A table-driven checksum whose step agrees with a bit-by-bit reference step.\<close>

locale tabled_sum = stream_sum step run
  for step :: "'s \<Rightarrow> u8 \<Rightarrow> 's" and run :: "'s \<Rightarrow> bytes \<Rightarrow> 's" +
  fixes bitstep :: "'s \<Rightarrow> u8 \<Rightarrow> 's"
  assumes step_bitstep: "step s b = bitstep s b"
begin

lemma run_bitwise: "run s bs = foldl bitstep s bs"
proof -
  have "step = bitstep" by (intro ext) (rule step_bitstep)
  then show ?thesis by (simp add: run_foldl)
qed

end

section \<open>Key-value stores\<close>

text \<open>A store with an invariant; \<open>put\<close> may refuse (\<open>ok\<close> false), and then nothing a reader
  sees changes.\<close>

locale kv_store =
  fixes inv :: "'s \<Rightarrow> bool"
    and get :: "'s \<Rightarrow> 'k \<Rightarrow> 'v option"
    and put :: "'s \<Rightarrow> 'k \<Rightarrow> 'v \<Rightarrow> 's"
    and del :: "'s \<Rightarrow> 'k \<Rightarrow> 's"
    and ok :: "'s \<Rightarrow> 'k \<Rightarrow> 'v \<Rightarrow> bool"
  assumes inv_put: "inv s \<Longrightarrow> inv (put s k v)"
    and inv_del: "inv s \<Longrightarrow> inv (del s k)"
    and get_put: "inv s \<Longrightarrow> ok s k v \<Longrightarrow> get (put s k v) = (get s)(k \<mapsto> v)"
    and get_put_refused: "inv s \<Longrightarrow> \<not> ok s k v \<Longrightarrow> get (put s k v) = get s"
    and get_del: "inv s \<Longrightarrow> get (del s k) = (get s)(k := None)"
begin

definition puts :: "'s \<Rightarrow> ('k \<times> 'v) list \<Rightarrow> 's" where
  "puts s kvs = foldl (\<lambda>s (k, v). put s k v) s kvs"

lemma puts_Nil: "puts s [] = s"
  by (simp add: puts_def)

lemma puts_Cons: "puts s ((k, v) # kvs) = puts (put s k v) kvs"
  by (simp add: puts_def)

lemma inv_puts: "inv s \<Longrightarrow> inv (puts s kvs)"
  by (induction kvs arbitrary: s) (auto simp: puts_Nil puts_Cons inv_put)

lemma get_puts:
  assumes "inv s" and "\<And>s k v. (k, v) \<in> set kvs \<Longrightarrow> inv s \<Longrightarrow> P s \<Longrightarrow> ok s k v"
    and "\<And>s k v. P s \<Longrightarrow> P (put s k v)" and "P s"
  shows "get (puts s kvs) = get s ++ map_of (rev kvs)"
  using assms
proof (induction kvs arbitrary: s)
  case Nil
  then show ?case by (simp add: puts_Nil)
next
  case (Cons kv kvs)
  obtain k v where kv: "kv = (k, v)" by (cases kv)
  have "get (puts (put s k v) kvs) = get (put s k v) ++ map_of (rev kvs)"
    using Cons.prems by (intro Cons.IH) (auto simp: inv_put)
  moreover have "get (put s k v) = (get s)(k \<mapsto> v)"
    using Cons.prems kv by (intro get_put) auto
  ultimately show ?case
    by (simp add: kv puts_Cons)
qed

lemma get_put_other: "inv s \<Longrightarrow> k' \<noteq> k \<Longrightarrow> get (put s k v) k' = get s k'"
  by (cases "ok s k v") (simp_all add: get_put get_put_refused)

lemma del_put_same: "inv s \<Longrightarrow> get (del (put s k v) k) = (get s)(k := None)"
  by (cases "ok s k v") (simp_all add: get_del inv_put get_put get_put_refused)

end

section \<open>Stream ciphers\<close>

text \<open>A cipher that combines the text with a key stream by exclusive or.\<close>

locale stream_cipher =
  fixes crypt :: "'key \<Rightarrow> bytes \<Rightarrow> bytes"
    and stream :: "'key \<Rightarrow> nat \<Rightarrow> bytes"
  assumes crypt_stream: "crypt k xs = map2 (XOR) xs (stream k (length xs))"
    and length_stream: "length (stream k n) = n"
begin

lemma length_crypt: "length (crypt k xs) = length xs"
  by (simp add: crypt_stream length_stream)

lemma map2_xor_cancel: "length xs = length ks \<Longrightarrow> map2 (XOR) (map2 (XOR) xs ks) ks = (xs :: bytes)"
  by (induction xs ks rule: list_induct2) (simp_all add: xor.assoc)

lemma crypt_crypt: "crypt k (crypt k xs) = xs"
  by (simp add: crypt_stream length_stream map2_xor_cancel)

end

section \<open>Guarded state machines\<close>

text \<open>A machine with initial states and steps; an invariant holds in every reachable state.\<close>

locale machine =
  fixes init :: "'s \<Rightarrow> bool"
    and step :: "'s \<Rightarrow> 's \<Rightarrow> bool"
    and inv :: "'s \<Rightarrow> bool"
  assumes inv_init: "init s \<Longrightarrow> inv s"
    and inv_step: "inv s \<Longrightarrow> step s t \<Longrightarrow> inv t"
begin

lemma inv_rtranclp: "step\<^sup>*\<^sup>* s t \<Longrightarrow> inv s \<Longrightarrow> inv t"
  by (induction rule: rtranclp_induct) (auto intro: inv_step)

lemma inv_reachable: "init s \<Longrightarrow> step\<^sup>*\<^sup>* s t \<Longrightarrow> inv t"
  by (blast intro: inv_rtranclp inv_init)

end

end
