(* ===== verification/Libc.thy ===== *)
theory Libc
  imports Prelude
begin

text \<open>
  The functions of the C library the components call, as far as they use them: number
  scanning (\<open>strtoul\<close>), number printing (\<open>%u\<close>, \<open>%x\<close>) and \<open>strchr\<close>. Strings are the bytes
  before the terminating NUL. \<open>unsigned long\<close> has the width given as the first argument of
  \<open>strtoul\<close> (32 on the router, 64 on the build host).
\<close>

section \<open>Characters\<close>

definition isspace :: "u8 \<Rightarrow> bool" where
  "isspace c \<longleftrightarrow> c = 32 \<or> (9 \<le> c \<and> c \<le> 13)"

definition digit_val :: "u8 \<Rightarrow> nat option" where
  "digit_val c =
     (if 48 \<le> c \<and> c \<le> 57 then Some (unat c - 48)
      else if 97 \<le> c \<and> c \<le> 122 then Some (unat c - 87)
      else if 65 \<le> c \<and> c \<le> 90 then Some (unat c - 55)
      else None)"

definition is_digit :: "nat \<Rightarrow> u8 \<Rightarrow> bool" where
  "is_digit base c = (case digit_val c of None \<Rightarrow> False | Some d \<Rightarrow> d < base)"

section \<open>Scanning numbers\<close>

definition digits_value :: "nat \<Rightarrow> bytes \<Rightarrow> nat" where
  "digits_value base ds =
     foldl (\<lambda>a c. a * base + (case digit_val c of None \<Rightarrow> 0 | Some d \<Rightarrow> d)) 0 ds"

text \<open>The base and the rest of the text after an optional prefix: base 0 reads \<open>0x\<close> and \<open>0\<close>;
  \<open>0x\<close> counts only when a hexadecimal digit follows.\<close>

definition scan_prefix :: "nat \<Rightarrow> bytes \<Rightarrow> nat \<times> bytes" where
  "scan_prefix base s =
     (let hex = (case s of z # x # d # _ \<Rightarrow> z = 48 \<and> (x = 120 \<or> x = 88) \<and> is_digit 16 d | _ \<Rightarrow> False)
      in if (base = 0 \<or> base = 16) \<and> hex then (16, drop 2 s)
         else if base = 0 then (if take 1 s = [48] then (8, s) else (10, s))
         else (base, s))"

text \<open>\<open>strtoul(s, &r, base)\<close>: the value and the text \<open>r\<close> points to.\<close>

definition strtoul :: "nat \<Rightarrow> nat \<Rightarrow> bytes \<Rightarrow> nat \<times> bytes" where
  "strtoul w base s =
     (let t = dropWhile isspace s;
          neg = (take 1 t = [45]);
          t = (if take 1 t = [45] \<or> take 1 t = [43] then drop 1 t else t);
          (b, t) = scan_prefix base t;
          ds = takeWhile (is_digit b) t;
          v = digits_value b ds
      in if ds = [] then (0, s)
         else (if 2 ^ w \<le> v then 2 ^ w - 1
               else if neg then nat ((- int v) mod 2 ^ w)
               else v, drop (length ds) t))"

text \<open>\<open>strtol(s, NULL, base)\<close>: the value, clipped to the range of \<open>long\<close>.\<close>

definition strtol :: "nat \<Rightarrow> nat \<Rightarrow> bytes \<Rightarrow> int" where
  "strtol w base s =
     (let t = dropWhile isspace s;
          neg = (take 1 t = [45]);
          t = (if take 1 t = [45] \<or> take 1 t = [43] then drop 1 t else t);
          (b, t) = scan_prefix base t;
          v = int (digits_value b (takeWhile (is_digit b) t));
          v = (if neg then - v else v)
      in max (- (2 ^ (w - 1))) (min (2 ^ (w - 1) - 1) v))"

lemma strtoul_bound: "fst (strtoul w base s) < 2 ^ w"
  by (auto simp: strtoul_def Let_def nat_less_iff split: prod.split)

section \<open>Printing numbers\<close>

definition dec_digit :: "nat \<Rightarrow> u8" where
  "dec_digit d = of_nat (48 + d)"

fun dec_str :: "nat \<Rightarrow> bytes" where
  "dec_str n = (if n < 10 then [dec_digit n] else dec_str (n div 10) @ [dec_digit (n mod 10)])"

declare dec_str.simps [simp del]

definition hex_digit :: "nat \<Rightarrow> u8" where
  "hex_digit d = of_nat (if d < 10 then 48 + d else 55 + d)"

text \<open>\<open>%0wX\<close> for a value below \<open>16 ^ w\<close>.\<close>

fun hex_str :: "nat \<Rightarrow> nat \<Rightarrow> bytes" where
  "hex_str 0 n = []"
| "hex_str (Suc w) n = hex_str w (n div 16) @ [hex_digit (n mod 16)]"

lemma length_hex_str [simp]: "length (hex_str w n) = w"
  by (induction w arbitrary: n) simp_all

lemma dec_str_nonempty [simp]: "dec_str n \<noteq> []"
  by (subst dec_str.simps) simp

end
