(* ===== verification/Crc.thy ===== *)
theory Crc
  imports Prelude Contracts
begin

text \<open>
  The 32-bit CRCs of the image tools: the bit-serial registers and the general facts that let a
  table of 256 entries replace eight shifts. The components instantiate them with their tables.
\<close>

section \<open>Registers that shift right\<close>

definition crc_right_bit :: "u32 \<Rightarrow> u32 \<Rightarrow> u32" where
  "crc_right_bit P x = drop_bit 1 x XOR (if bit x 0 then P else 0)"

definition crc_right_byte :: "u32 \<Rightarrow> u32 \<Rightarrow> u32" where
  "crc_right_byte P x = (crc_right_bit P ^^ 8) x"

section \<open>Registers that shift left\<close>

definition crc_left_bit :: "u32 \<Rightarrow> u32 \<Rightarrow> u32" where
  "crc_left_bit P x = push_bit 1 x XOR (if bit x 31 then P else 0)"

definition crc_left_byte :: "u32 \<Rightarrow> u32 \<Rightarrow> u32" where
  "crc_left_byte P x = (crc_left_bit P ^^ 8) x"

section \<open>The byte step is linear\<close>

lemma crc_right_bit_xor: "crc_right_bit P (x XOR y) = crc_right_bit P x XOR crc_right_bit P y"
  by (rule bit_word_eqI) (auto simp: crc_right_bit_def bit_simps)

lemma crc_left_bit_xor: "crc_left_bit P (x XOR y) = crc_left_bit P x XOR crc_left_bit P y"
  by (rule bit_word_eqI) (auto simp: crc_left_bit_def bit_simps)

lemma crc_right_pow_xor: "(crc_right_bit P ^^ n) (x XOR y) = (crc_right_bit P ^^ n) x XOR (crc_right_bit P ^^ n) y"
  by (induction n) (simp_all add: crc_right_bit_xor)

lemma crc_left_pow_xor: "(crc_left_bit P ^^ n) (x XOR y) = (crc_left_bit P ^^ n) x XOR (crc_left_bit P ^^ n) y"
  by (induction n) (simp_all add: crc_left_bit_xor)

text \<open>A register whose outgoing bits are zero only shifts.\<close>

lemma crc_right_bit_shift: "\<not> bit x 0 \<Longrightarrow> crc_right_bit P x = drop_bit 1 x"
  by (simp add: crc_right_bit_def)

lemma crc_left_bit_shift: "\<not> bit x 31 \<Longrightarrow> crc_left_bit P x = push_bit 1 x"
  by (simp add: crc_left_bit_def)

lemma crc_right_pow_shift: "(\<forall>i < n. \<not> bit x i) \<Longrightarrow> (crc_right_bit P ^^ n) x = drop_bit n x"
proof (induction n)
  case (Suc n)
  then have "(crc_right_bit P ^^ n) x = drop_bit n x" by simp
  moreover have "\<not> bit (drop_bit n x) 0" using Suc.prems by (simp add: bit_simps)
  ultimately show ?case by (simp add: crc_right_bit_shift)
qed simp

lemma crc_left_pow_shift: "(\<forall>i < n. \<not> bit x (31 - i)) \<Longrightarrow> n \<le> 32 \<Longrightarrow> (crc_left_bit P ^^ n) x = push_bit n x"
proof (induction n)
  case (Suc n)
  then have "(crc_left_bit P ^^ n) x = push_bit n x" by simp
  moreover have "\<not> bit (push_bit n x) 31" using Suc.prems by (simp add: bit_simps)
  ultimately have "(crc_left_bit P ^^ Suc n) x = push_bit 1 (push_bit n x)" by (simp only: funpow.simps o_apply crc_left_bit_shift not_False_eq_True)
  then show ?case by (simp only: push_bit_push_bit) simp
qed simp

lemma and_ff_u32: "(x :: u32) AND 0xFF = ucast (ucast x :: u8)"
proof -
  have m: "(0xFF :: u32) = mask 8" by (simp add: mask_eq_exp_minus_1)
  show ?thesis
    unfolding m by (rule bit_word_eqI) (auto simp: bit_simps)
qed

lemma unat_ucast_u8: "unat (ucast (y :: u8) :: u32) = unat y"
proof -
  have "unat y < 2 ^ LENGTH(32)"
    using unsigned_less [of y, where 'a = nat] by simp
  then show ?thesis by (simp only: unsigned_ucast_eq take_bit_nat_eq_self)
qed

lemma unat_and_ff: "unat ((x :: u32) AND 0xFF) = unat (ucast x :: u8)"
  unfolding and_ff_u32 by (rule unat_ucast_u8)

lemma crc_right_byte_split:
  "crc_right_byte P (c XOR ucast (b :: u8)) = crc_right_byte P (ucast (ucast c XOR b :: u8)) XOR drop_bit 8 c"
proof -
  have "c XOR ucast b = ucast (ucast c XOR b :: u8) XOR push_bit 8 (drop_bit 8 c)"
  proof (rule bit_word_eqI)
    fix n assume "n < LENGTH(32)"
    then show "bit (c XOR ucast b) n = bit (ucast (ucast c XOR b :: u8) XOR push_bit 8 (drop_bit 8 c)) n"
      by (cases "n < 8") (auto simp: bit_simps dest: bit_imp_le_length)
  qed
  moreover have "crc_right_byte P (push_bit 8 (drop_bit 8 c)) = drop_bit 8 (push_bit 8 (drop_bit 8 c))"
    unfolding crc_right_byte_def by (rule crc_right_pow_shift) (simp add: bit_simps)
  moreover have "drop_bit 8 (push_bit 8 (drop_bit 8 c)) = drop_bit 8 c"
    by (rule bit_word_eqI) (auto simp: bit_simps dest: bit_imp_le_length)
  ultimately show ?thesis by (simp add: crc_right_byte_def crc_right_pow_xor)
qed

lemma crc_left_byte_split:
  "crc_left_byte P (c XOR push_bit 24 (ucast (b :: u8))) =
     push_bit 8 c XOR crc_left_byte P (push_bit 24 (ucast (ucast (drop_bit 24 c) XOR b :: u8)))"
proof -
  have "c XOR push_bit 24 (ucast b) =
      push_bit 24 (ucast (ucast (drop_bit 24 c) XOR b :: u8)) XOR (c AND mask 24)"
  proof (rule bit_word_eqI)
    fix n assume "n < LENGTH(32)"
    then show "bit (c XOR push_bit 24 (ucast b)) n =
        bit (push_bit 24 (ucast (ucast (drop_bit 24 c) XOR b :: u8)) XOR (c AND mask 24)) n"
      by (cases "n < 24") (auto simp: bit_simps)
  qed
  moreover have "crc_left_byte P (c AND mask 24) = push_bit 8 (c AND mask 24)"
    unfolding crc_left_byte_def by (rule crc_left_pow_shift) (auto simp: bit_simps)
  moreover have "push_bit 8 (c AND mask 24) = push_bit 8 c"
    by (rule bit_word_eqI) (auto simp: bit_simps)
  ultimately show ?thesis by (simp add: crc_left_byte_def crc_left_pow_xor xor.commute)
qed

section \<open>Tables\<close>

text \<open>A linear function of a byte is known from its values at the eight powers of two: the table
  doubles with each of them.\<close>

definition span :: "u32 list \<Rightarrow> u32 list" where
  "span basis = foldl (\<lambda>t b. t @ map ((XOR) b) t) [0] basis"

lemma length_span: "length (span basis) = 2 ^ length basis"
  by (induction basis rule: rev_induct) (simp_all add: span_def)

lemma of_nat_pow_xor:
  assumes "j < 2 ^ k" and "k < 8"
  shows "(of_nat (2 ^ k + j) :: u8) = of_nat (2 ^ k) XOR of_nat j"
proof -
  have tb: "take_bit k j = j" using assms(1) by (simp add: take_bit_nat_eq_self)
  have dis: "\<not> (bit ((2 :: nat) ^ k) n \<and> bit j n)" for n
    using tb by (metis bit_take_bit_iff bit_exp_iff less_irrefl_nat)
  have "(2 :: nat) ^ k + j = 2 ^ k OR j"
    by (rule disjunctive_add) (use dis in auto)
  also have "\<dots> = 2 ^ k XOR j"
    by (rule bit_eqI) (use dis in \<open>auto simp: bit_or_iff bit_xor_iff\<close>)
  finally show ?thesis by (simp only: of_nat_xor_eq)
qed

lemma span_nth:
  assumes lin: "\<And>x y. f (x XOR y) = f x XOR f y"
  shows "n \<le> 8 \<Longrightarrow> i < 2 ^ n \<Longrightarrow> span (map (\<lambda>k. f (of_nat (2 ^ k) :: u8)) [0..<n]) ! i = f (of_nat i)"
proof (induction n arbitrary: i)
  case 0
  have "f 0 = 0" using lin [of 0 0] by simp
  with 0 show ?case by (simp add: span_def)
next
  case (Suc n)
  let ?b = "map (\<lambda>k. f (of_nat (2 ^ k) :: u8)) [0..<n]"
  have sp: "span (map (\<lambda>k. f (of_nat (2 ^ k) :: u8)) [0..<Suc n]) =
      span ?b @ map ((XOR) (f (of_nat (2 ^ n)))) (span ?b)"
    by (simp add: span_def)
  have len: "length (span ?b) = 2 ^ n" by (simp add: length_span)
  show ?case
  proof (cases "i < 2 ^ n")
    case True
    then show ?thesis unfolding sp using Suc len by (simp add: nth_append del: of_nat_power)
  next
    case False
    define j where "j = i - 2 ^ n"
    have i: "i = 2 ^ n + j" "j < 2 ^ n" using False Suc.prems by (simp_all add: j_def)
    have "span (map (\<lambda>k. f (of_nat (2 ^ k) :: u8)) [0..<Suc n]) ! i = f (of_nat (2 ^ n)) XOR span ?b ! j"
      unfolding sp using len i by (simp add: nth_append del: of_nat_power)
    also have "\<dots> = f (of_nat (2 ^ n) XOR of_nat j)"
      using Suc.IH [OF _ i(2)] Suc.prems(1) by (simp add: lin del: of_nat_power)
    also have "\<dots> = f (of_nat i)"
      unfolding i(1) using of_nat_pow_xor [OF i(2)] Suc.prems(1) by simp
    finally show ?thesis .
  qed
qed

lemma span_table:
  assumes "\<And>x y. f (x XOR y) = f x XOR f y"
    and "tab = span [f 1, f 2, f 4, f 8, f 16, f 32, f 64, f 128]"
  shows "tab ! unat (x :: u8) = f x"
proof -
  have "map (\<lambda>k. f (of_nat (2 ^ k) :: u8)) [0..<8] = [f 1, f 2, f 4, f 8, f 16, f 32, f 64, f 128]"
    by (simp add: eval_nat_numeral upt_rec)
  moreover have "unat x < 2 ^ 8" using unsigned_less [of x, where 'a = nat] by simp
  ultimately show ?thesis using span_nth [of f 8 "unat x"] assms by simp
qed

lemma crc_right_lin: "crc_right_byte P (ucast (x XOR y :: u8)) = crc_right_byte P (ucast x) XOR crc_right_byte P (ucast y)"
  by (simp add: crc_right_byte_def unsigned_xor_eq crc_right_pow_xor)

lemma crc_left_lin:
  "crc_left_byte P (push_bit 24 (ucast (x XOR y :: u8))) =
     crc_left_byte P (push_bit 24 (ucast x)) XOR crc_left_byte P (push_bit 24 (ucast y))"
  by (simp only: crc_left_byte_def unsigned_xor_eq push_bit_xor crc_left_pow_xor)

text \<open>The values of the usual reflected polynomial at the powers of two.\<close>

lemma crc_right_basis:
  "map (\<lambda>x. crc_right_byte 0xEDB88320 (ucast (x :: u8))) [1, 2, 4, 8, 16, 32, 64, 128] =
     [0x77073096, 0xee0e612c, 0x076dc419, 0x0edb8832, 0x1db71064, 0x3b6e20c8, 0x76dc4190, 0xedb88320]"
  by code_simp

end
