(* ===== verification/Nvram.thy ===== *)
theory Nvram
  imports Prelude Contracts Libc
begin

text \<open>
  \<open>package/utils/nvram/src\<close>: the NVRAM variable store of the router (\<open>nvram.c\<close>, \<open>nvram.h\<close>)
  and its CRC-8 (\<open>crc.c\<close>).

  The handle keeps the mapped partition as a byte list, the 257 hash chains as lists of tuples
  and the list of dead tuples. A chain is a C linked list, so a loop over \<open>t->next\<close> is
  recursion over the list. The parameter \<open>mem\<close> says which allocation sizes \<open>malloc\<close> and
  \<open>realloc\<close> can serve; a tuple whose value was lost by a failed \<open>realloc\<close> has no value.
  \<open>unsigned long\<close> and \<open>size_t\<close> have 32 bits (the router), \<open>char\<close> is signed (MIPS), and the
  byte order of the header fields is a parameter.
\<close>

section \<open>CRC-8 (crc.c)\<close>

definition crc8_table :: "u8 list" where
  "crc8_table =
    [0x00, 0xF7, 0xB9, 0x4E, 0x25, 0xD2, 0x9C, 0x6B,
     0x4A, 0xBD, 0xF3, 0x04, 0x6F, 0x98, 0xD6, 0x21,
     0x94, 0x63, 0x2D, 0xDA, 0xB1, 0x46, 0x08, 0xFF,
     0xDE, 0x29, 0x67, 0x90, 0xFB, 0x0C, 0x42, 0xB5,
     0x7F, 0x88, 0xC6, 0x31, 0x5A, 0xAD, 0xE3, 0x14,
     0x35, 0xC2, 0x8C, 0x7B, 0x10, 0xE7, 0xA9, 0x5E,
     0xEB, 0x1C, 0x52, 0xA5, 0xCE, 0x39, 0x77, 0x80,
     0xA1, 0x56, 0x18, 0xEF, 0x84, 0x73, 0x3D, 0xCA,
     0xFE, 0x09, 0x47, 0xB0, 0xDB, 0x2C, 0x62, 0x95,
     0xB4, 0x43, 0x0D, 0xFA, 0x91, 0x66, 0x28, 0xDF,
     0x6A, 0x9D, 0xD3, 0x24, 0x4F, 0xB8, 0xF6, 0x01,
     0x20, 0xD7, 0x99, 0x6E, 0x05, 0xF2, 0xBC, 0x4B,
     0x81, 0x76, 0x38, 0xCF, 0xA4, 0x53, 0x1D, 0xEA,
     0xCB, 0x3C, 0x72, 0x85, 0xEE, 0x19, 0x57, 0xA0,
     0x15, 0xE2, 0xAC, 0x5B, 0x30, 0xC7, 0x89, 0x7E,
     0x5F, 0xA8, 0xE6, 0x11, 0x7A, 0x8D, 0xC3, 0x34,
     0xAB, 0x5C, 0x12, 0xE5, 0x8E, 0x79, 0x37, 0xC0,
     0xE1, 0x16, 0x58, 0xAF, 0xC4, 0x33, 0x7D, 0x8A,
     0x3F, 0xC8, 0x86, 0x71, 0x1A, 0xED, 0xA3, 0x54,
     0x75, 0x82, 0xCC, 0x3B, 0x50, 0xA7, 0xE9, 0x1E,
     0xD4, 0x23, 0x6D, 0x9A, 0xF1, 0x06, 0x48, 0xBF,
     0x9E, 0x69, 0x27, 0xD0, 0xBB, 0x4C, 0x02, 0xF5,
     0x40, 0xB7, 0xF9, 0x0E, 0x65, 0x92, 0xDC, 0x2B,
     0x0A, 0xFD, 0xB3, 0x44, 0x2F, 0xD8, 0x96, 0x61,
     0x55, 0xA2, 0xEC, 0x1B, 0x70, 0x87, 0xC9, 0x3E,
     0x1F, 0xE8, 0xA6, 0x51, 0x3A, 0xCD, 0x83, 0x74,
     0xC1, 0x36, 0x78, 0x8F, 0xE4, 0x13, 0x5D, 0xAA,
     0x8B, 0x7C, 0x32, 0xC5, 0xAE, 0x59, 0x17, 0xE0,
     0x2A, 0xDD, 0x93, 0x64, 0x0F, 0xF8, 0xB6, 0x41,
     0x60, 0x97, 0xD9, 0x2E, 0x45, 0xB2, 0xFC, 0x0B,
     0xBE, 0x49, 0x07, 0xF0, 0x9B, 0x6C, 0x22, 0xD5,
     0xF4, 0x03, 0x4D, 0xBA, 0xD1, 0x26, 0x68, 0x9F]"

fun hndcrc8 :: "u8 \<Rightarrow> bytes \<Rightarrow> u8" where
  "hndcrc8 crc [] = crc"
| "hndcrc8 crc (b # bs) = hndcrc8 (crc8_table ! unat ((crc XOR b) AND 0xff)) bs"

text \<open>The reference: eight shifts of the reflected polynomial \<open>0xAB\<close>
  (\<open>x^8 + x^7 + x^6 + x^4 + x^2 + 1\<close>) per byte.\<close>

definition crc8_bit :: "u8 \<Rightarrow> u8" where
  "crc8_bit c = (if c AND 1 = 1 then drop_bit 1 c XOR 0xAB else drop_bit 1 c)"

definition crc8_byte :: "u8 \<Rightarrow> u8" where
  "crc8_byte c =
     crc8_bit (crc8_bit (crc8_bit (crc8_bit (crc8_bit (crc8_bit (crc8_bit (crc8_bit c)))))))"

lemma crc8_table_ok: "tab_ok crc8_byte 0 crc8_table"
  by (simp add: crc8_byte_def crc8_bit_def crc8_table_def)

lemma length_crc8_table: "length crc8_table = 256"
  by (simp add: crc8_table_def)

lemma hndcrc8_step: "crc8_table ! unat ((crc XOR b) AND 0xff) = crc8_byte (crc XOR b)"
  by (simp add: tab_ok_u8 [OF crc8_table_ok length_crc8_table])

interpretation crc8: tabled_sum "\<lambda>crc b. crc8_table ! unat ((crc XOR b) AND 0xff)" hndcrc8
    "\<lambda>crc b. crc8_byte (crc XOR b)"
  by unfold_locales (simp_all only: hndcrc8.simps hndcrc8_step)

section \<open>The store (nvram.c)\<close>

text \<open>A tuple of a hash chain; the value is \<^term>\<open>None\<close> after a failed \<open>realloc\<close>.\<close>

record nvtuple =
  t_name :: bytes
  t_value :: "bytes option"

record nvhandle =
  h_mmap :: bytes
  h_addr :: int
  h_length :: nat
  h_offset :: nat
  h_hash :: "nat \<Rightarrow> nvtuple list"
  h_dead :: "nvtuple list"

record nvheader =
  n_magic :: u32
  n_len :: u32
  n_crc_ver_init :: u32
  n_config_refresh :: u32
  n_config_ncdl :: u32

definition NVRAM_MAGIC :: u32 where "NVRAM_MAGIC = 0x48534C46"
definition NVRAM_VERSION :: u32 where "NVRAM_VERSION = 1"
definition NVRAM_MIN_SPACE :: nat where "NVRAM_MIN_SPACE = 0x8000"
definition NVRAM_CRC_START_POSITION :: nat where "NVRAM_CRC_START_POSITION = 9"
definition NVRAM_HASHSIZE :: nat where "NVRAM_HASHSIZE = 257"
definition NVRAM_HDRSIZE :: nat where "NVRAM_HDRSIZE = 20"
definition NVRAM_ROUNDUP :: "nat \<Rightarrow> nat \<Rightarrow> nat" where
  "NVRAM_ROUNDUP x y = ((x + (y - 1)) div y) * y"
definition SDRAM_INIT :: u32 where "SDRAM_INIT = 0x419"
definition SDRAM_CONFIG :: u32 where "SDRAM_CONFIG = 0"
definition SDRAM_REFRESH :: u32 where "SDRAM_REFRESH = (0x40 AND 0xff) OR 0x8000"

subsection \<open>Helpers\<close>

text \<open>\<open>hash\<close>: \<open>hash = 31 * hash + *s++\<close> in 32 bits, each \<open>char\<close> sign-extended.\<close>

definition hash_string :: "bytes \<Rightarrow> u32" where
  "hash_string s = foldl (\<lambda>h c. 31 * h + scast c) 0 s"

text \<open>\<open>NVRAM_ARRAYSIZE(a)\<close> is \<open>sizeof(a)/sizeof(a[0])\<close> without parentheses, so that
  \<open>hash(name) % NVRAM_ARRAYSIZE(h->nvram_hash)\<close> is the remainder by the size of the table in bytes,
  divided by the size of a pointer (4).\<close>

definition SIZEOF_POINTER :: nat where "SIZEOF_POINTER = 4"

definition bucket :: "bytes \<Rightarrow> nat" where
  "bucket name = unat (hash_string name) mod (NVRAM_HASHSIZE * SIZEOF_POINTER) div SIZEOF_POINTER"

definition nvram_free :: "nvhandle \<Rightarrow> nvhandle" where
  "nvram_free h = h\<lparr>h_hash := (\<lambda>_. []), h_dead := []\<rparr>"

text \<open>The chain walk of \<open>nvram_get\<close>, \<open>nvram_set\<close> and \<open>nvram_unset\<close>: the tuples before the
  first one with the name, that tuple, and the tuples after it.\<close>

fun walk :: "bytes \<Rightarrow> nvtuple list \<Rightarrow> (nvtuple list \<times> nvtuple \<times> nvtuple list) option" where
  "walk name [] = None"
| "walk name (t # ts) =
     (if t_name t = name then Some ([], t, ts)
      else (case walk name ts of None \<Rightarrow> None | Some (p, u, r) \<Rightarrow> Some (t # p, u, r)))"

text \<open>\<open>_nvram_realloc\<close> returns NULL, the tuple it was given (updated in place), or a new one. NULL
  from a failed \<open>realloc\<close> leaves the given tuple without a value. \<open>SameTuple\<close> and \<open>NoMem\<close> carry
  the given tuple's new contents.\<close>

datatype realloc_result = NoMem "nvtuple option" | SameTuple nvtuple | NewTuple nvtuple

definition SIZEOF_TUPLE :: nat where "SIZEOF_TUPLE = 12"

definition nvram_realloc ::
    "(nat \<Rightarrow> bool) \<Rightarrow> nvhandle \<Rightarrow> nvtuple option \<Rightarrow> bytes \<Rightarrow> bytes \<Rightarrow> realloc_result" where
  "nvram_realloc mem h t name value =
     (if length value + 1 > usub32 (h_length h) (h_offset h) then NoMem t
      else case t of
        None \<Rightarrow>
          if \<not> mem (SIZEOF_TUPLE + length name + 1) then NoMem None
          else if \<not> mem (length value + 1) then NoMem None
          else NewTuple \<lparr>t_name = name, t_value = Some value\<rparr>
      | Some t \<Rightarrow>
          if t_value t \<noteq> Some value then
            (if \<not> mem (length value + 1) then NoMem (Some (t\<lparr>t_value := None\<rparr>))
             else SameTuple (t\<lparr>t_value := Some value\<rparr>))
          else SameTuple t)"

subsection \<open>Get, set and unset\<close>

definition nvram_get :: "nvhandle \<Rightarrow> bytes option \<Rightarrow> bytes option" where
  "nvram_get h name =
     (case name of None \<Rightarrow> None
      | Some name \<Rightarrow>
          (case walk name (h_hash h (bucket name)) of
             None \<Rightarrow> None
           | Some (_, t, _) \<Rightarrow> t_value t))"

definition nvram_set :: "(nat \<Rightarrow> bool) \<Rightarrow> nvhandle \<Rightarrow> bytes \<Rightarrow> bytes \<Rightarrow> int \<times> nvhandle" where
  "nvram_set mem h name value =
     (let i = bucket name;
          chain = h_hash h i
      in case walk name chain of
           None \<Rightarrow>
             (case nvram_realloc mem h None name value of
                NewTuple u \<Rightarrow> (0, h\<lparr>h_hash := (h_hash h)(i := u # chain)\<rparr>)
              | _ \<Rightarrow> (-12, h))
         | Some (p, t, r) \<Rightarrow>
             (case nvram_realloc mem h (Some t) name value of
                NoMem None \<Rightarrow> (-12, h)
              | NoMem (Some t') \<Rightarrow> (-12, h\<lparr>h_hash := (h_hash h)(i := p @ t' # r)\<rparr>)
              | SameTuple t' \<Rightarrow> (0, h\<lparr>h_hash := (h_hash h)(i := p @ t' # r)\<rparr>)
              | NewTuple u \<Rightarrow>
                  (0, h\<lparr>h_hash := (h_hash h)(i := u # p @ r), h_dead := t # h_dead h\<rparr>)))"

definition nvram_unset :: "nvhandle \<Rightarrow> bytes option \<Rightarrow> int \<times> nvhandle" where
  "nvram_unset h name =
     (case name of None \<Rightarrow> (0, h)
      | Some name \<Rightarrow>
          (let i = bucket name
           in case walk name (h_hash h i) of
                None \<Rightarrow> (0, h)
              | Some (p, t, r) \<Rightarrow>
                  (0, h\<lparr>h_hash := (h_hash h)(i := p @ r), h_dead := t # h_dead h\<rparr>)))"

text \<open>\<open>nvram_getall\<close>: a fresh list of all tuples, last visited first; a failed \<open>malloc\<close> ends
  the walk of one chain only.\<close>

definition nvram_getall :: "(nat \<Rightarrow> bool) \<Rightarrow> nvhandle \<Rightarrow> nvtuple list" where
  "nvram_getall mem h =
     (if mem SIZEOF_TUPLE then rev (concat (map (h_hash h) [0..<NVRAM_HASHSIZE])) else [])"

subsection \<open>Header and hash table\<close>

text \<open>\<open>nvram_header\<close> is a pointer into the mapping: reading and writing the header fields is
  reading and writing the 20 bytes at the offset.\<close>

definition header_bytes :: "endian \<Rightarrow> nvheader \<Rightarrow> bytes" where
  "header_bytes e d =
     enc32 e (n_magic d) @ enc32 e (n_len d) @ enc32 e (n_crc_ver_init d) @
     enc32 e (n_config_refresh d) @ enc32 e (n_config_ncdl d)"

definition header_of :: "endian \<Rightarrow> bytes \<Rightarrow> nvheader" where
  "header_of e b =
     \<lparr>n_magic = dec32 e (take 4 b),
      n_len = dec32 e (take 4 (drop 4 b)),
      n_crc_ver_init = dec32 e (take 4 (drop 8 b)),
      n_config_refresh = dec32 e (take 4 (drop 12 b)),
      n_config_ncdl = dec32 e (take 4 (drop 16 b))\<rparr>"

definition nvram_header :: "endian \<Rightarrow> nvhandle \<Rightarrow> nvheader option" where
  "nvram_header e h =
     (case peek (h_mmap h) (h_offset h) NVRAM_HDRSIZE of None \<Rightarrow> None | Some b \<Rightarrow> Some (header_of e b))"

text \<open>The parse loop of \<open>_nvram_rehash\<close>: \<open>rest\<close> is the mapping from \<open>name\<close> on. \<^term>\<open>None\<close> when a
  string runs off the mapping.\<close>

function rehash_loop :: "(nat \<Rightarrow> bool) \<Rightarrow> nvhandle \<Rightarrow> bytes \<Rightarrow> nvhandle option" where
  "rehash_loop mem h rest =
     (case rest of [] \<Rightarrow> None
      | c # _ \<Rightarrow>
          if c = 0 then Some h
          else
            (let s = cstr rest
             in if length s = length rest then None
                else if 61 \<notin> set s then Some h
                else
                  (let name = takeWhile (\<lambda>c. c \<noteq> 61) s;
                       value = tl (dropWhile (\<lambda>c. c \<noteq> 61) s)
                   in rehash_loop mem (snd (nvram_set mem h name value)) (drop (length s + 1) rest))))"
  by pat_completeness auto
termination
  by (relation "measure (\<lambda>(mem, h, rest). length rest)") auto

declare rehash_loop.simps [simp del]

definition set_default :: "(nat \<Rightarrow> bool) \<Rightarrow> bytes \<Rightarrow> bytes \<Rightarrow> nvhandle \<Rightarrow> nvhandle" where
  "set_default mem name value h =
     (case nvram_get h (Some name) of None \<Rightarrow> snd (nvram_set mem h name value) | Some _ \<Rightarrow> h)"

definition nvram_rehash :: "(nat \<Rightarrow> bool) \<Rightarrow> endian \<Rightarrow> nvhandle \<Rightarrow> nvhandle option" where
  "nvram_rehash mem e h =
     do { d \<leftarrow> nvram_header e h;
          h \<leftarrow> rehash_loop mem (nvram_free h) (drop (h_offset h + NVRAM_HDRSIZE) (h_mmap h));
          let h = set_default mem (str ''sdram_init'')
                (str ''0x'' @ hex_str 4 (unat (drop_bit 16 (n_crc_ver_init d) AND 0xffff))) h;
          let h = set_default mem (str ''sdram_config'')
                (str ''0x'' @ hex_str 4 (unat (n_config_refresh d AND 0xffff))) h;
          let h = set_default mem (str ''sdram_refresh'')
                (str ''0x'' @ hex_str 4 (unat (drop_bit 16 (n_config_refresh d) AND 0xffff))) h;
          let h = set_default mem (str ''sdram_ncdl'')
                (str ''0x'' @ hex_str 8 (unat (n_config_ncdl d))) h;
          Some h }"

subsection \<open>Commit\<close>

text \<open>One chain written at index \<open>p\<close> of the mapping: it stops (\<open>break\<close>) at the first tuple that
  would pass \<open>lim\<close>.\<close>

fun commit_chain :: "nat \<Rightarrow> nvtuple list \<Rightarrow> bytes \<times> nat \<Rightarrow> (bytes \<times> nat) option" where
  "commit_chain lim [] (b, p) = Some (b, p)"
| "commit_chain lim (t # ts) (b, p) =
     (case t_value t of None \<Rightarrow> None
      | Some v \<Rightarrow>
          if p + length (t_name t) + 1 + length v + 1 > lim then Some (b, p)
          else do { b \<leftarrow> poke b p (t_name t @ [61] @ v @ [0]);
                    commit_chain lim ts (b, p + length (t_name t) + 1 + length v + 1) })"

fun commit_chains :: "nat \<Rightarrow> nvtuple list list \<Rightarrow> bytes \<times> nat \<Rightarrow> (bytes \<times> nat) option" where
  "commit_chains lim [] bp = Some bp"
| "commit_chains lim (c # cs) bp = do { bp \<leftarrow> commit_chain lim c bp; commit_chains lim cs bp }"

definition strtoul32 :: "bytes \<Rightarrow> u32" where
  "strtoul32 s = of_nat (fst (strtoul 32 0 s))"

definition commit_header :: "nvhandle \<Rightarrow> nvheader \<Rightarrow> nvheader" where
  "commit_header h d =
     (let d = d\<lparr>n_magic := NVRAM_MAGIC, n_crc_ver_init := push_bit 8 NVRAM_VERSION\<rparr>
      in case (nvram_get h (Some (str ''sdram_init'')), nvram_get h (Some (str ''sdram_config'')),
               nvram_get h (Some (str ''sdram_refresh'')), nvram_get h (Some (str ''sdram_ncdl''))) of
           (Some init, Some config, Some refresh, Some ncdl) \<Rightarrow>
             d\<lparr>n_crc_ver_init := n_crc_ver_init d OR push_bit 16 (strtoul32 init AND 0xffff),
               n_config_refresh := (strtoul32 config AND 0xffff)
                                   OR push_bit 16 (strtoul32 refresh AND 0xffff),
               n_config_ncdl := strtoul32 ncdl\<rparr>
         | _ \<Rightarrow>
             d\<lparr>n_crc_ver_init := n_crc_ver_init d OR push_bit 16 SDRAM_INIT,
               n_config_refresh := SDRAM_CONFIG OR push_bit 16 SDRAM_REFRESH,
               n_config_ncdl := 0\<rparr>)"

text \<open>The CRC of a commit: header bytes 9 to 19 of a header with the magic and length fields
  zero, then the data.\<close>

definition commit_crc :: "endian \<Rightarrow> nvheader \<Rightarrow> bytes \<Rightarrow> u8" where
  "commit_crc e d body =
     (let tmp = \<lparr>n_magic = 0, n_len = 0, n_crc_ver_init = n_crc_ver_init d,
                 n_config_refresh = n_config_refresh d, n_config_ncdl = n_config_ncdl d\<rparr>
      in hndcrc8 (hndcrc8 0xff (drop NVRAM_CRC_START_POSITION (header_bytes e tmp))) body)"

text \<open>C's \<open>%\<close> truncates towards zero.\<close>

definition crem :: "int \<Rightarrow> int \<Rightarrow> int" where
  "crem a b = sgn a * (\<bar>a\<bar> mod \<bar>b\<bar>)"

definition nvram_commit ::
    "(nat \<Rightarrow> bool) \<Rightarrow> endian \<Rightarrow> nat \<Rightarrow> nvhandle \<Rightarrow> nvhandle option" where
  "nvram_commit mem e part_size h =
     do { d \<leftarrow> nvram_header e h;
          let off = h_offset h;
          let d = commit_header h d;
          b \<leftarrow> poke (h_mmap h) off (header_bytes e d);
          let ptr = off + NVRAM_HDRSIZE;
          b \<leftarrow> poke b ptr (replicate (usub32 (usub32 part_size off) NVRAM_HDRSIZE) 0xFF);
          let lim = part_size - 2;
          (b, ptr) \<leftarrow> commit_chains lim (map (h_hash h) [0..<NVRAM_HASHSIZE]) (b, ptr);
          b \<leftarrow> poke b ptr [0];
          let ptr = ptr + 1;
          let r = crem (h_addr h + int ptr) 4;
          b \<leftarrow> (if r \<noteq> 0 then poke b ptr (replicate (nat (4 - r)) 0) else Some b);
          let ptr = ptr + 1;
          let len = NVRAM_ROUNDUP (ptr - off) 4;
          let d = d\<lparr>n_len := of_nat len\<rparr>;
          body \<leftarrow> peek b (off + NVRAM_HDRSIZE) (len - NVRAM_HDRSIZE);
          let crc = commit_crc e d body;
          let d = d\<lparr>n_crc_ver_init := n_crc_ver_init d OR ucast crc\<rparr>;
          b \<leftarrow> poke b off (header_bytes e d);
          nvram_rehash mem e (h\<lparr>h_mmap := b\<rparr>) }"

subsection \<open>Open and close\<close>

text \<open>The search for the magic word: the loop reads word \<open>i\<close> for \<open>i\<close> up to and including \<open>last\<close>.\<close>

fun find_magic :: "endian \<Rightarrow> bytes \<Rightarrow> nat list \<Rightarrow> nat option option" where
  "find_magic e b [] = Some None"
| "find_magic e b (i # is) =
     (case peek b (4 * i) 4 of None \<Rightarrow> None
      | Some w \<Rightarrow> if dec32 e w = NVRAM_MAGIC then Some (Some (4 * i)) else find_magic e b is)"

text \<open>\<open>part\<close> is the content of the opened device (\<^term>\<open>None\<close>: \<open>open\<close> or \<open>mmap\<close> failed), mapped at
  \<open>addr\<close>. The inner option is the NULL the function returns.\<close>

definition nvram_open ::
    "(nat \<Rightarrow> bool) \<Rightarrow> endian \<Rightarrow> nat \<Rightarrow> int \<Rightarrow> bytes option \<Rightarrow> bool \<Rightarrow> nvhandle option option" where
  "nvram_open mem e part_size addr part rdonly =
     (if part_size = 0 then Some None
      else case part of None \<Rightarrow> Some None
      | Some b \<Rightarrow>
          do { m \<leftarrow> find_magic e b [0..<Suc (usub32 part_size NVRAM_MIN_SPACE div 4)];
               case m of None \<Rightarrow> Some None
               | Some off \<Rightarrow>
                   let h = \<lparr>h_mmap = b, h_addr = addr, h_length = part_size, h_offset = off,
                            h_hash = (\<lambda>_. []), h_dead = []\<rparr>
                   in do { d \<leftarrow> nvram_header e h;
                           if n_magic d = NVRAM_MAGIC
                              \<and> (rdonly \<or> unat (n_len d) < usub32 (h_length h) (h_offset h))
                           then map_option Some (nvram_rehash mem e h)
                           else Some None } })"

definition nvram_close :: "nvhandle \<Rightarrow> int \<times> nvhandle" where
  "nvram_close h = (0, nvram_free h)"

subsection \<open>The staging file\<close>

text \<open>The files the staging functions use: the NVRAM device (\<^term>\<open>None\<close>: not found or not
  readable) and \<open>/tmp/.nvram\<close>. Opening the staging file for writing does not truncate it.\<close>

record nvfiles =
  f_mtd :: "bytes option"
  f_stage :: "bytes option"

definition overwrite :: "bytes \<Rightarrow> bytes \<Rightarrow> bytes" where
  "overwrite old new = new @ drop (length new) old"

definition nvram_to_staging :: "nat \<Rightarrow> nvfiles \<Rightarrow> int \<times> nvfiles" where
  "nvram_to_staging part_size f =
     (case f_mtd f of None \<Rightarrow> (-1, f)
      | Some m \<Rightarrow>
          if part_size = 0 \<or> length m < part_size then (-1, f)
          else (0, f\<lparr>f_stage := Some (overwrite (case f_stage f of None \<Rightarrow> [] | Some s \<Rightarrow> s) (take part_size m))\<rparr>))"

definition staging_to_nvram :: "nat \<Rightarrow> nvfiles \<Rightarrow> int \<times> nvfiles" where
  "staging_to_nvram part_size f =
     (case (f_mtd f, f_stage f) of
        (Some m, Some s) \<Rightarrow>
          if part_size = 0 \<or> length s < part_size then (-1, f)
          else (0, f\<lparr>f_mtd := Some (overwrite m (take part_size s)), f_stage := None\<rparr>)
      | _ \<Rightarrow> (-1, f))"


section \<open>The store invariant\<close>

definition nv_inv :: "nvhandle \<Rightarrow> bool" where
  "nv_inv h \<longleftrightarrow>
     (\<forall>i. distinct (map t_name (h_hash h i)) \<and> (\<forall>t \<in> set (h_hash h i). bucket (t_name t) = i))"

lemma walk_None_iff: "walk n ts = None \<longleftrightarrow> n \<notin> t_name ` set ts"
  by (induction ts) (auto split: option.splits)

lemma walk_SomeD:
  "walk n ts = Some (p, t, r) \<Longrightarrow> ts = p @ t # r \<and> t_name t = n \<and> n \<notin> t_name ` set p"
  by (induction ts arbitrary: p t r) (auto split: if_splits option.splits)

definition chain_get :: "bytes \<Rightarrow> nvtuple list \<Rightarrow> bytes option" where
  "chain_get n ts = (case walk n ts of None \<Rightarrow> None | Some (_, t, _) \<Rightarrow> t_value t)"

lemma chain_get_Nil [simp]: "chain_get n [] = None"
  by (simp add: chain_get_def)

lemma chain_get_Cons [simp]:
  "chain_get n (t # ts) = (if t_name t = n then t_value t else chain_get n ts)"
  by (auto simp: chain_get_def split: option.splits)

lemma chain_get_append:
  "n \<notin> t_name ` set p \<Longrightarrow> chain_get n (p @ ts) = chain_get n ts"
  by (induction p) auto

lemma chain_get_replace:
  "t_name t' = t_name t \<Longrightarrow> n \<noteq> t_name t \<Longrightarrow> chain_get n (p @ t' # r) = chain_get n (p @ t # r)"
  by (induction p) auto

lemma chain_get_drop: "n \<noteq> t_name t \<Longrightarrow> chain_get n (p @ r) = chain_get n (p @ t # r)"
  by (induction p) auto

lemma chain_get_notin: "n \<notin> t_name ` set ts \<Longrightarrow> chain_get n ts = None"
  by (induction ts) auto

lemma nvram_get_chain: "nvram_get h (Some n) = chain_get n (h_hash h (bucket n))"
  by (simp add: nvram_get_def chain_get_def)

lemma nvram_set_frame:
  "h_length (snd (nvram_set mem h n v)) = h_length h"
  "h_offset (snd (nvram_set mem h n v)) = h_offset h"
  "h_mmap (snd (nvram_set mem h n v)) = h_mmap h"
  "h_addr (snd (nvram_set mem h n v)) = h_addr h"
  by (auto simp: nvram_set_def Let_def split: option.splits prod.splits realloc_result.splits)

lemma nvram_realloc_cases:
  "nvram_realloc mem h (Some t) n v \<in>
     {NoMem (Some t), NoMem (Some (t\<lparr>t_value := None\<rparr>)), SameTuple (t\<lparr>t_value := Some v\<rparr>)}"
  by (auto simp: nvram_realloc_def)

lemma nvram_realloc_new_cases:
  "nvram_realloc mem h None n v \<in> {NoMem None, NewTuple \<lparr>t_name = n, t_value = Some v\<rparr>}"
  by (auto simp: nvram_realloc_def)

text \<open>\<open>nvram_set\<close> has three outcomes: nothing changes, a tuple is put in front of its chain, or the
  first tuple with the name changes its value.\<close>

lemma nvram_set_cases:
  obtains (refused) "nvram_set mem h n v = (-12, h)"
  | (new) "walk n (h_hash h (bucket n)) = None"
      "nvram_set mem h n v =
         (0, h\<lparr>h_hash := (h_hash h)(bucket n := \<lparr>t_name = n, t_value = Some v\<rparr> # h_hash h (bucket n))\<rparr>)"
  | (lost) p t r where "walk n (h_hash h (bucket n)) = Some (p, t, r)"
      "nvram_set mem h n v =
         (-12, h\<lparr>h_hash := (h_hash h)(bucket n := p @ t\<lparr>t_value := None\<rparr> # r)\<rparr>)"
  | (changed) p t r where "walk n (h_hash h (bucket n)) = Some (p, t, r)"
      "nvram_set mem h n v =
         (0, h\<lparr>h_hash := (h_hash h)(bucket n := p @ t\<lparr>t_value := Some v\<rparr> # r)\<rparr>)"
proof (cases "walk n (h_hash h (bucket n))")
  case None
  then show ?thesis
    using nvram_realloc_new_cases [of mem h n v] refused new
    by (auto simp: nvram_set_def Let_def)
next
  case (Some ptr)
  obtain p t r where ptr: "ptr = (p, t, r)" by (cases ptr)
  have h: "h\<lparr>h_hash := (h_hash h)(bucket n := p @ t # r)\<rparr> = h"
    using walk_SomeD [OF Some [unfolded ptr]] by (simp add: fun_upd_idem)
  show ?thesis
    using nvram_realloc_cases [of mem h t n v] Some ptr refused lost changed h
    by (auto simp: nvram_set_def Let_def)
qed

lemma nv_inv_upd:
  assumes "nv_inv h" and "distinct (map t_name c)" and "\<And>t. t \<in> set c \<Longrightarrow> bucket (t_name t) = i"
  shows "nv_inv (h\<lparr>h_hash := (h_hash h)(i := c)\<rparr>)"
  using assms by (simp add: nv_inv_def)

lemma nv_inv_distinct: "nv_inv h \<Longrightarrow> distinct (map t_name (h_hash h i))"
  by (simp add: nv_inv_def)

lemma nv_inv_bucket: "nv_inv h \<Longrightarrow> t \<in> set (h_hash h i) \<Longrightarrow> bucket (t_name t) = i"
  by (simp add: nv_inv_def)

lemma nv_inv_replace:
  assumes inv: "nv_inv h" and c: "h_hash h i = p @ t # r" and n: "t_name t' = t_name t"
  shows "nv_inv (h\<lparr>h_hash := (h_hash h)(i := p @ t' # r)\<rparr>)"
proof (rule nv_inv_upd [OF inv])
  show "distinct (map t_name (p @ t' # r))"
    using nv_inv_distinct [OF inv, of i] n by (simp add: c)
next
  fix u assume "u \<in> set (p @ t' # r)"
  then show "bucket (t_name u) = i"
    using nv_inv_bucket [OF inv, of _ i] n by (auto simp: c)
qed

lemma nv_inv_remove:
  assumes inv: "nv_inv h" and c: "h_hash h i = p @ t # r"
  shows "nv_inv (h\<lparr>h_hash := (h_hash h)(i := p @ r)\<rparr>)"
proof (rule nv_inv_upd [OF inv])
  show "distinct (map t_name (p @ r))"
    using nv_inv_distinct [OF inv, of i] by (simp add: c)
next
  fix u assume "u \<in> set (p @ r)"
  then show "bucket (t_name u) = i"
    using nv_inv_bucket [OF inv, of u i] by (simp add: c)
qed

lemma nv_inv_dead [simp]: "nv_inv (h\<lparr>h_dead := d\<rparr>) = nv_inv h"
  by (simp add: nv_inv_def)

lemma nv_inv_set:
  assumes inv: "nv_inv h"
  shows "nv_inv (snd (nvram_set mem h n v))"
proof (cases rule: nvram_set_cases [of mem h n v])
  case new
  have "nv_inv (h\<lparr>h_hash := (h_hash h)(bucket n := \<lparr>t_name = n, t_value = Some v\<rparr> # h_hash h (bucket n))\<rparr>)"
    using new(1) nv_inv_distinct [OF inv] nv_inv_bucket [OF inv]
    by (intro nv_inv_upd inv) (auto simp: walk_None_iff)
  then show ?thesis by (simp add: new)
next
  case (lost p t r)
  then show ?thesis
    using nv_inv_replace [OF inv, of "bucket n" p t r] walk_SomeD [OF lost(1)] by simp
next
  case (changed p t r)
  then show ?thesis
    using nv_inv_replace [OF inv, of "bucket n" p t r] walk_SomeD [OF changed(1)] by simp
qed (simp add: inv)

lemma get_set_ok:
  assumes "fst (nvram_set mem h n v) = 0"
  shows "nvram_get (snd (nvram_set mem h n v)) (Some m) =
           (if m = n then Some v else nvram_get h (Some m))"
proof (cases rule: nvram_set_cases [of mem h n v])
  case new
  then show ?thesis by (auto simp: nvram_get_chain)
next
  case (changed p t r)
  note w = walk_SomeD [OF changed(1)]
  show ?thesis
    using w changed(2) chain_get_replace [of "t\<lparr>t_value := Some v\<rparr>" t m p r]
    by (auto simp: nvram_get_chain chain_get_append)
qed (use assms in auto)

lemma get_set_other: "m \<noteq> n \<Longrightarrow> nvram_get (snd (nvram_set mem h n v)) (Some m) = nvram_get h (Some m)"
proof (cases rule: nvram_set_cases [of mem h n v])
  case (lost p t r)
  assume "m \<noteq> n"
  then show ?thesis
    using walk_SomeD [OF lost(1)] lost(2) chain_get_replace [of "t\<lparr>t_value := None\<rparr>" t m p r]
    by (auto simp: nvram_get_chain)
qed (use get_set_ok [of mem h n v m] in auto)

lemma set_refused_iff:
  "fst (nvram_set (\<lambda>_. True) h n v) \<noteq> 0 \<longleftrightarrow> length v + 1 > usub32 (h_length h) (h_offset h)"
  by (auto simp: nvram_set_def nvram_realloc_def Let_def split: option.splits prod.splits)

lemma set_refused_same:
  assumes "length v + 1 > usub32 (h_length h) (h_offset h)"
  shows "nvram_set mem h n v = (-12, h)"
proof (cases "walk n (h_hash h (bucket n))")
  case None
  then show ?thesis using assms by (simp add: nvram_set_def nvram_realloc_def)
next
  case (Some ptr)
  obtain p t r where ptr: "ptr = (p, t, r)" by (cases ptr)
  have "h\<lparr>h_hash := (h_hash h)(bucket n := p @ t # r)\<rparr> = h"
    using walk_SomeD [OF Some [unfolded ptr]] by (simp add: fun_upd_idem)
  then show ?thesis using assms Some ptr by (simp add: nvram_set_def nvram_realloc_def)
qed

lemma unset_cases:
  obtains (absent) "n \<notin> t_name ` set (h_hash h (bucket n))" "nvram_unset h (Some n) = (0, h)"
  | (moved) p t r where "h_hash h (bucket n) = p @ t # r" "t_name t = n" "n \<notin> t_name ` set p"
      "nvram_unset h (Some n) =
         (0, h\<lparr>h_hash := (h_hash h)(bucket n := p @ r), h_dead := t # h_dead h\<rparr>)"
proof (cases "walk n (h_hash h (bucket n))")
  case None
  then show ?thesis
    using absent walk_None_iff [of n "h_hash h (bucket n)"] by (simp add: nvram_unset_def)
next
  case (Some ptr)
  obtain p t r where ptr: "ptr = (p, t, r)" by (cases ptr)
  show ?thesis
    using moved [of p t r] walk_SomeD [OF Some [unfolded ptr]] Some ptr
    by (simp add: nvram_unset_def)
qed

lemma nv_inv_unset: "nv_inv h \<Longrightarrow> nv_inv (snd (nvram_unset h (Some n)))"
  by (cases rule: unset_cases [of n h]) (simp_all add: nv_inv_remove)

lemma get_unset:
  assumes "nv_inv h"
  shows "nvram_get (snd (nvram_unset h (Some n))) (Some m) =
           (if m = n then None else nvram_get h (Some m))"
proof (cases rule: unset_cases [of n h])
  case absent
  then show ?thesis by (auto simp: nvram_get_chain chain_get_notin)
next
  case (moved p t r)
  have "distinct (map t_name (p @ t # r))"
    using assms moved(1) by (metis nv_inv_def)
  then have "n \<notin> t_name ` set (p @ r)" using moved(2) by auto
  then show ?thesis
    using moved chain_get_drop [of m t p r]
    by (auto simp: nvram_get_chain chain_get_notin simp del: set_append)
qed

interpretation nv: kv_store nv_inv "\<lambda>h n. nvram_get h (Some n)"
    "\<lambda>h n v. snd (nvram_set (\<lambda>_. True) h n v)" "\<lambda>h n. snd (nvram_unset h (Some n))"
    "\<lambda>h n v. fst (nvram_set (\<lambda>_. True) h n v) = 0"
proof unfold_locales
  fix h n v
  assume "\<not> fst (nvram_set (\<lambda>_. True) h n v) = 0"
  then have "nvram_set (\<lambda>_. True) h n v = (-12, h)"
    by (intro set_refused_same) (simp add: set_refused_iff)
  then show "(\<lambda>m. nvram_get (snd (nvram_set (\<lambda>_. True) h n v)) (Some m)) = (\<lambda>m. nvram_get h (Some m))"
    by simp
qed (auto simp: nv_inv_set nv_inv_unset get_set_ok get_unset fun_eq_iff)

section \<open>The store as an abstract map\<close>

text \<open>A client's operations, run on the handle and on a plain map.\<close>

datatype nvop = OpSet bytes bytes | OpUnset bytes

fun nv_apply :: "nvhandle \<Rightarrow> nvop \<Rightarrow> nvhandle" where
  "nv_apply h (OpSet n v) = snd (nvram_set (\<lambda>_. True) h n v)"
| "nv_apply h (OpUnset n) = snd (nvram_unset h (Some n))"

fun nv_spec :: "nat \<Rightarrow> (bytes \<rightharpoonup> bytes) \<Rightarrow> nvop \<Rightarrow> (bytes \<rightharpoonup> bytes)" where
  "nv_spec cap m (OpSet n v) = (if length v + 1 \<le> cap then m(n \<mapsto> v) else m)"
| "nv_spec cap m (OpUnset n) = m(n := None)"

abbreviation nv_map :: "nvhandle \<Rightarrow> (bytes \<rightharpoonup> bytes)" where
  "nv_map h \<equiv> (\<lambda>n. nvram_get h (Some n))"

lemma set_ok_iff:
  "fst (nvram_set (\<lambda>_. True) h n v) = 0 \<longleftrightarrow> length v + 1 \<le> usub32 (h_length h) (h_offset h)"
  using set_refused_iff [of h n v] by auto

lemma nv_apply_frame:
  "h_length (nv_apply h op) = h_length h" "h_offset (nv_apply h op) = h_offset h"
  by (cases op; simp add: nvram_set_frame nvram_unset_def Let_def split: option.splits)+

lemma nv_apply_inv: "nv_inv h \<Longrightarrow> nv_inv (nv_apply h op)"
  by (cases op) (simp_all add: nv.inv_put nv.inv_del)

lemma nv_apply_spec:
  "nv_inv h \<Longrightarrow> nv_map (nv_apply h op) = nv_spec (usub32 (h_length h) (h_offset h)) (nv_map h) op"
  by (cases op) (simp_all add: nv.get_put nv.get_put_refused nv.get_del set_ok_iff)

lemma nv_run_spec:
  "nv_inv h \<Longrightarrow>
   nv_inv (foldl nv_apply h ops) \<and>
   nv_map (foldl nv_apply h ops) = foldl (nv_spec (usub32 (h_length h) (h_offset h))) (nv_map h) ops"
proof (induction ops arbitrary: h)
  case (Cons op ops)
  then show ?case
    using Cons.IH [of "nv_apply h op"] nv_apply_inv [of h op] nv_apply_spec [of h op]
    by (simp add: nv_apply_frame)
qed simp

end
