(* ===== verification/Nvram_Commit.thy ===== *)
theory Nvram_Commit
  imports Nvram
begin

text \<open>
  What \<open>nvram_commit\<close> writes and \<open>_nvram_rehash\<close> reads back (\<open>package/utils/nvram/src/nvram.c\<close>):
  the tuples that fit (\<open>kept\<close>), their bytes (\<open>env_bytes\<close>), the parse loop over these bytes, the
  committed image with its header and CRC, and reopening the image.
\<close>


section \<open>Commit and rehash\<close>

definition tval :: "nvtuple \<Rightarrow> bytes" where
  "tval t = (case t_value t of None \<Rightarrow> [] | Some v \<Rightarrow> v)"

definition tsize :: "nvtuple \<Rightarrow> nat" where
  "tsize t = length (t_name t) + 1 + length (tval t) + 1"

definition env_bytes :: "nvtuple list \<Rightarrow> bytes" where
  "env_bytes ts = concat (map (\<lambda>t. t_name t @ [61] @ tval t @ [0]) ts)"

definition all_tuples :: "nvhandle \<Rightarrow> nvtuple list" where
  "all_tuples h = concat (map (h_hash h) [0..<NVRAM_HASHSIZE])"

text \<open>The tuples that a commit writes: of each chain the longest prefix that fits.\<close>

fun keep_chain :: "nat \<Rightarrow> nat \<Rightarrow> nvtuple list \<Rightarrow> nvtuple list" where
  "keep_chain lim p [] = []"
| "keep_chain lim p (t # ts) =
     (if p + tsize t > lim then [] else t # keep_chain lim (p + tsize t) ts)"

fun keep_chains :: "nat \<Rightarrow> nat \<Rightarrow> nvtuple list list \<Rightarrow> nvtuple list" where
  "keep_chains lim p [] = []"
| "keep_chains lim p (c # cs) =
     (let k = keep_chain lim p c in k @ keep_chains lim (p + length (env_bytes k)) cs)"

lemma env_bytes_Nil [simp]: "env_bytes [] = []"
  by (simp add: env_bytes_def)

lemma env_bytes_Cons: "env_bytes (t # ts) = t_name t @ [61] @ tval t @ [0] @ env_bytes ts"
  by (simp add: env_bytes_def)

lemma env_bytes_append [simp]: "env_bytes (ts @ us) = env_bytes ts @ env_bytes us"
  by (simp add: env_bytes_def)

lemma length_env_Cons [simp]: "length (env_bytes (t # ts)) = tsize t + length (env_bytes ts)"
  by (simp add: env_bytes_Cons tsize_def)

text \<open>Writing \<open>xs\<close> and then \<open>ys\<close> behind it is writing both.\<close>

definition patch :: "bytes \<Rightarrow> nat \<Rightarrow> bytes \<Rightarrow> bytes" where
  "patch b p xs = take p b @ xs @ drop (p + length xs) b"

lemma poke_patch: "p + length xs \<le> length b \<Longrightarrow> poke b p xs = Some (patch b p xs)"
  by (simp add: poke_def patch_def)

lemma length_patch [simp]: "p + length xs \<le> length b \<Longrightarrow> length (patch b p xs) = length b"
  by (simp add: patch_def)

lemma patch_patch:
  assumes "p + length xs + length ys \<le> length b"
  shows "patch (patch b p xs) (p + length xs) ys = patch b p (xs @ ys)"
  using assms by (simp add: patch_def add.commute add.left_commute)

lemma patch_Nil [simp]: "patch b p [] = b"
  by (simp add: patch_def)

lemma commit_chain_spec:
  assumes "\<forall>t \<in> set ts. t_value t \<noteq> None" and "p \<le> lim" and "lim \<le> length b"
  shows "commit_chain lim ts (b, p) =
           Some (patch b p (env_bytes (keep_chain lim p ts)),
                 p + length (env_bytes (keep_chain lim p ts)))
         \<and> p + length (env_bytes (keep_chain lim p ts)) \<le> lim"
  using assms
proof (induction ts arbitrary: b p)
  case (Cons t ts)
  then obtain v where v: "t_value t = Some v" by auto
  let ?e = "t_name t @ [61] @ v @ [0]"
  show ?case
  proof (cases "p + tsize t > lim")
    case True
    then show ?thesis using Cons.prems by (simp add: v tsize_def tval_def)
  next
    case False
    then have fit: "p + tsize t \<le> lim" and len: "length ?e = tsize t"
      by (simp_all add: v tsize_def tval_def)
    have b: "poke b p ?e = Some (patch b p ?e)"
      using fit len Cons.prems by (intro poke_patch) simp
    have lw: "length (patch b p ?e) = length b"
      using fit len Cons.prems by (intro length_patch) simp
    let ?k = "keep_chain lim (p + tsize t) ts"
    have ih: "commit_chain lim ts (patch b p ?e, p + tsize t) =
           Some (patch (patch b p ?e) (p + tsize t) (env_bytes ?k), p + tsize t + length (env_bytes ?k))
         \<and> p + tsize t + length (env_bytes ?k) \<le> lim"
      using Cons.prems fit lw by (intro Cons.IH) simp_all
    have "patch (patch b p ?e) (p + length ?e) (env_bytes ?k) = patch b p (?e @ env_bytes ?k)"
      using ih fit len Cons.prems by (intro patch_patch) linarith
    then have "patch (patch b p ?e) (p + tsize t) (env_bytes ?k) = patch b p (env_bytes (t # ?k))"
      by (simp only: len) (simp add: env_bytes_Cons v tval_def)
    then show ?thesis
      using ih fit b v by (simp add: tsize_def tval_def add.assoc)
  qed
qed simp

lemma commit_chains_spec:
  assumes "\<forall>c \<in> set cs. \<forall>t \<in> set c. t_value t \<noteq> None" and "p \<le> lim" and "lim \<le> length b"
  shows "commit_chains lim cs (b, p) =
           Some (patch b p (env_bytes (keep_chains lim p cs)),
                 p + length (env_bytes (keep_chains lim p cs)))
         \<and> p + length (env_bytes (keep_chains lim p cs)) \<le> lim"
  using assms
proof (induction cs arbitrary: b p)
  case (Cons c cs)
  let ?k = "env_bytes (keep_chain lim p c)"
  have c: "commit_chain lim c (b, p) = Some (patch b p ?k, p + length ?k)" and le: "p + length ?k \<le> lim"
    using commit_chain_spec [of c p lim b] Cons.prems by simp_all
  let ?ks = "env_bytes (keep_chains lim (p + length ?k) cs)"
  have ih: "commit_chains lim cs (patch b p ?k, p + length ?k) =
      Some (patch (patch b p ?k) (p + length ?k) ?ks, p + length ?k + length ?ks)
      \<and> p + length ?k + length ?ks \<le> lim"
    using Cons.prems le by (intro Cons.IH) simp_all
  moreover have "patch (patch b p ?k) (p + length ?k) ?ks = patch b p (?k @ ?ks)"
    using ih Cons.prems by (intro patch_patch) simp
  ultimately show ?case
    by (simp add: c Let_def add.assoc)
qed simp

lemma keep_chain_all:
  "p + length (env_bytes ts) \<le> lim \<Longrightarrow> keep_chain lim p ts = ts"
  by (induction ts arbitrary: p) auto

lemma keep_chains_all:
  "p + length (env_bytes (concat cs)) \<le> lim \<Longrightarrow> keep_chains lim p cs = concat cs"
  by (induction cs arbitrary: p) (simp_all add: keep_chain_all Let_def)

lemma set_keep_chain: "set (keep_chain lim p ts) \<subseteq> set ts"
  by (induction ts arbitrary: p) auto

lemma set_keep_chains: "set (keep_chains lim p cs) \<subseteq> set (concat cs)"
  using set_keep_chain by (induction cs arbitrary: p) (fastforce simp: Let_def)+

lemma distinct_keep_chain: "distinct (map f ts) \<Longrightarrow> distinct (map f (keep_chain lim p ts))"
  using set_keep_chain by (induction ts arbitrary: p) fastforce+

lemma distinct_keep_chains:
  "distinct (map f (concat cs)) \<Longrightarrow> distinct (map f (keep_chains lim p cs))"
proof (induction cs arbitrary: p)
  case (Cons c cs)
  let ?k = "keep_chain lim p c"
  let ?ks = "keep_chains lim (p + length (env_bytes ?k)) cs"
  have "f ` set ?k \<subseteq> f ` set c" by (intro image_mono set_keep_chain)
  moreover have "f ` set ?ks \<subseteq> f ` set (concat cs)" by (intro image_mono set_keep_chains)
  moreover have "f ` set c \<inter> f ` set (concat cs) = {}" and "distinct (map f c)"
    and "distinct (map f (concat cs))"
    using Cons.prems by (simp_all del: set_concat)
  ultimately show ?case
    using Cons.IH distinct_keep_chain [of f c lim p]
    by (simp add: Let_def del: set_concat) blast
qed simp

subsection \<open>The parse loop reads what the commit wrote\<close>

definition good_name :: "bytes \<Rightarrow> bool" where
  "good_name n \<longleftrightarrow> is_cstr n \<and> 61 \<notin> set n"

definition good_tuple :: "nvtuple \<Rightarrow> bool" where
  "good_tuple t \<longleftrightarrow> good_name (t_name t) \<and> t_value t \<noteq> None \<and> is_cstr (tval t)"

definition set_tuple :: "(nat \<Rightarrow> bool) \<Rightarrow> nvhandle \<Rightarrow> nvtuple \<Rightarrow> nvhandle" where
  "set_tuple mem h t = snd (nvram_set mem h (t_name t) (tval t))"

lemma takeWhile_name:
  "61 \<notin> set n \<Longrightarrow> takeWhile (\<lambda>c. c \<noteq> 61) (n @ 61 # v) = n"
  "61 \<notin> set n \<Longrightarrow> dropWhile (\<lambda>c. c \<noteq> 61) (n @ 61 # v) = 61 # v"
  for n :: bytes
  by (induction n) auto

lemma rehash_loop_step:
  assumes "good_tuple t"
  shows "rehash_loop mem h (t_name t @ 61 # tval t @ 0 # rest) = rehash_loop mem (set_tuple mem h t) rest"
proof -
  let ?s = "t_name t @ 61 # tval t"
  have s: "cstr (t_name t @ 61 # tval t @ 0 # rest) = ?s"
    using cstr_append_nul [of ?s rest] assms by (simp add: good_tuple_def good_name_def)
  have "61 \<notin> set (t_name t)" using assms by (simp add: good_tuple_def good_name_def)
  note tw = takeWhile_name [OF this]
  show ?thesis
    using s tw assms
    by (cases "t_name t"; subst rehash_loop.simps)
      (simp_all add: set_tuple_def Let_def good_tuple_def good_name_def)
qed

lemma rehash_loop_end: "rehash_loop mem h (0 # rest) = Some h"
  by (simp add: rehash_loop.simps)

lemma rehash_loop_env:
  "\<forall>t \<in> set ts. good_tuple t \<Longrightarrow>
   rehash_loop mem h (env_bytes ts @ 0 # rest) = Some (foldl (set_tuple mem) h ts)"
  by (induction ts arbitrary: h) (simp_all add: rehash_loop_end env_bytes_Cons rehash_loop_step)

lemma nv_inv_free [simp]: "nv_inv (nvram_free h)"
  by (simp add: nvram_free_def nv_inv_def)

lemma get_free [simp]: "nvram_get (nvram_free h) (Some n) = None"
  by (simp add: nvram_get_chain nvram_free_def)

lemma frame_free [simp]:
  "h_length (nvram_free h) = h_length h" "h_offset (nvram_free h) = h_offset h"
  "h_mmap (nvram_free h) = h_mmap h" "h_addr (nvram_free h) = h_addr h"
  by (simp_all add: nvram_free_def)

lemma map_of_rev_distinct: "distinct (map fst xs) \<Longrightarrow> map_of (rev xs) = map_of xs"
  by (subst map_of_inject_set) (simp_all add: rev_map [symmetric])

lemma get_set_tuples:
  assumes "nv_inv h" and "distinct (map t_name ts)"
    and "\<forall>t \<in> set ts. length (tval t) + 1 \<le> usub32 (h_length h) (h_offset h)"
  shows "nvram_get (foldl (set_tuple (\<lambda>_. True)) h ts) (Some n) =
           (case map_of (map (\<lambda>t. (t_name t, tval t)) ts) n of
              Some v \<Rightarrow> Some v | None \<Rightarrow> nvram_get h (Some n))"
proof -
  let ?kvs = "map (\<lambda>t. (t_name t, tval t)) ts"
  let ?P = "\<lambda>s. h_length s = h_length h \<and> h_offset s = h_offset h"
  have eq: "foldl (set_tuple (\<lambda>_. True)) h ts = nv.puts h ?kvs"
    by (simp add: nv.puts_def foldl_map set_tuple_def cong: foldl_cong)
  have "(\<lambda>n. nvram_get (nv.puts h ?kvs) (Some n)) = (\<lambda>n. nvram_get h (Some n)) ++ map_of (rev ?kvs)"
    using assms(1,3)
    by (intro nv.get_puts [where P = ?P]) (auto simp: nvram_set_frame set_ok_iff)
  moreover have "map_of (rev ?kvs) = map_of ?kvs"
    using assms(2) by (intro map_of_rev_distinct) (simp add: comp_def)
  ultimately show ?thesis
    by (simp add: eq fun_eq_iff map_add_def)
qed


lemma bucket_less: "bucket n < NVRAM_HASHSIZE"
  by (simp add: bucket_def NVRAM_HASHSIZE_def SIZEOF_POINTER_def less_mult_imp_div_less)

lemma distinct_buckets:
  assumes "nv_inv h"
  shows "distinct (map t_name (concat (map (h_hash h) [0..<k])))"
proof (induction k)
  case (Suc k)
  have "bucket (t_name t) < k" if "t \<in> set (concat (map (h_hash h) [0..<k]))" for t
    using that nv_inv_bucket [OF assms] by auto
  moreover have "bucket (t_name t) = k" if "t \<in> set (h_hash h k)" for t
    using that nv_inv_bucket [OF assms] by auto
  ultimately have "t_name ` set (concat (map (h_hash h) [0..<k])) \<inter> t_name ` set (h_hash h k) = {}"
    by (fastforce simp del: set_concat)
  then show ?case
    using Suc nv_inv_distinct [OF assms, of k] by (simp del: set_concat)
qed simp

lemma chain_get_in: "distinct (map t_name ts) \<Longrightarrow> t \<in> set ts \<Longrightarrow> chain_get (t_name t) ts = t_value t"
  by (induction ts) auto

lemma get_all_tuples:
  assumes inv: "nv_inv h" and vals: "\<forall>t \<in> set (all_tuples h). t_value t \<noteq> None"
  shows "nvram_get h (Some n) = map_of (map (\<lambda>t. (t_name t, tval t)) (all_tuples h)) n"
proof (cases "n \<in> t_name ` set (h_hash h (bucket n))")
  case True
  then obtain t where t: "t \<in> set (h_hash h (bucket n))" and n: "n = t_name t" by auto
  have all: "t \<in> set (all_tuples h)" using t bucket_less by (auto simp: all_tuples_def)
  then obtain v where v: "t_value t = Some v" using vals by auto
  have "nvram_get h (Some n) = Some v"
    using chain_get_in [OF nv_inv_distinct [OF inv] t] by (simp add: nvram_get_chain v n)
  moreover have "map_of (map (\<lambda>t. (t_name t, tval t)) (all_tuples h)) n = Some v"
    using all distinct_buckets [OF inv, of NVRAM_HASHSIZE]
    by (intro map_of_is_SomeI) (auto simp: all_tuples_def comp_def n tval_def v intro!: rev_image_eqI)
  ultimately show ?thesis by simp
next
  case False
  then have "n \<notin> t_name ` set (all_tuples h)"
    using nv_inv_bucket [OF inv] by (force simp: all_tuples_def)
  then have "map_of (map (\<lambda>t. (t_name t, tval t)) (all_tuples h)) n = None"
    by (simp add: map_of_eq_None_iff image_image)
  then show ?thesis using False by (simp add: nvram_get_chain chain_get_notin)
qed

definition sdram_names :: "bytes set" where
  "sdram_names = {str ''sdram_init'', str ''sdram_config'', str ''sdram_refresh'', str ''sdram_ncdl''}"

lemma set_default_get:
  "n \<noteq> name \<or> nvram_get h (Some n) \<noteq> None \<Longrightarrow>
   nvram_get (set_default mem name v h) (Some n) = nvram_get h (Some n)"
  by (auto simp: set_default_def get_set_other split: option.splits)

lemma nv_inv_set_tuples: "nv_inv h \<Longrightarrow> nv_inv (foldl (set_tuple mem) h ts)"
  by (induction ts arbitrary: h) (simp_all add: set_tuple_def nv_inv_set)

lemma nv_inv_set_default: "nv_inv h \<Longrightarrow> nv_inv (set_default mem n v h)"
  by (simp add: set_default_def nv_inv_set split: option.splits)

lemma nv_inv_rehash_loop: "rehash_loop mem h rest = Some h' \<Longrightarrow> nv_inv h \<Longrightarrow> nv_inv h'"
proof (induction mem h rest rule: rehash_loop.induct)
  case (1 mem h rest)
  show ?case
    using "1.prems" "1.IH"
    by (subst (asm) rehash_loop.simps)
      (auto simp: Let_def nv_inv_set split: list.splits if_splits)
qed

lemma nv_inv_rehash: "nvram_rehash mem e h = Some h' \<Longrightarrow> nv_inv h'"
  by (auto simp: nvram_rehash_def Let_def nv_inv_set_default nv_inv_rehash_loop
      split: Option.bind_splits)

lemma nvram_rehash_env:
  assumes hdr: "h_offset h + NVRAM_HDRSIZE \<le> length (h_mmap h)"
    and env: "drop (h_offset h + NVRAM_HDRSIZE) (h_mmap h) = env_bytes ts @ 0 # rest"
    and good: "\<forall>t \<in> set ts. good_tuple t" and dist: "distinct (map t_name ts)"
    and fit: "\<forall>t \<in> set ts. length (tval t) + 1 \<le> usub32 (h_length h) (h_offset h)"
  shows "\<exists>h'. nvram_rehash (\<lambda>_. True) e h = Some h' \<and>
           (\<forall>n. n \<notin> sdram_names \<or> n \<in> t_name ` set ts \<longrightarrow>
              nvram_get h' (Some n) = map_of (map (\<lambda>t. (t_name t, tval t)) ts) n)"
proof -
  let ?m = "map_of (map (\<lambda>t. (t_name t, tval t)) ts)"
  let ?g = "foldl (set_tuple (\<lambda>_. True)) (nvram_free h) ts"
  obtain d where d: "nvram_header e h = Some d"
    using hdr by (simp add: nvram_header_def peek_def)
  have loop: "rehash_loop (\<lambda>_. True) (nvram_free h) (drop (h_offset h + NVRAM_HDRSIZE) (h_mmap h)) = Some ?g"
    unfolding env by (rule rehash_loop_env [OF good])
  have g: "nvram_get ?g (Some n) = ?m n" for n
    using get_set_tuples [of "nvram_free h" ts n] dist fit by (simp split: option.splits)
  have some: "?m n \<noteq> None" if "n \<in> t_name ` set ts" for n
    using that by (simp add: map_of_eq_None_iff image_image)
  show ?thesis
    unfolding nvram_rehash_def d loop
    by (auto simp: Let_def g set_default_get sdram_names_def dest!: some)
qed


lemma length_header_bytes [simp]: "length (header_bytes e d) = 20"
  by (simp add: header_bytes_def)

lemma header_of_bytes [simp]: "header_of e (header_bytes e d) = d"
  by (simp add: header_of_def header_bytes_def)

definition commit_pre :: "nat \<Rightarrow> nvhandle \<Rightarrow> bool" where
  "commit_pre ps h \<longleftrightarrow>
     h_length h = ps \<and> length (h_mmap h) = ps \<and> ps < 2 ^ 32 \<and> 4 dvd ps \<and> 4 dvd h_offset h \<and>
     h_offset h + NVRAM_HDRSIZE + 4 \<le> ps \<and> 4 dvd h_addr h \<and> 0 \<le> h_addr h"

definition kept :: "nat \<Rightarrow> nvhandle \<Rightarrow> nvtuple list" where
  "kept ps h = keep_chains (ps - 2) (h_offset h + NVRAM_HDRSIZE) (map (h_hash h) [0..<NVRAM_HASHSIZE])"

lemma crem_pos: "0 \<le> a \<Longrightarrow> crem a 4 = a mod 4"
  by (cases "a = 0") (simp_all add: crem_def)

lemma crem_addr:
  assumes "commit_pre ps h"
  shows "crem (h_addr h + int p) 4 = int (p mod 4)"
proof -
  have "0 \<le> h_addr h" and "h_addr h mod 4 = 0"
    using assms by (auto simp: commit_pre_def)
  then show ?thesis
    by (simp add: crem_pos zmod_int) presburger
qed

lemma pad_fits:
  fixes p ps :: nat
  assumes "p + 2 \<le> ps" and "4 dvd ps" and "(p + 1) mod 4 \<noteq> 0"
  shows "p + 1 + (4 - (p + 1) mod 4) \<le> ps"
  using assms by presburger

lemma roundup_fits:
  fixes p ps off :: nat
  assumes "p + 2 \<le> ps" and "4 dvd ps" and "4 dvd off" and "off + 20 \<le> p"
  shows "off + NVRAM_ROUNDUP (p + 2 - off) 4 \<le> ps \<and> 20 \<le> NVRAM_ROUNDUP (p + 2 - off) 4"
proof -
  obtain q where q: "p = off + q" "20 \<le> q" using assms(4) by (metis add_leD1 le_add_diff_inverse nat_add_left_cancel_le)
  obtain a b where ab: "ps = 4 * a" "off = 4 * b" using assms(2,3) by (auto elim!: dvdE)
  have d: "(q + 5) div 4 * 4 \<le> q + 5" "q + 5 < (q + 5) div 4 * 4 + 4" by simp_all
  then have "(q + 5) div 4 * 4 < 4 * (a - b) + 4" using assms(1) q ab by linarith
  then have "(q + 5) div 4 \<le> a - b" by simp
  then have "(q + 5) div 4 * 4 \<le> 4 * a - 4 * b" by linarith
  moreover have "4 * b \<le> 4 * a" using assms(1) q ab by linarith
  moreover have "20 \<le> (q + 5) div 4 * 4" using d q(2) by linarith
  ultimately have "off + (q + 5) div 4 * 4 \<le> ps \<and> 20 \<le> (q + 5) div 4 * 4" unfolding ab by linarith
  then show ?thesis unfolding q(1) NVRAM_ROUNDUP_def by (simp add: add.commute)
qed

lemma peek_drop: "peek b i (length xs) = Some xs \<Longrightarrow> drop i b = xs @ drop (i + length xs) b"
  by (metis peek_Some_iff append_take_drop_id drop_drop add.commute)

lemma ff_mask: "(0xff :: u32) = mask 8"
  by (simp add: mask_eq_exp_minus_1)

lemma low_byte_or:
  assumes "x AND 0xff = (0 :: u32)"
  shows "(x OR ucast (c :: u8)) AND 0xff = ucast c" and "(x OR ucast c) AND NOT 0xff = x"
proof -
  have low: "\<not> bit x n" if "n < 8" for n
    using assms that by (auto simp: ff_mask bit_eq_iff bit_simps dest: spec [of _ n])
  show "(x OR ucast c) AND 0xff = ucast c"
    by (rule bit_word_eqI) (use low in \<open>auto simp: ff_mask bit_simps dest: bit_imp_le_length\<close>)
  show "(x OR ucast c) AND NOT 0xff = x"
  proof (rule bit_word_eqI)
    fix n assume "n < LENGTH(32)"
    then show "bit ((x OR ucast c) AND NOT 0xff) n = bit x n"
      by (cases "n < 8") (use low in \<open>auto simp: ff_mask bit_simps dest: bit_imp_le_length\<close>)
  qed
qed

lemma commit_header_low: "n_crc_ver_init (commit_header h d) AND 0xff = 0"
  by (simp add: commit_header_def Let_def ff_mask take_bit_eq_mask [symmetric] and.commute [of _ "mask 8"]
      take_bit_or take_bit_push_bit split: option.splits)

lemma commit_pad:
  assumes b: "length b = ps" and p: "p + 2 \<le> ps" and dvd: "4 dvd ps"
    and pre: "peek b i n = Some xs" and before: "i + n \<le> p + 1"
  obtains c where
    "(if int ((p + 1) mod 4) \<noteq> 0 then poke b (p + 1) (replicate (nat (4 - int ((p + 1) mod 4))) 0)
      else Some b) = Some c" "length c = ps" "peek c i n = Some xs"
proof (cases "(p + 1) mod 4 = 0")
  case True
  then show ?thesis using that [of b] b pre by simp
next
  case False
  let ?z = "replicate (nat (4 - int ((p + 1) mod 4))) 0"
  have "p + 1 + length ?z \<le> length b"
    using pad_fits [OF p dvd False] b by (simp add: nat_diff_distrib')
  then obtain c where c: "poke b (p + 1) ?z = Some c"
    using poke_defined by blast
  show ?thesis
    using that [of c] c False length_poke [OF c] b pre peek_poke_before [OF c before] by simp
qed

lemma nvram_commit_image:
  assumes pre: "commit_pre ps h" and vals: "\<forall>t \<in> set (all_tuples h). t_value t \<noteq> None"
  obtains b rest d body where
    "nvram_commit mem e ps h = nvram_rehash mem e (h\<lparr>h_mmap := b\<rparr>)"
    "length b = ps"
    "drop (h_offset h + NVRAM_HDRSIZE) b = env_bytes (kept ps h) @ 0 # rest"
    "peek b (h_offset h) NVRAM_HDRSIZE = Some (header_bytes e d)"
    "n_magic d = NVRAM_MAGIC"
    "unat (n_len d) = NVRAM_ROUNDUP (NVRAM_HDRSIZE + length (env_bytes (kept ps h)) + 2) 4"
    "20 \<le> unat (n_len d) \<and> h_offset h + unat (n_len d) \<le> ps"
    "peek b (h_offset h + NVRAM_HDRSIZE) (unat (n_len d) - NVRAM_HDRSIZE) = Some body"
    "n_crc_ver_init d AND 0xff = ucast (commit_crc e (d\<lparr>n_crc_ver_init := n_crc_ver_init d AND NOT 0xff\<rparr>) body)"
proof -
  let ?off = "h_offset h"
  let ?m = "h_mmap h"
  have ps: "length ?m = ps" "ps < 2 ^ 32" "4 dvd ps" "4 dvd ?off" "?off + 24 \<le> ps"
    using pre by (simp_all add: commit_pre_def NVRAM_HDRSIZE_def)
  obtain d0 where d0: "nvram_header e h = Some d0"
    using ps by (simp add: nvram_header_def peek_def NVRAM_HDRSIZE_def)
  define d1 where "d1 = commit_header h d0"
  define b0 where "b0 = patch ?m ?off (header_bytes e d1)"
  have b0: "poke ?m ?off (header_bytes e d1) = Some b0" "length b0 = ps"
    using ps unfolding b0_def by (subst poke_patch length_patch; simp)+
  define ff where "ff = (replicate (usub32 (usub32 ps ?off) NVRAM_HDRSIZE) 0xFF :: bytes)"
  have ff: "length ff = ps - ?off - 20"
    using ps by (simp add: ff_def NVRAM_HDRSIZE_def)
  define b1 where "b1 = patch b0 (?off + 20) ff"
  have b1: "poke b0 (?off + 20) ff = Some b1" "length b1 = ps"
    using ps b0 ff unfolding b1_def by (subst poke_patch length_patch; simp)+
  define env where "env = env_bytes (kept ps h)"
  define p where "p = ?off + 20 + length env"
  have "\<forall>c \<in> set (map (h_hash h) [0..<NVRAM_HASHSIZE]). \<forall>t \<in> set c. t_value t \<noteq> None"
    using vals by (auto simp: all_tuples_def)
  then have cc: "commit_chains (ps - 2) (map (h_hash h) [0..<NVRAM_HASHSIZE]) (b1, ?off + 20) =
      Some (patch b1 (?off + 20) env, p)" and ple: "p \<le> ps - 2"
    using commit_chains_spec [of "map (h_hash h) [0..<NVRAM_HASHSIZE]" "?off + 20" "ps - 2" b1] ps b1
    by (simp_all add: env_def p_def kept_def NVRAM_HDRSIZE_def)
  define b2 where "b2 = patch b1 (?off + 20) env"
  have b2: "length b2 = ps"
    using ps ple b1 unfolding b2_def by (subst length_patch; simp add: p_def)
  define b3 where "b3 = patch b2 p [0]"
  have p2: "p + 2 \<le> ps" using ple ps by simp
  have b3: "poke b2 p [0] = Some b3" "length b3 = ps"
    using ps b2 p2 unfolding b3_def by (subst poke_patch length_patch; simp)+
  have env3: "peek b3 (?off + 20) (length (env @ [0])) = Some (env @ [0])"
  proof -
    have "b3 = patch b1 (?off + 20) (env @ [0])"
      using b1 p2 unfolding b3_def b2_def p_def by (subst patch_patch) simp_all
    then have "poke b1 (?off + 20) (env @ [0]) = Some b3"
      using b1 p2 by (subst poke_patch) (simp_all add: p_def)
    then show ?thesis by (rule peek_poke_same)
  qed
  define r where "r = (p + 1) mod 4"
  obtain b4 where b4: "(if int r \<noteq> 0 then poke b3 (p + 1) (replicate (nat (4 - int r)) 0) else Some b3) = Some b4"
    and l4: "length b4 = ps" and env4: "peek b4 (?off + 20) (length (env @ [0])) = Some (env @ [0])"
    using commit_pad [OF b3(2) p2 ps(3) env3] unfolding r_def by (auto simp: p_def)
  define len where "len = NVRAM_ROUNDUP (p + 1 + 1 - ?off) 4"
  have len: "?off + len \<le> ps" "20 \<le> len"
    using roundup_fits [OF p2, of ?off] ps by (simp_all add: len_def p_def)
  obtain body where body: "peek b4 (?off + 20) (len - 20) = Some body"
    using len l4 by (simp add: peek_def)
  define d2 where "d2 = d1\<lparr>n_len := of_nat len\<rparr>"
  define crc where "crc = commit_crc e d2 body"
  define d3 where "d3 = d2\<lparr>n_crc_ver_init := n_crc_ver_init d2 OR ucast crc\<rparr>"
  obtain b5 where b5: "poke b4 ?off (header_bytes e d3) = Some b5"
    using poke_defined [of ?off "header_bytes e d3" b4] l4 ps by auto
  have after: "peek b5 (?off + 20) n = peek b4 (?off + 20) n" for n
    by (rule peek_poke_after [OF b5]) simp
  have l5: "length b5 = ps" using length_poke [OF b5] l4 by simp
  show thesis
  proof (rule that)
    show "nvram_commit mem e ps h = nvram_rehash mem e (h\<lparr>h_mmap := b5\<rparr>)"
    proof -
      have e2: "poke ?m ?off (header_bytes e (commit_header h d0)) = Some b0"
        using b0(1) by (simp only: d1_def)
      have e3: "poke b0 (?off + NVRAM_HDRSIZE)
          (replicate (usub32 (usub32 ps ?off) NVRAM_HDRSIZE) 0xFF) = Some b1"
        using b1(1) by (simp only: ff_def) (simp only: NVRAM_HDRSIZE_def)
      have e4: "commit_chains (ps - 2) (map (h_hash h) [0..<NVRAM_HASHSIZE]) (b1, ?off + NVRAM_HDRSIZE)
          = Some (b2, p)"
        using cc by (simp only: b2_def NVRAM_HDRSIZE_def)
      have e6: "(if crem (h_addr h + int (p + 1)) 4 \<noteq> 0
          then poke b3 (p + 1) (replicate (nat (4 - crem (h_addr h + int (p + 1)) 4)) 0)
          else Some b3) = Some b4"
        using b4 by (simp only: crem_addr [OF pre] r_def)
      have e7: "peek b4 (?off + NVRAM_HDRSIZE) (NVRAM_ROUNDUP (p + 1 + 1 - ?off) 4 - NVRAM_HDRSIZE)
          = Some body"
        using body by (simp only: len_def NVRAM_HDRSIZE_def)
      have e8: "poke b4 ?off (header_bytes e (d1\<lparr>n_len := of_nat (NVRAM_ROUNDUP (p + 1 + 1 - ?off) 4)\<rparr>
          \<lparr>n_crc_ver_init := n_crc_ver_init (d1\<lparr>n_len := of_nat (NVRAM_ROUNDUP (p + 1 + 1 - ?off) 4)\<rparr>)
            OR ucast (commit_crc e (d1\<lparr>n_len := of_nat (NVRAM_ROUNDUP (p + 1 + 1 - ?off) 4)\<rparr>) body)\<rparr>))
          = Some b5"
        using b5 by (simp only: d3_def d2_def crc_def len_def)
      show ?thesis
        unfolding nvram_commit_def Let_def
        by (simp only: d0 e2 e3 e4 b3(1) e6 e7 e8 [unfolded d1_def] Option.bind_lunit case_prod_conv)
    qed
    show "length b5 = ps" by (rule l5)
    have "drop (?off + 20) b5 = (env @ [0]) @ drop (?off + 20 + length (env @ [0])) b5"
      using env4 after by (intro peek_drop) (simp only:)
    then show "drop (?off + NVRAM_HDRSIZE) b5
        = env_bytes (kept ps h) @ 0 # drop (?off + 20 + length (env @ [0])) b5"
      by (simp add: NVRAM_HDRSIZE_def env_def)
    show "peek b5 ?off NVRAM_HDRSIZE = Some (header_bytes e d3)"
      using peek_poke_same [OF b5] by (simp add: NVRAM_HDRSIZE_def)
    show "n_magic d3 = NVRAM_MAGIC"
      by (simp add: d3_def d2_def d1_def commit_header_def Let_def split: option.splits)
    have nl: "unat (n_len d3) = len"
      using len ps by (simp add: d3_def d2_def unat_of_nat take_bit_eq_mod)
    show "unat (n_len d3) = NVRAM_ROUNDUP (NVRAM_HDRSIZE + length (env_bytes (kept ps h)) + 2) 4"
      unfolding nl len_def by (simp add: p_def env_def NVRAM_HDRSIZE_def)
    show "20 \<le> unat (n_len d3) \<and> ?off + unat (n_len d3) \<le> ps" using len by (simp add: nl)
    show "peek b5 (?off + NVRAM_HDRSIZE) (unat (n_len d3) - NVRAM_HDRSIZE) = Some body"
      using body after by (simp add: nl NVRAM_HDRSIZE_def)
    have low: "n_crc_ver_init d2 AND 0xff = 0"
      by (simp add: d2_def d1_def commit_header_low)
    show "n_crc_ver_init d3 AND 0xff =
        ucast (commit_crc e (d3\<lparr>n_crc_ver_init := n_crc_ver_init d3 AND NOT 0xff\<rparr>) body)"
      using low_byte_or [OF low, of crc] by (simp add: d3_def crc_def [symmetric])
  qed
qed


lemma kept_subset: "set (kept ps h) \<subseteq> set (all_tuples h)"
  unfolding kept_def all_tuples_def by (rule set_keep_chains)

lemma distinct_kept: "nv_inv h \<Longrightarrow> distinct (map t_name (kept ps h))"
  unfolding kept_def by (intro distinct_keep_chains distinct_buckets)

lemma kept_all:
  "h_offset h + NVRAM_HDRSIZE + length (env_bytes (all_tuples h)) \<le> ps - 2 \<Longrightarrow> kept ps h = all_tuples h"
  unfolding kept_def all_tuples_def by (rule keep_chains_all)

lemma tval_le_env: "t \<in> set ts \<Longrightarrow> length (tval t) + 2 \<le> length (env_bytes ts)"
  by (induction ts) (auto simp: tsize_def)

lemma rehash_loop_frame:
  "rehash_loop mem h rest = Some h' \<Longrightarrow>
   h_mmap h' = h_mmap h \<and> h_length h' = h_length h \<and> h_offset h' = h_offset h \<and> h_addr h' = h_addr h"
proof (induction mem h rest rule: rehash_loop.induct)
  case (1 mem h rest)
  show ?case
    using "1.prems" "1.IH"
    by (subst (asm) rehash_loop.simps)
      (auto simp: Let_def nvram_set_frame split: list.splits if_splits)
qed

lemma set_default_frame [simp]:
  "h_mmap (set_default mem n v h) = h_mmap h" "h_length (set_default mem n v h) = h_length h"
  "h_offset (set_default mem n v h) = h_offset h" "h_addr (set_default mem n v h) = h_addr h"
  by (simp_all add: set_default_def nvram_set_frame split: option.splits)

lemma nvram_rehash_frame:
  "nvram_rehash mem e h = Some h' \<Longrightarrow>
   h_mmap h' = h_mmap h \<and> h_length h' = h_length h \<and> h_offset h' = h_offset h \<and> h_addr h' = h_addr h"
  by (auto simp: nvram_rehash_def Let_def dest!: rehash_loop_frame split: Option.bind_splits)

text \<open>What a commit leaves: a handle over an image in which the kept tuples can be read back.\<close>

lemma nvram_commit_kept:
  assumes inv: "nv_inv h" and pre: "commit_pre ps h" and good: "\<forall>t \<in> set (all_tuples h). good_tuple t"
  obtains h' rest d where
    "nvram_commit (\<lambda>_. True) e ps h = Some h'" "nv_inv h'"
    "h_length h' = ps" "h_offset h' = h_offset h" "length (h_mmap h') = ps"
    "drop (h_offset h + NVRAM_HDRSIZE) (h_mmap h') = env_bytes (kept ps h) @ 0 # rest"
    "nvram_header e h' = Some d" "n_magic d = NVRAM_MAGIC"
    "unat (n_len d) = NVRAM_ROUNDUP (NVRAM_HDRSIZE + length (env_bytes (kept ps h)) + 2) 4"
    "\<And>n. n \<notin> sdram_names \<or> n \<in> t_name ` set (kept ps h) \<Longrightarrow>
        nvram_get h' (Some n) = map_of (map (\<lambda>t. (t_name t, tval t)) (kept ps h)) n"
proof -
  have "\<forall>t \<in> set (all_tuples h). t_value t \<noteq> None"
    using good by (simp add: good_tuple_def)
  then obtain b rest d where b: "nvram_commit (\<lambda>_. True) e ps h = nvram_rehash (\<lambda>_. True) e (h\<lparr>h_mmap := b\<rparr>)"
    "length b = ps" "drop (h_offset h + NVRAM_HDRSIZE) b = env_bytes (kept ps h) @ 0 # rest"
    "peek b (h_offset h) NVRAM_HDRSIZE = Some (header_bytes e d)" "n_magic d = NVRAM_MAGIC"
    "unat (n_len d) = NVRAM_ROUNDUP (NVRAM_HDRSIZE + length (env_bytes (kept ps h)) + 2) 4"
    by (rule nvram_commit_image [OF pre, of "\<lambda>_. True" e]) (rule that)
  let ?h = "h\<lparr>h_mmap := b\<rparr>"
  have len: "h_offset h + NVRAM_HDRSIZE + length (env_bytes (kept ps h)) < ps"
    using arg_cong [OF b(3), of length] b(2) by simp
  have L: "h_length h = ps" "ps < 2 ^ 32" "h_offset h + NVRAM_HDRSIZE \<le> ps"
    using pre by (simp_all add: commit_pre_def)
  have fit: "\<forall>t \<in> set (kept ps h). length (tval t) + 1 \<le> usub32 (h_length ?h) (h_offset ?h)"
  proof
    fix t assume "t \<in> set (kept ps h)"
    then have "length (tval t) + 2 \<le> length (env_bytes (kept ps h))" by (rule tval_le_env)
    then show "length (tval t) + 1 \<le> usub32 (h_length ?h) (h_offset ?h)"
      using len L by (simp add: NVRAM_HDRSIZE_def)
  qed
  have "\<forall>t \<in> set (kept ps h). good_tuple t" using good kept_subset by blast
  then obtain h' where h': "nvram_rehash (\<lambda>_. True) e ?h = Some h'"
    and get: "\<forall>n. n \<notin> sdram_names \<or> n \<in> t_name ` set (kept ps h) \<longrightarrow>
        nvram_get h' (Some n) = map_of (map (\<lambda>t. (t_name t, tval t)) (kept ps h)) n"
    using nvram_rehash_env [of ?h "kept ps h" rest e] b L distinct_kept [OF inv] fit by auto
  note fr = nvram_rehash_frame [OF h']
  show thesis
  proof (rule that)
    show "nvram_commit (\<lambda>_. True) e ps h = Some h'" using b(1) h' by simp
    show "nv_inv h'" using h' by (rule nv_inv_rehash)
    show "nvram_header e h' = Some d" using fr b(4) by (simp add: nvram_header_def)
    show "\<And>n. n \<notin> sdram_names \<or> n \<in> t_name ` set (kept ps h) \<Longrightarrow>
        nvram_get h' (Some n) = map_of (map (\<lambda>t. (t_name t, tval t)) (kept ps h)) n"
      using get by blast
  qed (use fr b L in simp_all)
qed

lemma get_kept_all:
  assumes "nv_inv h" and "\<forall>t \<in> set (all_tuples h). good_tuple t" and "kept ps h = all_tuples h"
  shows "map_of (map (\<lambda>t. (t_name t, tval t)) (kept ps h)) n = nvram_get h (Some n)"
    and "nvram_get h (Some n) \<noteq> None \<Longrightarrow> n \<in> t_name ` set (kept ps h)"
proof -
  have eq: "nvram_get h (Some n) = map_of (map (\<lambda>t. (t_name t, tval t)) (kept ps h)) n"
    using get_all_tuples [OF assms(1)] assms(2,3) by (simp add: good_tuple_def)
  then show "map_of (map (\<lambda>t. (t_name t, tval t)) (kept ps h)) n = nvram_get h (Some n)" by simp
  assume "nvram_get h (Some n) \<noteq> None"
  then show "n \<in> t_name ` set (kept ps h)"
    unfolding eq by (auto simp: map_of_eq_None_iff image_image)
qed

end
