(* ===== verification/Nvram_Props.thy ===== *)
theory Nvram_Props
  imports Nvram_Commit
begin

text \<open>
  The properties of the NVRAM store: lookups after updates, refinement to a finite map, the
  checksum, commits that can be read and reopened, lost values, and the staging file.
\<close>

section \<open>Sample handles and the reopened image\<close>

definition ex_handle :: nvhandle where
  "ex_handle = \<lparr>h_mmap = replicate 64 0, h_addr = 0, h_length = 64, h_offset = 0,
     h_hash = (\<lambda>_. [])(bucket (str ''a'') := [\<lparr>t_name = str ''a'', t_value = Some (str ''bc'')\<rparr>]),
     h_dead = []\<rparr>"

definition ex_big :: "nat \<Rightarrow> nvhandle" where
  "ex_big n = \<lparr>h_mmap = replicate 0x8000 0, h_addr = 0, h_length = 0x8000, h_offset = 0,
     h_hash = (\<lambda>_. [])(bucket (str ''a'') := [\<lparr>t_name = str ''a'', t_value = Some (replicate n 65)\<rparr>]),
     h_dead = []\<rparr>"

lemma concat_single: "k < m \<Longrightarrow> concat (map ((\<lambda>_. [])(k := [t])) [0..<m]) = [t]"
  by (induction m) (auto simp: less_Suc_eq)

lemma all_ex_handle: "all_tuples ex_handle = [\<lparr>t_name = str ''a'', t_value = Some (str ''bc'')\<rparr>]"
  using concat_single [OF bucket_less] by (simp add: all_tuples_def ex_handle_def)

lemma all_ex_big: "all_tuples (ex_big n) = [\<lparr>t_name = str ''a'', t_value = Some (replicate n 65)\<rparr>]"
  using concat_single [OF bucket_less] by (simp add: all_tuples_def ex_big_def)

lemma ex_big_ok:
  "nv_inv (ex_big n)" "commit_pre 0x8000 (ex_big n)" "h_offset (ex_big n) = 0"
  "\<forall>t \<in> set (all_tuples (ex_big n)). good_tuple t"
  "length (env_bytes (all_tuples (ex_big n))) = n + 3"
  by (simp_all add: nv_inv_def commit_pre_def NVRAM_HDRSIZE_def all_ex_big good_tuple_def good_name_def
      tval_def tsize_def str_def of_char_def is_cstr_def) (simp_all add: ex_big_def)

lemma nvram_open_image:
  assumes len: "length b = ps" "NVRAM_MIN_SPACE \<le> ps" "ps < 2 ^ 32"
    and d: "peek b 0 NVRAM_HDRSIZE = Some bs" "d = header_of e bs" "n_magic d = NVRAM_MAGIC"
  shows "nvram_open mem e ps addr (Some b) rdonly =
    (if rdonly \<or> unat (n_len d) < ps
     then map_option Some (nvram_rehash mem e
       \<lparr>h_mmap = b, h_addr = addr, h_length = ps, h_offset = 0, h_hash = (\<lambda>_. []), h_dead = []\<rparr>)
     else Some None)"
proof -
  have "peek b 0 4 = Some (take 4 b)" and bs: "bs = take 20 b"
    using len d(1) by (simp_all add: peek_def NVRAM_MIN_SPACE_def NVRAM_HDRSIZE_def split: if_splits)
  moreover have "dec32 e (take 4 b) = NVRAM_MAGIC"
    using d(2,3) bs by (simp add: header_of_def min_def)
  ultimately have "find_magic e b [0..<Suc (usub32 ps NVRAM_MIN_SPACE div 4)] = Some (Some 0)"
    by (simp add: upt_conv_Cons del: upt_Suc)
  then show ?thesis
    using len d by (simp add: nvram_open_def nvram_header_def NVRAM_MIN_SPACE_def)
qed

lemma roundup_lt: "4 dvd ps \<Longrightarrow> q + 6 \<le> ps \<Longrightarrow> NVRAM_ROUNDUP (q + 2) 4 < ps"
  by (auto simp: NVRAM_ROUNDUP_def elim!: dvdE)

lemma roundup_ge: "4 dvd ps \<Longrightarrow> ps < q + 6 \<Longrightarrow> ps \<le> NVRAM_ROUNDUP (q + 2) 4"
  by (simp add: NVRAM_ROUNDUP_def) presburger

text \<open>What a commit writes can be opened again, read-only or for writing.\<close>

lemma commit_reopens:
  assumes inv: "nv_inv h" and pre: "commit_pre ps h" and good: "\<forall>t \<in> set (all_tuples h). good_tuple t"
    and off: "h_offset h = 0" and ps: "NVRAM_MIN_SPACE \<le> ps"
    and fits: "NVRAM_HDRSIZE + length (env_bytes (all_tuples h)) \<le> ps - 6"
  obtains h' h'' where "nvram_commit (\<lambda>_. True) e ps h = Some h'" "length (h_mmap h') = ps"
    "nvram_open (\<lambda>_. True) e ps addr (Some (h_mmap h')) rdonly = Some (Some h'')"
    "\<And>n. n \<notin> sdram_names \<or> nvram_get h (Some n) \<noteq> None \<Longrightarrow>
       nvram_get h'' (Some n) = nvram_get h (Some n)"
proof -
  obtain h' rest d where c: "nvram_commit (\<lambda>_. True) e ps h = Some h'" "length (h_mmap h') = ps"
    "h_offset h' = h_offset h"
    "drop (h_offset h + NVRAM_HDRSIZE) (h_mmap h') = env_bytes (kept ps h) @ 0 # rest"
    "nvram_header e h' = Some d" "n_magic d = NVRAM_MAGIC"
    "unat (n_len d) = NVRAM_ROUNDUP (NVRAM_HDRSIZE + length (env_bytes (kept ps h)) + 2) 4"
    by (rule nvram_commit_kept [OF inv pre good, of e]) (rule that)
  let ?o = "\<lparr>h_mmap = h_mmap h', h_addr = addr, h_length = ps, h_offset = 0, h_hash = (\<lambda>_. []), h_dead = []\<rparr>"
  have L: "ps < 2 ^ 32" "4 dvd ps" using pre by (simp_all add: commit_pre_def)
  have k: "kept ps h = all_tuples h" using fits off by (intro kept_all) simp
  note all = get_kept_all [OF inv good k]
  have dl: "unat (n_len d) < ps"
    unfolding c(7) k using fits ps by (intro roundup_lt L(2)) (simp add: NVRAM_MIN_SPACE_def)
  obtain bs where bs: "peek (h_mmap h') 0 NVRAM_HDRSIZE = Some bs" "d = header_of e bs"
    using c(3,5) off by (auto simp: nvram_header_def split: option.splits)
  have fit: "length (tval t) + 1 \<le> usub32 ps 0" if "t \<in> set (kept ps h)" for t
    using tval_le_env [OF that] k fits L by (simp add: NVRAM_HDRSIZE_def)
  have "\<exists>h''. nvram_rehash (\<lambda>_. True) e ?o = Some h'' \<and>
      (\<forall>n. n \<notin> sdram_names \<or> n \<in> t_name ` set (kept ps h) \<longrightarrow>
        nvram_get h'' (Some n) = map_of (map (\<lambda>t. (t_name t, tval t)) (kept ps h)) n)"
  proof (rule nvram_rehash_env)
    show "drop (h_offset ?o + NVRAM_HDRSIZE) (h_mmap ?o) = env_bytes (kept ps h) @ 0 # rest"
      using c(4) off by simp
    show "\<forall>t \<in> set (kept ps h). good_tuple t" using good k by simp
    show "distinct (map t_name (kept ps h))" by (rule distinct_kept [OF inv])
  qed (use bs(1) fit in \<open>simp_all add: peek_Some_iff\<close>)
  then obtain h'' where h'': "nvram_rehash (\<lambda>_. True) e ?o = Some h''"
    and get: "\<forall>n. n \<notin> sdram_names \<or> n \<in> t_name ` set (kept ps h) \<longrightarrow>
        nvram_get h'' (Some n) = map_of (map (\<lambda>t. (t_name t, tval t)) (kept ps h)) n" by blast
  have "nvram_open (\<lambda>_. True) e ps addr (Some (h_mmap h')) rdonly = Some (Some h'')"
    using nvram_open_image [OF c(2) ps L(1) bs c(6)] dl h'' by simp
  moreover have "nvram_get h'' (Some n) = nvram_get h (Some n)"
    if n: "n \<notin> sdram_names \<or> nvram_get h (Some n) \<noteq> None" for n
  proof -
    have "n \<notin> sdram_names \<or> n \<in> t_name ` set (kept ps h)" using n all(2) by blast
    with get show ?thesis by (simp only: all(1))
  qed
  ultimately show thesis using c(1,2) by (intro that) blast+
qed

section \<open>Properties\<close>

text \<open>C6. After a successful \<open>nvram_set\<close>, \<open>nvram_get\<close> returns the new value for that name and
  the old value for every other name.\<close>

theorem nvram_set_get:
  assumes "fst (nvram_set mem h n v) = 0"
  shows "nvram_get (snd (nvram_set mem h n v)) (Some m) = (if m = n then Some v else nvram_get h (Some m))"
  by (rule get_set_ok [OF assms])

theorem nvram_set_get_witness:
  "nvram_get (snd (nvram_set (\<lambda>_. True) ex_handle (str ''a'') (str ''xyz''))) (Some (str ''a''))
     = Some (str ''xyz'')"
proof -
  have "fst (nvram_set (\<lambda>_. True) ex_handle (str ''a'') (str ''xyz'')) = 0"
    by (simp add: set_ok_iff ex_handle_def)
  from nvram_set_get [OF this] show ?thesis by simp
qed

text \<open>C7. Any sequence of sets and unsets, run on the hash table, changes what \<open>nvram_get\<close> sees
  exactly as the same sequence changes a finite map (a set whose value does not fit the partition is
  refused), and keeps the table's invariant.\<close>

theorem nvram_refines_map:
  assumes "nv_inv h"
  shows "nv_inv (foldl nv_apply h ops) \<and>
    (\<lambda>n. nvram_get (foldl nv_apply h ops) (Some n)) =
      foldl (nv_spec (usub32 (h_length h) (h_offset h))) (\<lambda>n. nvram_get h (Some n)) ops"
  by (rule nv_run_spec [OF assms])

theorem nvram_refines_map_witness:
  "nvram_get (foldl nv_apply ex_handle [OpSet (str ''b'') (str ''x''), OpUnset (str ''a'')]) (Some (str ''b''))
     = Some (str ''x'')"
proof -
  have "nv_inv ex_handle" by (simp add: nv_inv_def ex_handle_def)
  note eq = nvram_refines_map [OF this, of "[OpSet (str ''b'') (str ''x''), OpUnset (str ''a'')]"]
  show ?thesis
    using fun_cong [OF conjunct2 [OF eq], of "str ''b''"] by (simp add: ex_handle_def str_def of_char_def)
qed

text \<open>C8. The table-driven CRC-8 of \<open>crc.c\<close> is the bit-serial CRC with the reflected polynomial
  \<open>0xAB\<close>, and a checksum may be computed piece by piece.\<close>

theorem hndcrc8_bitwise:
  "hndcrc8 crc bs = foldl (\<lambda>c b. crc8_byte (c XOR b)) crc bs
   \<and> hndcrc8 crc (concat cs) = foldl hndcrc8 crc cs"
  using crc8.run_bitwise crc8.run_chunks by simp







text \<open>C12. A committed image carries its checksum: the low byte of \<open>crc_ver_init\<close> is the CRC of the
  header (with that byte zero) and of the data the header's length covers, which lies inside the
  partition.\<close>

theorem nvram_commit_checksum:
  assumes "commit_pre ps h" and "\<forall>t \<in> set (all_tuples h). t_value t \<noteq> None"
    and "nvram_commit mem e ps h = Some h'"
  shows "\<exists>d body. nvram_header e h' = Some d \<and> n_magic d = NVRAM_MAGIC
    \<and> 20 \<le> unat (n_len d) \<and> h_offset h' + unat (n_len d) \<le> length (h_mmap h')
    \<and> peek (h_mmap h') (h_offset h' + 20) (unat (n_len d) - 20) = Some body
    \<and> n_crc_ver_init d AND 0xff =
        ucast (commit_crc e (d\<lparr>n_crc_ver_init := n_crc_ver_init d AND NOT 0xff\<rparr>) body)"
proof -
  obtain b d body where c: "nvram_commit mem e ps h = nvram_rehash mem e (h\<lparr>h_mmap := b\<rparr>)" "length b = ps"
    "peek b (h_offset h) NVRAM_HDRSIZE = Some (header_bytes e d)" "n_magic d = NVRAM_MAGIC"
    "20 \<le> unat (n_len d) \<and> h_offset h + unat (n_len d) \<le> ps"
    "peek b (h_offset h + NVRAM_HDRSIZE) (unat (n_len d) - NVRAM_HDRSIZE) = Some body"
    "n_crc_ver_init d AND 0xff = ucast (commit_crc e (d\<lparr>n_crc_ver_init := n_crc_ver_init d AND NOT 0xff\<rparr>) body)"
    by (rule nvram_commit_image [OF assms(1,2), of mem e]) (rule that)
  have "nvram_rehash mem e (h\<lparr>h_mmap := b\<rparr>) = Some h'" using c(1) assms(3) by simp
  note fr = nvram_rehash_frame [OF this]
  have "nvram_header e h' = Some d" using fr c(3) by (simp add: nvram_header_def)
  then show ?thesis using fr c by (auto simp: NVRAM_HDRSIZE_def)
qed

theorem nvram_commit_checksum_witness:
  "\<exists>h' d. nvram_commit (\<lambda>_. True) LE 0x8000 (ex_big 5) = Some h' \<and> nvram_header LE h' = Some d
     \<and> n_magic d = NVRAM_MAGIC"
proof -
  have vals: "\<forall>t \<in> set (all_tuples (ex_big 5)). t_value t \<noteq> None"
    using ex_big_ok(4) [of 5] by (auto simp: good_tuple_def)
  obtain h' where "nvram_commit (\<lambda>_. True) LE 0x8000 (ex_big 5) = Some h'"
    by (rule nvram_commit_kept [OF ex_big_ok(1,2,4), of LE])
  with nvram_commit_checksum [OF ex_big_ok(2) vals this] show ?thesis by blast
qed

text \<open>A set that replaces a value and runs out of memory reports \<open>-ENOMEM\<close>, but the old value is
  gone: the variable then has no value, and the other variables keep theirs.\<close>

theorem nvram_set_loses_value:
  assumes "nvram_get h (Some n) = Some old" and "old \<noteq> v"
    and "length v + 1 \<le> usub32 (h_length h) (h_offset h)" and "\<not> mem (length v + 1)"
  shows "fst (nvram_set mem h n v) = -12 \<and>
    nvram_get (snd (nvram_set mem h n v)) (Some m) = (if m = n then None else nvram_get h (Some m))"
proof (cases "walk n (h_hash h (bucket n))")
  case None
  with assms(1) show ?thesis by (simp add: nvram_get_def)
next
  case (Some ptr)
  obtain p t r where ptr: "ptr = (p, t, r)" by (cases ptr)
  note W = walk_SomeD [OF Some [unfolded ptr]]
  have t: "t_value t = Some old" using assms(1) Some ptr by (simp add: nvram_get_def)
  then have set: "nvram_set mem h n v =
      (-12, h\<lparr>h_hash := (h_hash h)(bucket n := p @ t\<lparr>t_value := None\<rparr> # r)\<rparr>)"
    using assms(2-4) Some ptr by (simp add: nvram_set_def nvram_realloc_def)
  show ?thesis
  proof (cases "m = n")
    case True
    then show ?thesis
      using set W by (simp add: nvram_get_chain chain_get_append chain_get_notin)
  next
    case False
    then show ?thesis using set get_set_other [of m n mem h v] by simp
  qed
qed

theorem nvram_set_loses_value_witness:
  "fst (nvram_set (\<lambda>_. False) ex_handle (str ''a'') (str ''new'')) = -12
   \<and> nvram_get (snd (nvram_set (\<lambda>_. False) ex_handle (str ''a'') (str ''new''))) (Some (str ''a'')) = None"
proof -
  have "nvram_get ex_handle (Some (str ''a'')) = Some (str ''bc'')"
    by (simp add: nvram_get_chain ex_handle_def)
  from nvram_set_loses_value [OF this, of "str ''new''" "\<lambda>_. False" "str ''a''"] show ?thesis
    by (simp add: ex_handle_def str_def of_char_def)
qed

text \<open>Saving the partition to the staging file and writing the staging file back restores the
  saved bytes, whatever the device holds by then, and removes the staging file.\<close>

theorem staging_roundtrip:
  assumes "f_mtd f = Some m" and "0 < ps" and "ps \<le> length m"
  shows "\<exists>f1. nvram_to_staging ps f = (0, f1) \<and> f_mtd f1 = Some m
    \<and> staging_to_nvram ps (f1\<lparr>f_mtd := Some m'\<rparr>) =
        (0, f1\<lparr>f_mtd := Some (take ps m @ drop ps m'), f_stage := None\<rparr>)"
  using assms by (auto simp: nvram_to_staging_def staging_to_nvram_def overwrite_def)

theorem staging_roundtrip_witness:
  "\<exists>f1. nvram_to_staging 2 \<lparr>f_mtd = Some [1, 2, 3], f_stage = Some [9, 9, 9, 9]\<rparr> = (0, f1)
     \<and> fst (staging_to_nvram 2 (f1\<lparr>f_mtd := Some [7, 7, 7]\<rparr>)) = 0"
  using staging_roundtrip [of "\<lparr>f_mtd = Some [1, 2, 3], f_stage = Some [9, 9, 9, 9]\<rparr>" "[1, 2, 3]" 2 "[7, 7, 7]"]
  by auto

end
