(* ===== verification/Nvram_Cli.thy ===== *)
theory Nvram_Cli
  imports Nvram_Props
begin

text \<open>
  \<open>cli.c\<close> of \<open>package/utils/nvram/src\<close>: the program \<open>nvram\<close>, from its arguments to the exit status,
  the lines it prints and the files it leaves.

  What is printed is a list of \<open>cli_out\<close>, in order: a line of a command, the numbers of \<open>info\<close> (its last
  line derives a percentage from two of them with floating point; it is left out), or a message on
  \<open>stderr\<close>. The files are those of \<open>nvfiles\<close>; when no device is found the partition size stays 0 and
  nothing can be opened. A file is mapped up to its end: reading past it has no value.
\<close>

section \<open>The program\<close>

record nvinfo =
  i_magic :: u32
  i_len :: u32
  i_offset :: nat
  i_crc :: u32
  i_calc :: u8
  i_version :: u32
  i_init :: u32
  i_config :: u32
  i_refresh :: u32
  i_ncdl :: u32
  i_avail :: nat

datatype cli_out =
    Line bytes
  | Info nvinfo
  | NeedsArgument bytes
  | UnknownOption bytes
  | NotOpened
  | Usage

record cli =
  c_handle :: nvhandle
  c_out :: "cli_out list"
  c_stat :: int
  c_done :: nat
  c_commit :: bool

subsection \<open>Opening\<close>

definition found_size :: "nat \<Rightarrow> nvfiles \<Rightarrow> nat" where
  "found_size ps f = (if f_mtd f = None then 0 else ps)"

definition open_file :: "(nat \<Rightarrow> bool) \<Rightarrow> endian \<Rightarrow> nat \<Rightarrow> int \<Rightarrow> nvfiles \<Rightarrow> bytes option \<Rightarrow> bool \<Rightarrow> nvhandle option option" where
  "open_file mem e ps addr f file rdonly =
     nvram_open mem e (found_size ps f) addr (map_option (take ps) file) rdonly"

definition nvram_open_rdonly :: "(nat \<Rightarrow> bool) \<Rightarrow> endian \<Rightarrow> nat \<Rightarrow> int \<Rightarrow> nvfiles \<Rightarrow> nvhandle option option" where
  "nvram_open_rdonly mem e ps addr f =
     (let file = (case f_stage f of None \<Rightarrow> f_mtd f | Some s \<Rightarrow> Some s)
      in case file of None \<Rightarrow> Some None
         | Some s \<Rightarrow> open_file mem e ps addr f (Some s) True)"

definition nvram_open_staging :: "(nat \<Rightarrow> bool) \<Rightarrow> endian \<Rightarrow> nat \<Rightarrow> int \<Rightarrow> nvfiles \<Rightarrow> nvhandle option option \<times> nvfiles" where
  "nvram_open_staging mem e ps addr f =
     (let (ok, f) = (case f_stage f of Some _ \<Rightarrow> (0, f) | None \<Rightarrow> nvram_to_staging (found_size ps f) f)
      in if ok = 0 then (open_file mem e ps addr f (f_stage f) False, f) else (Some None, f))"

subsection \<open>The commands\<close>

definition do_show :: "(nat \<Rightarrow> bool) \<Rightarrow> nvhandle \<Rightarrow> (int \<times> cli_out list) option" where
  "do_show mem h =
     (let ts = nvram_getall mem h
      in if ts = [] then Some (1, [])
         else if \<exists>t \<in> set ts. t_value t = None then None
         else Some (0, map (\<lambda>t. Line (t_name t @ [61] @ the (t_value t))) ts))"

definition do_get :: "nvhandle \<Rightarrow> bytes \<Rightarrow> int \<times> cli_out list" where
  "do_get h var = (case nvram_get h (Some var) of None \<Rightarrow> (1, []) | Some v \<Rightarrow> (0, [Line v]))"

definition do_unset :: "nvhandle \<Rightarrow> bytes \<Rightarrow> int \<times> nvhandle" where
  "do_unset h var = nvram_unset h (Some var)"

definition do_set :: "(nat \<Rightarrow> bool) \<Rightarrow> nvhandle \<Rightarrow> bytes \<Rightarrow> int \<times> nvhandle" where
  "do_set mem h pair =
     (if 61 \<notin> set pair then (1, h)
      else nvram_set mem h (takeWhile (\<lambda>c. c \<noteq> 61) pair) (tl (dropWhile (\<lambda>c. c \<noteq> 61) pair)))"

definition do_info :: "endian \<Rightarrow> nvhandle \<Rightarrow> (int \<times> cli_out list) option" where
  "do_info e h =
     do { d \<leftarrow> nvram_header e h;
          b \<leftarrow> peek (h_mmap h) (h_offset h + NVRAM_CRC_START_POSITION)
                 (usub32 (unat (n_len d)) NVRAM_CRC_START_POSITION);
          let crc = hndcrc8 0xff b;
          Some (0, [Info \<lparr>i_magic = n_magic d, i_len = n_len d, i_offset = h_offset h,
            i_crc = n_crc_ver_init d AND 0xff, i_calc = crc,
            i_version = drop_bit 8 (n_crc_ver_init d) AND 0xff,
            i_init = drop_bit 16 (n_crc_ver_init d) AND 0xffff,
            i_config = n_config_refresh d AND 0xffff,
            i_refresh = drop_bit 16 (n_config_refresh d) AND 0xffff,
            i_ncdl = n_config_ncdl d,
            i_avail = usub32 (usub32 (h_length h) (h_offset h)) (unat (n_len d))\<rparr>]) }"

text \<open>The scan for a command that writes: \<open>set\<close> or \<open>unset\<close> as the last argument makes it compare
  \<open>argv[argc]\<close>, which is NULL.\<close>

fun wants_write :: "bytes list \<Rightarrow> bool option" where
  "wants_write [] = Some False"
| "wants_write (a # as) =
     (if a = str ''set'' \<or> a = str ''unset'' then (if as = [] then None else Some True)
      else if a = str ''commit'' then Some True
      else wants_write as)"

definition with_arg :: "(nat \<Rightarrow> bool) \<Rightarrow> bytes \<Rightarrow> bytes \<Rightarrow> cli \<Rightarrow> cli" where
  "with_arg mem cmd x c =
     (if cmd = str ''get'' then
        (let (s, out) = do_get (c_handle c) x in c\<lparr>c_stat := s, c_out := c_out c @ out\<rparr>)
      else if cmd = str ''unset'' then
        (let (s, h) = do_unset (c_handle c) x in c\<lparr>c_stat := s, c_handle := h\<rparr>)
      else (let (s, h) = do_set mem (c_handle c) x in c\<lparr>c_stat := s, c_handle := h\<rparr>))"

definition done1 :: "cli \<Rightarrow> cli" where
  "done1 c = c\<lparr>c_done := c_done c + 1\<rparr>"

definition complain :: "cli_out \<Rightarrow> cli \<Rightarrow> cli" where
  "complain m c = c\<lparr>c_out := c_out c @ [m], c_done := 0\<rparr>"

definition printed :: "cli \<Rightarrow> int \<times> cli_out list \<Rightarrow> cli" where
  "printed c r = c\<lparr>c_stat := fst r, c_out := c_out c @ snd r\<rparr>"

fun commands :: "(nat \<Rightarrow> bool) \<Rightarrow> endian \<Rightarrow> bytes list \<Rightarrow> cli \<Rightarrow> cli option" where
  "commands mem e [] c = Some c"
| "commands mem e (a # as) c =
     (if a = str ''show'' then
        do { r \<leftarrow> do_show mem (c_handle c); commands mem e as (done1 (printed c r)) }
      else if a = str ''info'' then
        do { r \<leftarrow> do_info e (c_handle c); commands mem e as (done1 (printed c r)) }
      else if a = str ''get'' \<or> a = str ''unset'' \<or> a = str ''set'' then
        (case as of [] \<Rightarrow> Some (complain (NeedsArgument a) c)
         | x # as \<Rightarrow> commands mem e as (done1 (with_arg mem a x c)))
      else if a = str ''commit'' then commands mem e as (done1 (c\<lparr>c_commit := True\<rparr>))
      else Some (complain (UnknownOption a) c))"

subsection \<open>main\<close>

text \<open>The staging file is mapped shared: after \<open>nvram_commit\<close> it holds the image.\<close>

definition store_stage :: "nvhandle \<Rightarrow> nvfiles \<Rightarrow> nvfiles" where
  "store_stage h f = f\<lparr>f_stage := map_option (\<lambda>s. overwrite s (h_mmap h)) (f_stage f)\<rparr>"

definition cli_start :: "nvhandle \<Rightarrow> cli" where
  "cli_start h = \<lparr>c_handle = h, c_out = [], c_stat = 1, c_done = 0, c_commit = False\<rparr>"

definition cli_close :: "(nat \<Rightarrow> bool) \<Rightarrow> endian \<Rightarrow> nat \<Rightarrow> bool \<Rightarrow> cli \<Rightarrow> nvfiles \<Rightarrow> (int \<times> nvfiles) option" where
  "cli_close mem e ps wr c f =
     do { (s, f) \<leftarrow> (if wr then do { h \<leftarrow> nvram_commit mem e ps (c_handle c); Some (0, store_stage h f) }
                   else Some (c_stat c, f));
          Some (if c_commit c then staging_to_nvram (found_size ps f) f else (s, f)) }"

definition nvram_main ::
    "(nat \<Rightarrow> bool) \<Rightarrow> endian \<Rightarrow> nat \<Rightarrow> int \<Rightarrow> bytes list \<Rightarrow> nvfiles \<Rightarrow> (int \<times> cli_out list \<times> nvfiles) option" where
  "nvram_main mem e ps addr args f =
     do { wr \<leftarrow> wants_write args;
          let (opened, f) = (if wr then nvram_open_staging mem e ps addr f
                             else (nvram_open_rdonly mem e ps addr f, f));
          nvram \<leftarrow> opened;
          case nvram of
            None \<Rightarrow> Some (1, [NotOpened], f)
          | Some h \<Rightarrow>
              if args = [] then Some (1, [Usage], f)
              else do { c \<leftarrow> commands mem e args (cli_start h);
                        (s, f) \<leftarrow> cli_close mem e ps wr c f;
                        Some (if c_done c = 0 then (1, c_out c @ [Usage], f) else (s, c_out c, f)) } }"

end
