(* ===== verification/Nvram_Cli_Laws.thy ===== *)
theory Nvram_Cli_Laws
  imports Nvram_Cli
begin

text \<open>
  The command line tool end to end: what an opened handle satisfies, the image a \<open>set\<close> leaves in the
  staging file or the device, and what the next run of the program reads from it.
\<close>

section \<open>Opened handles\<close>

definition good_handle :: "nvhandle \<Rightarrow> bool" where
  "good_handle h \<longleftrightarrow> (\<forall>i. \<forall>t \<in> set (h_hash h i). good_tuple t)"

lemma good_all_tuples: "good_handle h \<Longrightarrow> \<forall>t \<in> set (all_tuples h). good_tuple t"
  by (auto simp: good_handle_def all_tuples_def)

lemma good_free [simp]: "good_handle (nvram_free h)"
  by (simp add: good_handle_def nvram_free_def)

lemma good_upd:
  "good_handle h \<Longrightarrow> \<forall>t \<in> set c. good_tuple t \<Longrightarrow> good_handle (h\<lparr>h_hash := (h_hash h)(i := c)\<rparr>)"
  by (simp add: good_handle_def)

lemma good_set:
  assumes h: "good_handle h" and n: "good_name n" and v: "is_cstr v"
  shows "good_handle (snd (nvram_set (\<lambda>_. True) h n v))"
proof (cases rule: nvram_set_cases [of "\<lambda>_. True" h n v])
  case new
  then show ?thesis
    using h n v by (auto simp: good_handle_def good_tuple_def tval_def)
next
  case (lost p t r)
  have "length v + 1 > usub32 (h_length h) (h_offset h)"
    using set_ok_iff [of h n v] lost(2) by simp
  then have "nvram_set (\<lambda>_. True) h n v = (-12, h\<lparr>h_hash := (h_hash h)(bucket n := p @ t # r)\<rparr>)"
    using lost(1) by (simp add: nvram_set_def nvram_realloc_def Let_def)
  then show ?thesis
    using h walk_SomeD [OF lost(1)] by (simp add: fun_upd_idem)
next
  case (changed p t r)
  have "\<forall>u \<in> set (p @ t # r). good_tuple u"
    using h walk_SomeD [OF changed(1)] by (metis good_handle_def)
  then show ?thesis
    using h v unfolding changed(2) snd_conv
    by (intro good_upd) (auto simp: good_tuple_def tval_def)
qed (simp add: h)

lemma good_cut:
  assumes "61 \<in> set s" and "is_cstr s"
  shows "good_name (takeWhile (\<lambda>c. c \<noteq> 61) s)" "is_cstr (tl (dropWhile (\<lambda>c. c \<noteq> 61) s))"
proof -
  show "good_name (takeWhile (\<lambda>c. c \<noteq> 61) s)"
    using assms by (auto simp: good_name_def is_cstr_def dest: set_takeWhileD)
  have "set (tl xs) \<subseteq> set xs" for xs :: bytes by (cases xs) auto
  then have "set (tl (dropWhile (\<lambda>c. c \<noteq> 61) s)) \<subseteq> set s" by (blast dest: set_dropWhileD)
  then show "is_cstr (tl (dropWhile (\<lambda>c. c \<noteq> 61) s))"
    using assms(2) by (auto simp: is_cstr_def)
qed

lemma good_rehash_loop: "rehash_loop mem h rest = Some h' \<Longrightarrow> mem = (\<lambda>_. True) \<Longrightarrow> good_handle h \<Longrightarrow> good_handle h'"
proof (induction mem h rest rule: rehash_loop.induct)
  case (1 mem h rest)
  show ?case
    using "1.prems" "1.IH"
    by (subst (asm) rehash_loop.simps)
      (auto simp: Let_def good_set good_cut split: list.splits if_splits)
qed

lemma hex_digit_nz: "n < 16 \<Longrightarrow> hex_digit n \<noteq> 0"
proof -
  have "list_all (\<lambda>n. hex_digit n \<noteq> 0) [0..<16]" by (simp add: hex_digit_def upt_rec)
  moreover assume "n < 16"
  ultimately show ?thesis by (simp add: list_all_iff)
qed

lemma is_cstr_hex [simp]: "is_cstr (hex_str w n)"
  by (induction w arbitrary: n) (simp_all add: hex_digit_nz)

lemma good_set_default:
  "good_handle h \<Longrightarrow> good_name n \<Longrightarrow> is_cstr v \<Longrightarrow> good_handle (set_default (\<lambda>_. True) n v h)"
  by (simp add: set_default_def good_set split: option.splits)

lemma good_sdram: "n \<in> sdram_names \<Longrightarrow> good_name n"
  by (auto simp: sdram_names_def good_name_def str_def of_char_def)

lemma good_rehash: "nvram_rehash (\<lambda>_. True) e h = Some h' \<Longrightarrow> good_handle h'"
  by (auto simp: nvram_rehash_def Let_def sdram_names_def str_def of_char_def
      intro!: good_set_default good_sdram dest!: good_rehash_loop split: Option.bind_splits)

lemma find_magic_mem: "find_magic e b js = Some (Some off) \<Longrightarrow> \<exists>i \<in> set js. off = 4 * i"
  by (induction js) (auto split: option.splits if_splits)

lemma nvram_open_ok:
  assumes "nvram_open (\<lambda>_. True) e ps addr (Some b) rdonly = Some (Some h)" and "length b = ps"
    and "4 dvd ps" "NVRAM_MIN_SPACE \<le> ps" "ps < 2 ^ 32" and "0 \<le> addr" "4 dvd addr"
  shows "nv_inv h" "good_handle h" "commit_pre ps h"
    "nvram_open (\<lambda>_. True) e ps addr (Some b) True = Some (Some h)"
proof -
  obtain off where off: "find_magic e b [0..<Suc (usub32 ps NVRAM_MIN_SPACE div 4)] = Some (Some off)"
    and re: "nvram_rehash (\<lambda>_. True) e \<lparr>h_mmap = b, h_addr = addr, h_length = ps, h_offset = off,
               h_hash = (\<lambda>_. []), h_dead = []\<rparr> = Some h"
    and op: "nvram_open (\<lambda>_. True) e ps addr (Some b) True = Some (Some h)"
    using assms(1) by (auto simp: nvram_open_def Let_def split: option.splits if_splits Option.bind_splits)
  show "nv_inv h" "good_handle h" using re by (rule nv_inv_rehash, rule good_rehash)
  show "nvram_open (\<lambda>_. True) e ps addr (Some b) True = Some (Some h)" by (rule op)
  have "4 dvd off \<and> off + 0x8000 \<le> ps"
    using find_magic_mem [OF off] assms(3-5) by (auto simp: NVRAM_MIN_SPACE_def simp del: upt_Suc)
  then show "commit_pre ps h"
    using nvram_rehash_frame [OF re] assms by (simp add: commit_pre_def NVRAM_HDRSIZE_def)
qed

section \<open>The space a set takes\<close>

definition chain_size :: "nvtuple list \<Rightarrow> nat" where
  "chain_size ts = sum_list (map tsize ts)"

lemma length_env_bytes: "length (env_bytes ts) = chain_size ts"
  by (induction ts) (simp_all add: chain_size_def)

lemma chain_size_simps [simp]:
  "chain_size [] = 0" "chain_size (t # ts) = tsize t + chain_size ts"
  "chain_size (ts @ us) = chain_size ts + chain_size us"
  by (simp_all add: chain_size_def)

lemma length_env_all: "length (env_bytes (all_tuples h)) = (\<Sum>i < NVRAM_HASHSIZE. chain_size (h_hash h i))"
proof -
  have "chain_size (concat (map c [0..<k])) = (\<Sum>i < k. chain_size (c i))" for c k
    by (induction k) simp_all
  then show ?thesis by (simp add: length_env_bytes all_tuples_def)
qed

lemma env_upd_le:
  assumes "i < NVRAM_HASHSIZE" and "chain_size c \<le> chain_size (h_hash h i) + k"
  shows "length (env_bytes (all_tuples (h\<lparr>h_hash := (h_hash h)(i := c)\<rparr>))) \<le> length (env_bytes (all_tuples h)) + k"
proof -
  have "(\<Sum>j < NVRAM_HASHSIZE. chain_size (((h_hash h)(i := c)) j))
      = chain_size c + (\<Sum>j \<in> {..< NVRAM_HASHSIZE} - {i}. chain_size (h_hash h j))"
    using assms(1) by (subst sum.remove [of _ i]) (auto intro: sum.cong)
  moreover have "(\<Sum>j < NVRAM_HASHSIZE. chain_size (h_hash h j))
      = chain_size (h_hash h i) + (\<Sum>j \<in> {..< NVRAM_HASHSIZE} - {i}. chain_size (h_hash h j))"
    using assms(1) by (subst sum.remove [of _ i]) auto
  ultimately show ?thesis using assms(2) by (simp add: length_env_all)
qed

lemma env_set_le:
  "length (env_bytes (all_tuples (snd (nvram_set mem h n v)))) \<le>
     length (env_bytes (all_tuples h)) + length n + length v + 2"
proof (cases rule: nvram_set_cases [of mem h n v])
  case new
  have "length (env_bytes (all_tuples (snd (nvram_set mem h n v)))) \<le>
      length (env_bytes (all_tuples h)) + (length n + length v + 2)"
    unfolding new(2) snd_conv by (rule env_upd_le [OF bucket_less]) (simp add: tsize_def tval_def)
  then show ?thesis by simp
next
  case (lost p t r)
  have "length (env_bytes (all_tuples (snd (nvram_set mem h n v)))) \<le>
      length (env_bytes (all_tuples h)) + (length n + length v + 2)"
    unfolding lost(2) snd_conv
    using walk_SomeD [OF lost(1)] by (intro env_upd_le [OF bucket_less]) (simp add: tsize_def tval_def)
  then show ?thesis by simp
next
  case (changed p t r)
  have "length (env_bytes (all_tuples (snd (nvram_set mem h n v)))) \<le>
      length (env_bytes (all_tuples h)) + (length n + length v + 2)"
    unfolding changed(2) snd_conv
    using walk_SomeD [OF changed(1)] by (intro env_upd_le [OF bucket_less]) (simp add: tsize_def tval_def)
  then show ?thesis by simp
qed simp

text \<open>After opening, the variables of the memory controller have values.\<close>

lemma set_default_some:
  "length v + 1 \<le> usub32 (h_length h) (h_offset h) \<Longrightarrow>
   nvram_get (set_default (\<lambda>_. True) n v h) (Some k) = None \<longleftrightarrow> k \<noteq> n \<and> nvram_get h (Some k) = None"
  by (auto simp: set_default_def get_set_ok set_ok_iff split: option.splits)

lemma rehash_sdram:
  assumes "nvram_rehash (\<lambda>_. True) e h = Some h'" and "11 \<le> usub32 (h_length h) (h_offset h)"
    and "k \<in> sdram_names"
  shows "nvram_get h' (Some k) \<noteq> None"
proof -
  have len: "length (str s) = length s" for s by (simp add: str_def)
  show ?thesis
  proof
    assume "nvram_get h' (Some k) = None"
    with assms show False
      by (auto simp: nvram_rehash_def Let_def sdram_names_def set_default_some len
          dest!: rehash_loop_frame split: Option.bind_splits)
  qed
qed

lemma nvram_open_rehash:
  assumes "nvram_open mem e ps addr (Some b) rdonly = Some (Some h)"
  obtains off where "off \<le> 4 * (usub32 ps NVRAM_MIN_SPACE div 4)"
    "nvram_rehash mem e \<lparr>h_mmap = b, h_addr = addr, h_length = ps, h_offset = off,
       h_hash = (\<lambda>_. []), h_dead = []\<rparr> = Some h"
proof -
  obtain off where "find_magic e b [0..<Suc (usub32 ps NVRAM_MIN_SPACE div 4)] = Some (Some off)"
    and re: "nvram_rehash mem e \<lparr>h_mmap = b, h_addr = addr, h_length = ps, h_offset = off,
               h_hash = (\<lambda>_. []), h_dead = []\<rparr> = Some h"
    using assms(1) by (auto simp: nvram_open_def Let_def split: option.splits if_splits Option.bind_splits)
  then show thesis
    using find_magic_mem by (intro that [of off]) (fastforce simp del: upt_Suc)+
qed

section \<open>The commands\<close>

lemma cmd_distinct [simp]:
  "str ''get'' \<noteq> str ''show''" "str ''get'' \<noteq> str ''info''" "str ''get'' \<noteq> str ''set''"
  "str ''get'' \<noteq> str ''unset''" "str ''get'' \<noteq> str ''commit''"
  "str ''set'' \<noteq> str ''show''" "str ''set'' \<noteq> str ''info''" "str ''set'' \<noteq> str ''get''"
  "str ''set'' \<noteq> str ''unset''"
  "str ''commit'' \<noteq> str ''show''" "str ''commit'' \<noteq> str ''info''" "str ''commit'' \<noteq> str ''get''"
  "str ''commit'' \<noteq> str ''unset''" "str ''commit'' \<noteq> str ''set''"
  by (simp_all add: str_def of_char_def)

lemma do_set_pair: "good_name n \<Longrightarrow> do_set mem h (n @ 61 # v) = nvram_set mem h n v"
  by (simp add: do_set_def good_name_def takeWhile_name)

lemma main_get:
  assumes "nvram_open_rdonly mem e ps addr f = Some (Some h)"
    and "k \<notin> {str ''set'', str ''unset'', str ''commit''}"
  shows "nvram_main mem e ps addr [str ''get'', k] f = Some (fst (do_get h k), snd (do_get h k), f)"
  using assms by (simp add: nvram_main_def with_arg_def done1_def cli_start_def cli_close_def case_prod_beta)

text \<open>\<open>nvram set n=v\<close> without and with \<open>commit\<close>.\<close>

lemma main_set:
  assumes f: "f_mtd f = Some m" "f_stage f = None" "ps \<le> length m" "0 < ps"
    and op: "nvram_open mem e ps addr (Some (take ps m)) False = Some (Some h)"
    and n: "good_name n" and set: "nvram_set mem h n v = (0, h1)"
    and commit: "nvram_commit mem e ps h1 = Some h'" "length (h_mmap h') = ps"
  shows "nvram_main mem e ps addr [str ''set'', n @ 61 # v] f
      = Some (0, [], f\<lparr>f_stage := Some (h_mmap h')\<rparr>)"
    "nvram_main mem e ps addr [str ''set'', n @ 61 # v, str ''commit''] f
      = Some (0, [], f\<lparr>f_mtd := Some (h_mmap h' @ drop ps m), f_stage := None\<rparr>)"
proof -
  have st: "nvram_open_staging mem e ps addr f = (Some (Some h), f\<lparr>f_stage := Some (take ps m)\<rparr>)"
    using f op by (simp add: nvram_open_staging_def nvram_to_staging_def found_size_def open_file_def
        overwrite_def min_absorb2)
  note run = nvram_main_def st do_set_pair [OF n] set commit with_arg_def done1_def cli_start_def
    cli_close_def store_stage_def overwrite_def found_size_def f
  show "nvram_main mem e ps addr [str ''set'', n @ 61 # v] f = Some (0, [], f\<lparr>f_stage := Some (h_mmap h')\<rparr>)"
    by (simp add: run)
  show "nvram_main mem e ps addr [str ''set'', n @ 61 # v, str ''commit''] f
      = Some (0, [], f\<lparr>f_mtd := Some (h_mmap h' @ drop ps m), f_stage := None\<rparr>)"
    by (simp add: run staging_to_nvram_def)
qed

lemma main_no_argument: "nvram_main mem e ps addr [str ''set''] f = None" "nvram_main mem e ps addr [str ''unset''] f = None"
  by (simp_all add: nvram_main_def)

section \<open>Set, then get\<close>

text \<open>The run of \<open>set\<close> on a device without a staging file: the image it writes opens with the new value
  and with every other variable as before.\<close>

lemma set_image:
  assumes f: "f_mtd f = Some m" "f_stage f = None" "ps \<le> length m"
    and ps: "4 dvd ps" "NVRAM_MIN_SPACE \<le> ps" "ps < 2 ^ 32" and addr: "0 \<le> addr" "4 dvd addr"
    and op: "nvram_open (\<lambda>_. True) e ps addr (Some (take ps m)) False = Some (Some h)" "h_offset h = 0"
    and n: "good_name n" and v: "is_cstr v"
    and fits: "NVRAM_HDRSIZE + length (env_bytes (all_tuples h)) + length n + length v + 2 \<le> ps - 6"
  obtains b h2 where
    "nvram_main (\<lambda>_. True) e ps addr [str ''set'', n @ 61 # v] f = Some (0, [], f\<lparr>f_stage := Some b\<rparr>)"
    "nvram_main (\<lambda>_. True) e ps addr [str ''set'', n @ 61 # v, str ''commit''] f
      = Some (0, [], f\<lparr>f_mtd := Some (b @ drop ps m), f_stage := None\<rparr>)"
    "length b = ps" "nvram_open (\<lambda>_. True) e ps addr' (Some b) True = Some (Some h2)"
    "\<And>k. nvram_get h2 (Some k) = (if k = n then Some v else nvram_get h (Some k))"
proof -
  note ok = nvram_open_ok [OF op(1) _ ps addr]
  have inv: "nv_inv h" and good: "good_handle h" and pre: "commit_pre ps h" using ok f(3) by simp_all
  define h1 where "h1 = snd (nvram_set (\<lambda>_. True) h n v)"
  have "fst (nvram_set (\<lambda>_. True) h n v) = 0"
    using fits pre op(2) by (simp add: set_ok_iff commit_pre_def NVRAM_HDRSIZE_def)
  note got = get_set_ok [OF this, folded h1_def]
  have set: "nvram_set (\<lambda>_. True) h n v = (0, h1)"
    using \<open>fst _ = 0\<close> by (simp add: h1_def prod_eq_iff)
  have pre1: "commit_pre ps h1" and off1: "h_offset h1 = 0"
    using pre op(2) by (simp_all add: h1_def commit_pre_def nvram_set_frame)
  have fits1: "NVRAM_HDRSIZE + length (env_bytes (all_tuples h1)) \<le> ps - 6"
    using env_set_le [of "\<lambda>_. True" h n v] fits by (simp add: h1_def)
  have good1: "\<forall>t \<in> set (all_tuples h1). good_tuple t"
    unfolding h1_def by (intro good_all_tuples good_set good n v)
  obtain h' h2 where c: "nvram_commit (\<lambda>_. True) e ps h1 = Some h'" "length (h_mmap h') = ps"
    "nvram_open (\<lambda>_. True) e ps addr' (Some (h_mmap h')) True = Some (Some h2)"
    and get2: "\<And>k. k \<notin> sdram_names \<or> nvram_get h1 (Some k) \<noteq> None \<Longrightarrow>
       nvram_get h2 (Some k) = nvram_get h1 (Some k)"
    by (rule commit_reopens [OF nv_inv_set [OF inv, of "\<lambda>_. True" n v, folded h1_def] pre1 good1 off1 ps(2) fits1,
          of e addr' True]) (rule that)
  obtain o1 where o1: "o1 \<le> 4 * (usub32 ps NVRAM_MIN_SPACE div 4)"
    "nvram_rehash (\<lambda>_. True) e \<lparr>h_mmap = take ps m, h_addr = addr, h_length = ps, h_offset = o1,
       h_hash = (\<lambda>_. []), h_dead = []\<rparr> = Some h"
    by (rule nvram_open_rehash [OF op(1)]) (rule that)
  have "o1 = 0" using nvram_rehash_frame [OF o1(2)] op(2) by simp
  then have sdram: "nvram_get h (Some k) \<noteq> None" if "k \<in> sdram_names" for k
    using rehash_sdram [OF o1(2) _ that] ps by (simp add: NVRAM_MIN_SPACE_def)
  have all: "nvram_get h2 (Some k) = nvram_get h1 (Some k)" for k
    using get2 [of k] sdram [of k] got [of k] by (cases "k \<in> sdram_names") auto
  show thesis
  proof (rule that [OF main_set [OF f _ op(1) n set c(1,2)] c(2,3)])
    show "0 < ps" "0 < ps" using ps(2) by (simp_all add: NVRAM_MIN_SPACE_def)
    show "nvram_get h2 (Some k) = (if k = n then Some v else nvram_get h (Some k))" for k
      by (simp only: all got)
  qed
qed

text \<open>C13. The command line tool end to end, for an image at offset 0 of the partition, without a staging file,
  with enough memory and at least six bytes left after the new entry: \<open>nvram set n=v\<close> exits with 0 and leaves
  the device alone, with \<open>commit\<close> it updates the device and removes the staging file; in both cases the next
  run of \<open>nvram get n\<close> prints the value, and \<open>nvram get\<close> of another name prints what it printed before, if that
  name is none of \<open>set\<close>, \<open>unset\<close> and \<open>commit\<close>, which the scan of \<open>main\<close> takes for commands.\<close>

theorem cli_set_get:
  assumes f: "f_mtd f = Some m" "f_stage f = None" "ps \<le> length m"
    and ps: "4 dvd ps" "NVRAM_MIN_SPACE \<le> ps" "ps < 2 ^ 32" and addr: "0 \<le> addr" "4 dvd addr"
    and op: "nvram_open (\<lambda>_. True) e ps addr (Some (take ps m)) False = Some (Some h)" "h_offset h = 0"
    and n: "61 \<notin> set n" "is_cstr n" and v: "is_cstr v"
    and fits: "NVRAM_HDRSIZE + length (env_bytes (all_tuples h)) + length n + length v + 2 \<le> ps - 6"
  shows "\<exists>f1 f2. nvram_main (\<lambda>_. True) e ps addr [str ''set'', n @ 61 # v] f = Some (0, [], f1) \<and>
    nvram_main (\<lambda>_. True) e ps addr [str ''set'', n @ 61 # v, str ''commit''] f = Some (0, [], f2) \<and>
    f_mtd f1 = Some m \<and> f_stage f2 = None \<and>
    (\<forall>g \<in> {f1, f2}. \<forall>k. k \<notin> {str ''set'', str ''unset'', str ''commit''} \<longrightarrow>
       nvram_main (\<lambda>_. True) e ps addr [str ''get'', k] g =
         (if k = n then Some (0, [Line v], g)
          else map_option (\<lambda>(stat, out, _). (stat, out, g)) (nvram_main (\<lambda>_. True) e ps addr [str ''get'', k] f)))"
proof -
  have gn: "good_name n" using n by (simp add: good_name_def)
  obtain b h2 where b: "nvram_main (\<lambda>_. True) e ps addr [str ''set'', n @ 61 # v] f = Some (0, [], f\<lparr>f_stage := Some b\<rparr>)"
    "nvram_main (\<lambda>_. True) e ps addr [str ''set'', n @ 61 # v, str ''commit''] f
      = Some (0, [], f\<lparr>f_mtd := Some (b @ drop ps m), f_stage := None\<rparr>)"
    "length b = ps" "nvram_open (\<lambda>_. True) e ps addr (Some b) True = Some (Some h2)"
    and get2: "\<And>k. nvram_get h2 (Some k) = (if k = n then Some v else nvram_get h (Some k))"
    by (rule set_image [OF f ps addr op gn v fits, where addr' = addr]) (rule that)
  note open_defs = nvram_open_rdonly_def open_file_def found_size_def f(1,2)
  have o0: "nvram_open_rdonly (\<lambda>_. True) e ps addr f = Some (Some h)"
    using nvram_open_ok(4) [OF op(1) _ ps addr] f(3) by (simp add: open_defs)
  have o1: "nvram_open_rdonly (\<lambda>_. True) e ps addr (f\<lparr>f_stage := Some b\<rparr>) = Some (Some h2)"
    and o2: "nvram_open_rdonly (\<lambda>_. True) e ps addr (f\<lparr>f_mtd := Some (b @ drop ps m), f_stage := None\<rparr>) = Some (Some h2)"
    using b(3,4) by (simp_all add: open_defs)
  have get: "do_get h2 k = (if k = n then (0, [Line v]) else do_get h k)" for k
    by (simp add: do_get_def get2)
  show ?thesis
    using b(1,2) f(1) by (auto simp: main_get o0 o1 o2 get)
qed

definition ex_device :: nvfiles where
  "ex_device = \<lparr>f_mtd = Some (header_bytes LE \<lparr>n_magic = NVRAM_MAGIC, n_len = 24, n_crc_ver_init = 0x100,
      n_config_refresh = 0, n_config_ncdl = 0\<rparr> @ replicate 32748 0), f_stage = None\<rparr>"

lemma env_set_default_le:
  assumes "length (env_bytes (all_tuples h)) \<le> k - (length n + length v + 2)" and "length n + length v + 2 \<le> k"
  shows "length (env_bytes (all_tuples (set_default mem n v h))) \<le> k"
  using env_set_le [of mem h n v] assms by (cases "nvram_get h (Some n)") (simp_all add: set_default_def)

lemma env_free [simp]: "all_tuples (nvram_free h) = []"
  by (simp add: all_tuples_def nvram_free_def)

lemma ex_device_opens:
  obtains h where
    "nvram_open (\<lambda>_. True) LE 0x8000 4096 (Some (take 0x8000 (the (f_mtd ex_device)))) False = Some (Some h)"
    "h_offset h = 0" "length (env_bytes (all_tuples h)) \<le> 120"
proof -
  let ?d = "\<lparr>n_magic = NVRAM_MAGIC, n_len = 24, n_crc_ver_init = 0x100, n_config_refresh = 0, n_config_ncdl = 0\<rparr>"
  let ?b = "header_bytes LE ?d @ replicate 32748 0"
  let ?h = "\<lparr>h_mmap = ?b, h_addr = 4096, h_length = 0x8000, h_offset = 0, h_hash = (\<lambda>_. []), h_dead = []\<rparr>"
  have dev: "take 0x8000 (the (f_mtd ex_device)) = ?b" by (simp add: ex_device_def)
  have hdr: "peek ?b 0 NVRAM_HDRSIZE = Some (header_bytes LE ?d)" by (simp add: peek_def NVRAM_HDRSIZE_def)
  have "replicate 32748 (0 :: u8) = 0 # replicate 32747 0"
    by (simp flip: replicate_Suc)
  then have loop: "rehash_loop (\<lambda>_. True) (nvram_free ?h) (drop (h_offset ?h + NVRAM_HDRSIZE) (h_mmap ?h)) = Some (nvram_free ?h)"
    by (simp add: NVRAM_HDRSIZE_def rehash_loop_end)
  have "\<exists>h. nvram_rehash (\<lambda>_. True) LE ?h = Some h \<and> length (env_bytes (all_tuples h)) \<le> 120"
    unfolding nvram_rehash_def loop nvram_header_def
    by (simp add: hdr Let_def) (intro env_set_default_le; simp add: str_def)
  then obtain h where h: "nvram_rehash (\<lambda>_. True) LE ?h = Some h" "length (env_bytes (all_tuples h)) \<le> 120" by blast
  have "nvram_open (\<lambda>_. True) LE 0x8000 4096 (Some ?b) False = Some (Some h)"
    using nvram_open_image [OF _ _ _ hdr header_of_bytes [symmetric, of ?d LE],
        where ps = "0x8000" and mem = "\<lambda>_. True" and addr = "4096" and rdonly = False] h(1)
    by (simp add: NVRAM_MIN_SPACE_def)
  then show thesis
    using that [of h] h(2) nvram_rehash_frame [OF h(1)] by (simp add: dev)
qed

theorem cli_set_get_witness:
  "\<exists>f1 f2. nvram_main (\<lambda>_. True) LE 0x8000 4096 [str ''set'', str ''lan=1''] ex_device = Some (0, [], f1) \<and>
     nvram_main (\<lambda>_. True) LE 0x8000 4096 [str ''get'', str ''lan''] f1 = Some (0, [Line (str ''1'')], f1) \<and>
     nvram_main (\<lambda>_. True) LE 0x8000 4096 [str ''set'', str ''lan=1'', str ''commit''] ex_device = Some (0, [], f2) \<and>
     nvram_main (\<lambda>_. True) LE 0x8000 4096 [str ''get'', str ''lan''] f2 = Some (0, [Line (str ''1'')], f2)"
proof -
  obtain h where op: "nvram_open (\<lambda>_. True) LE 0x8000 4096 (Some (take 0x8000 (the (f_mtd ex_device)))) False = Some (Some h)"
    "h_offset h = 0" and len: "length (env_bytes (all_tuples h)) \<le> 120"
    by (rule ex_device_opens) (rule that)
  have strs: "str ''lan=1'' = str ''lan'' @ 61 # str ''1''" "str ''lan'' \<notin> {str ''set'', str ''unset'', str ''commit''}"
    "61 \<notin> set (str ''lan'')" "is_cstr (str ''lan'')" "is_cstr (str ''1'')" "length (str ''lan'') = 3" "length (str ''1'') = 1"
    by (simp_all add: str_def of_char_def)
  note * = cli_set_get [where f = ex_device and m = "the (f_mtd ex_device)" and ps = "0x8000" and addr = "4096"]
  have "\<exists>f1 f2. nvram_main (\<lambda>_. True) LE 0x8000 4096 [str ''set'', str ''lan'' @ 61 # str ''1''] ex_device = Some (0, [], f1) \<and>
    nvram_main (\<lambda>_. True) LE 0x8000 4096 [str ''set'', str ''lan'' @ 61 # str ''1'', str ''commit''] ex_device = Some (0, [], f2) \<and>
    (\<forall>g \<in> {f1, f2}. nvram_main (\<lambda>_. True) LE 0x8000 4096 [str ''get'', str ''lan''] g = Some (0, [Line (str ''1'')], g))"
    using * [OF _ _ _ _ _ _ _ _ op strs(3-5)] len strs(2,6,7)
    by (fastforce simp: ex_device_def NVRAM_MIN_SPACE_def NVRAM_HDRSIZE_def)
  then show ?thesis unfolding strs(1) by blast
qed

end
