(* ===== verification/Owipcalc.thy ===== *)
theory Owipcalc
  imports Prelude Libc
begin

text \<open>
  \<open>package/network/utils/owipcalc/src/owipcalc.c\<close>: the IP calculator.

  The program keeps a stack of addresses. An operation works on the top \<open>a\<close> of the stack; most
  push a modified copy of it. The address of a \<open>struct cidr\<close> is a union whose IPv4 view is the
  first four bytes of the IPv6 view, so it is a list of 16 bytes here. The byte order of the host
  is a parameter, since the code mixes host-order and network-order arithmetic. The address
  conversions of the resolver library (\<open>inet_pton\<close>, \<open>inet_ntop\<close>) are parameters (\<open>inet\<close>).
  The twelve bytes of an IPv4 address that \<open>malloc\<close> leaves unset are zero; the unused read of
  \<open>argv\<close> behind its last element at the end of the run has no effect here.
  Whether \<open>malloc\<close> succeeds is part of the state (\<open>k_mem\<close>); texts on standard error are not recorded. \<open>1 << n\<close> is computed in two's
  complement for \<open>n < 32\<close>, and has no value (\<^term>\<open>None\<close>) otherwise.
\<close>

section \<open>Addresses\<close>

datatype family = AF_INET | AF_INET6

record cidr =
  c_family :: family
  c_prefix :: u32
  c_addr :: bytes

record calc =
  k_stack :: "cidr list"
  k_quiet :: bool
  k_printed :: bool
  k_out :: bytes
  k_mem :: "bool list"

record inet =
  pton4 :: "bytes \<Rightarrow> bytes option"
  pton6 :: "bytes \<Rightarrow> bytes option"
  ntop4 :: "bytes \<Rightarrow> bytes"
  ntop6 :: "bytes \<Rightarrow> bytes"

definition s_addr :: "endian \<Rightarrow> cidr \<Rightarrow> u32" where
  "s_addr e c = dec32 e (take 4 (c_addr c))"

definition set_s_addr :: "endian \<Rightarrow> u32 \<Rightarrow> cidr \<Rightarrow> cidr" where
  "set_s_addr e w c = c\<lparr>c_addr := enc32 e w @ drop 4 (c_addr c)\<rparr>"

definition htonl :: "endian \<Rightarrow> u32 \<Rightarrow> u32" where
  "htonl e w = dec32 e (be32 w)"

definition ntohl :: "endian \<Rightarrow> u32 \<Rightarrow> u32" where
  "ntohl e w = of_be32 (enc32 e w)"

definition shl1 :: "u32 \<Rightarrow> u32 option" where
  "shl1 n = (if unat n < 32 then Some (push_bit (unat n) 1) else None)"

section \<open>The stack and the output\<close>

definition qprintf :: "bytes \<Rightarrow> calc \<Rightarrow> calc" where
  "qprintf s k = k\<lparr>k_out := (if k_quiet k then k_out k else k_out k @ s), k_printed := True\<rparr>"

definition cidr_push :: "cidr \<Rightarrow> calc \<Rightarrow> calc" where
  "cidr_push a k = k\<lparr>k_stack := a # k_stack k\<rparr>"

definition cidr_pop :: "calc \<Rightarrow> bool \<times> calc" where
  "cidr_pop k = (case k_stack k of [] \<Rightarrow> (False, k) | _ # st \<Rightarrow> (True, k\<lparr>k_stack := st\<rparr>))"

text \<open>The answers of \<open>malloc\<close> that are still to come; when the list is used up it succeeds.\<close>

definition malloc :: "calc \<Rightarrow> bool \<times> calc" where
  "malloc k = (case k_mem k of [] \<Rightarrow> (True, k) | ok # rest \<Rightarrow> (ok, k\<lparr>k_mem := rest\<rparr>))"

text \<open>What a call of an operation comes to: it returns, or ends the program with a status.\<close>

datatype outcome = Ret bool calc | Quit nat calc

definition return :: "(bool \<times> calc) option \<Rightarrow> outcome option" where
  "return = map_option (\<lambda>(ok, k). Ret ok k)"

text \<open>\<open>cidr_clone(a)\<close> pushes a copy \<open>n\<close> of \<open>a\<close>, or ends the program with 255 when there is no memory. It is
  the first statement of every operation that uses it. So such an operation is modelled by the rest of
  its text, with the changed copy pushed (\<open>body\<close>), and \<open>cidr_clone\<close> puts the allocation in front of it.\<close>

definition cidr_clone :: "(calc \<Rightarrow> (bool \<times> calc) option) \<Rightarrow> calc \<Rightarrow> outcome option" where
  "cidr_clone body k = (let (ok, k) = malloc k in if ok then return (body k) else Some (Quit 255 k))"

text \<open>The separator before a printed result, and a printed truth value.\<close>

definition sep :: "calc \<Rightarrow> calc" where
  "sep k = (if k_printed k then qprintf (str '' '') k else k)"

definition print_bool :: "bool \<Rightarrow> calc \<Rightarrow> bool \<times> calc" where
  "print_bool b k = (b, qprintf (if b then str ''1'' else str ''0'') k)"

section \<open>IPv4 operations\<close>

fun popcount :: "nat \<Rightarrow> nat" where
  "popcount n = (if n = 0 then 0 else n mod 2 + popcount (n div 2))"

declare popcount.simps [simp del]

text \<open>The text before and after the first \<open>/\<close>.\<close>

definition split_slash :: "bytes \<Rightarrow> bytes \<times> bytes option" where
  "split_slash s =
     (takeWhile (\<lambda>c. c \<noteq> 47) s,
      if 47 \<in> set s then Some (tl (dropWhile (\<lambda>c. c \<noteq> 47) s)) else None)"

definition parse_prefix :: "nat \<Rightarrow> bytes \<Rightarrow> u32 option" where
  "parse_prefix lim p =
     (let (v, r) = strtoul 32 10 p
      in if r = p \<or> r \<noteq> [] \<or> v > lim then None else Some (of_nat v))"

definition cidr_parse4 :: "inet \<Rightarrow> endian \<Rightarrow> bytes \<Rightarrow> cidr option" where
  "cidr_parse4 L e s =
     (if length s \<ge> 33 then None
      else
        (let (host, p) = split_slash s
         in do { prefix \<leftarrow>
                   (case p of None \<Rightarrow> Some 32
                    | Some p \<Rightarrow>
                        if 46 \<in> set p then
                          map_option (\<lambda>m. of_nat (popcount (unat (dec32 e m)))) (pton4 L p)
                        else parse_prefix 32 p);
                 addr \<leftarrow> (if p \<noteq> None \<and> host = [] then Some [0, 0, 0, 0] else pton4 L host);
                 Some \<lparr>c_family = AF_INET, c_prefix = prefix, c_addr = addr @ replicate 12 0\<rparr> }))"

definition cidr_add4 :: "endian \<Rightarrow> cidr \<Rightarrow> cidr \<Rightarrow> calc \<Rightarrow> bool \<times> calc" where
  "cidr_add4 e a b k =
     (let x = ntohl e (s_addr e a); y = ntohl e (s_addr e b)
      in if c_family a \<noteq> AF_INET \<or> c_family b \<noteq> AF_INET then (False, cidr_push a k)
         else if x + y < x then (False, cidr_push a k)
         else (True, cidr_push (set_s_addr e (htonl e (x + y)) a) k))"

definition cidr_sub4 :: "endian \<Rightarrow> cidr \<Rightarrow> cidr \<Rightarrow> calc \<Rightarrow> bool \<times> calc" where
  "cidr_sub4 e a b k =
     (let x = ntohl e (s_addr e a); y = ntohl e (s_addr e b)
      in if c_family a \<noteq> AF_INET \<or> c_family b \<noteq> AF_INET then (False, cidr_push a k)
         else if x - y > x then (False, cidr_push a k)
         else (True, cidr_push (set_s_addr e (htonl e (x - y)) a) k))"

definition cidr_network4 :: "endian \<Rightarrow> cidr \<Rightarrow> calc \<Rightarrow> (bool \<times> calc) option" where
  "cidr_network4 e a k =
     do { m \<leftarrow> shl1 (32 - c_prefix a);
          Some (True, cidr_push
            ((set_s_addr e (s_addr e a AND htonl e (NOT (m - 1))) a)\<lparr>c_prefix := 32\<rparr>) k) }"

definition cidr_broadcast4 :: "endian \<Rightarrow> cidr \<Rightarrow> calc \<Rightarrow> (bool \<times> calc) option" where
  "cidr_broadcast4 e a k =
     do { m \<leftarrow> shl1 (32 - c_prefix a);
          Some (True, cidr_push
            ((set_s_addr e (s_addr e a OR htonl e (m - 1)) a)\<lparr>c_prefix := 32\<rparr>) k) }"

definition cidr_contains4 :: "endian \<Rightarrow> cidr \<Rightarrow> cidr \<Rightarrow> calc \<Rightarrow> (bool \<times> calc) option" where
  "cidr_contains4 e a b k =
     do { m \<leftarrow> shl1 (32 - c_prefix a);
          let net1 = s_addr e a AND htonl e (NOT (m - 1));
          let net2 = s_addr e b AND htonl e (NOT (m - 1));
          Some (print_bool (c_prefix b \<ge> c_prefix a \<and> net1 = net2) (sep k)) }"

definition cidr_netmask4 :: "endian \<Rightarrow> cidr \<Rightarrow> calc \<Rightarrow> (bool \<times> calc) option" where
  "cidr_netmask4 e a k =
     do { m \<leftarrow> shl1 (32 - c_prefix a);
          Some (True, cidr_push ((set_s_addr e (htonl e (NOT (m - 1))) a)\<lparr>c_prefix := 32\<rparr>) k) }"

definition cidr_private4 :: "endian \<Rightarrow> cidr \<Rightarrow> calc \<Rightarrow> bool \<times> calc" where
  "cidr_private4 e a k =
     (let x = ntohl e (s_addr e a)
      in print_bool ((x \<ge> 0x0A000000 \<and> x \<le> 0x0AFFFFFF) \<or> (x \<ge> 0xAC100000 \<and> x \<le> 0xAC1FFFFF)
                     \<or> (x \<ge> 0xC0A80000 \<and> x \<le> 0xC0A8FFFF)) (sep k))"

definition cidr_linklocal4 :: "endian \<Rightarrow> cidr \<Rightarrow> calc \<Rightarrow> bool \<times> calc" where
  "cidr_linklocal4 e a k =
     (let x = ntohl e (s_addr e a)
      in print_bool (x \<ge> 0xA9FE0000 \<and> x \<le> 0xA9FEFFFF) (sep k))"

definition cidr_prev4 :: "endian \<Rightarrow> cidr \<Rightarrow> cidr \<Rightarrow> calc \<Rightarrow> (bool \<times> calc) option" where
  "cidr_prev4 e a b k =
     do { m \<leftarrow> shl1 (32 - c_prefix b);
          Some (True, cidr_push
            ((set_s_addr e (s_addr e a - htonl e m) a)\<lparr>c_prefix := c_prefix b\<rparr>) k) }"

definition cidr_next4 :: "endian \<Rightarrow> cidr \<Rightarrow> cidr \<Rightarrow> calc \<Rightarrow> (bool \<times> calc) option" where
  "cidr_next4 e a b k =
     do { m \<leftarrow> shl1 (32 - c_prefix b);
          Some (True, cidr_push
            ((set_s_addr e (s_addr e a + htonl e m) a)\<lparr>c_prefix := c_prefix b\<rparr>) k) }"

definition cidr_6to4 :: "endian \<Rightarrow> cidr \<Rightarrow> calc \<Rightarrow> bool \<times> calc" where
  "cidr_6to4 e a k =
     (let x = s_addr e a
      in (True, cidr_push
            \<lparr>c_family = AF_INET6, c_prefix = 48,
             c_addr = [0x20, 0x02, ucast (drop_bit 24 x), ucast (drop_bit 16 x AND 0xFF),
                       ucast (drop_bit 8 x AND 0xFF), ucast (x AND 0xFF)] @ replicate 10 0\<rparr> k))"

definition cidr_print4 :: "inet \<Rightarrow> cidr \<Rightarrow> calc \<Rightarrow> bool \<times> calc" where
  "cidr_print4 L a k =
     (if c_family a \<noteq> AF_INET then (False, k)
      else
        (let k = qprintf (ntop4 L (take 4 (c_addr a))) (sep k);
             k = (if c_prefix a < 32 then qprintf (str ''/'' @ dec_str (unat (c_prefix a))) k else k)
         in (True, snd (cidr_pop k))))"

section \<open>IPv6 operations\<close>

definition cidr_parse6 :: "inet \<Rightarrow> bytes \<Rightarrow> cidr option" where
  "cidr_parse6 L s =
     (if length s \<ge> 51 then None
      else
        (let (host, p) = split_slash s
         in do { prefix \<leftarrow> (case p of None \<Rightarrow> Some 128 | Some p \<Rightarrow> parse_prefix 128 p);
                 addr \<leftarrow> (if p \<noteq> None \<and> host = [] then Some (replicate 16 0) else pton6 L host);
                 Some \<lparr>c_family = AF_INET6, c_prefix = prefix, c_addr = addr\<rparr> }))"

text \<open>The loops run from \<open>idx\<close> down to 0 with a carry; the result is the last carry and the
  changed bytes.\<close>

fun add6_loop :: "nat \<Rightarrow> nat \<Rightarrow> bytes \<Rightarrow> bytes \<Rightarrow> nat \<times> bytes" where
  "add6_loop i carry x y =
     (let overflow = (if unat (x ! i) + unat (y ! i) + carry \<ge> 256 then 1 else 0);
          x' = x[i := x ! i + (y ! i + of_nat carry)]
      in case i of 0 \<Rightarrow> (overflow, x') | Suc j \<Rightarrow> add6_loop j overflow x' y)"

fun sub6_loop :: "nat \<Rightarrow> nat \<Rightarrow> bytes \<Rightarrow> bytes \<Rightarrow> nat \<times> bytes" where
  "sub6_loop i carry x y =
     (let underflow = (if int (unat (x ! i)) - int (unat (y ! i)) - int carry < 0 then 1 else 0);
          x' = x[i := x ! i - (y ! i + of_nat carry)]
      in case i of 0 \<Rightarrow> (underflow, x') | Suc j \<Rightarrow> sub6_loop j underflow x' y)"

fun next6_loop :: "nat \<Rightarrow> nat \<Rightarrow> bytes \<Rightarrow> nat \<times> bytes" where
  "next6_loop i carry x =
     (let overflow = (if unat (x ! i) + carry \<ge> 256 then 1 else 0);
          x' = x[i := x ! i + of_nat carry]
      in case i of 0 \<Rightarrow> (overflow, x') | Suc j \<Rightarrow> next6_loop j overflow x')"

fun prev6_loop :: "nat \<Rightarrow> nat \<Rightarrow> bytes \<Rightarrow> nat \<times> bytes" where
  "prev6_loop i carry x =
     (let underflow = (if int (unat (x ! i)) - int carry < 0 then 1 else 0);
          x' = x[i := x ! i - of_nat carry]
      in case i of 0 \<Rightarrow> (underflow, x') | Suc j \<Rightarrow> prev6_loop j underflow x')"

declare add6_loop.simps [simp del] sub6_loop.simps [simp del]
declare next6_loop.simps [simp del] prev6_loop.simps [simp del]

definition cidr_add6 :: "cidr \<Rightarrow> cidr \<Rightarrow> calc \<Rightarrow> bool \<times> calc" where
  "cidr_add6 a b k =
     (if c_family a \<noteq> AF_INET6 \<or> c_family b \<noteq> AF_INET6 then (False, cidr_push a k)
      else (let (carry, x) = add6_loop 15 0 (c_addr a) (c_addr b)
            in (carry = 0, cidr_push (a\<lparr>c_addr := x\<rparr>) k)))"

definition cidr_sub6 :: "cidr \<Rightarrow> cidr \<Rightarrow> calc \<Rightarrow> bool \<times> calc" where
  "cidr_sub6 a b k =
     (if c_family a \<noteq> AF_INET6 \<or> c_family b \<noteq> AF_INET6 then (False, cidr_push a k)
      else (let (carry, x) = sub6_loop 15 0 (c_addr a) (c_addr b)
            in (carry = 0, cidr_push (a\<lparr>c_addr := x\<rparr>) k)))"

text \<open>\<open>idx\<close> is a byte; the array access is outside the address when it exceeds 15.\<close>

definition prefix_byte :: "u32 \<Rightarrow> nat" where
  "prefix_byte p = ((unat p - 1) div 8) mod 256"

definition cidr_prev6 :: "cidr \<Rightarrow> cidr \<Rightarrow> calc \<Rightarrow> (bool \<times> calc) option" where
  "cidr_prev6 a b k =
     (if c_prefix b = 0 then Some (False, cidr_push a k)
      else if prefix_byte (c_prefix b) > 15 then None
      else (let (carry, x) = prev6_loop (prefix_byte (c_prefix b)) 1 (c_addr a);
                n = a\<lparr>c_addr := x\<rparr>
            in Some (if carry \<noteq> 0 then (False, cidr_push n k)
                     else (True, cidr_push (n\<lparr>c_prefix := c_prefix b\<rparr>) k))))"

definition cidr_next6 :: "cidr \<Rightarrow> cidr \<Rightarrow> calc \<Rightarrow> (bool \<times> calc) option" where
  "cidr_next6 a b k =
     (if c_prefix b = 0 then Some (False, cidr_push a k)
      else if prefix_byte (c_prefix b) > 15 then None
      else (let (carry, x) = next6_loop (prefix_byte (c_prefix b)) 1 (c_addr a);
                n = a\<lparr>c_addr := x\<rparr>
            in Some (if carry \<noteq> 0 then (False, cidr_push n k)
                     else (True, cidr_push (n\<lparr>c_prefix := c_prefix b\<rparr>) k))))"

definition low_mask :: "nat \<Rightarrow> u8" where
  "low_mask r = NOT (push_bit r 1 - 1)"

definition cidr_network6 :: "cidr \<Rightarrow> calc \<Rightarrow> (bool \<times> calc) option" where
  "cidr_network6 a k =
     (let d = unat (128 - c_prefix a);
          i = d div 8;
          x = take (16 - i) (c_addr a) @ replicate i 0
      in if i > 16 \<or> (i = 16 \<and> d mod 8 \<noteq> 0) then None
         else Some (True, cidr_push
           (a\<lparr>c_addr := (if d mod 8 \<noteq> 0 then x[15 - i := x ! (15 - i) AND low_mask (d mod 8)] else x)\<rparr>) k))"

definition cidr_contains6 :: "cidr \<Rightarrow> cidr \<Rightarrow> calc \<Rightarrow> (bool \<times> calc) option" where
  "cidr_contains6 a b k =
     (let n = a; k = cidr_push a k;
          d = unat (128 - c_prefix n);
          i = (d div 8) mod 256;
          m = low_mask (d mod 8);
          x = c_addr n; y = c_addr b
      in if i > 15 then None
         else Some (print_bool
           (c_prefix b \<ge> c_prefix n \<and> x ! (15 - i) AND m = y ! (15 - i) AND m
            \<and> (i = 15 \<or> take (15 - i) x = take (15 - i) y)) (sep k)))"

definition cidr_linklocal6 :: "cidr \<Rightarrow> calc \<Rightarrow> bool \<times> calc" where
  "cidr_linklocal6 a k =
     print_bool (c_addr a ! 0 = 0xFE \<and> c_addr a ! 1 \<ge> 0x80 \<and> c_addr a ! 1 \<le> 0xBF) (sep k)"

definition cidr_ula6 :: "cidr \<Rightarrow> calc \<Rightarrow> bool \<times> calc" where
  "cidr_ula6 a k = print_bool (c_addr a ! 0 \<ge> 0xFC \<and> c_addr a ! 0 \<le> 0xFD) (sep k)"

definition cidr_print6 :: "inet \<Rightarrow> cidr \<Rightarrow> calc \<Rightarrow> bool \<times> calc" where
  "cidr_print6 L a k =
     (if c_family a \<noteq> AF_INET6 then (False, k)
      else
        (let k = qprintf (ntop6 L (c_addr a)) (sep k);
             k = (if c_prefix a < 128 then qprintf (str ''/'' @ dec_str (unat (c_prefix a))) k else k)
         in (True, snd (cidr_pop k))))"

section \<open>Arguments and operations\<close>

text \<open>An argument is a number, or an address of the family of the top of the stack; an address of
  the other family ends the program with status 4.\<close>

datatype parsed = NoAddr | Addr cidr | WrongFamily

definition cidr_parse :: "inet \<Rightarrow> endian \<Rightarrow> bytes \<Rightarrow> family \<Rightarrow> parsed" where
  "cidr_parse L e s af_hint =
     (let (v, r) = strtoul 32 0 s; n = (of_nat v :: u32)
      in if r \<noteq> s \<and> r = [] then
           Addr (if af_hint = AF_INET then
                   set_s_addr e (htonl e n)
                     \<lparr>c_family = AF_INET, c_prefix = n, c_addr = replicate 16 0\<rparr>
                 else \<lparr>c_family = AF_INET6, c_prefix = n,
                        c_addr = map (\<lambda>j. ucast (drop_bit (8 * (15 - j)) n)) [0..<16]\<rparr>)
         else
           (case (if 58 \<in> set s then cidr_parse6 L s else cidr_parse4 L e s) of
              None \<Rightarrow> NoAddr
            | Some a \<Rightarrow> if c_family a \<noteq> af_hint then WrongFamily else Addr a))"

definition cidr_howmany :: "cidr \<Rightarrow> cidr \<Rightarrow> calc \<Rightarrow> (bool \<times> calc) option" where
  "cidr_howmany a b k =
     (let k = sep k
      in if c_prefix b < c_prefix a then Some (True, qprintf (str ''0'') k)
         else do { n \<leftarrow> shl1 (c_prefix b - c_prefix a);
                   Some (True, qprintf (dec_str (unat n)) k) })"

text \<open>\<open>a\<close> is the top of the stack, which changes in place.\<close>

definition cidr_prefix :: "cidr \<Rightarrow> cidr \<Rightarrow> calc \<Rightarrow> bool \<times> calc" where
  "cidr_prefix a b k = (True, k\<lparr>k_stack := a\<lparr>c_prefix := c_prefix b\<rparr> # tl (k_stack k)\<rparr>)"

definition cidr_quiet :: "cidr \<Rightarrow> calc \<Rightarrow> bool \<times> calc" where
  "cidr_quiet a k = (True, k\<lparr>k_quiet := True\<rparr>)"

type_synonym fun1 = "cidr \<Rightarrow> calc \<Rightarrow> outcome option"
type_synonym fun2 = "cidr \<Rightarrow> cidr \<Rightarrow> calc \<Rightarrow> outcome option"

record calc_op =
  op_name :: bytes
  f4_a1 :: "fun1 option"
  f6_a1 :: "fun1 option"
  f4_a2 :: "fun2 option"
  f6_a2 :: "fun2 option"

definition op1 :: "string \<Rightarrow> fun1 option \<Rightarrow> fun1 option \<Rightarrow> calc_op" where
  "op1 n f g = \<lparr>op_name = str n, f4_a1 = f, f6_a1 = g, f4_a2 = None, f6_a2 = None\<rparr>"

definition op2 :: "string \<Rightarrow> fun2 option \<Rightarrow> fun2 option \<Rightarrow> calc_op" where
  "op2 n f g = \<lparr>op_name = str n, f4_a1 = None, f6_a1 = None, f4_a2 = f, f6_a2 = g\<rparr>"

definition total1 :: "(cidr \<Rightarrow> calc \<Rightarrow> bool \<times> calc) \<Rightarrow> cidr \<Rightarrow> calc \<Rightarrow> (bool \<times> calc) option" where
  "total1 f = (\<lambda>a k. Some (f a k))"

definition total2 :: "(cidr \<Rightarrow> cidr \<Rightarrow> calc \<Rightarrow> bool \<times> calc) \<Rightarrow> cidr \<Rightarrow> cidr \<Rightarrow> calc \<Rightarrow> (bool \<times> calc) option" where
  "total2 f = (\<lambda>a b k. Some (f a b k))"

text \<open>Operations with and without a call of \<open>cidr_clone\<close>.\<close>

definition clone1 :: "(cidr \<Rightarrow> calc \<Rightarrow> (bool \<times> calc) option) \<Rightarrow> fun1 option" where
  "clone1 f = Some (\<lambda>a. cidr_clone (f a))"

definition clone2 :: "(cidr \<Rightarrow> cidr \<Rightarrow> calc \<Rightarrow> (bool \<times> calc) option) \<Rightarrow> fun2 option" where
  "clone2 f = Some (\<lambda>a b. cidr_clone (f a b))"

definition plain1 :: "(cidr \<Rightarrow> calc \<Rightarrow> (bool \<times> calc) option) \<Rightarrow> fun1 option" where
  "plain1 f = Some (\<lambda>a k. return (f a k))"

definition plain2 :: "(cidr \<Rightarrow> cidr \<Rightarrow> calc \<Rightarrow> (bool \<times> calc) option) \<Rightarrow> fun2 option" where
  "plain2 f = Some (\<lambda>a b k. return (f a b k))"

definition ops :: "inet \<Rightarrow> endian \<Rightarrow> calc_op list" where
  "ops L e =
    [op2 ''add'' (clone2 (total2 (cidr_add4 e))) (clone2 (total2 cidr_add6)),
     op2 ''sub'' (clone2 (total2 (cidr_sub4 e))) (clone2 (total2 cidr_sub6)),
     op2 ''next'' (clone2 (cidr_next4 e)) (clone2 cidr_next6),
     op2 ''prev'' (clone2 (cidr_prev4 e)) (clone2 cidr_prev6),
     op1 ''network'' (clone1 (cidr_network4 e)) (clone1 cidr_network6),
     op1 ''broadcast'' (clone1 (cidr_broadcast4 e)) None,
     op2 ''prefix'' (plain2 (total2 cidr_prefix)) (plain2 (total2 cidr_prefix)),
     op1 ''netmask'' (clone1 (cidr_netmask4 e)) None,
     op1 ''6to4'' (clone1 (total1 (cidr_6to4 e))) None,
     op2 ''howmany'' (plain2 cidr_howmany) (plain2 cidr_howmany),
     op2 ''contains'' (plain2 (cidr_contains4 e)) (clone2 cidr_contains6),
     op1 ''private'' (plain1 (total1 (cidr_private4 e))) None,
     op1 ''linklocal'' (plain1 (total1 (cidr_linklocal4 e))) (plain1 (total1 cidr_linklocal6)),
     op1 ''ula'' None (plain1 (total1 cidr_ula6)),
     op1 ''quiet'' (plain1 (total1 cidr_quiet)) (plain1 (total1 cidr_quiet)),
     op1 ''pop'' (plain1 (total1 (\<lambda>_. cidr_pop))) (plain1 (total1 (\<lambda>_. cidr_pop))),
     op1 ''print'' (plain1 (total1 (cidr_print4 L))) (plain1 (total1 (cidr_print6 L)))]"

section \<open>The program\<close>

text \<open>One call of \<open>runop\<close>: it goes on (\<open>More\<close>) or stops (\<open>Stop\<close>) with the remaining arguments,
  the status and the state, or the program ends with a status (\<open>Exit\<close>). \<^term>\<open>None\<close>: the empty
  stack is dereferenced, or the operation has no defined value.\<close>

datatype opres = More "bytes list" nat calc | Stop "bytes list" nat calc | Exit nat calc

definition finish_op :: "bytes list \<Rightarrow> outcome option \<Rightarrow> opres option" where
  "finish_op rest r =
     map_option (\<lambda>r. case r of Ret ok k \<Rightarrow> More rest (if ok then 0 else 1) k | Quit n k \<Rightarrow> Exit n k) r"

text \<open>Both parsers allocate before anything else, and return NULL without memory.\<close>

definition cidr_parse_arg :: "inet \<Rightarrow> endian \<Rightarrow> bytes \<Rightarrow> family \<Rightarrow> calc \<Rightarrow> parsed \<times> calc" where
  "cidr_parse_arg L e s af_hint k =
     (let (ok, k) = malloc k in (if ok then cidr_parse L e s af_hint else NoAddr, k))"

definition runop :: "inet \<Rightarrow> endian \<Rightarrow> bytes list \<Rightarrow> nat \<Rightarrow> calc \<Rightarrow> opres option" where
  "runop L e args status k =
     (case args of
        [] \<Rightarrow> Some (Stop args status k)
      | arg1 # rest \<Rightarrow>
          (case find (\<lambda>x. op_name x = arg1) (ops L e) of
             None \<Rightarrow> Some (Stop args status k)
           | Some x \<Rightarrow>
               if f4_a2 x \<noteq> None \<or> f6_a2 x \<noteq> None then
                 (case rest of
                    [] \<Rightarrow> Some (Stop args 2 k)
                  | arg2 # rest' \<Rightarrow>
                      (case k_stack k of
                         [] \<Rightarrow> None
                       | a # _ \<Rightarrow>
                           (case cidr_parse_arg L e arg2 (c_family a) k of
                              (WrongFamily, k) \<Rightarrow> Some (Exit 4 k)
                            | (NoAddr, k) \<Rightarrow> Some (Stop args 3 k)
                            | (Addr b, k) \<Rightarrow>
                                (case (if c_family a = AF_INET then f4_a2 x else f6_a2 x) of
                                   None \<Rightarrow> Some (Stop rest' 5 k)
                                 | Some f \<Rightarrow> finish_op rest' (f a b k)))))
               else
                 (case k_stack k of
                    [] \<Rightarrow> None
                  | a # _ \<Rightarrow>
                      (case (if c_family a = AF_INET then f4_a1 x else f6_a1 x) of
                         None \<Rightarrow> Some (Stop rest 5 k)
                       | Some f \<Rightarrow> finish_op rest (f a k)))))"

lemma finish_op_More: "finish_op rest r = Some (More args' st' k') \<Longrightarrow> args' = rest"
  by (cases r; cases "the r") (auto simp: finish_op_def)

lemma runop_More: "runop L e args st k = Some (More args' st' k') \<Longrightarrow> length args' < length args"
  by (auto simp: runop_def dest!: finish_op_More split: list.splits option.splits if_splits parsed.splits prod.splits)

function run_ops :: "inet \<Rightarrow> endian \<Rightarrow> bytes list \<Rightarrow> nat \<Rightarrow> calc \<Rightarrow> opres option" where
  "run_ops L e args status k =
     (case runop L e args status k of
        Some (More args' status' k') \<Rightarrow> run_ops L e args' status' k'
      | r \<Rightarrow> r)"
  by pat_completeness auto

termination
  by (relation "measure (\<lambda>(L, e, args, status, k). length args)") (auto dest: runop_More)

declare run_ops.simps [simp del]

text \<open>The program: exit status and standard output. \<open>argv\<close> is without the program's name, \<open>mem\<close> are the
  answers of \<open>malloc\<close>.\<close>

definition owipcalc_main :: "inet \<Rightarrow> endian \<Rightarrow> bool list \<Rightarrow> bytes list \<Rightarrow> (nat \<times> bytes) option" where
  "owipcalc_main L e mem argv =
     (if length argv < 2 then Some (1, [])
      else
        (let base = argv ! 0;
             (ok, k) = malloc \<lparr>k_stack = [], k_quiet = False, k_printed = False, k_out = [], k_mem = mem\<rparr>
         in case (if \<not> ok then None else if 58 \<in> set base then cidr_parse6 L base else cidr_parse4 L e base) of
              None \<Rightarrow> Some (1, [])
            | Some a \<Rightarrow>
                (case run_ops L e (tl argv) 0 (cidr_push a k) of
                   None \<Rightarrow> None
                 | Some (Exit n k) \<Rightarrow> Some (n, k_out k)
                 | Some (More args status k) \<Rightarrow> None
                 | Some (Stop args status k) \<Rightarrow>
                     if args \<noteq> [] then Some (6, k_out k)
                     else do { k \<leftarrow> (if \<not> k_printed k \<and> status < 2 then
                                      (case k_stack k of
                                         [] \<Rightarrow> None
                                       | a # _ \<Rightarrow> Some (snd (if c_family a = AF_INET
                                            then cidr_print4 L a k else cidr_print6 L a k)))
                                    else Some k);
                               Some (status, k_out (qprintf [10] k)) })))"

end
