(* ===== verification/Owipcalc_Laws.thy ===== *)
theory Owipcalc_Laws
  imports Owipcalc
begin

text \<open>
  Laws of the IP calculator: the arithmetic operations are exact on the numbers the addresses
  stand for (\<open>v4\<close>, \<open>v6\<close>), the network operations cut the address range at the prefix length, and
  the outcome of a whole run.
\<close>

section \<open>Addresses as numbers\<close>

definition cidr_wf :: "cidr \<Rightarrow> bool" where
  "cidr_wf c \<longleftrightarrow> length (c_addr c) = 16"

definition v4 :: "endian \<Rightarrow> cidr \<Rightarrow> nat" where
  "v4 e c = unat (ntohl e (s_addr e c))"

definition be_val :: "bytes \<Rightarrow> nat" where
  "be_val bs = foldl (\<lambda>a b. a * 256 + unat b) 0 bs"

definition v6 :: "cidr \<Rightarrow> nat" where
  "v6 c = be_val (c_addr c)"

definition top_cidr :: "calc \<Rightarrow> cidr" where
  "top_cidr k = hd (k_stack k)"

lemma ntohl_htonl [simp]: "ntohl e (htonl e w) = w"
  by (cases e) (simp_all add: ntohl_def htonl_def enc32_def dec32_def be32_of_be32)

lemma s_addr_set [simp]: "s_addr e (set_s_addr e w c) = w"
  by (simp add: s_addr_def set_s_addr_def)

lemma s_addr_prefix [simp]: "s_addr e (c\<lparr>c_prefix := p\<rparr>) = s_addr e c"
  by (simp add: s_addr_def)

lemma set_s_addr_frame [simp]:
  "c_family (set_s_addr e w c) = c_family c" "c_prefix (set_s_addr e w c) = c_prefix c"
  by (simp_all add: set_s_addr_def)

lemma cidr_wf_set [simp]: "cidr_wf c \<Longrightarrow> cidr_wf (set_s_addr e w c)"
  by (simp add: cidr_wf_def set_s_addr_def)

lemma of_be32_and:
  "of_be32 [a AND a', b AND b', c AND c', d AND d'] = of_be32 [a, b, c, d] AND of_be32 [a', b', c', d']"
  by (rule bit_word_eqI) (simp add: bit_of_be32 bit_and_iff del: of_be32.simps)

lemma of_be32_or:
  "of_be32 [a OR a', b OR b', c OR c', d OR d'] = of_be32 [a, b, c, d] OR of_be32 [a', b', c', d']"
  by (rule bit_word_eqI) (simp add: bit_of_be32 bit_or_iff del: of_be32.simps)

lemma be32_and: "be32 (x AND y) = map2 (AND) (be32 x) (be32 y)"
  by (simp add: be32_def) (auto intro!: bit_word_eqI simp: bit_simps)

lemma be32_or: "be32 (x OR y) = map2 (OR) (be32 x) (be32 y)"
  by (simp add: be32_def) (auto intro!: bit_word_eqI simp: bit_simps)

lemma ntohl_and: "ntohl e (x AND y) = ntohl e x AND ntohl e y"
proof (cases e)
  case LE
  then show ?thesis
    by (simp add: ntohl_def enc32_def be32_and)
       (simp add: be32_def of_be32_and [symmetric] del: of_be32.simps)
next
  case BE
  then show ?thesis by (simp add: ntohl_def enc32_def)
qed

lemma ntohl_or: "ntohl e (x OR y) = ntohl e x OR ntohl e y"
proof (cases e)
  case LE
  then show ?thesis
    by (simp add: ntohl_def enc32_def be32_or)
       (simp add: be32_def of_be32_or [symmetric] del: of_be32.simps)
next
  case BE
  then show ?thesis by (simp add: ntohl_def enc32_def)
qed

lemma ntohl_inj: "ntohl e x = ntohl e y \<longleftrightarrow> x = y"
proof -
  have "htonl e (ntohl e z) = z" for z
    by (cases e) (simp_all add: ntohl_def htonl_def enc32_def dec32_def be32_of_be32)
  then show ?thesis by metis
qed

section \<open>Sample addresses\<close>

definition ex4 :: "u32 \<Rightarrow> bytes \<Rightarrow> cidr" where
  "ex4 p bs = \<lparr>c_family = AF_INET, c_prefix = p, c_addr = bs @ replicate 12 0\<rparr>"

definition ex6 :: "u32 \<Rightarrow> bytes \<Rightarrow> cidr" where
  "ex6 p bs = \<lparr>c_family = AF_INET6, c_prefix = p, c_addr = bs @ replicate 8 0\<rparr>"

definition ex_calc :: calc where
  "ex_calc = \<lparr>k_stack = [], k_quiet = False, k_printed = False, k_out = [], k_mem = []\<rparr>"

lemma ex_simps [simp]:
  "c_family (ex4 p bs) = AF_INET" "c_prefix (ex4 p bs) = p" "c_family (ex6 p cs) = AF_INET6"
  "c_prefix (ex6 p cs) = p" "length cs = 8 \<Longrightarrow> cidr_wf (ex6 p cs)"
  by (simp_all add: ex4_def ex6_def cidr_wf_def)

section \<open>IPv4\<close>

lemma v4_set_htonl [simp]: "v4 e (set_s_addr e (htonl e w) c) = unat w"
  by (simp add: v4_def)

lemma v4_prefix [simp]: "v4 e (c\<lparr>c_prefix := p\<rparr>) = v4 e c"
  by (simp add: v4_def)

lemma v4_less: "v4 e c < 2 ^ 32"
  using unsigned_less [of "ntohl e (s_addr e c)", where 'a = nat] by (simp add: v4_def)

lemma top_cidr_push [simp]: "top_cidr (cidr_push c k) = c" "k_stack (cidr_push c k) = c # k_stack k"
  by (simp_all add: top_cidr_def cidr_push_def)

lemma shl1_prefix: "1 \<le> p \<Longrightarrow> p \<le> 32 \<Longrightarrow> shl1 (32 - p) = Some (push_bit (32 - unat p) 1)"
proof -
  assume "1 \<le> p" and "p \<le> 32"
  then have "unat (32 - p) = 32 - unat p" and "0 < unat p"
    by (simp_all add: unat_sub word_le_nat_alt)
  then show ?thesis by (simp add: shl1_def)
qed

lemma v4_network:
  "unat (ntohl e (s_addr e c AND htonl e (NOT (push_bit j 1 - 1)))) = v4 e c div 2 ^ j * 2 ^ j"
  unfolding v4_def ntohl_and ntohl_htonl by (rule unat_clear_low)

lemma v4_broadcast:
  "j < 32 \<Longrightarrow> unat (ntohl e (s_addr e c OR htonl e (push_bit j 1 - 1))) = v4 e c div 2 ^ j * 2 ^ j + (2 ^ j - 1)"
  unfolding v4_def ntohl_or ntohl_htonl by (rule unat_set_low) simp

lemma cidr_add4_ok:
  assumes "c_family a = AF_INET" and "c_family b = AF_INET"
  shows "cidr_add4 e a b k =
    (if v4 e a + v4 e b < 2 ^ 32
     then (True, cidr_push (set_s_addr e (htonl e (ntohl e (s_addr e a) + ntohl e (s_addr e b))) a) k)
     else (False, cidr_push a k))"
  using assms no_olen_add_nat [of "ntohl e (s_addr e a)" "ntohl e (s_addr e b)"]
  by (auto simp: cidr_add4_def v4_def Let_def linorder_not_less)

lemma cidr_sub4_ok:
  assumes "c_family a = AF_INET" and "c_family b = AF_INET"
  shows "cidr_sub4 e a b k =
    (if v4 e b \<le> v4 e a
     then (True, cidr_push (set_s_addr e (htonl e (ntohl e (s_addr e a) - ntohl e (s_addr e b))) a) k)
     else (False, cidr_push a k))"
  using assms word_sub_le_iff [of "ntohl e (s_addr e a)" "ntohl e (s_addr e b)"]
  by (auto simp: cidr_sub4_def v4_def Let_def word_less_nat_alt word_le_nat_alt)

text \<open>C14. Adding an IPv4 amount succeeds exactly when the sum is an address, and is then exact;
  subtracting the amount again gives the old address.\<close>

theorem cidr_add_sub4:
  assumes "c_family a = AF_INET" and "c_family b = AF_INET"
    and "cidr_add4 e a b k = (ok, k1)"
  shows "(ok \<longleftrightarrow> v4 e a + v4 e b < 2 ^ 32)
    \<and> (if ok then v4 e (top_cidr k1) = v4 e a + v4 e b
         \<and> fst (cidr_sub4 e (top_cidr k1) b k1) \<and> v4 e (top_cidr (snd (cidr_sub4 e (top_cidr k1) b k1))) = v4 e a
       else top_cidr k1 = a)"
proof -
  have sum: "unat (ntohl e (s_addr e a) + ntohl e (s_addr e b)) = v4 e a + v4 e b"
    if "v4 e a + v4 e b < 2 ^ 32"
    using that unat_add_lem [of "ntohl e (s_addr e a)" "ntohl e (s_addr e b)"] by (simp add: v4_def)
  show ?thesis
    using assms(3) sum
    by (auto simp: cidr_add4_ok [OF assms(1,2)] cidr_sub4_ok assms(1,2) split: if_splits)
       (simp_all add: v4_def)
qed

theorem cidr_add_sub4_witness:
  "\<exists>ok k. cidr_add4 BE (ex4 24 [10, 0, 0, 1]) (ex4 32 [0, 0, 1, 4]) ex_calc = (ok, k)
     \<and> ok \<and> v4 BE (top_cidr k) = 10 * 2 ^ 24 + 261"
proof -
  obtain ok k where r: "cidr_add4 BE (ex4 24 [10, 0, 0, 1]) (ex4 32 [0, 0, 1, 4]) ex_calc = (ok, k)"
    by (meson surj_pair)
  have v: "v4 BE (ex4 24 [10, 0, 0, 1]) = 10 * 2 ^ 24 + 1" "v4 BE (ex4 32 [0, 0, 1, 4]) = 260"
    by (simp_all add: v4_def s_addr_def ex4_def ntohl_def dec32_def enc32_def)
  show ?thesis
    using cidr_add_sub4 [OF _ _ r] v r by auto
qed

text \<open>C15. \<open>network\<close> and \<open>broadcast\<close> give the ends of the range of addresses that share the first
  \<open>p\<close> bits.\<close>

theorem cidr_range4:
  assumes "1 \<le> c_prefix a" and "c_prefix a \<le> 32"
  shows "\<exists>k1 k2. cidr_network4 e a k = Some (True, k1) \<and> cidr_broadcast4 e a k = Some (True, k2)
    \<and> {v4 e (top_cidr k1)..v4 e (top_cidr k2)} =
        {n. n div 2 ^ (32 - unat (c_prefix a)) = v4 e a div 2 ^ (32 - unat (c_prefix a))}
    \<and> c_prefix (top_cidr k1) = 32 \<and> c_prefix (top_cidr k2) = 32"
proof -
  define j where "j = 32 - unat (c_prefix a)"
  have j: "j < 32" using assms(1) by (simp add: j_def word_le_nat_alt)
  have range: "{m div 2 ^ j * 2 ^ j..m div 2 ^ j * 2 ^ j + (2 ^ j - 1)} = {n. n div 2 ^ j = m div 2 ^ j}" for m :: nat
    by (auto simp: div_eq_range [of "2 ^ j"] simp del: div_mult_self1_is_m)
  show ?thesis
    using v4_network [of e a j] v4_broadcast [OF j, of e a] range [of "v4 e a"]
    by (simp add: cidr_network4_def cidr_broadcast4_def shl1_prefix [OF assms] j_def [symmetric] v4_def)
qed

theorem cidr_range4_witness:
  "\<exists>k1 k2. cidr_network4 LE (ex4 24 [10, 0, 0, 1]) ex_calc = Some (True, k1)
     \<and> cidr_broadcast4 LE (ex4 24 [10, 0, 0, 1]) ex_calc = Some (True, k2)
     \<and> c_prefix (top_cidr k1) = 32 \<and> c_prefix (top_cidr k2) = 32"
  using cidr_range4 [of "ex4 24 [10, 0, 0, 1]" LE ex_calc] by auto

text \<open>C16. \<open>contains\<close> asks whether the argument has at least as long a prefix and the same leading
  bits; the stack stays as it is.\<close>

theorem cidr_contains4_range:
  assumes "1 \<le> c_prefix a" and "c_prefix a \<le> 32"
  shows "\<exists>k'. cidr_contains4 e a b k =
    Some (c_prefix a \<le> c_prefix b
            \<and> v4 e a div 2 ^ (32 - unat (c_prefix a)) = v4 e b div 2 ^ (32 - unat (c_prefix a)), k')
    \<and> k_stack k' = k_stack k"
proof -
  define j where "j = 32 - unat (c_prefix a)"
  have "s_addr e a AND htonl e (NOT (push_bit j 1 - 1)) = s_addr e b AND htonl e (NOT (push_bit j 1 - 1))
      \<longleftrightarrow> v4 e a div 2 ^ j * 2 ^ j = v4 e b div 2 ^ j * 2 ^ j"
    unfolding v4_network [symmetric] by (simp only: word_unat_eq_iff [symmetric] ntohl_inj)
  then have eq: "s_addr e a AND htonl e (NOT (push_bit j 1 - 1)) = s_addr e b AND htonl e (NOT (push_bit j 1 - 1))
      \<longleftrightarrow> v4 e a div 2 ^ j = v4 e b div 2 ^ j"
    by simp
  have st: "k_stack (snd (print_bool v (sep k))) = k_stack k" and "fst (print_bool v (sep k)) = v" for v
    by (simp_all add: print_bool_def qprintf_def sep_def)
  have pb: "print_bool v (sep k) = (v, snd (print_bool v (sep k)))" for v
    by (simp add: print_bool_def)
  show ?thesis
    unfolding cidr_contains4_def shl1_prefix [OF assms] j_def [symmetric] Option.bind_lunit Let_def eq
    by (subst pb) (simp add: st)
qed


theorem cidr_contains4_range_witness:
  "\<exists>k'. cidr_contains4 LE (ex4 24 [10, 0, 0, 1]) (ex4 32 [10, 0, 0, 77]) ex_calc = Some (True, k')"
proof -
  have "v4 LE (ex4 24 [10, 0, 0, 1]) = 10 * 2 ^ 24 + 1" "v4 LE (ex4 32 [10, 0, 0, 77]) = 10 * 2 ^ 24 + 77"
    by (simp_all add: v4_def s_addr_def ex4_def ntohl_def dec32_def enc32_def be32_def)
  then show ?thesis
    using cidr_contains4_range [of "ex4 24 [10, 0, 0, 1]" LE "ex4 32 [10, 0, 0, 77]" ex_calc]
    by auto
qed

section \<open>IPv6\<close>

lemma be_val_Nil [simp]: "be_val [] = 0"
  by (simp add: be_val_def)

lemma be_val_snoc [simp]: "be_val (xs @ [b]) = be_val xs * 256 + unat b"
  by (simp add: be_val_def)

lemma be_val_append: "be_val (xs @ ys) = be_val xs * 256 ^ length ys + be_val ys"
proof (induction ys rule: rev_induct)
  case (snoc b ys)
  then show ?case by (simp flip: append_assoc add: algebra_simps)
qed simp

lemma be_val_zero_Cons [simp]: "be_val (0 # xs) = be_val xs"
  by (simp add: be_val_def)

lemma be_val_less: "be_val xs < 256 ^ length xs"
proof (induction xs rule: rev_induct)
  case (snoc b xs)
  have "unat b < 256" using unsigned_less [of b, where 'a = nat] by simp
  with snoc show ?case by simp
qed simp

lemma be_val_zero [simp]: "be_val (replicate n 0) = 0"
proof (induction n)
  case (Suc n)
  have "replicate (Suc n) (0 :: u8) = replicate n 0 @ [0]" by (simp add: replicate_append_same)
  then show ?case using Suc by simp
qed simp

lemma v6_ex6: "v6 (ex6 p bs) = be_val bs * 256 ^ 8"
  by (simp add: v6_def ex6_def be_val_append)

lemma be_val_take_Suc: "i < length xs \<Longrightarrow> be_val (take (Suc i) xs) = be_val (take i xs) * 256 + unat (xs ! i)"
  by (simp add: take_Suc_conv_app_nth)

lemma unat_u8_add3:
  "unat ((a :: u8) + (b + of_nat c)) + 256 * (if unat a + unat b + c \<ge> 256 then 1 else 0) = unat a + unat b + c"
  if "c \<le> 1"
proof -
  have a: "unat a < 256" and b: "unat b < 256"
    using unsigned_less [of a, where 'a = nat] unsigned_less [of b, where 'a = nat] by simp_all
  have "unat (a + (b + of_nat c)) = (unat a + unat b + c) mod 256"
    using that by (simp add: unat_word_ariths unat_of_nat mod_simps add.assoc)
  moreover have "n mod 256 = n - 256" if "256 \<le> n" and "n < 512" for n :: nat
    using that by (simp add: mod_if)
  ultimately show ?thesis using a b that by simp
qed

lemma nth_of_drop: "drop n xs = drop n ys \<Longrightarrow> n < length xs \<Longrightarrow> n < length ys \<Longrightarrow> xs ! n = ys ! n"
  by (metis hd_drop_conv_nth)

lemma add6_loop_spec:
  assumes "add6_loop i c x y = (c', x')" and "i < length x" and "length y = length x" and "c \<le> 1"
  shows "length x' = length x \<and> c' \<le> 1 \<and> drop (Suc i) x' = drop (Suc i) x
    \<and> be_val (take (Suc i) x') + 256 ^ Suc i * c' = be_val (take (Suc i) x) + be_val (take (Suc i) y) + c"
  using assms
proof (induction i arbitrary: c x)
  case 0
  then show ?case
    using unat_u8_add3 [of c "x ! 0" "y ! 0"]
    by (auto simp: add6_loop.simps [of 0] be_val_take_Suc Let_def)
next
  case (Suc i)
  define c1 :: nat where "c1 = (if unat (x ! Suc i) + unat (y ! Suc i) + c \<ge> 256 then 1 else 0)"
  define x1 where "x1 = x[Suc i := x ! Suc i + (y ! Suc i + of_nat c)]"
  have "add6_loop i c1 x1 y = (c', x')"
    using Suc.prems(1) by (simp add: add6_loop.simps [of "Suc i"] c1_def x1_def Let_def)
  then have IH: "length x' = length x1 \<and> c' \<le> 1 \<and> drop (Suc i) x' = drop (Suc i) x1
    \<and> be_val (take (Suc i) x') + 256 ^ Suc i * c' = be_val (take (Suc i) x1) + be_val (take (Suc i) y) + c1"
    using Suc.prems by (intro Suc.IH) (simp_all add: x1_def c1_def)
  have len: "Suc i < length x'" "Suc i < length x1" "length x1 = length x"
    using IH Suc.prems by (simp_all add: x1_def)
  have nth: "x' ! Suc i = x1 ! Suc i"
    using IH len nth_of_drop by blast
  have "drop (Suc (Suc i)) x' = drop (Suc (Suc i)) x1"
    using IH by (metis drop_drop add_Suc plus_1_eq_Suc)
  then have dr: "drop (Suc (Suc i)) x' = drop (Suc (Suc i)) x" by (simp add: x1_def)
  have tk: "take (Suc i) x1 = take (Suc i) x" by (simp add: x1_def)
  have "unat (x1 ! Suc i) + 256 * c1 = unat (x ! Suc i) + unat (y ! Suc i) + c"
    using unat_u8_add3 [of c "x ! Suc i" "y ! Suc i"] Suc.prems by (simp add: x1_def c1_def)
  then have "be_val (take (Suc (Suc i)) x') + 256 ^ Suc (Suc i) * c' =
      be_val (take (Suc (Suc i)) x) + be_val (take (Suc (Suc i)) y) + c"
    using IH Suc.prems len nth tk
    by (simp add: be_val_take_Suc [of "Suc i"] algebra_simps)
  then show ?case using IH len dr by simp
qed

text \<open>Advancing is adding nothing but the carry; going back is the inverse of adding.\<close>

lemma next6_loop_add: "i < length x \<Longrightarrow> next6_loop i c x = add6_loop i c x (replicate (length x) 0)"
proof (induction i arbitrary: c x)
  case 0
  then show ?case by (simp add: next6_loop.simps [of 0] add6_loop.simps [of 0])
next
  case (Suc i)
  then show ?case
    by (simp add: next6_loop.simps [of "Suc i"] add6_loop.simps [of "Suc i"] Let_def)
qed


lemma add6_loop_update:
  "i < j \<Longrightarrow> add6_loop i c (x[j := v]) y = map_prod id (\<lambda>l. l[j := v]) (add6_loop i c x y)"
proof (induction i arbitrary: c x)
  case 0
  then show ?case
    by (simp add: add6_loop.simps [of 0] Let_def list_update_swap)
next
  case (Suc i)
  then show ?case
    by (simp add: add6_loop.simps [of "Suc i"] Let_def list_update_swap [of j "Suc i"])
qed

lemma sub6_loop_frame:
  "sub6_loop i c x y = (c', x') \<Longrightarrow> length x' = length x \<and> c' \<le> 1 \<and> (\<forall>j > i. x' ! j = x ! j)"
proof (induction i arbitrary: c x)
  case 0
  then show ?case by (auto simp: sub6_loop.simps [of 0] Let_def)
next
  case (Suc i)
  then show ?case
    by (auto simp: sub6_loop.simps [of "Suc i"] Let_def dest!: Suc.IH)
qed

lemma unat_u8_sub3:
  assumes "c \<le> 1"
  shows "unat (a - (b + of_nat c) :: u8) + unat b + c \<ge> 256 \<longleftrightarrow> int (unat a) - int (unat b) - int c < 0"
proof -
  define d where "d = a - (b + of_nat c)"
  have a: "unat a < 256" and b: "unat b < 256" and d: "unat d < 256"
    using unsigned_less [of a, where 'a = nat] unsigned_less [of b, where 'a = nat]
      unsigned_less [of d, where 'a = nat] by simp_all
  have "d + (b + of_nat c) = a" by (simp add: d_def)
  with unat_u8_add3 [OF assms, of d b]
  have "unat a + 256 * (if unat d + unat b + c \<ge> 256 then 1 else 0) = unat d + unat b + c" by simp
  moreover have "A + 256 * (if D + B + c \<ge> 256 then 1 else 0) = D + B + c \<Longrightarrow> A < 256 \<Longrightarrow> D < 256 \<Longrightarrow>
      D + B + c \<ge> 256 \<longleftrightarrow> int A - int B - int c < 0" for A B D :: nat
    by (auto split: if_splits)
  ultimately show ?thesis unfolding d_def [symmetric] using a d by blast
qed

lemma add6_loop_sub6:
  "sub6_loop i c x y = (c', x') \<Longrightarrow> i < length x \<Longrightarrow> c \<le> 1 \<Longrightarrow> add6_loop i c x' y = (c', x)"
proof (induction i arbitrary: c x x')
  case 0
  then show ?case
    by (auto simp: sub6_loop.simps [of 0] add6_loop.simps [of 0] Let_def unat_u8_sub3 split: if_splits)
next
  case (Suc i)
  define c1 :: nat where "c1 = (if int (unat (x ! Suc i)) - int (unat (y ! Suc i)) - int c < 0 then 1 else 0)"
  define x1 where "x1 = x[Suc i := x ! Suc i - (y ! Suc i + of_nat c)]"
  have sub: "sub6_loop i c1 x1 y = (c', x')"
    using Suc.prems(1) by (simp add: sub6_loop.simps [of "Suc i"] c1_def x1_def Let_def)
  then have add: "add6_loop i c1 x' y = (c', x1)"
    using Suc.prems by (intro Suc.IH) (simp_all add: x1_def c1_def)
  have d: "x' ! Suc i = x ! Suc i - (y ! Suc i + of_nat c)"
    using sub6_loop_frame [OF sub] Suc.prems by (simp add: x1_def)
  have "add6_loop (Suc i) c x' y = add6_loop i c1 (x'[Suc i := x ! Suc i]) y"
    using unat_u8_sub3 [OF Suc.prems(3), of "x ! Suc i" "y ! Suc i"]
    by (simp add: add6_loop.simps [of "Suc i"] d c1_def Let_def)
  also have "\<dots> = (c', x1[Suc i := x ! Suc i])"
    by (simp add: add6_loop_update add)
  finally show ?case by (simp add: x1_def)
qed

lemma prev6_loop_sub: "i < length x \<Longrightarrow> prev6_loop i c x = sub6_loop i c x (replicate (length x) 0)"
proof (induction i arbitrary: c x)
  case 0
  then show ?case by (simp add: prev6_loop.simps [of 0] sub6_loop.simps [of 0])
next
  case (Suc i)
  then show ?case
    by (simp add: prev6_loop.simps [of "Suc i"] sub6_loop.simps [of "Suc i"] Let_def)
qed

lemma v6_less: "cidr_wf c \<Longrightarrow> v6 c < 2 ^ 128"
  using be_val_less [of "c_addr c"] by (simp add: cidr_wf_def v6_def)

lemma add6_exact:
  assumes "cidr_wf a" and "cidr_wf b" and "add6_loop 15 0 (c_addr a) (c_addr b) = (c', x')"
  shows "length x' = 16 \<and> c' \<le> 1 \<and> be_val x' + 2 ^ 128 * c' = v6 a + v6 b"
proof -
  have la: "length (c_addr a) = 16" and lb: "length (c_addr b) = 16"
    using assms(1,2) by (simp_all add: cidr_wf_def)
  note S = add6_loop_spec [OF assms(3)]
  have lx: "length x' = 16" using S la lb by simp
  then have tk: "take (Suc 15) x' = x'" "take (Suc 15) (c_addr a) = c_addr a"
      "take (Suc 15) (c_addr b) = c_addr b"
    using la lb by simp_all
  have "be_val x' + 256 ^ Suc 15 * c' = be_val (c_addr a) + be_val (c_addr b) + 0 \<and> c' \<le> 1"
    using S la lb unfolding tk by simp
  then show ?thesis using lx by (simp add: v6_def)
qed

lemma sub6_exact:
  assumes "cidr_wf a" and "cidr_wf b" and "sub6_loop 15 0 (c_addr a) (c_addr b) = (c', x')"
  shows "length x' = 16 \<and> c' \<le> 1 \<and> be_val x' + v6 b = v6 a + 2 ^ 128 * c'"
proof -
  have fr: "length x' = 16 \<and> c' \<le> 1"
    using sub6_loop_frame [OF assms(3)] assms(1) by (simp add: cidr_wf_def)
  have "add6_loop 15 0 x' (c_addr b) = (c', c_addr a)"
    using add6_loop_sub6 [OF assms(3)] assms(1) by (simp add: cidr_wf_def)
  then have "length (c_addr a) = 16 \<and> c' \<le> 1 \<and> be_val (c_addr a) + 2 ^ 128 * c' = be_val x' + v6 b"
    using add6_exact [of "a\<lparr>c_addr := x'\<rparr>" b c' "c_addr a"] fr assms(2) by (simp add: cidr_wf_def v6_def)
  then show ?thesis using fr by (simp add: v6_def)
qed

text \<open>C17. \<open>add\<close> and \<open>sub\<close> on IPv6 addresses are addition and subtraction of 128-bit numbers: they
  succeed exactly when the result is an address, and wrap around otherwise.\<close>

theorem cidr_add_sub6:
  assumes "c_family a = AF_INET6" and "c_family b = AF_INET6" and "cidr_wf a" and "cidr_wf b"
    and "cidr_add6 a b k = (ok, k1)" and "cidr_sub6 a b k = (ok', k2)"
  shows "(ok \<longleftrightarrow> v6 a + v6 b < 2 ^ 128) \<and> v6 (top_cidr k1) = (v6 a + v6 b) mod 2 ^ 128
    \<and> (ok' \<longleftrightarrow> v6 b \<le> v6 a) \<and> int (v6 (top_cidr k2)) = (int (v6 a) - int (v6 b)) mod 2 ^ 128"
proof -
  obtain c x where cx: "add6_loop 15 0 (c_addr a) (c_addr b) = (c, x)" by (meson surj_pair)
  obtain d y where dy: "sub6_loop 15 0 (c_addr a) (c_addr b) = (d, y)" by (meson surj_pair)
  have X: "length x = 16" "c \<le> 1" "be_val x + 2 ^ 128 * c = v6 a + v6 b"
    using add6_exact [OF assms(3,4) cx] by simp_all
  have Y: "length y = 16" "d \<le> 1" "be_val y + v6 b = v6 a + 2 ^ 128 * d"
    using sub6_exact [OF assms(3,4) dy] by simp_all
  have lx: "be_val x < 2 ^ 128" and ly: "be_val y < 2 ^ 128"
    using be_val_less [of x] be_val_less [of y] X Y by simp_all
  have "int (be_val y) = (int (v6 a) - int (v6 b)) + 2 ^ 128 * int d"
    using Y(3) by simp
  then have "(int (v6 a) - int (v6 b)) mod 2 ^ 128 = int (be_val y) mod 2 ^ 128"
    by (metis mod_mult_self2)
  moreover have "int (be_val y) mod 2 ^ 128 = int (be_val y)" using ly by simp
  moreover have "(v6 a + v6 b) mod 2 ^ 128 = be_val x"
    using X(3) [symmetric] lx by simp
  moreover have "c = 0 \<longleftrightarrow> v6 a + v6 b < 2 ^ 128"
    using X lx by (cases c) simp_all
  moreover have "d = 0 \<longleftrightarrow> v6 b \<le> v6 a"
    using Y ly v6_less [OF assms(3)] v6_less [OF assms(4)] by (cases d) auto
  ultimately show ?thesis
    using assms(1,2,5,6) cx dy by (auto simp: cidr_add6_def cidr_sub6_def v6_def)
qed


theorem cidr_add_sub6_witness:
  "\<exists>ok k. cidr_add6 (ex6 64 [32, 1, 13, 184, 0, 0, 0, 255]) (ex6 64 [0, 0, 0, 0, 0, 0, 0, 1]) ex_calc = (ok, k)
     \<and> v6 (top_cidr k) = v6 (ex6 64 [32, 1, 13, 184, 0, 0, 1, 0])"
proof -
  let ?a = "ex6 64 [32, 1, 13, 184, 0, 0, 0, 255]" and ?b = "ex6 64 [0, 0, 0, 0, 0, 0, 0, 1]"
  obtain ok k where r: "cidr_add6 ?a ?b ex_calc = (ok, k)" by (meson surj_pair)
  obtain ok' k' where r': "cidr_sub6 ?a ?b ex_calc = (ok', k')" by (meson surj_pair)
  have "v6 ?a + v6 ?b = v6 (ex6 64 [32, 1, 13, 184, 0, 0, 1, 0])"
    by (simp add: v6_ex6) (simp add: be_val_def)
  moreover have "v6 (ex6 64 [32, 1, 13, 184, 0, 0, 1, 0]) < 2 ^ 128"
    by (rule v6_less) simp
  ultimately show ?thesis
    using cidr_add_sub6 [OF _ _ _ _ r r'] r by auto
qed

section \<open>Prefixes of IPv6 addresses\<close>

lemma quot_unique: "x < d \<Longrightarrow> y < d \<Longrightarrow> t * d + x = u * d + y \<longleftrightarrow> t = u \<and> x = y" for d x y t u :: nat
  by (metis add_right_imp_eq div_mult_self3 div_less add.commute add_0 not_less_zero)

lemma be_val_inj: "length xs = length ys \<Longrightarrow> be_val xs = be_val ys \<longleftrightarrow> xs = ys"
proof (induction xs arbitrary: ys rule: rev_induct)
  case (snoc b xs)
  then obtain zs c where ys: "ys = zs @ [c]" by (cases ys rule: rev_cases) auto
  have "unat b < 256" and "unat c < 256"
    using unsigned_less [of b, where 'a = nat] unsigned_less [of c, where 'a = nat] by simp_all
  moreover have "be_val xs = be_val zs \<longleftrightarrow> xs = zs" using snoc ys by simp
  ultimately show ?case by (simp add: ys word_unat_eq_iff quot_unique)
qed simp

lemma be_val_div: "i \<le> length xs \<Longrightarrow> be_val xs div 256 ^ i = be_val (take (length xs - i) xs)"
proof -
  assume i: "i \<le> length xs"
  let ?t = "take (length xs - i) xs" and ?d = "drop (length xs - i) xs"
  have "be_val xs = be_val ?t * 256 ^ i + be_val ?d"
    using be_val_append [of ?t ?d] i by simp
  moreover have "be_val ?d < 256 ^ i" using be_val_less [of ?d] i by simp
  ultimately show ?thesis by simp
qed

lemma div_split: "r \<le> 8 \<Longrightarrow> (t * 256 + n) div 2 ^ r = t * 2 ^ (8 - r) + n div 2 ^ r" for t n :: nat
proof -
  assume "r \<le> 8"
  then have "(256 :: nat) = 2 ^ (8 - r) * 2 ^ r" by (simp flip: power_add)
  then have eq: "t * 256 + n = n + (t * 2 ^ (8 - r)) * 2 ^ r" by (metis add.commute mult.assoc)
  show ?thesis unfolding eq by (rule div_mult_self1) simp
qed

lemma cut_eq:
  fixes a b t u :: nat
  assumes "a < 256" and "b < 256" and "r < 8"
  shows "(t * 256 + a) div 2 ^ r = (u * 256 + b) div 2 ^ r \<longleftrightarrow> t = u \<and> a div 2 ^ r = b div 2 ^ r"
proof -
  have "(256 :: nat) = 2 ^ (8 - r) * 2 ^ r" using assms(3) by (simp flip: power_add)
  then have "a div 2 ^ r < 2 ^ (8 - r)" and "b div 2 ^ r < 2 ^ (8 - r)"
    using assms(1,2) by (simp_all add: less_mult_imp_div_less)
  then show ?thesis using assms(3) by (simp add: div_split quot_unique)
qed

lemma low_mask_eq: "x AND low_mask r = y AND low_mask r \<longleftrightarrow> unat x div 2 ^ r = unat y div 2 ^ r"
  unfolding low_mask_def word_unat_eq_iff unat_clear_low by simp

lemma prefix_cut:
  assumes "length x = 16" and "length y = 16" and "d < 128"
  shows "be_val x div 2 ^ d = be_val y div 2 ^ d \<longleftrightarrow>
    x ! (15 - d div 8) AND low_mask (d mod 8) = y ! (15 - d div 8) AND low_mask (d mod 8)
    \<and> take (15 - d div 8) x = take (15 - d div 8) y"
proof -
  define i r where "i = d div 8" and "r = d mod 8"
  have i: "i < 16" and r: "r < 8" using assms(3) by (auto simp: i_def r_def)
  have "(2 :: nat) ^ d = 256 ^ i * 2 ^ r"
  proof -
    have "(256 :: nat) ^ i = 2 ^ (8 * i)" by (simp add: power_mult)
    then show ?thesis by (simp add: i_def r_def flip: power_add)
  qed
  then have "be_val z div 2 ^ d = be_val (take (16 - i) z) div 2 ^ r" if "length z = 16" for z
    using be_val_div [of i z] that i by (simp add: div_mult2_eq)
  moreover have "be_val (take (16 - i) z) = be_val (take (15 - i) z) * 256 + unat (z ! (15 - i))"
    if "length z = 16" for z
    using be_val_take_Suc [of "15 - i" z] that i by (simp add: Suc_diff_le [symmetric])
  moreover have "unat (z :: u8) < 256" for z using unsigned_less [of z, where 'a = nat] by simp
  ultimately show ?thesis
    using assms(1,2) r unfolding i_def [symmetric] r_def [symmetric]
    by (simp add: cut_eq be_val_inj low_mask_eq) blast
qed

lemma unat_sub128: "p \<le> 128 \<Longrightarrow> unat (128 - p :: u32) = 128 - unat p"
  by (simp add: unat_sub)

text \<open>C18. \<open>contains\<close> on IPv6 compares the leading bits of the 128-bit addresses. It leaves a copy of
  the base address on the stack.\<close>

theorem cidr_contains6_range:
  assumes "cidr_wf a" and "cidr_wf b" and "1 \<le> c_prefix a" and "c_prefix a \<le> 128"
  shows "\<exists>k'. cidr_contains6 a b k =
    Some (c_prefix a \<le> c_prefix b
            \<and> v6 a div 2 ^ (128 - unat (c_prefix a)) = v6 b div 2 ^ (128 - unat (c_prefix a)), k')
    \<and> k_stack k' = a # k_stack k"
proof -
  define d where "d = 128 - unat (c_prefix a)"
  have p: "1 \<le> unat (c_prefix a)" using assms(3) by (simp add: word_le_nat_alt)
  then have d: "d < 128" by (simp add: d_def)
  have l: "length (c_addr a) = 16" "length (c_addr b) = 16"
    using assms by (simp_all add: cidr_wf_def)
  have i: "(d div 8) mod 256 = d div 8" "d div 8 \<le> 15" using d by auto
  have st: "k_stack (snd (print_bool v (sep k))) = k_stack k" for v k
    by (simp add: print_bool_def qprintf_def sep_def)
  have pb: "print_bool v (sep k) = (v, snd (print_bool v (sep k)))" for v k
    by (simp add: print_bool_def)
  have "take (15 - d div 8) x = take (15 - d div 8) y \<or> d div 8 \<noteq> 15" if "d div 8 = 15" for x y :: bytes
    using that by simp
  then have cut: "(v6 a div 2 ^ d = v6 b div 2 ^ d) \<longleftrightarrow>
      (c_addr a ! (15 - d div 8) AND low_mask (d mod 8) = c_addr b ! (15 - d div 8) AND low_mask (d mod 8)
       \<and> (d div 8 = 15 \<or> take (15 - d div 8) (c_addr a) = take (15 - d div 8) (c_addr b)))"
    unfolding v6_def prefix_cut [OF l d] by auto
  show ?thesis
    unfolding d_def [symmetric] cut cidr_contains6_def Let_def unat_sub128 [OF assms(4)] d_def [symmetric] i(1)
    using i(2) by (subst pb) (simp add: st cidr_push_def)
qed


theorem cidr_contains6_range_witness:
  "\<exists>k'. cidr_contains6 (ex6 57 [32, 1, 13, 184, 0, 0, 0, 255]) (ex6 64 [32, 1, 13, 184, 0, 0, 0, 130]) ex_calc
     = Some (True, k') \<and> k_stack k' = [ex6 57 [32, 1, 13, 184, 0, 0, 0, 255]]"
proof -
  let ?a = "ex6 57 [32, 1, 13, 184, 0, 0, 0, 255]" and ?b = "ex6 64 [32, 1, 13, 184, 0, 0, 0, 130]"
  have "v6 ?a div 2 ^ (128 - 57) = v6 ?b div 2 ^ (128 - 57)"
    by (simp add: v6_ex6) (simp add: be_val_def)
  then show ?thesis
    using cidr_contains6_range [of ?a ?b ex_calc] by (simp add: ex_calc_def)
qed

lemma next6_spec:
  assumes "length x = 16" and "i < 16" and "next6_loop i 1 x = (c, x')"
  shows "length x' = 16 \<and> (c = 0 \<longleftrightarrow> be_val x + 256 ^ (15 - i) < 2 ^ 128)
    \<and> be_val x' = (be_val x + 256 ^ (15 - i)) mod 2 ^ 128"
proof -
  have "add6_loop i 1 x (replicate 16 0) = (c, x')"
    using next6_loop_add [of i x 1] assms by simp
  then have S: "length x' = 16" "c \<le> 1" "drop (Suc i) x' = drop (Suc i) x"
    "be_val (take (Suc i) x') + 256 ^ Suc i * c = be_val (take (Suc i) x) + 1"
    using add6_loop_spec [of i 1 x "replicate 16 0" c x'] assms by (simp_all add: min_def)
  define T D T' where "T = be_val (take (Suc i) x)" and "D = be_val (drop (Suc i) x)"
    and "T' = be_val (take (Suc i) x')"
  have split: "be_val z = be_val (take (Suc i) z) * 256 ^ (15 - i) + be_val (drop (Suc i) z)"
    if "length z = 16" for z
    using be_val_append [of "take (Suc i) z" "drop (Suc i) z"] that by simp
  have x: "be_val x = T * 256 ^ (15 - i) + D" and x': "be_val x' = T' * 256 ^ (15 - i) + D"
    using split assms(1) S by (simp_all add: T_def D_def T'_def)
  have D: "D < 256 ^ (15 - i)"
    using be_val_less [of "drop (Suc i) x"] assms(1) by (simp add: D_def)
  have T': "T' < 256 ^ Suc i"
    using be_val_less [of "take (Suc i) x'"] assms(2) S(1) by (simp add: T'_def min_absorb2)
  have T: "T' + 256 ^ Suc i * c = T + 1" using S(4) by (simp add: T_def T'_def)
  have pow: "(2 :: nat) ^ 128 = 256 ^ Suc i * 256 ^ (15 - i)"
  proof -
    have "(256 :: nat) ^ Suc i * 256 ^ (15 - i) = 256 ^ 16"
      using assms(2) by (simp only: power_add [symmetric]) simp
    then show ?thesis by simp
  qed
  have "(T' + 256 ^ Suc i * c) * 256 ^ (15 - i) + D = (T + 1) * 256 ^ (15 - i) + D" by (simp only: T)
  then have eq: "be_val x' + 2 ^ 128 * c = be_val x + 256 ^ (15 - i)"
    unfolding pow x x' by (simp only: algebra_simps)
  have less: "be_val x' < 2 ^ 128" using be_val_less [of x'] S(1) by simp
  have mod: "be_val x' = (be_val x' + 2 ^ 128 * c) mod 2 ^ 128" using less by simp
  have "c = 0 \<longleftrightarrow> be_val x' + 2 ^ 128 * c < 2 ^ 128" using less by (cases c) simp_all
  then show ?thesis using S(1) mod unfolding eq by blast
qed

lemma byte_prefix:
  fixes p :: nat
  assumes "1 \<le> p" and "p \<le> 128"
  shows "8 * (15 - (p - 1) div 8) = 128 - p \<longleftrightarrow> 8 dvd p"
proof -
  define q r where "q = (p - 1) div 8" and "r = (p - 1) mod 8"
  have "p - 1 = 8 * q + r" unfolding q_def r_def by simp
  then have p: "p = 8 * q + Suc r" using assms(1) by simp
  have r: "r < 8" by (simp add: r_def)
  then have q: "q \<le> 15" using p assms(2) by simp
  have "8 * (15 - q) = 128 - p \<longleftrightarrow> r = 7" using p q r by auto
  also have "\<dots> \<longleftrightarrow> 8 dvd p"
  proof
    assume "8 dvd p"
    then have "8 dvd Suc r" using p dvd_add_right_iff [of 8 "8 * q" "Suc r"] by simp
    then have "8 \<le> Suc r" by (rule dvd_imp_le) simp
    with r show "r = 7" by simp
  qed (simp add: p)
  finally show ?thesis by (simp add: q_def)
qed

text \<open>C19. \<open>next\<close> on an IPv6 address adds one to the byte that holds the last bit of the prefix, with the
  carry into the bytes before it: to the number it adds the place value of that byte, with the result of
  128 bits, and it reports whether that is an address. The new address gets the prefix length exactly when it
  is. It is the next network of the given size exactly when the prefix length is a multiple of 8.\<close>

theorem cidr_next6_step:
  assumes "cidr_wf a" and "1 \<le> c_prefix b" and "c_prefix b \<le> 128"
  shows "\<exists>ok k' c. cidr_next6 a b k = Some (ok, k') \<and> k_stack k' = c # k_stack k
    \<and> (ok \<longleftrightarrow> v6 a + 256 ^ (15 - (unat (c_prefix b) - 1) div 8) < 2 ^ 128)
    \<and> v6 c = (v6 a + 256 ^ (15 - (unat (c_prefix b) - 1) div 8)) mod 2 ^ 128
    \<and> c_family c = c_family a \<and> c_prefix c = (if ok then c_prefix b else c_prefix a)
    \<and> (ok \<longrightarrow> (v6 c = v6 a + 2 ^ (128 - unat (c_prefix b)) \<longleftrightarrow> 8 dvd unat (c_prefix b)))"
proof -
  define p i where "p = unat (c_prefix b)" and "i = (p - 1) div 8"
  have p: "1 \<le> p" "p \<le> 128" using assms(2,3) by (simp_all add: p_def word_le_nat_alt)
  then have i: "i < 16" "prefix_byte (c_prefix b) = i" "c_prefix b \<noteq> 0"
    by (auto simp: i_def prefix_byte_def p_def)
  obtain c x where cx: "next6_loop i 1 (c_addr a) = (c, x)" by (meson surj_pair)
  have N: "c = 0 \<longleftrightarrow> v6 a + 256 ^ (15 - i) < 2 ^ 128" "be_val x = (v6 a + 256 ^ (15 - i)) mod 2 ^ 128"
    using next6_spec [OF _ i(1) cx] assms(1) by (simp_all add: cidr_wf_def v6_def)
  then have N2: "c = 0 \<Longrightarrow> be_val x = v6 a + 256 ^ (15 - i)" by simp
  have "(256 :: nat) ^ (15 - i) = 2 ^ (8 * (15 - i))" by (simp add: power_mult)
  then have "(256 :: nat) ^ (15 - i) = 2 ^ (128 - p) \<longleftrightarrow> 8 * (15 - i) = 128 - p" by simp
  also have "\<dots> \<longleftrightarrow> 8 dvd p" unfolding i_def by (rule byte_prefix [OF p])
  finally show ?thesis
    unfolding p_def [symmetric] i_def [symmetric] cidr_next6_def i(2) cx
    using i N N2 by (auto simp: v6_def cidr_push_def)
qed

theorem cidr_next6_step_witness:
  "\<exists>ok k'. cidr_next6 (ex6 60 [32, 1, 13, 184, 0, 0, 0, 0]) (ex6 60 [0, 0, 0, 0, 0, 0, 0, 0]) ex_calc = Some (ok, k')
     \<and> ok \<and> v6 (top_cidr k') = v6 (ex6 60 [32, 1, 13, 184, 0, 0, 0, 0]) + 2 ^ 64 \<and> v6 (top_cidr k') \<noteq> v6 (ex6 60 [32, 1, 13, 184, 0, 0, 0, 0]) + 2 ^ 68"
proof -
  let ?a = "ex6 60 [32, 1, 13, 184, 0, 0, 0, 0]" and ?b = "ex6 60 [0, 0, 0, 0, 0, 0, 0, 0]"
  have "v6 ?a + 256 ^ 8 < 2 ^ 128"
    by (simp add: v6_ex6) (simp add: be_val_def)
  then show ?thesis
    using cidr_next6_step [of ?a ?b ex_calc] by (auto simp: top_cidr_def)
qed

section \<open>Next and previous IPv4 network\<close>

text \<open>C20. On a big-endian host \<open>next\<close> and \<open>prev\<close> step by the size of the network.\<close>

theorem cidr_step4:
  assumes "1 \<le> c_prefix b" and "c_prefix b \<le> 32"
  shows "\<exists>k1 k2. cidr_next4 BE a b k = Some (True, k1) \<and> cidr_prev4 BE (top_cidr k1) b k1 = Some (True, k2)
    \<and> v4 BE (top_cidr k1) = (v4 BE a + 2 ^ (32 - unat (c_prefix b))) mod 2 ^ 32
    \<and> v4 BE (top_cidr k2) = v4 BE a"
proof -
  define j where "j = 32 - unat (c_prefix b)"
  have j: "j < 32" using assms(1) by (simp add: j_def word_le_nat_alt)
  have be: "htonl BE w = w" "ntohl BE w = w" for w
    by (simp_all add: htonl_def ntohl_def dec32_def enc32_def)
  have "unat (push_bit j 1 :: u32) = 2 ^ j"
    using unsigned_push_bit_eq [where 'a = nat, of j "1 :: u32"] power_strict_increasing [OF j, of "2 :: nat"]
    by (simp add: take_bit_eq_mod push_bit_eq_mult)
  then show ?thesis
    unfolding cidr_next4_def cidr_prev4_def shl1_prefix [OF assms] j_def [symmetric]
    by (simp add: v4_def be unat_word_ariths)
qed

theorem cidr_step4_witness:
  "\<exists>k1. cidr_next4 BE (ex4 24 [10, 0, 255, 0]) (ex4 24 [0, 0, 0, 0]) ex_calc = Some (True, k1)
     \<and> v4 BE (top_cidr k1) = 10 * 2 ^ 24 + 2 ^ 16"
proof -
  have "v4 BE (ex4 24 [10, 0, 255, 0]) = 10 * 2 ^ 24 + 255 * 2 ^ 8"
    by (simp add: v4_def s_addr_def ex4_def ntohl_def dec32_def enc32_def)
  then show ?thesis
    using cidr_step4 [of "ex4 24 [0, 0, 0, 0]" "ex4 24 [10, 0, 255, 0]" ex_calc] by auto
qed

text \<open>On a little-endian host the carry between the bytes goes the wrong way: the \<open>/24\<close> network
  after \<open>10.0.255.0\<close> comes out as \<open>10.0.0.1\<close>.\<close>

lemma cidr_next4_little_endian:
  "\<exists>k'. cidr_next4 LE \<lparr>c_family = AF_INET, c_prefix = 24, c_addr = [10, 0, 255, 0] @ replicate 12 0\<rparr>
     \<lparr>c_family = AF_INET, c_prefix = 24, c_addr = replicate 16 0\<rparr> k = Some (True, k')
   \<and> take 4 (c_addr (top_cidr k')) = [10, 0, 0, 1]"
  by (simp add: cidr_next4_def shl1_def htonl_def s_addr_def set_s_addr_def dec32_def enc32_def be32_def)

section \<open>The whole run\<close>

text \<open>No operation changes the answers of \<open>malloc\<close>, except by asking for one.\<close>

lemma keeps_mem [simp]:
  "k_mem (qprintf t k) = k_mem k" "k_mem (sep k) = k_mem k" "k_mem (cidr_push a k) = k_mem k"
  "k_mem (snd (cidr_pop k)) = k_mem k" "k_mem (snd (print_bool v k)) = k_mem k"
  by (simp_all add: qprintf_def sep_def cidr_push_def cidr_pop_def print_bool_def split: list.split)

definition frugal :: "(calc \<Rightarrow> (bool \<times> calc) option) \<Rightarrow> bool" where
  "frugal f \<longleftrightarrow> (\<forall>k ok k'. f k = Some (ok, k') \<longrightarrow> k_mem k' = k_mem k)"

lemma frugal_total: "(\<And>k. k_mem (snd (f a k)) = k_mem k) \<Longrightarrow> frugal (total1 f a)"
  "(\<And>k. k_mem (snd (g a b k)) = k_mem k) \<Longrightarrow> frugal (total2 g a b)"
  by (simp_all add: frugal_def total1_def total2_def) (metis snd_conv)+

lemma frugal_ops:
  "frugal (total2 (cidr_add4 e) a b)" "frugal (total2 cidr_add6 a b)" "frugal (total2 (cidr_sub4 e) a b)"
  "frugal (total2 cidr_sub6 a b)" "frugal (total2 cidr_prefix a b)" "frugal (total1 (cidr_6to4 e) a)"
  "frugal (total1 (cidr_private4 e) a)" "frugal (total1 (cidr_linklocal4 e) a)" "frugal (total1 cidr_linklocal6 a)"
  "frugal (total1 cidr_ula6 a)" "frugal (total1 cidr_quiet a)" "frugal (total1 (\<lambda>_. cidr_pop) a)"
  "frugal (total1 (cidr_print4 L) a)" "frugal (total1 (cidr_print6 L) a)"
  by (rule frugal_total, simp add: cidr_add4_def cidr_add6_def cidr_sub4_def cidr_sub6_def cidr_prefix_def
      cidr_6to4_def cidr_private4_def cidr_linklocal4_def cidr_linklocal6_def cidr_ula6_def cidr_quiet_def
      cidr_print4_def cidr_print6_def Let_def split: prod.split)+

lemma frugal_options:
  "frugal (cidr_next4 e a b)" "frugal (cidr_next6 a b)" "frugal (cidr_prev4 e a b)" "frugal (cidr_prev6 a b)"
  "frugal (cidr_network4 e a)" "frugal (cidr_network6 a)" "frugal (cidr_broadcast4 e a)" "frugal (cidr_netmask4 e a)"
  "frugal (cidr_howmany a b)" "frugal (cidr_contains4 e a b)" "frugal (cidr_contains6 a b)"
  by (auto simp: frugal_def cidr_next4_def cidr_next6_def cidr_prev4_def cidr_prev6_def cidr_network4_def
      cidr_network6_def cidr_broadcast4_def cidr_netmask4_def cidr_howmany_def cidr_contains4_def cidr_contains6_def
      Let_def print_bool_def split: if_splits prod.splits Option.bind_splits)

text \<open>An operation returns with what is left of the answers, or found a refusal among them.\<close>

definition mem_ok :: "calc \<Rightarrow> outcome option \<Rightarrow> bool" where
  "mem_ok k r \<longleftrightarrow> (case r of None \<Rightarrow> True | Some (Ret ok k') \<Rightarrow> set (k_mem k') \<subseteq> set (k_mem k)
     | Some (Quit n k') \<Rightarrow> n = 255 \<and> False \<in> set (k_mem k))"

lemma malloc_mem: "malloc k = (ok, k') \<Longrightarrow> set (k_mem k') \<subseteq> set (k_mem k) \<and> (\<not> ok \<longrightarrow> False \<in> set (k_mem k))"
  by (auto simp: malloc_def split: list.splits)

lemma mem_ok_return: "frugal f \<Longrightarrow> mem_ok k (return (f k))"
  by (cases "f k") (auto simp: mem_ok_def return_def frugal_def)

lemma mem_ok_clone: "frugal f \<Longrightarrow> mem_ok k (cidr_clone f k)"
proof -
  assume f: "frugal f"
  obtain ok k1 where m: "malloc k = (ok, k1)" by (meson surj_pair)
  show ?thesis using malloc_mem [OF m] mem_ok_return [OF f, of k1]
    by (auto simp: cidr_clone_def m mem_ok_def split: option.splits outcome.splits)
qed

lemma ops_mem_ok:
  assumes "x \<in> set (ops L e)"
  shows "f4_a1 x = Some f \<or> f6_a1 x = Some f \<Longrightarrow> mem_ok k (f a k)"
    and "f4_a2 x = Some g \<or> f6_a2 x = Some g \<Longrightarrow> mem_ok k (g a b k)"
  using assms
  by (auto simp: ops_def op1_def op2_def clone1_def clone2_def plain1_def plain2_def
      intro!: mem_ok_return mem_ok_clone frugal_ops frugal_options)

lemma finish_status:
  assumes "finish_op rest r = Some q" and "mem_ok k r"
  shows "case q of More args' st' k' \<Rightarrow> st' \<le> 1 \<and> set (k_mem k') \<subseteq> set (k_mem k)
    | Stop args' st' k' \<Rightarrow> False | Exit n k' \<Rightarrow> n = 255 \<and> False \<in> set (k_mem k)"
  using assms by (auto simp: finish_op_def mem_ok_def split: option.splits outcome.splits if_splits)

lemma parse_arg_mem: "cidr_parse_arg L e s h k = (p, k') \<Longrightarrow> set (k_mem k') \<subseteq> set (k_mem k)"
  by (auto simp: cidr_parse_arg_def dest!: malloc_mem split: prod.splits)

text \<open>What a call of \<open>runop\<close> comes down to.\<close>

lemma runop_cases:
  assumes "runop L e args st k = Some r"
  obtains (stop) args' st' k' where "r = Stop args' st' k'" "st' = st \<or> st' = 5 \<or> args' \<noteq> []"
  | (wrong) k' where "r = Exit 4 k'"
  | (call1) x f a rest where "x \<in> set (ops L e)" "f4_a1 x = Some f \<or> f6_a1 x = Some f" "finish_op rest (f a k) = Some r"
  | (call2) x g a b k1 rest where "x \<in> set (ops L e)" "f4_a2 x = Some g \<or> f6_a2 x = Some g"
      "set (k_mem k1) \<subseteq> set (k_mem k)" "finish_op rest (g a b k1) = Some r"
proof (cases args)
  case Nil
  then show ?thesis using assms stop by (auto simp: runop_def)
next
  case (Cons arg1 rest)
  show ?thesis
  proof (cases "find (\<lambda>x. op_name x = arg1) (ops L e)")
    case None
    then show ?thesis using assms stop by (auto simp: runop_def Cons)
  next
    case (Some x)
    then have x: "x \<in> set (ops L e)" by (auto simp: find_Some_iff)
    consider (one) "f4_a2 x = None" "f6_a2 x = None" | (two) "f4_a2 x \<noteq> None \<or> f6_a2 x \<noteq> None" by blast
    then show ?thesis
    proof cases
      case one
      then obtain a ks where a: "k_stack k = a # ks" using assms by (cases "k_stack k") (auto simp: runop_def Cons Some)
      define f where "f = (if c_family a = AF_INET then f4_a1 x else f6_a1 x)"
      have r: "(case f of None \<Rightarrow> Some (Stop rest 5 k) | Some f \<Rightarrow> finish_op rest (f a k)) = Some r"
        using assms one by (simp add: runop_def Cons Some a f_def)
      show ?thesis
      proof (cases f)
        case None
        then show ?thesis using r stop by auto
      next
        case (Some f')
        then have "f4_a1 x = Some f' \<or> f6_a1 x = Some f'" by (auto simp: f_def split: if_splits)
        then show ?thesis using r Some call1 [OF x] by simp
      qed
    next
      case two
      show ?thesis
      proof (cases rest)
        case Nil
        then show ?thesis using assms two stop [of "[arg1]" 2 k] by (auto simp: runop_def Cons Some)
      next
        case (Cons arg2 rest')
        note args = \<open>args = arg1 # rest\<close> [unfolded Cons]
        obtain a ks where a: "k_stack k = a # ks" using assms two by (cases "k_stack k") (auto simp: runop_def args Some)
        obtain p k1 where p: "cidr_parse_arg L e arg2 (c_family a) k = (p, k1)" by (meson surj_pair)
        define g where "g = (if c_family a = AF_INET then f4_a2 x else f6_a2 x)"
        have r: "(case p of WrongFamily \<Rightarrow> Some (Exit 4 k1) | NoAddr \<Rightarrow> Some (Stop args 3 k1)
            | Addr b \<Rightarrow> (case g of None \<Rightarrow> Some (Stop rest' 5 k1) | Some f \<Rightarrow> finish_op rest' (f a b k1))) = Some r"
          using assms two by (cases p) (simp_all add: runop_def args Some a p g_def)
        show ?thesis
        proof (cases p)
          case (Addr b)
          show ?thesis
          proof (cases g)
            case None
            then show ?thesis using r Addr stop by auto
          next
            case (Some g')
            then have "f4_a2 x = Some g' \<or> f6_a2 x = Some g'" by (auto simp: g_def split: if_splits)
            then show ?thesis using r Some Addr call2 [OF x _ parse_arg_mem [OF p]] by simp
          qed
        qed (use r args stop wrong in auto)
      qed
    qed
  qed
qed

lemma runop_status:
  assumes "runop L e args st k = Some r"
  shows "case r of More args' st' k' \<Rightarrow> st' \<le> 1 \<and> set (k_mem k') \<subseteq> set (k_mem k)
    | Stop args' st' k' \<Rightarrow> st' = st \<or> st' = 5 \<or> args' \<noteq> []
    | Exit n k' \<Rightarrow> n = 4 \<or> n = 255 \<and> False \<in> set (k_mem k)"
  using assms
proof (cases rule: runop_cases)
  case (call1 x f a rest)
  then show ?thesis
    using finish_status [OF call1(3) ops_mem_ok(1) [OF call1(1,2)]] by (auto split: opres.splits)
next
  case (call2 x g a b k1 rest)
  then show ?thesis
    using finish_status [OF call2(4) ops_mem_ok(2) [OF call2(1,2)]] by (auto split: opres.splits)
qed simp_all

lemma run_ops_status:
  "run_ops L e args st k = Some r \<Longrightarrow> st \<le> 1 \<Longrightarrow>
     (\<exists>args' st' k'. r = Stop args' st' k' \<and> (st' \<le> 1 \<or> st' = 5 \<or> args' \<noteq> []))
     \<or> (\<exists>n k'. r = Exit n k' \<and> (n = 4 \<or> n = 255 \<and> False \<in> set (k_mem k)))"
proof (induction L e args st k rule: run_ops.induct)
  case (1 L e args st k)
  show ?case
  proof (cases "runop L e args st k")
    case None
    with "1.prems" show ?thesis by (simp add: run_ops.simps [of L e args st k])
  next
    case (Some q)
    note st = runop_status [OF Some]
    show ?thesis
    proof (cases q)
      case (More args' st' k')
      with st "1.prems" Some "1.IH" [OF Some More] show ?thesis
        by (auto simp: run_ops.simps [of L e args st k])
    qed (use st "1.prems" Some in \<open>auto simp: run_ops.simps [of L e args st k]\<close>)
  qed
qed

text \<open>C21. The program ends with one of the statuses 0, 1, 4, 5 and 6, or with 255 when an allocation
  failed: the statuses 2 (missing argument) and 3 (invalid argument) that \<open>runop\<close> sets are never
  returned, since the argument is still there and the program ends with status 6.\<close>

theorem owipcalc_exit_status:
  "case owipcalc_main L e mem argv of None \<Rightarrow> True
   | Some (status, out) \<Rightarrow> status \<in> {0, 1, 4, 5, 6} \<or> status = 255 \<and> False \<in> set mem"
proof -
  have "status \<in> {0, 1, 4, 5, 6} \<or> status = 255 \<and> False \<in> set mem"
    if main: "owipcalc_main L e mem argv = Some (status, out)" for status out
  proof (cases "length argv < 2")
    case False
    obtain ok k where m: "malloc \<lparr>k_stack = [], k_quiet = False, k_printed = False, k_out = [], k_mem = mem\<rparr> = (ok, k)"
      by (meson surj_pair)
    have sub: "set (k_mem k) \<subseteq> set mem" using malloc_mem [OF m] by simp
    show ?thesis
      using main False sub
      by (auto simp: owipcalc_main_def m Let_def le_Suc_eq split: if_splits option.splits opres.splits
          bind_splits dest!: run_ops_status)
  qed (use main in \<open>simp add: owipcalc_main_def\<close>)
  then show ?thesis by (auto split: option.split)
qed

end
