(* ===== verification/Template_Utils.thy ===== *)
theory Template_Utils
  imports Prelude Libc
begin

text \<open>
  \<open>custom_feeds/teltonika_luci/libs/web/src/template_utils.c\<close>: the output buffer of the template
  engine of the web interface and the two functions that clean a text before it is put into a page,
  \<open>sanitize_utf8\<close> and \<open>sanitize_pcdata\<close>.

  A buffer keeps its memory as a list of \<open>size\<close> bytes and the write pointer as an index. \<open>mem\<close> says
  which allocation sizes can be served. \<^term>\<open>None\<close> stands for an access outside the memory, or a
  size that passes the range of \<open>unsigned int\<close>. The input is the list of its \<open>l\<close> bytes, and a
  pointer into it is the list of the bytes from there on.
\<close>

section \<open>The buffer\<close>

record tbuf =
  tb_data :: bytes
  tb_dptr :: nat
  tb_size :: nat
  tb_fill :: nat

definition buf_init :: "(nat \<Rightarrow> bool) \<Rightarrow> tbuf option" where
  "buf_init mem =
     (if \<not> mem 16 \<or> \<not> mem 1024 then None
      else Some \<lparr>tb_data = replicate 1024 0, tb_dptr = 0, tb_size = 1024, tb_fill = 0\<rparr>)"

definition buf_grow :: "(nat \<Rightarrow> bool) \<Rightarrow> tbuf \<Rightarrow> (nat \<times> tbuf) option" where
  "buf_grow mem b =
     (if tb_size b + 1024 \<ge> 2 ^ 32 then None
      else if mem (tb_size b + 1024) then
        Some (tb_size b + 1024,
              b\<lparr>tb_data := tb_data b @ replicate 1024 0, tb_size := tb_size b + 1024\<rparr>)
      else Some (0, b))"

definition buf_putchar :: "(nat \<Rightarrow> bool) \<Rightarrow> u8 \<Rightarrow> tbuf \<Rightarrow> (nat \<times> tbuf) option" where
  "buf_putchar mem c b =
     do { (ok, b) \<leftarrow> (if tb_fill b + 1 \<ge> tb_size b then buf_grow mem b else Some (1, b));
          if ok = 0 then Some (0, b)
          else do { d \<leftarrow> poke (tb_data b) (tb_dptr b) [c];
                    d \<leftarrow> poke d (tb_dptr b + 1) [0];
                    Some (1, b\<lparr>tb_data := d, tb_dptr := tb_dptr b + 1, tb_fill := tb_fill b + 1\<rparr>) } }"

text \<open>The loop of \<open>buf_append\<close>: the buffer grows until \<open>len\<close> bytes and a NUL fit.\<close>

function buf_reserve :: "(nat \<Rightarrow> bool) \<Rightarrow> nat \<Rightarrow> tbuf \<Rightarrow> (nat \<times> tbuf) option" where
  "buf_reserve mem len b =
     (if tb_fill b + len + 1 < tb_size b then Some (1, b)
      else case buf_grow mem b of
        None \<Rightarrow> None
      | Some (r, b') \<Rightarrow> if r = 0 then Some (0, b') else buf_reserve mem len b')"
  by pat_completeness auto
termination
  by (relation "measure (\<lambda>(mem, len, b). 2 ^ 32 - tb_size b)")
    (auto simp: buf_grow_def split: if_splits)

declare buf_reserve.simps [simp del]

definition buf_append :: "(nat \<Rightarrow> bool) \<Rightarrow> bytes \<Rightarrow> tbuf \<Rightarrow> (nat \<times> tbuf) option" where
  "buf_append mem s b =
     do { (ok, b) \<leftarrow> buf_reserve mem (length s) b;
          if ok = 0 then Some (0, b)
          else do { d \<leftarrow> poke (tb_data b) (tb_dptr b) s;
                    d \<leftarrow> poke d (tb_dptr b + length s) [0];
                    Some (length s, b\<lparr>tb_data := d, tb_fill := tb_fill b + length s,
                                     tb_dptr := tb_dptr b + length s\<rparr>) } }"

definition buf_destroy :: "tbuf \<Rightarrow> bytes" where
  "buf_destroy b = tb_data b"

section \<open>Bytes of UTF-8 sequences\<close>

definition mb_num_chars :: "u8 \<Rightarrow> nat" where
  "mb_num_chars c =
     (if c AND 0xE0 = 0xC0 then 2
      else if c AND 0xF0 = 0xE0 then 3
      else if c AND 0xF8 = 0xF0 then 4
      else if c AND 0xFC = 0xF8 then 5
      else if c AND 0xFE = 0xFC then 6
      else 1)"

definition mb_is_cont :: "u8 \<Rightarrow> bool" where
  "mb_is_cont c \<longleftrightarrow> c \<ge> 0x80 \<and> c \<le> 0xBF"

definition mb_is_shortest :: "bytes \<Rightarrow> nat \<Rightarrow> bool" where
  "mb_is_shortest s n =
     (if n = 2 then \<not> (drop_bit 1 (s ! 0) = 0x60 \<and> drop_bit 6 (s ! 1) = 0x02)
      else if n = 3 then \<not> (s ! 0 = 0xE0 \<and> drop_bit 5 (s ! 1) = 0x04 \<and> drop_bit 6 (s ! 2) = 0x02)
      else if n = 4 then \<not> (s ! 0 = 0xF0 \<and> drop_bit 4 (s ! 1) = 0x08 \<and> drop_bit 6 (s ! 2) = 0x02
                            \<and> drop_bit 6 (s ! 3) = 0x02)
      else if n = 5 then \<not> (s ! 0 = 0xF8 \<and> drop_bit 3 (s ! 1) = 0x10 \<and> drop_bit 6 (s ! 2) = 0x02
                            \<and> drop_bit 6 (s ! 3) = 0x02 \<and> drop_bit 6 (s ! 4) = 0x02)
      else if n = 6 then \<not> (s ! 0 = 0xF8 \<and> drop_bit 2 (s ! 1) = 0x20 \<and> drop_bit 6 (s ! 2) = 0x02
                            \<and> drop_bit 6 (s ! 3) = 0x02 \<and> drop_bit 6 (s ! 4) = 0x02
                            \<and> drop_bit 6 (s ! 5) = 0x02)
      else True)"

definition mb_is_surrogate :: "bytes \<Rightarrow> nat \<Rightarrow> bool" where
  "mb_is_surrogate s n \<longleftrightarrow> n = 3 \<and> s ! 0 = 0xED \<and> s ! 1 \<ge> 0xA0 \<and> s ! 1 \<le> 0xBF"

definition mb_is_illegal :: "bytes \<Rightarrow> nat \<Rightarrow> bool" where
  "mb_is_illegal s n \<longleftrightarrow> n = 3 \<and> s ! 0 = 0xEF \<and> s ! 1 = 0xBF \<and> s ! 2 \<ge> 0xBE \<and> s ! 2 \<le> 0xBF"

section \<open>Validation\<close>

text \<open>The \<open>for\<close> loop that counts: \<open>v\<close> starts at 1 and passes at most \<open>n\<close> continuation bytes.\<close>

definition count_valid :: "bytes \<Rightarrow> nat \<Rightarrow> nat" where
  "count_valid s n = 1 + length (takeWhile mb_is_cont (take n (tl s)))"

definition QUESTION :: u8 where "QUESTION = 63"

text \<open>\<open>_validate_utf8\<close> on a non-empty rest: the number of bytes it passed (0 when the buffer could
  not grow), the new rest and the buffer.\<close>

definition validate_utf8 :: "(nat \<Rightarrow> bool) \<Rightarrow> bytes \<Rightarrow> tbuf \<Rightarrow> (nat \<times> bytes \<times> tbuf) option" where
  "validate_utf8 mem s b =
     (case s of [] \<Rightarrow> None
      | c # rest \<Rightarrow>
          if c \<ge> 0x01 \<and> c \<le> 0x7F then
            do { (ok, b) \<leftarrow> buf_putchar mem c b;
                 Some (if ok = 0 then (0, s, b) else (1, rest, b)) }
          else if mb_num_chars c > 1 then
            (let n = mb_num_chars c; v = count_valid s n
             in do { (ok, b) \<leftarrow>
                       (if n = 6 \<or> n = 5 then buf_putchar mem QUESTION b
                        else if v = n \<and> mb_is_shortest s n \<and> \<not> mb_is_surrogate s n \<and> \<not> mb_is_illegal s n
                          then buf_append mem (take n s) b
                        else buf_putchar mem QUESTION b);
                     Some (if ok = 0 then (0, s, b) else (v, drop v s, b)) })
          else
            do { (ok, b) \<leftarrow> buf_putchar mem QUESTION b;
                 Some (if ok = 0 then (0, s, b) else (1, rest, b)) })"

lemma count_valid_le: "s \<noteq> [] \<Longrightarrow> 1 \<le> count_valid s n \<and> count_valid s n \<le> length s"
proof -
  assume "s \<noteq> []"
  moreover have "length (takeWhile mb_is_cont (take n (tl s))) \<le> length (take n (tl s))"
    by (rule length_takeWhile_le)
  ultimately show ?thesis by (cases s) (auto simp: count_valid_def)
qed

lemma validate_shorter:
  "validate_utf8 mem s b = Some (v, s', b') \<Longrightarrow> v \<noteq> 0 \<Longrightarrow> length s' < length s"
  using count_valid_le [of s "mb_num_chars (hd s)"]
  by (auto simp: validate_utf8_def Let_def split: list.splits if_splits bind_splits)

section \<open>The two filters\<close>

text \<open>The loops run over the rest of the input; they end early when the buffer cannot grow.\<close>

function utf8_loop :: "(nat \<Rightarrow> bool) \<Rightarrow> bytes \<Rightarrow> tbuf \<Rightarrow> tbuf option" where
  "utf8_loop mem s b =
     (case s of [] \<Rightarrow> Some b
      | c # rest \<Rightarrow>
          if c \<ge> 0x01 \<and> c \<le> 0x7F then
            (case buf_putchar mem c b of
               None \<Rightarrow> None
             | Some (ok, b) \<Rightarrow> if ok = 0 then Some b else utf8_loop mem rest b)
          else
            (case validate_utf8 mem s b of
               None \<Rightarrow> None
             | Some (v, s', b) \<Rightarrow> if v = 0 then Some b else utf8_loop mem s' b))"
  by pat_completeness auto
termination
  by (relation "measure (\<lambda>(mem, s, b). length s)") (auto dest!: validate_shorter)

declare utf8_loop.simps [simp del]

definition sanitize_utf8 :: "(nat \<Rightarrow> bool) \<Rightarrow> bytes \<Rightarrow> bytes option option" where
  "sanitize_utf8 mem s =
     (case buf_init mem of None \<Rightarrow> Some None
      | Some b \<Rightarrow> map_option (\<lambda>b. Some (buf_destroy b)) (utf8_loop mem s b))"

definition xml_invalid :: "u8 \<Rightarrow> bool" where
  "xml_invalid c \<longleftrightarrow> (c \<ge> 0x00 \<and> c \<le> 0x08) \<or> (c \<ge> 0x0B \<and> c \<le> 0x0C) \<or> (c \<ge> 0x0E \<and> c \<le> 0x1F) \<or> c = 0x7F"

definition xml_escape :: "u8 \<Rightarrow> bool" where
  "xml_escape c \<longleftrightarrow> c = 0x26 \<or> c = 0x27 \<or> c = 0x22 \<or> c = 0x3C \<or> c = 0x3E"

definition escape_seq :: "u8 \<Rightarrow> bytes" where
  "escape_seq c = str ''&#'' @ dec_str (unat c) @ str '';''"

function pcdata_loop :: "(nat \<Rightarrow> bool) \<Rightarrow> bytes \<Rightarrow> tbuf \<Rightarrow> tbuf option" where
  "pcdata_loop mem s b =
     (case s of [] \<Rightarrow> Some b
      | c # rest \<Rightarrow>
          if xml_invalid c then pcdata_loop mem rest b
          else if xml_escape c then
            (case buf_append mem (escape_seq c) b of
               None \<Rightarrow> None
             | Some (ok, b) \<Rightarrow> if ok = 0 then Some b else pcdata_loop mem rest b)
          else if c \<le> 0x7F then
            (case buf_putchar mem c b of
               None \<Rightarrow> None
             | Some (_, b) \<Rightarrow> pcdata_loop mem rest b)
          else
            (case validate_utf8 mem s b of
               None \<Rightarrow> None
             | Some (v, s', b) \<Rightarrow> if v = 0 then Some b else pcdata_loop mem s' b))"
  by pat_completeness auto
termination
  by (relation "measure (\<lambda>(mem, s, b). length s)") (auto dest!: validate_shorter)

declare pcdata_loop.simps [simp del]

definition sanitize_pcdata :: "(nat \<Rightarrow> bool) \<Rightarrow> bytes \<Rightarrow> bytes option option" where
  "sanitize_pcdata mem s =
     (case buf_init mem of None \<Rightarrow> Some None
      | Some b \<Rightarrow> map_option (\<lambda>b. Some (buf_destroy b)) (pcdata_loop mem s b))"

end
