(* ===== verification/Template_Laws.thy ===== *)
theory Template_Laws
  imports Template_Utils
begin

text \<open>
  Laws of the template filters: the buffer never overflows and ends in the filtered text
  (\<open>utf8_text\<close>, \<open>pcdata_text\<close>: the filters without a buffer); the filtered text is a sequence of
  encoded code points, and a text that is one already is left as it is.
\<close>

section \<open>The buffer as its contents\<close>

definition holds :: "tbuf \<Rightarrow> bytes \<Rightarrow> bool" where
  "holds b out \<longleftrightarrow>
     tb_fill b = length out \<and> tb_dptr b = length out \<and> length (tb_data b) = tb_size b \<and>
     tb_fill b < tb_size b \<and> tb_size b \<le> tb_fill b + 1025 \<and>
     take (Suc (length out)) (tb_data b) = out @ [0]"

lemma holds_init: "mem 16 \<Longrightarrow> mem 1024 \<Longrightarrow> \<exists>b. buf_init mem = Some b \<and> holds b []"
  by (simp add: buf_init_def holds_def)

lemma holds_take: "holds b out \<Longrightarrow> take (length out) (tb_data b) = out"
proof -
  assume "holds b out"
  then have "take (length out) (take (Suc (length out)) (tb_data b)) = take (length out) (out @ [0])"
    by (simp add: holds_def)
  then show ?thesis by (simp add: min_def)
qed

lemma holds_reserve:
  assumes "holds b out" and "length out + length s + 2048 < 2 ^ 32"
  shows "\<exists>b'. buf_reserve (\<lambda>_. True) (length s) b = Some (1, b') \<and> tb_fill b' = tb_fill b
    \<and> tb_dptr b' = tb_dptr b \<and> length (tb_data b') = tb_size b'
    \<and> tb_fill b + length s + 1 < tb_size b' \<and> tb_size b' \<le> tb_fill b + length s + 1025
    \<and> take (length out) (tb_data b') = out"
proof -
  have "\<exists>b'. buf_reserve (\<lambda>_. True) (length s) b = Some (1, b') \<and> tb_fill b' = tb_fill b
    \<and> tb_dptr b' = tb_dptr b \<and> length (tb_data b') = tb_size b'
    \<and> tb_fill b + length s + 1 < tb_size b' \<and> tb_size b' \<le> tb_fill b + length s + 1025
    \<and> take (length out) (tb_data b') = out"
    if "tb_fill b = length out" "length (tb_data b) = tb_size b" "length out < tb_size b"
      "tb_size b \<le> tb_fill b + length s + 1025" "take (length out) (tb_data b) = out" for b
    using that assms(2)
  proof (induction "(\<lambda>_. True) :: nat \<Rightarrow> bool" "length s" b rule: buf_reserve.induct)
    case (1 b)
    show ?case
    proof (cases "tb_fill b + length s + 1 < tb_size b")
      case True
      then show ?thesis using 1 by (subst buf_reserve.simps) simp
    next
      case False
      let ?b = "b\<lparr>tb_data := tb_data b @ replicate 1024 0, tb_size := tb_size b + 1024\<rparr>"
      have g: "buf_grow (\<lambda>_. True) b = Some (tb_size b + 1024, ?b)"
        using 1(2-) False by (simp add: buf_grow_def)
      have "buf_reserve (\<lambda>_. True) (length s) b = buf_reserve (\<lambda>_. True) (length s) ?b"
        using False g by (subst buf_reserve.simps) simp
      then show ?thesis
        using 1(1) [OF False g refl, of] 1(2-) False by simp
    qed
  qed
  from this [of b] show ?thesis using assms(1) holds_take [OF assms(1)] by (simp add: holds_def)
qed

lemma poke_end:
  assumes "take n d = out" and "n = length out" and "n + length s < length d"
  shows "\<exists>d'. (do { d \<leftarrow> poke d n s; poke d (n + length s) [0] }) = Some d' \<and> length d' = length d
    \<and> take (Suc (n + length s)) d' = out @ s @ [0]"
proof -
  have d: "d = out @ drop n d" using assms(1) append_take_drop_id [of n d] by simp
  then obtain r where r: "d = out @ r" by blast
  have l: "length s < length r" using assms r by simp
  have "poke d n s = Some (out @ s @ drop (length s) r)"
    using l assms(2) by (simp add: poke_def r)
  moreover have "poke (out @ s @ drop (length s) r) (n + length s) [0] =
      Some (out @ s @ [0] @ drop (Suc (length s)) r)"
    using l assms(2) by (simp add: poke_def drop_Suc tl_drop)
  ultimately show ?thesis using l assms(2) r by simp
qed

lemma holds_append:
  assumes "holds b out" and "length out + length s + 2048 < 2 ^ 32"
  shows "\<exists>b'. buf_append (\<lambda>_. True) s b = Some (length s, b') \<and> holds b' (out @ s)"
proof -
  obtain b1 where b1: "buf_reserve (\<lambda>_. True) (length s) b = Some (1, b1)" "tb_fill b1 = tb_fill b"
    "tb_dptr b1 = tb_dptr b" "length (tb_data b1) = tb_size b1"
    "tb_fill b + length s + 1 < tb_size b1" "tb_size b1 \<le> tb_fill b + length s + 1025"
    "take (length out) (tb_data b1) = out"
    using holds_reserve [OF assms] by blast
  have n: "tb_dptr b1 = length out" "tb_fill b = length out"
    using assms(1) b1 by (simp_all add: holds_def)
  obtain d where d: "(do { d \<leftarrow> poke (tb_data b1) (length out) s; poke d (length out + length s) [0] }) = Some d"
    "length d = length (tb_data b1)" "take (Suc (length out + length s)) d = out @ s @ [0]"
    using poke_end [OF b1(7) refl, of s] b1(4,5) n by auto
  then have "buf_append (\<lambda>_. True) s b = Some (length s, b1\<lparr>tb_data := d,
      tb_fill := tb_fill b1 + length s, tb_dptr := length out + length s\<rparr>)"
    by (auto simp: buf_append_def b1(1) n split: bind_splits)
  then show ?thesis using d b1 n by (simp add: holds_def)
qed

lemma holds_putchar:
  assumes "holds b out" and "length out + 2048 < 2 ^ 32"
  shows "\<exists>b'. buf_putchar (\<lambda>_. True) c b = Some (1, b') \<and> holds b' (out @ [c])"
proof -
  define b1 where "b1 = (if tb_fill b + 1 \<ge> tb_size b
    then b\<lparr>tb_data := tb_data b @ replicate 1024 0, tb_size := tb_size b + 1024\<rparr> else b)"
  have b1: "(if tb_fill b + 1 \<ge> tb_size b then buf_grow (\<lambda>_. True) b else Some (1, b)) =
      Some (if tb_fill b + 1 \<ge> tb_size b then tb_size b + 1024 else 1, b1)"
    using assms by (auto simp: b1_def buf_grow_def holds_def)
  have L: "tb_fill b1 = length out" "tb_dptr b1 = length out" "length (tb_data b1) = tb_size b1"
    "length out + 1 < tb_size b1" "tb_size b1 \<le> length out + 1026"
    "take (length out) (tb_data b1) = out"
    using assms(1) holds_take [OF assms(1)] by (auto simp: b1_def holds_def)
  obtain d where d: "(do { d \<leftarrow> poke (tb_data b1) (length out) [c]; poke d (length out + length [c]) [0] }) = Some d"
    "length d = length (tb_data b1)" "take (Suc (length out + length [c])) d = out @ [c] @ [0]"
    using poke_end [OF L(6) refl, of "[c]"] L(3,4) by auto
  then have "buf_putchar (\<lambda>_. True) c b = Some (1, b1\<lparr>tb_data := d,
      tb_dptr := length out + 1, tb_fill := length out + 1\<rparr>)"
    unfolding buf_putchar_def b1 using L by (auto split: bind_splits)
  then show ?thesis using d L by (simp add: holds_def)
qed

section \<open>The filters without a buffer\<close>

text \<open>What one step appends, and how many bytes it passes.\<close>

definition utf8_chunk :: "bytes \<Rightarrow> bytes \<times> nat" where
  "utf8_chunk s =
     (let c = hd s; n = mb_num_chars c; v = count_valid s n
      in if c \<ge> 0x01 \<and> c \<le> 0x7F then ([c], 1)
         else if n > 1 then
           (if n < 5 \<and> v = n \<and> mb_is_shortest s n \<and> \<not> mb_is_surrogate s n \<and> \<not> mb_is_illegal s n
            then take n s else [QUESTION], v)
         else ([QUESTION], 1))"

lemma mb_num_chars_le: "mb_num_chars c \<le> 6" "1 \<le> mb_num_chars c"
  by (simp_all add: mb_num_chars_def)

lemma utf8_chunk_bounds:
  "s \<noteq> [] \<Longrightarrow> 1 \<le> snd (utf8_chunk s) \<and> snd (utf8_chunk s) \<le> length s \<and> length (fst (utf8_chunk s)) \<le> snd (utf8_chunk s)
    \<and> fst (utf8_chunk s) \<noteq> []"
  using count_valid_le [of s "mb_num_chars (hd s)"] by (auto simp: utf8_chunk_def Let_def)

lemma validate_chunk:
  assumes "holds b out" and "length out + 4096 < 2 ^ 32" and "s \<noteq> []"
  shows "\<exists>b'. validate_utf8 (\<lambda>_. True) s b = Some (snd (utf8_chunk s), drop (snd (utf8_chunk s)) s, b')
    \<and> holds b' (out @ fst (utf8_chunk s))"
proof -
  obtain c rest where s: "s = c # rest" using assms(3) by (cases s) auto
  let ?n = "mb_num_chars c"
  obtain b1 where b1: "buf_putchar (\<lambda>_. True) c b = Some (1, b1)" "holds b1 (out @ [c])"
    using holds_putchar [OF assms(1), of c] assms(2) by auto
  obtain b2 where b2: "buf_putchar (\<lambda>_. True) QUESTION b = Some (1, b2)" "holds b2 (out @ [QUESTION])"
    using holds_putchar [OF assms(1), of QUESTION] assms(2) by auto
  have n: "1 \<le> ?n" "?n \<le> 6" using mb_num_chars_le [of c] by simp_all
  have "length (take ?n s) \<le> 6" using n by simp
  then obtain b3 where b3: "buf_append (\<lambda>_. True) (take ?n s) b = Some (length (take ?n s), b3)"
    "holds b3 (out @ take ?n s)"
    using holds_append [OF assms(1), of "take ?n s"] assms(2) by auto
  have ne: "length (take ?n s) \<noteq> 0" using n s by simp
  have n5: "?n < 5 \<longleftrightarrow> \<not> (?n = 6 \<or> ?n = 5)" using n by auto
  show ?thesis
  proof (cases "c \<ge> 0x01 \<and> c \<le> 0x7F")
    case True
    then show ?thesis using b1 by (simp add: validate_utf8_def utf8_chunk_def s)
  next
    case asc: False
    show ?thesis
    proof (cases "?n > 1")
      case False
      then show ?thesis using asc b2 by (auto simp add: validate_utf8_def utf8_chunk_def s)
    next
      case True
      let ?ok = "?n < 5 \<and> count_valid s ?n = ?n \<and> mb_is_shortest s ?n \<and> \<not> mb_is_surrogate s ?n
        \<and> \<not> mb_is_illegal s ?n"
      have "utf8_chunk s = (if ?ok then take ?n s else [QUESTION], count_valid s ?n)"
        using asc True by (auto simp: utf8_chunk_def s Let_def)
      moreover have "validate_utf8 (\<lambda>_. True) s b =
          Some (count_valid s ?n, drop (count_valid s ?n) s, if ?ok then b3 else b2)"
        using asc True b2(1) b3(1) ne n5 by (cases ?ok) (auto simp: validate_utf8_def s Let_def)
      ultimately show ?thesis using b2(2) b3(2) by simp
    qed
  qed
qed

function utf8_text :: "bytes \<Rightarrow> bytes" where
  "utf8_text s = (if s = [] then [] else fst (utf8_chunk s) @ utf8_text (drop (snd (utf8_chunk s)) s))"
  by pat_completeness auto
termination
  by (relation "measure length") (auto simp: Suc_le_eq dest: utf8_chunk_bounds)

declare utf8_text.simps [simp del]

lemma utf8_text_Nil [simp]: "utf8_text [] = []"
  by (subst utf8_text.simps) simp

lemma utf8_text_step: "s \<noteq> [] \<Longrightarrow> utf8_text s = fst (utf8_chunk s) @ utf8_text (drop (snd (utf8_chunk s)) s)"
  by (subst utf8_text.simps) simp

lemma utf8_loop_text:
  "holds b out \<Longrightarrow> length out + length s + 4096 < 2 ^ 32 \<Longrightarrow>
   \<exists>b'. utf8_loop (\<lambda>_. True) s b = Some b' \<and> holds b' (out @ utf8_text s)"
proof (induction s arbitrary: b out rule: utf8_text.induct)
  case (1 s)
  show ?case
  proof (cases s)
    case Nil
    then show ?thesis using 1(2) by (subst utf8_loop.simps) simp
  next
    case (Cons c rest)
    then have ne: "s \<noteq> []" by simp
    note B = utf8_chunk_bounds [OF ne]
    have len: "length (out @ fst (utf8_chunk s)) + length (drop (snd (utf8_chunk s)) s) + 4096 < 2 ^ 32"
      unfolding length_append length_drop using 1(3) B by linarith
    show ?thesis
    proof (cases "c \<ge> 0x01 \<and> c \<le> 0x7F")
      case True
      then have ch: "utf8_chunk s = ([c], 1)" by (simp add: utf8_chunk_def Cons)
      obtain b1 where b1: "buf_putchar (\<lambda>_. True) c b = Some (1, b1)" "holds b1 (out @ [c])"
        using holds_putchar [OF 1(2)] 1(3) by fastforce
      have "utf8_loop (\<lambda>_. True) s b = utf8_loop (\<lambda>_. True) rest b1"
        using True b1 by (subst utf8_loop.simps) (simp add: Cons)
      moreover have "utf8_text s = c # utf8_text rest"
        using utf8_text_step [OF ne] ch Cons by simp
      ultimately show ?thesis
        using "1.IH" [OF ne, of b1 "out @ [c]"] b1 ch len Cons by simp
    next
      case False
      obtain b1 where b1: "validate_utf8 (\<lambda>_. True) s b = Some (snd (utf8_chunk s), drop (snd (utf8_chunk s)) s, b1)"
        "holds b1 (out @ fst (utf8_chunk s))"
        using validate_chunk [OF 1(2) _ ne] 1(3) by auto
      have "utf8_loop (\<lambda>_. True) s b = utf8_loop (\<lambda>_. True) (drop (snd (utf8_chunk s)) s) b1"
        using False b1(1) B by (subst utf8_loop.simps) (auto simp add: Cons)
      then show ?thesis
        using "1.IH" [OF ne b1(2) len] utf8_text_step [OF ne] by simp
    qed
  qed
qed

text \<open>The filter of \<open>sanitize_pcdata\<close>.\<close>

definition pcdata_chunk :: "bytes \<Rightarrow> bytes \<times> nat" where
  "pcdata_chunk s =
     (let c = hd s
      in if xml_invalid c then ([], 1)
         else if xml_escape c then (escape_seq c, 1)
         else utf8_chunk s)"

lemma pcdata_chunk_bounds: "s \<noteq> [] \<Longrightarrow> 1 \<le> snd (pcdata_chunk s) \<and> snd (pcdata_chunk s) \<le> length s"
  using utf8_chunk_bounds [of s] by (auto simp: pcdata_chunk_def Let_def Suc_le_eq)

function pcdata_text :: "bytes \<Rightarrow> bytes" where
  "pcdata_text s = (if s = [] then [] else fst (pcdata_chunk s) @ pcdata_text (drop (snd (pcdata_chunk s)) s))"
  by pat_completeness auto
termination
  by (relation "measure length") (auto simp: Suc_le_eq dest: pcdata_chunk_bounds)

declare pcdata_text.simps [simp del]

lemma pcdata_text_Nil [simp]: "pcdata_text [] = []"
  by (subst pcdata_text.simps) simp

lemma pcdata_text_step: "s \<noteq> [] \<Longrightarrow> pcdata_text s = fst (pcdata_chunk s) @ pcdata_text (drop (snd (pcdata_chunk s)) s)"
  by (subst pcdata_text.simps) simp

lemma escape_seq_cases:
  "xml_escape c \<Longrightarrow> escape_seq c \<in> {str ''&#38;'', str ''&#39;'', str ''&#34;'', str ''&#60;'', str ''&#62;''}"
  by (auto simp: xml_escape_def escape_seq_def dec_str.simps dec_digit_def str_def of_char_def)

lemma length_escape: "xml_escape c \<Longrightarrow> length (escape_seq c) = 5"
  using escape_seq_cases by fastforce

lemma pcdata_loop_text:
  "holds b out \<Longrightarrow> length out + 5 * length s + 4096 < 2 ^ 32 \<Longrightarrow>
   \<exists>b'. pcdata_loop (\<lambda>_. True) s b = Some b' \<and> holds b' (out @ pcdata_text s)"
proof (induction s arbitrary: b out rule: pcdata_text.induct)
  case (1 s)
  show ?case
  proof (cases s)
    case Nil
    then show ?thesis using 1(2) by (subst pcdata_loop.simps) simp
  next
    case (Cons c rest)
    then have ne: "s \<noteq> []" by simp
    let ?k = "snd (pcdata_chunk s)"
    have len: "length (out @ fst (pcdata_chunk s)) + 5 * length (drop ?k s) + 4096 < 2 ^ 32"
      using 1(3) utf8_chunk_bounds [OF ne] length_escape [of c] Cons
      by (auto simp: pcdata_chunk_def Let_def)
    have "\<exists>b1. pcdata_loop (\<lambda>_. True) s b = pcdata_loop (\<lambda>_. True) (drop ?k s) b1 \<and> holds b1 (out @ fst (pcdata_chunk s))"
    proof (cases "xml_invalid c")
      case True
      then show ?thesis using 1(2) by (subst pcdata_loop.simps) (auto simp: Cons pcdata_chunk_def)
    next
      case inv: False
      show ?thesis
      proof (cases "xml_escape c")
        case True
        obtain b1 where "buf_append (\<lambda>_. True) (escape_seq c) b = Some (5, b1)" "holds b1 (out @ escape_seq c)"
          using holds_append [OF 1(2), of "escape_seq c"] 1(3) length_escape [OF True] Cons by auto
        then show ?thesis
          using inv True by (subst pcdata_loop.simps) (auto simp: Cons pcdata_chunk_def)
      next
        case esc: False
        have ch: "pcdata_chunk s = utf8_chunk s" using inv esc Cons by (simp add: pcdata_chunk_def)
        show ?thesis
        proof (cases "c \<le> 0x7F")
          case True
          then have "1 \<le> c" using inv by (cases "c = 0") (auto simp: xml_invalid_def word_le_nat_alt unat_gt_0 Suc_le_eq)
          then have "utf8_chunk s = ([c], 1)" using True Cons by (simp add: utf8_chunk_def)
          moreover obtain b1 where "buf_putchar (\<lambda>_. True) c b = Some (1, b1)" "holds b1 (out @ [c])"
            using holds_putchar [OF 1(2)] 1(3) by fastforce
          ultimately show ?thesis
            using inv esc True ch by (subst pcdata_loop.simps) (auto simp: Cons)
        next
          case False
          obtain b1 where b1: "validate_utf8 (\<lambda>_. True) s b = Some (snd (utf8_chunk s), drop (snd (utf8_chunk s)) s, b1)"
            "holds b1 (out @ fst (utf8_chunk s))"
            using validate_chunk [OF 1(2) _ ne] 1(3) by auto
          have "pcdata_loop (\<lambda>_. True) s b = pcdata_loop (\<lambda>_. True) (drop (snd (utf8_chunk s)) s) b1"
            using inv esc False b1(1) utf8_chunk_bounds [OF ne]
            by (subst pcdata_loop.simps) (auto simp: Cons)
          then show ?thesis using b1(2) ch by auto
        qed
      qed
    qed
    then obtain b1 where b1: "pcdata_loop (\<lambda>_. True) s b = pcdata_loop (\<lambda>_. True) (drop ?k s) b1"
      "holds b1 (out @ fst (pcdata_chunk s))" by blast
    then show ?thesis using "1.IH" [OF ne b1(2) len] pcdata_text_step [OF ne] by simp
  qed
qed

section \<open>Code points\<close>

definition byte :: "nat \<Rightarrow> u8" where
  "byte n = of_nat n"

lemma byte_unat [simp]: "byte (unat c) = c"
  by (simp add: byte_def)

lemma unat_byte: "n < 256 \<Longrightarrow> unat (byte n) = n"
  by (simp add: byte_def unat_of_nat)

definition utf8_enc :: "nat \<Rightarrow> bytes" where
  "utf8_enc cp =
     (if cp < 0x80 then [byte cp]
      else if cp < 0x800 then [byte (192 + cp div 64), byte (128 + cp mod 64)]
      else if cp < 0x10000 then
        [byte (224 + cp div 4096), byte (128 + cp div 64 mod 64), byte (128 + cp mod 64)]
      else [byte (240 + cp div 262144), byte (128 + cp div 4096 mod 64),
            byte (128 + cp div 64 mod 64), byte (128 + cp mod 64)])"

definition good_cp :: "nat \<Rightarrow> bool" where
  "good_cp cp \<longleftrightarrow> 1 \<le> cp \<and> cp < 0x200000 \<and> \<not> (0xD800 \<le> cp \<and> cp \<le> 0xDFFF) \<and> cp \<noteq> 0xFFFE \<and> cp \<noteq> 0xFFFF"

lemma and_high_range:
  assumes "m = NOT (push_bit j 1 - 1)" and "unat v = q * 2 ^ j"
  shows "(c) AND m = v \<longleftrightarrow> q * 2 ^ j \<le> unat c \<and> unat c \<le> q * 2 ^ j + (2 ^ j - 1)"
proof -
  have "c AND m = v \<longleftrightarrow> unat c div 2 ^ j * 2 ^ j = q * 2 ^ j"
    unfolding assms word_unat_eq_iff unat_clear_low by (rule refl)
  also have "\<dots> \<longleftrightarrow> unat c div 2 ^ j = q" by simp
  finally show ?thesis by (simp only: div_eq_range [of "2 ^ j"] zero_less_numeral zero_less_power)
qed

lemma mb_num_chars_nat:
  "mb_num_chars c =
     (if 192 \<le> unat c \<and> unat c < 224 then 2 else if 224 \<le> unat c \<and> unat c < 240 then 3
      else if 240 \<le> unat c \<and> unat c < 248 then 4 else if 248 \<le> unat c \<and> unat c < 252 then 5
      else if 252 \<le> unat c \<and> unat c < 254 then 6 else 1)"
proof -
  have e: "c AND 0xE0 = 0xC0 \<longleftrightarrow> 192 \<le> unat c \<and> unat c < 224"
    "c AND 0xF0 = 0xE0 \<longleftrightarrow> 224 \<le> unat c \<and> unat c < 240"
    "c AND 0xF8 = 0xF0 \<longleftrightarrow> 240 \<le> unat c \<and> unat c < 248"
    "c AND 0xFC = 0xF8 \<longleftrightarrow> 248 \<le> unat c \<and> unat c < 252"
    "c AND 0xFE = 0xFC \<longleftrightarrow> 252 \<le> unat c \<and> unat c < 254"
    using and_high_range [of "0xE0" 5 "0xC0" 6 c] and_high_range [of "0xF0" 4 "0xE0" 14 c]
      and_high_range [of "0xF8" 3 "0xF0" 30 c] and_high_range [of "0xFC" 2 "0xF8" 62 c]
      and_high_range [of "0xFE" 1 "0xFC" 126 c] by (simp_all add: less_Suc_eq_le flip: Suc_le_eq)
  show ?thesis unfolding mb_num_chars_def e by simp
qed

lemma mb_is_cont_nat: "mb_is_cont c \<longleftrightarrow> 128 \<le> unat c \<and> unat c < 192"
  by (auto simp: mb_is_cont_def word_le_nat_alt)

lemma drop_bit_eq_nat: "drop_bit k (c) = v \<longleftrightarrow> unat c div 2 ^ k = unat v"
  by (simp only: word_unat_eq_iff unat_drop_bit)

lemma cont_top: "mb_is_cont c \<Longrightarrow> drop_bit 6 c = 0x02"
  by (auto simp: mb_is_cont_nat drop_bit_eq_nat)

lemma count_valid_eq:
  assumes "count_valid s n = n" and "s \<noteq> []" and "1 \<le> n"
  obtains us r where "s = hd s # us @ r" "length us = n - 1" "\<forall>u \<in> set us. mb_is_cont u"
proof -
  let ?us = "takeWhile mb_is_cont (take n (tl s))"
  obtain r where r: "take n (tl s) = ?us @ r" by (metis takeWhile_dropWhile_id)
  have "tl s = ?us @ r @ drop n (tl s)" by (metis append.assoc append_take_drop_id r)
  then have "s = hd s # ?us @ (r @ drop n (tl s))" using assms(2) by (metis list.collapse)
  moreover have "\<forall>u \<in> set ?us. mb_is_cont u" by (auto dest: set_takeWhileD)
  moreover have "length ?us = n - 1" using assms(1) by (simp add: count_valid_def)
  ultimately show thesis using that by blast
qed

lemma digit64: "r < 64 \<Longrightarrow> (q * 64 + r) div 64 = q" "r < 64 \<Longrightarrow> (q * 64 + r) mod 64 = (r :: nat)"
  by simp_all

lemma enc2:
  fixes x y :: nat
  assumes "2 \<le> x" "x < 32" "y < 64"
  shows "\<exists>cp. good_cp cp \<and> utf8_enc cp = [byte (192 + x), byte (128 + y)]"
proof (intro exI conjI)
  let ?cp = "x * 64 + y"
  have "?cp < 0x800" "0x80 \<le> ?cp" using assms by simp_all
  then show "utf8_enc ?cp = [byte (192 + x), byte (128 + y)]" "good_cp ?cp"
    unfolding utf8_enc_def good_cp_def digit64 [OF assms(3)] by simp_all
qed

lemma enc3:
  fixes x y z :: nat
  assumes "x < 16" "y < 64" "z < 64" and "x = 0 \<Longrightarrow> 32 \<le> y" and "x = 13 \<Longrightarrow> y < 32"
    and "x = 15 \<Longrightarrow> y = 63 \<Longrightarrow> z < 62"
  shows "\<exists>cp. good_cp cp \<and> utf8_enc cp = [byte (224 + x), byte (128 + y), byte (128 + z)]"
proof (intro exI conjI)
  let ?cp = "(x * 64 + y) * 64 + z"
  have d: "?cp div 4096 = x"
    using digit64 [OF assms(3), of "x * 64 + y"] digit64 [OF assms(2), of x] div_mult2_eq [of ?cp 64 64]
    by (simp only: numeral_times_numeral semiring_norm)
  have r: "?cp < 0x10000" "0x800 \<le> ?cp" using assms(1-4) by (cases "x = 0"; simp)+
  then show "utf8_enc ?cp = [byte (224 + x), byte (128 + y), byte (128 + z)]"
    unfolding utf8_enc_def d digit64 [OF assms(3)] digit64 [OF assms(2)] by simp
  have "\<not> (0xD800 \<le> ?cp \<and> ?cp \<le> 0xDFFF)"
  proof (cases "x = 13")
    case True
    then show ?thesis using assms by simp
  next
    case False
    then consider "x \<le> 12" | "14 \<le> x" by linarith
    then show ?thesis using assms(2,3) by cases simp_all
  qed
  moreover have "?cp \<noteq> 0xFFFE \<and> ?cp \<noteq> 0xFFFF"
    using assms by (cases "x = 15"; cases "y = 63"; simp)
  ultimately show "good_cp ?cp" using r by (simp add: good_cp_def)
qed

lemma enc4:
  fixes x y z w :: nat
  assumes "x < 8" "y < 64" "z < 64" "w < 64" and "x = 0 \<Longrightarrow> 16 \<le> y"
  shows "\<exists>cp. good_cp cp \<and>
    utf8_enc cp = [byte (240 + x), byte (128 + y), byte (128 + z), byte (128 + w)]"
proof (intro exI conjI)
  let ?cp = "((x * 64 + y) * 64 + z) * 64 + w"
  have d2: "?cp div 4096 = x * 64 + y"
    using digit64 [OF assms(4), of "(x * 64 + y) * 64 + z"] digit64 [OF assms(3), of "x * 64 + y"]
      div_mult2_eq [of ?cp 64 64] by (simp only: numeral_times_numeral semiring_norm)
  have d3: "?cp div 262144 = x"
    using d2 digit64 [OF assms(2), of x] div_mult2_eq [of ?cp 4096 64]
    by (simp only: numeral_times_numeral semiring_norm)
  have r: "?cp < 0x200000" "0x10000 \<le> ?cp" using assms by (cases "x = 0"; simp)+
  then show "utf8_enc ?cp = [byte (240 + x), byte (128 + y), byte (128 + z), byte (128 + w)]"
    unfolding utf8_enc_def d2 d3 digit64 [OF assms(4)] digit64 [OF assms(3)] digit64 [OF assms(2)] by simp
  show "good_cp ?cp" using r by (simp add: good_cp_def)
qed

lemma chunk_valid:
  assumes "s \<noteq> []"
  shows "\<exists>cp. good_cp cp \<and> utf8_enc cp = fst (utf8_chunk s)"
proof -
  let ?c = "hd s" and ?n = "mb_num_chars (hd s)"
  have q: "good_cp 63 \<and> utf8_enc 63 = [QUESTION]" by (simp add: good_cp_def utf8_enc_def QUESTION_def byte_def)
  have asc: "good_cp (unat ?c) \<and> utf8_enc (unat ?c) = [?c]" if "?c \<ge> 0x01 \<and> ?c \<le> 0x7F"
    using that by (simp add: good_cp_def utf8_enc_def word_le_nat_alt)
  have multi: "\<exists>cp. good_cp cp \<and> utf8_enc cp = take ?n s"
    if n: "1 < ?n" "?n < 5" and v: "count_valid s ?n = ?n" "mb_is_shortest s ?n"
      "\<not> mb_is_surrogate s ?n" "\<not> mb_is_illegal s ?n"
  proof -
    obtain us r where us: "s = ?c # us @ r" "length us = ?n - 1" "\<forall>u \<in> set us. mb_is_cont u"
      using count_valid_eq [OF v(1) assms] n by auto
    have "take ?n (?c # us @ r) = ?c # us" using us(2) n by (simp add: take_Cons')
    then have tk: "take ?n s = ?c # us" unfolding us(1) [symmetric] .
    consider "?n = 2" | "?n = 3" | "?n = 4" using n by linarith
    then show ?thesis
    proof cases
      case 1
      then obtain u where u: "us = [u]" "mb_is_cont u" using us by (auto simp: length_Suc_conv)
      then have s: "s ! 0 = ?c" "s ! 1 = u" by (subst us(1), simp)+
      have "unat ?c div 2 \<noteq> 96"
        using v(2) 1 s cont_top [OF u(2)] by (simp add: mb_is_shortest_def drop_bit_eq_nat)
      moreover have "192 \<le> unat ?c \<and> unat ?c < 224" using 1 mb_num_chars_nat [of ?c] by (auto split: if_splits)
      ultimately have "194 \<le> unat ?c" "unat ?c < 224" by auto
      moreover have "128 \<le> unat u" "unat u < 192" using u(2) by (simp_all add: mb_is_cont_nat)
      ultimately show ?thesis using enc2 [of "unat ?c - 192" "unat u - 128"] tk u by simp
    next
      case 2
      then obtain u w where u: "us = [u, w]" "mb_is_cont u" "mb_is_cont w"
        using us by (auto simp: length_Suc_conv eval_nat_numeral)
      then have s: "s ! 0 = ?c" "s ! 1 = u" "s ! 2 = w" by (subst us(1), simp)+
      have b: "128 \<le> unat u" "unat u < 192" "128 \<le> unat w" "unat w < 192"
        using u by (simp_all add: mb_is_cont_nat)
      have c: "224 \<le> unat ?c \<and> unat ?c < 240" using 2 mb_num_chars_nat [of ?c] by (auto split: if_splits)
      have "unat ?c = 224 \<Longrightarrow> unat u div 32 \<noteq> 4"
        using v(2) 2 s cont_top [OF u(3)] by (simp add: mb_is_shortest_def drop_bit_eq_nat word_unat_eq_iff unat_drop_bit)
      then have "unat ?c = 224 \<Longrightarrow> 160 \<le> unat u" using b by auto
      moreover have "unat ?c = 237 \<Longrightarrow> unat u < 160"
        using v(3) 2 s b by (auto simp: mb_is_surrogate_def word_unat_eq_iff word_le_nat_alt)
      moreover have "unat ?c = 239 \<Longrightarrow> unat u = 191 \<Longrightarrow> unat w < 190"
        using v(4) 2 s b by (auto simp: mb_is_illegal_def word_unat_eq_iff word_le_nat_alt)
      moreover obtain i j k where ijk: "unat ?c = 224 + i" "unat u = 128 + j" "unat w = 128 + k"
        using b c by (metis le_Suc_ex)
      ultimately have "\<exists>cp. good_cp cp \<and> utf8_enc cp = [byte (224 + i), byte (128 + j), byte (128 + k)]"
        using b c by (intro enc3) simp_all
      then show ?thesis unfolding ijk [symmetric] byte_unat tk u(1) .
    next
      case 3
      then obtain u w x where u: "us = [u, w, x]" "mb_is_cont u" "mb_is_cont w" "mb_is_cont x"
        using us by (auto simp: length_Suc_conv eval_nat_numeral)
      then have s: "s ! 0 = ?c" "s ! 1 = u" "s ! 2 = w" "s ! 3 = x" by (subst us(1), simp)+
      have b: "128 \<le> unat u" "unat u < 192" "128 \<le> unat w" "unat w < 192" "128 \<le> unat x" "unat x < 192"
        using u by (simp_all add: mb_is_cont_nat)
      have c: "240 \<le> unat ?c \<and> unat ?c < 248" using 3 mb_num_chars_nat [of ?c] by (auto split: if_splits)
      have "unat ?c = 240 \<Longrightarrow> unat u div 16 \<noteq> 8"
        using v(2) 3 s cont_top [OF u(3)] cont_top [OF u(4)]
        by (simp add: mb_is_shortest_def drop_bit_eq_nat word_unat_eq_iff unat_drop_bit)
      then have "unat ?c = 240 \<Longrightarrow> 144 \<le> unat u" using b by auto
      moreover obtain i j k l where ijk: "unat ?c = 240 + i" "unat u = 128 + j" "unat w = 128 + k" "unat x = 128 + l"
        using b c by (metis le_Suc_ex)
      ultimately have "\<exists>cp. good_cp cp \<and> utf8_enc cp = [byte (240 + i), byte (128 + j), byte (128 + k), byte (128 + l)]"
        using b c by (intro enc4) simp_all
      then show ?thesis unfolding ijk [symmetric] byte_unat tk u(1) .
    qed
  qed
  show ?thesis
    using q asc multi by (auto simp: utf8_chunk_def Let_def)
qed

lemma count_valid_exact:
  assumes "\<forall>u \<in> set us. mb_is_cont u" and "n = Suc (length us)" and "r = [] \<or> \<not> mb_is_cont (hd r)"
  shows "count_valid (c # us @ r) n = n"
proof -
  have "take n (us @ r) = us @ take 1 r" using assms(2) by simp
  moreover have "takeWhile mb_is_cont (us @ take 1 r) = us"
    using assms(1,3) by (cases r) (auto simp: takeWhile_append)
  ultimately show ?thesis using assms(2) by (simp add: count_valid_def)
qed

lemma cont_byte: "n < 64 \<Longrightarrow> mb_is_cont (byte (128 + n))"
  by (simp add: mb_is_cont_nat unat_byte)

lemma chunk_enc:
  assumes "good_cp cp" and r: "r = [] \<or> \<not> mb_is_cont (hd r)"
  shows "utf8_chunk (utf8_enc cp @ r) = (utf8_enc cp, length (utf8_enc cp))"
proof -
  have cp: "1 \<le> cp" "cp < 0x200000" "\<not> (0xD800 \<le> cp \<and> cp \<le> 0xDFFF)" "cp \<noteq> 0xFFFE" "cp \<noteq> 0xFFFF"
    using assms(1) by (simp_all add: good_cp_def)
  consider "cp < 0x80" | "0x80 \<le> cp" "cp < 0x800" | "0x800 \<le> cp" "cp < 0x10000" | "0x10000 \<le> cp" by linarith
  then show ?thesis
  proof cases
    case 1
    then show ?thesis
      using cp(1) by (simp add: utf8_chunk_def utf8_enc_def word_le_nat_alt unat_byte)
  next
    case 2
    define x y where "x = cp div 64" and "y = cp mod 64"
    have xy: "2 \<le> x" "x < 32" "y < 64" using 2 by (auto simp: x_def y_def)
    have e: "utf8_enc cp = [byte (192 + x), byte (128 + y)]" using 2 by (simp add: utf8_enc_def x_def y_def)
    have u: "unat (byte (192 + x)) = 192 + x" "unat (byte (128 + y)) = 128 + y"
      using xy by (simp_all add: unat_byte)
    have n: "mb_num_chars (byte (192 + x)) = 2" unfolding mb_num_chars_nat u using xy by simp
    have v: "count_valid (byte (192 + x) # byte (128 + y) # r) 2 = 2"
      using count_valid_exact [of "[byte (128 + y)]" 2 r] cont_byte [OF xy(3)] r by simp
    have "\<not> ((byte (192 + x)) \<ge> 0x01 \<and> (byte (192 + x)) \<le> 0x7F)"
      unfolding word_le_nat_alt u by simp
    moreover have "mb_is_shortest (byte (192 + x) # byte (128 + y) # r) 2"
      unfolding mb_is_shortest_def drop_bit_eq_nat using xy by (simp add: u)
    ultimately show ?thesis
      unfolding e utf8_chunk_def Let_def append_Cons append_Nil list.sel n v
      by (simp add: mb_is_surrogate_def mb_is_illegal_def)
  next
    case 3
    define x y z where "x = cp div 4096" and "y = cp div 64 mod 64" and "z = cp mod 64"
    have xyz: "x < 16" "y < 64" "z < 64" using 3 by (auto simp: x_def y_def z_def)
    have cpe: "cp = (x * 64 + y) * 64 + z"
      using div_mult2_eq [of cp 64 64] by (simp add: x_def y_def z_def)
    have e: "utf8_enc cp = [byte (224 + x), byte (128 + y), byte (128 + z)]"
      using 3 by (simp add: utf8_enc_def x_def y_def z_def)
    note u = unat_byte [of "224 + x"] unat_byte [of "128 + y"] unat_byte [of "128 + z"]
    have n: "mb_num_chars (byte (224 + x)) = 3" using xyz by (simp add: mb_num_chars_nat u)
    have v: "count_valid (byte (224 + x) # byte (128 + y) # byte (128 + z) # r) 3 = 3"
      using count_valid_exact [of "[byte (128 + y), byte (128 + z)]" 3 r] cont_byte xyz r by simp
    have "\<not> (byte (224 + x) \<ge> 0x01 \<and> byte (224 + x) \<le> 0x7F)"
      using xyz by (simp add: word_le_nat_alt u)
    moreover have "mb_is_shortest (byte (224 + x) # byte (128 + y) # byte (128 + z) # r) 3"
      using xyz 3 cpe by (auto simp: mb_is_shortest_def drop_bit_eq_nat word_unat_eq_iff unat_drop_bit u)
    moreover have "\<not> mb_is_surrogate (byte (224 + x) # byte (128 + y) # byte (128 + z) # r) 3"
      using xyz cp cpe by (auto simp: mb_is_surrogate_def word_unat_eq_iff word_le_nat_alt u)
    moreover have "\<not> mb_is_illegal (byte (224 + x) # byte (128 + y) # byte (128 + z) # r) 3"
      using xyz cp cpe by (auto simp: mb_is_illegal_def word_unat_eq_iff word_le_nat_alt u)
    ultimately show ?thesis
      unfolding e utf8_chunk_def Let_def append_Cons append_Nil list.sel n v by simp
  next
    case 4
    define x y z w where "x = cp div 262144" and "y = cp div 4096 mod 64" and "z = cp div 64 mod 64"
      and "w = cp mod 64"
    have xyz: "x < 8" "y < 64" "z < 64" "w < 64" using cp(2) by (auto simp: x_def y_def z_def w_def)
    have cpe: "cp = ((x * 64 + y) * 64 + z) * 64 + w"
      using div_mult2_eq [of cp 64 64] div_mult2_eq [of cp 4096 64] by (simp add: x_def y_def z_def w_def)
    have e: "utf8_enc cp = [byte (240 + x), byte (128 + y), byte (128 + z), byte (128 + w)]"
      using 4 by (simp add: utf8_enc_def x_def y_def z_def w_def)
    note u = unat_byte [of "240 + x"] unat_byte [of "128 + y"] unat_byte [of "128 + z"] unat_byte [of "128 + w"]
    have n: "mb_num_chars (byte (240 + x)) = 4" using xyz by (simp add: mb_num_chars_nat u)
    have v: "count_valid (byte (240 + x) # byte (128 + y) # byte (128 + z) # byte (128 + w) # r) 4 = 4"
      using count_valid_exact [of "[byte (128 + y), byte (128 + z), byte (128 + w)]" 4 r] cont_byte xyz r by simp
    have "\<not> (byte (240 + x) \<ge> 0x01 \<and> byte (240 + x) \<le> 0x7F)"
      using xyz by (simp add: word_le_nat_alt u)
    moreover have "mb_is_shortest (byte (240 + x) # byte (128 + y) # byte (128 + z) # byte (128 + w) # r) 4"
      using xyz 4 cpe by (auto simp: mb_is_shortest_def drop_bit_eq_nat word_unat_eq_iff unat_drop_bit u)
    ultimately show ?thesis
      unfolding e utf8_chunk_def Let_def append_Cons append_Nil list.sel n v
      by (simp add: mb_is_surrogate_def mb_is_illegal_def)
  qed
qed

section \<open>Encoded texts\<close>

text \<open>\<open>encoded s\<close>: the bytes are the encodings of code points from 1 to \<open>0x1FFFFF\<close>, without surrogates
  and without \<open>0xFFFE\<close> and \<open>0xFFFF\<close>.\<close>

definition encoded :: "bytes \<Rightarrow> bool" where
  "encoded s \<longleftrightarrow> (\<exists>cps. s = concat (map utf8_enc cps) \<and> (\<forall>cp \<in> set cps. good_cp cp))"

lemma encoded_Nil [simp]: "encoded []"
  by (auto simp: encoded_def intro: exI [of _ "[]"])

lemma encoded_append: "encoded s \<Longrightarrow> encoded t \<Longrightarrow> encoded (s @ t)"
  unfolding encoded_def by (metis (no_types, lifting) UnE concat_append map_append set_append)

lemma encoded_enc: "good_cp cp \<Longrightarrow> encoded (utf8_enc cp)"
  unfolding encoded_def by (rule exI [of _ "[cp]"]) simp

lemma utf8_text_encoded: "encoded (utf8_text s)"
proof (induction s rule: utf8_text.induct)
  case (1 s)
  show ?case
  proof (cases "s = []")
    case False
    then show ?thesis
      using chunk_valid [OF False] "1.IH" [OF False]
      by (auto simp: utf8_text_step intro!: encoded_append dest!: encoded_enc)
  qed simp
qed

lemma utf8_enc_head: "good_cp cp \<Longrightarrow> utf8_enc cp \<noteq> [] \<and> \<not> mb_is_cont (hd (utf8_enc cp))"
  by (auto simp: utf8_enc_def mb_is_cont_nat unat_byte good_cp_def)

lemma encoded_head: "\<forall>cp \<in> set cps. good_cp cp \<Longrightarrow> concat (map utf8_enc cps) = [] \<or> \<not> mb_is_cont (hd (concat (map utf8_enc cps)))"
  using utf8_enc_head by (cases cps) auto

lemma utf8_text_id: "encoded s \<Longrightarrow> utf8_text s = s"
proof -
  have "utf8_text (concat (map utf8_enc cps)) = concat (map utf8_enc cps)" if "\<forall>cp \<in> set cps. good_cp cp" for cps
    using that
  proof (induction cps)
    case (Cons cp cps)
    let ?r = "concat (map utf8_enc cps)"
    have "utf8_chunk (utf8_enc cp @ ?r) = (utf8_enc cp, length (utf8_enc cp))"
      by (rule chunk_enc) (use Cons.prems encoded_head [of cps] in auto)
    moreover have "utf8_enc cp @ ?r \<noteq> []" using utf8_enc_head Cons.prems by auto
    ultimately show ?case using Cons by (simp add: utf8_text_step)
  qed simp
  then show "encoded s \<Longrightarrow> ?thesis" by (auto simp: encoded_def)
qed

section \<open>Clean page texts\<close>

text \<open>No byte of the result can open a tag, an attribute or, outside the five escapes, an entity.\<close>

definition page_safe :: "u8 \<Rightarrow> bool" where
  "page_safe c \<longleftrightarrow> \<not> xml_invalid c \<and> c \<notin> {0x3C, 0x3E, 0x22, 0x27}"

text \<open>Every ampersand of the result starts one of the five escapes.\<close>

fun amps_escaped :: "bytes \<Rightarrow> bool" where
  "amps_escaped [] = True"
| "amps_escaped (c # s) =
     ((c = 0x26 \<longrightarrow> take 5 (c # s) \<in> {str ''&#38;'', str ''&#39;'', str ''&#34;'', str ''&#60;'', str ''&#62;''})
      \<and> amps_escaped s)"

lemma amps_escaped_append: "0x26 \<notin> set s \<Longrightarrow> amps_escaped (s @ t) = amps_escaped t"
  by (induction s) auto

lemma utf8_chunk_bytes:
  assumes "s \<noteq> []" and "hd s \<ge> 0x80"
  shows "\<forall>u \<in> set (fst (utf8_chunk s)). u = QUESTION \<or> u \<ge> 0x80"
proof (cases "fst (utf8_chunk s) = [QUESTION]")
  case False
  let ?n = "mb_num_chars (hd s)"
  have asc: "\<not> (hd s \<ge> 0x01 \<and> hd s \<le> 0x7F)" using assms(2) by (simp add: word_le_nat_alt)
  with False have f: "fst (utf8_chunk s) = take ?n s" "count_valid s ?n = ?n" "1 < ?n"
    by (auto simp: utf8_chunk_def Let_def split: if_splits)
  obtain us r where us: "s = hd s # us @ r" "length us = ?n - 1" "\<forall>u \<in> set us. mb_is_cont u"
    using count_valid_eq [OF f(2) assms(1)] f(3) by auto
  have "take ?n (hd s # us @ r) = hd s # us" using us(2) f(3) by (simp add: take_Cons')
  then have "fst (utf8_chunk s) = hd s # us" unfolding f(1) us(1) [symmetric] .
  then show ?thesis using us(3) assms(2) by (auto simp: mb_is_cont_def)
qed simp

lemma pcdata_chunk_safe:
  assumes "s \<noteq> []"
  shows "(\<forall>u \<in> set (fst (pcdata_chunk s)). page_safe u) \<and>
    (fst (pcdata_chunk s) \<in> {str ''&#38;'', str ''&#39;'', str ''&#34;'', str ''&#60;'', str ''&#62;''}
     \<or> 0x26 \<notin> set (fst (pcdata_chunk s)))"
proof -
  let ?c = "hd s"
  consider "xml_invalid ?c" | "\<not> xml_invalid ?c" "xml_escape ?c"
    | "\<not> xml_invalid ?c" "\<not> xml_escape ?c" "?c \<ge> 0x01 \<and> ?c \<le> 0x7F"
    | "\<not> xml_invalid ?c" "\<not> xml_escape ?c" "?c \<ge> 0x80"
  proof -
    have "?c \<ge> 0x80 \<or> ?c \<le> 0x7F" by (simp add: word_le_nat_alt) linarith
    moreover have "xml_invalid 0" by (simp add: xml_invalid_def)
    moreover have "?c \<ge> 1 \<or> ?c = 0" by (simp add: word_le_nat_alt) (metis One_nat_def Suc_leI neq0_conv unat_eq_zero)
    ultimately show thesis using that by fastforce
  qed
  then show ?thesis
  proof cases
    case 1
    then show ?thesis by (simp add: pcdata_chunk_def)
  next
    case 2
    then have "fst (pcdata_chunk s) = escape_seq ?c" by (simp add: pcdata_chunk_def)
    with escape_seq_cases [OF 2(2)] show ?thesis
      by (auto simp: str_def of_char_def page_safe_def xml_invalid_def)
  next
    case 3
    then have "fst (pcdata_chunk s) = [?c]" by (simp add: pcdata_chunk_def utf8_chunk_def)
    with 3 show ?thesis by (auto simp: page_safe_def xml_escape_def)
  next
    case 4
    then have "fst (pcdata_chunk s) = fst (utf8_chunk s)" by (simp add: pcdata_chunk_def)
    with utf8_chunk_bytes [OF assms 4(3)] show ?thesis
      by (auto simp: page_safe_def xml_invalid_def QUESTION_def word_le_nat_alt)
  qed
qed

lemma amps_escape_append:
  "e \<in> {str ''&#38;'', str ''&#39;'', str ''&#34;'', str ''&#60;'', str ''&#62;''} \<Longrightarrow> amps_escaped t \<Longrightarrow> amps_escaped (e @ t)"
  by (auto simp: str_def of_char_def)

lemma pcdata_text_safe: "(\<forall>u \<in> set (pcdata_text s). page_safe u) \<and> amps_escaped (pcdata_text s)"
proof (induction s rule: pcdata_text.induct)
  case (1 s)
  show ?case
  proof (cases "s = []")
    case False
    have "amps_escaped (fst (pcdata_chunk s) @ pcdata_text (drop (snd (pcdata_chunk s)) s))"
      using pcdata_chunk_safe [OF False] "1.IH" [OF False] amps_escape_append amps_escaped_append by blast
    then show ?thesis
      using pcdata_chunk_safe [OF False] "1.IH" [OF False] by (auto simp: pcdata_text_step [OF False])
  qed simp
qed

section \<open>Properties\<close>

lemma holds_cstr: "holds b out \<Longrightarrow> is_cstr out \<Longrightarrow> cstr (buf_destroy b) = out"
proof -
  assume h: "holds b out" and "is_cstr out"
  have "tb_data b = (out @ [0]) @ drop (Suc (length out)) (tb_data b)"
    using h append_take_drop_id [of "Suc (length out)" "tb_data b"] by (simp add: holds_def)
  then show "cstr (buf_destroy b) = out"
    unfolding buf_destroy_def using \<open>is_cstr out\<close> by (metis append_Cons append_Nil append_assoc cstr_append_nul)
qed

lemma encoded_is_cstr: "encoded s \<Longrightarrow> is_cstr s"
proof -
  have "0 \<notin> set (utf8_enc cp)" if "good_cp cp" for cp
    using that by (auto simp: utf8_enc_def good_cp_def word_unat_eq_iff unat_byte)
  then show "encoded s \<Longrightarrow> is_cstr s" by (auto simp: encoded_def is_cstr_def)
qed

lemma page_safe_is_cstr: "\<forall>u \<in> set s. page_safe u \<Longrightarrow> is_cstr s"
proof -
  have "\<not> page_safe 0" by (simp add: page_safe_def xml_invalid_def)
  then show "\<forall>u \<in> set s. page_safe u \<Longrightarrow> is_cstr s" unfolding is_cstr_def by blast
qed

text \<open>C22. \<open>sanitize_utf8\<close> stays inside its buffer; the string it returns is a sequence of encoded code
  points whatever the input was, and is the input when that was one already.\<close>

theorem sanitize_utf8_encoded:
  assumes "length s + 4096 < 2 ^ 32"
  shows "\<exists>d. sanitize_utf8 (\<lambda>_. True) s = Some (Some d) \<and> encoded (cstr d) \<and> (encoded s \<longrightarrow> cstr d = s)"
proof -
  obtain b where b: "buf_init (\<lambda>_. True) = Some b" "holds b []"
    using holds_init [of "\<lambda>_. True"] by blast
  obtain b' where b': "utf8_loop (\<lambda>_. True) s b = Some b'" "holds b' (utf8_text s)"
    using utf8_loop_text [OF b(2), of s] assms by auto
  have "cstr (buf_destroy b') = utf8_text s"
    using b'(2) encoded_is_cstr [OF utf8_text_encoded] by (rule holds_cstr)
  then show ?thesis
    using b(1) b'(1) utf8_text_encoded [of s] utf8_text_id [of s] by (simp add: sanitize_utf8_def)
qed

theorem sanitize_utf8_encoded_witness:
  "\<exists>d. sanitize_utf8 (\<lambda>_. True) [0xC3, 0xA9, 0x41] = Some (Some d) \<and> cstr d = [0xC3, 0xA9, 0x41]"
proof -
  have "encoded [0xC3, 0xA9, 0x41]"
    using encoded_append [OF encoded_enc [of 233] encoded_enc [of 65]]
    by (simp add: good_cp_def utf8_enc_def byte_def)
  then show ?thesis using sanitize_utf8_encoded [of "[0xC3, 0xA9, 0x41]"] by auto
qed

text \<open>C23. \<open>sanitize_pcdata\<close> stays inside its buffer; the string it returns has no control byte other than
  tab, line feed and carriage return, no angle bracket and no quote, and every ampersand in it starts a numeric escape.\<close>

theorem sanitize_pcdata_safe:
  assumes "5 * length s + 4096 < 2 ^ 32"
  shows "\<exists>d. sanitize_pcdata (\<lambda>_. True) s = Some (Some d) \<and> (\<forall>u \<in> set (cstr d). page_safe u) \<and> amps_escaped (cstr d)"
proof -
  obtain b where b: "buf_init (\<lambda>_. True) = Some b" "holds b []"
    using holds_init [of "\<lambda>_. True"] by blast
  obtain b' where b': "pcdata_loop (\<lambda>_. True) s b = Some b'" "holds b' (pcdata_text s)"
    using pcdata_loop_text [OF b(2), of s] assms by auto
  have "cstr (buf_destroy b') = pcdata_text s"
    using b'(2) page_safe_is_cstr pcdata_text_safe by (blast intro: holds_cstr)
  then show ?thesis
    using b(1) b'(1) pcdata_text_safe [of s] by (simp add: sanitize_pcdata_def)
qed

theorem sanitize_pcdata_safe_witness:
  "\<exists>d. sanitize_pcdata (\<lambda>_. True) [0x3C, 0x62, 0x3E, 0xFF] = Some (Some d) \<and> 0x3C \<notin> set (cstr d)"
  using sanitize_pcdata_safe [of "[0x3C, 0x62, 0x3E, 0xFF]"] by (auto simp: page_safe_def)

end
