(* ===== verification/Buffalo.thy ===== *)
theory Buffalo
  imports Prelude Contracts Crc
begin

text \<open>
  \<open>tools/firmware-utils/src/buffalo-lib.c\<close> and \<open>.h\<close>: the container of Buffalo firmware images.
  A stream cipher with a key-dependent state (an RC4 whose state may have any length) encrypts the
  names and the data; two checksums protect the parts.

  The state of the cipher is a byte list, \<open>i\<close> and \<open>j\<close> are bytes. \<open>unsigned long\<close> sums that index the
  state stay far below the word size, and are natural numbers. \<open>mem\<close> says which allocations are
  served. \<open>char\<close> is signed (the build host), so \<open>buffalo_csum\<close> extends the sign of each byte.
\<close>

section \<open>The checksums\<close>

definition crc32_table :: "u32 list" where
  "crc32_table =
    [0x00000000, 0x04c11db7, 0x09823b6e, 0x0d4326d9, 0x130476dc, 0x17c56b6b,
     0x1a864db2, 0x1e475005, 0x2608edb8, 0x22c9f00f, 0x2f8ad6d6, 0x2b4bcb61,
     0x350c9b64, 0x31cd86d3, 0x3c8ea00a, 0x384fbdbd, 0x4c11db70, 0x48d0c6c7,
     0x4593e01e, 0x4152fda9, 0x5f15adac, 0x5bd4b01b, 0x569796c2, 0x52568b75,
     0x6a1936c8, 0x6ed82b7f, 0x639b0da6, 0x675a1011, 0x791d4014, 0x7ddc5da3,
     0x709f7b7a, 0x745e66cd, 0x9823b6e0, 0x9ce2ab57, 0x91a18d8e, 0x95609039,
     0x8b27c03c, 0x8fe6dd8b, 0x82a5fb52, 0x8664e6e5, 0xbe2b5b58, 0xbaea46ef,
     0xb7a96036, 0xb3687d81, 0xad2f2d84, 0xa9ee3033, 0xa4ad16ea, 0xa06c0b5d,
     0xd4326d90, 0xd0f37027, 0xddb056fe, 0xd9714b49, 0xc7361b4c, 0xc3f706fb,
     0xceb42022, 0xca753d95, 0xf23a8028, 0xf6fb9d9f, 0xfbb8bb46, 0xff79a6f1,
     0xe13ef6f4, 0xe5ffeb43, 0xe8bccd9a, 0xec7dd02d, 0x34867077, 0x30476dc0,
     0x3d044b19, 0x39c556ae, 0x278206ab, 0x23431b1c, 0x2e003dc5, 0x2ac12072,
     0x128e9dcf, 0x164f8078, 0x1b0ca6a1, 0x1fcdbb16, 0x018aeb13, 0x054bf6a4,
     0x0808d07d, 0x0cc9cdca, 0x7897ab07, 0x7c56b6b0, 0x71159069, 0x75d48dde,
     0x6b93dddb, 0x6f52c06c, 0x6211e6b5, 0x66d0fb02, 0x5e9f46bf, 0x5a5e5b08,
     0x571d7dd1, 0x53dc6066, 0x4d9b3063, 0x495a2dd4, 0x44190b0d, 0x40d816ba,
     0xaca5c697, 0xa864db20, 0xa527fdf9, 0xa1e6e04e, 0xbfa1b04b, 0xbb60adfc,
     0xb6238b25, 0xb2e29692, 0x8aad2b2f, 0x8e6c3698, 0x832f1041, 0x87ee0df6,
     0x99a95df3, 0x9d684044, 0x902b669d, 0x94ea7b2a, 0xe0b41de7, 0xe4750050,
     0xe9362689, 0xedf73b3e, 0xf3b06b3b, 0xf771768c, 0xfa325055, 0xfef34de2,
     0xc6bcf05f, 0xc27dede8, 0xcf3ecb31, 0xcbffd686, 0xd5b88683, 0xd1799b34,
     0xdc3abded, 0xd8fba05a, 0x690ce0ee, 0x6dcdfd59, 0x608edb80, 0x644fc637,
     0x7a089632, 0x7ec98b85, 0x738aad5c, 0x774bb0eb, 0x4f040d56, 0x4bc510e1,
     0x46863638, 0x42472b8f, 0x5c007b8a, 0x58c1663d, 0x558240e4, 0x51435d53,
     0x251d3b9e, 0x21dc2629, 0x2c9f00f0, 0x285e1d47, 0x36194d42, 0x32d850f5,
     0x3f9b762c, 0x3b5a6b9b, 0x0315d626, 0x07d4cb91, 0x0a97ed48, 0x0e56f0ff,
     0x1011a0fa, 0x14d0bd4d, 0x19939b94, 0x1d528623, 0xf12f560e, 0xf5ee4bb9,
     0xf8ad6d60, 0xfc6c70d7, 0xe22b20d2, 0xe6ea3d65, 0xeba91bbc, 0xef68060b,
     0xd727bbb6, 0xd3e6a601, 0xdea580d8, 0xda649d6f, 0xc423cd6a, 0xc0e2d0dd,
     0xcda1f604, 0xc960ebb3, 0xbd3e8d7e, 0xb9ff90c9, 0xb4bcb610, 0xb07daba7,
     0xae3afba2, 0xaafbe615, 0xa7b8c0cc, 0xa379dd7b, 0x9b3660c6, 0x9ff77d71,
     0x92b45ba8, 0x9675461f, 0x8832161a, 0x8cf30bad, 0x81b02d74, 0x857130c3,
     0x5d8a9099, 0x594b8d2e, 0x5408abf7, 0x50c9b640, 0x4e8ee645, 0x4a4ffbf2,
     0x470cdd2b, 0x43cdc09c, 0x7b827d21, 0x7f436096, 0x7200464f, 0x76c15bf8,
     0x68860bfd, 0x6c47164a, 0x61043093, 0x65c52d24, 0x119b4be9, 0x155a565e,
     0x18197087, 0x1cd86d30, 0x029f3d35, 0x065e2082, 0x0b1d065b, 0x0fdc1bec,
     0x3793a651, 0x3352bbe6, 0x3e119d3f, 0x3ad08088, 0x2497d08d, 0x2056cd3a,
     0x2d15ebe3, 0x29d4f654, 0xc5a92679, 0xc1683bce, 0xcc2b1d17, 0xc8ea00a0,
     0xd6ad50a5, 0xd26c4d12, 0xdf2f6bcb, 0xdbee767c, 0xe3a1cbc1, 0xe760d676,
     0xea23f0af, 0xeee2ed18, 0xf0a5bd1d, 0xf464a0aa, 0xf9278673, 0xfde69bc4,
     0x89b8fd09, 0x8d79e0be, 0x803ac667, 0x84fbdbd0, 0x9abc8bd5, 0x9e7d9662,
     0x933eb0bb, 0x97ffad0c, 0xafb010b1, 0xab710d06, 0xa6322bdf, 0xa2f33668,
     0xbcb4666d, 0xb8757bda, 0xb5365d03, 0xb1f740b4]"

lemma crc32_table_ok:
  "crc32_table ! unat (x :: u8) = crc_left_byte 0x04C11DB7 (push_bit 24 (ucast x))"
proof (rule span_table)
  show "crc_left_byte 0x04C11DB7 (push_bit 24 (ucast (x XOR y :: u8))) =
      crc_left_byte 0x04C11DB7 (push_bit 24 (ucast x)) XOR crc_left_byte 0x04C11DB7 (push_bit 24 (ucast y))" for x y
    by (rule crc_left_lin)
  have "map (\<lambda>x. crc_left_byte 0x04C11DB7 (push_bit 24 (ucast (x :: u8)))) [1, 2, 4, 8, 16, 32, 64, 128] =
      [0x04c11db7, 0x09823b6e, 0x130476dc, 0x2608edb8, 0x4c11db70, 0x9823b6e0, 0x34867077, 0x690ce0ee]"
    by code_simp
  moreover have "crc32_table = span [0x04c11db7, 0x09823b6e, 0x130476dc, 0x2608edb8, 0x4c11db70,
      0x9823b6e0, 0x34867077, 0x690ce0ee]"
    by (simp add: crc32_table_def span_def)
  ultimately show "crc32_table =
      span [crc_left_byte 0x04C11DB7 (push_bit 24 (ucast (1 :: u8))), crc_left_byte 0x04C11DB7 (push_bit 24 (ucast (2 :: u8))),
            crc_left_byte 0x04C11DB7 (push_bit 24 (ucast (4 :: u8))), crc_left_byte 0x04C11DB7 (push_bit 24 (ucast (8 :: u8))),
            crc_left_byte 0x04C11DB7 (push_bit 24 (ucast (16 :: u8))), crc_left_byte 0x04C11DB7 (push_bit 24 (ucast (32 :: u8))),
            crc_left_byte 0x04C11DB7 (push_bit 24 (ucast (64 :: u8))), crc_left_byte 0x04C11DB7 (push_bit 24 (ucast (128 :: u8)))]"
    by (simp only: list.map list.inject)
qed

definition crc_step :: "u32 \<Rightarrow> u8 \<Rightarrow> u32" where
  "crc_step crc b = push_bit 8 crc XOR crc32_table ! unat ((drop_bit 24 crc XOR ucast b) AND 0xFF)"

fun crc_data :: "u32 \<Rightarrow> bytes \<Rightarrow> u32" where
  "crc_data crc [] = crc"
| "crc_data crc (b # bs) = crc_data (crc_step crc b) bs"

text \<open>The second loop feeds the bytes of the length, lowest first, as long as it is not zero.\<close>

fun len_bytes :: "nat \<Rightarrow> bytes" where
  "len_bytes t = (if t = 0 then [] else of_nat (t mod 256) # len_bytes (t div 256))"

declare len_bytes.simps [simp del]

definition buffalo_crc :: "bytes \<Rightarrow> u32" where
  "buffalo_crc buf = NOT (crc_data (crc_data 0 buf) (len_bytes (length buf)))"

definition csum_bit :: "u32 \<Rightarrow> u32" where
  "csum_bit csum = drop_bit 1 csum XOR (if csum AND 1 \<noteq> 0 then 0xEDB88320 else 0)"

definition csum_step :: "u32 \<Rightarrow> u8 \<Rightarrow> u32" where
  "csum_step csum p = (csum_bit ^^ 8) (csum XOR scast p)"

fun buffalo_csum :: "u32 \<Rightarrow> bytes \<Rightarrow> u32" where
  "buffalo_csum csum [] = csum"
| "buffalo_csum csum (p # ps) = buffalo_csum (csum_step csum p) ps"

section \<open>The cipher\<close>

record bcrypt_ctx =
  bc_i :: u8
  bc_j :: u8
  bc_state :: bytes

definition BCRYPT_DEFAULT_STATE_LEN :: nat where "BCRYPT_DEFAULT_STATE_LEN = 256"
definition BCRYPT_MAX_KEYLEN :: nat where "BCRYPT_MAX_KEYLEN = 254"

text \<open>One round of the key schedule; \<open>j\<close> runs through the key modulo its length.\<close>

definition init_step :: "bytes \<Rightarrow> nat \<Rightarrow> bytes \<times> nat \<Rightarrow> bytes \<times> nat" where
  "init_step key i sk =
     (let (st, k) = sk;
          t = st ! i;
          k = (k + unat (key ! (i mod length key)) + unat t) mod length st
      in ((st[i := st ! k])[k := t], k))"

definition bcrypt_init :: "(nat \<Rightarrow> bool) \<Rightarrow> bytes \<Rightarrow> nat \<Rightarrow> int \<times> bcrypt_ctx option" where
  "bcrypt_init mem key state_len =
     (if \<not> mem state_len then (-1, None)
      else (0, Some \<lparr>bc_i = 0, bc_j = 0,
              bc_state = fst (fold (init_step key) [0..<state_len] (map of_nat [0..<state_len], 0))\<rparr>))"

text \<open>One round of the cipher gives the next context and the key byte.\<close>

definition process_step :: "bcrypt_ctx \<Rightarrow> bcrypt_ctx \<times> u8" where
  "process_step ctx =
     (let st = bc_state ctx; n = length st;
          i = (of_nat ((unat (bc_i ctx) + 1) mod n) :: u8);
          j = (of_nat ((unat (bc_j ctx) + unat (st ! unat i)) mod n) :: u8);
          t = st ! unat j;
          st = (st[unat j := st ! unat i])[unat i := t]
      in (\<lparr>bc_i = i, bc_j = j, bc_state = st\<rparr>,
          st ! ((unat (st ! unat i) + unat (st ! unat j)) mod n)))"

fun bcrypt_process :: "bcrypt_ctx \<Rightarrow> bytes \<Rightarrow> bcrypt_ctx \<times> bytes" where
  "bcrypt_process ctx [] = (ctx, [])"
| "bcrypt_process ctx (x # xs) =
     (let (ctx, k) = process_step ctx; (ctx, ys) = bcrypt_process ctx xs in (ctx, (x XOR k) # ys))"

text \<open>\<open>bcrypt_buf\<close>: the return value and the output bytes; \<^term>\<open>None\<close> when the key does not fit.\<close>

definition bcrypt_buf :: "(nat \<Rightarrow> bool) \<Rightarrow> u8 \<Rightarrow> bytes \<Rightarrow> bytes \<Rightarrow> bool \<Rightarrow> (int \<times> bytes) option" where
  "bcrypt_buf mem seed key src longstate =
     (if length key > BCRYPT_MAX_KEYLEN then None
      else
        (case bcrypt_init mem (seed # key) (if longstate then length src else BCRYPT_DEFAULT_STATE_LEN) of
           (ret, None) \<Rightarrow> Some (ret, src)
         | (_, Some ctx) \<Rightarrow> Some (0, snd (bcrypt_process ctx src))))"

section \<open>The container\<close>

definition ENC_PRODUCT_LEN :: nat where "ENC_PRODUCT_LEN = 32"
definition ENC_VERSION_LEN :: nat where "ENC_VERSION_LEN = 8"
definition ENC_MAGIC_LEN :: nat where "ENC_MAGIC_LEN = 6"

text \<open>The arrays hold whole bytes: a name in them ends with its NUL.\<close>

record enc_param =
  e_key :: bytes
  e_magic :: bytes
  e_product :: bytes
  e_version :: bytes
  e_seed :: u8
  e_longstate :: bool
  e_datalen :: u32
  e_csum :: u32

definition enc_compute_header_len :: "bytes \<Rightarrow> bytes \<Rightarrow> nat" where
  "enc_compute_header_len product version =
     ENC_MAGIC_LEN + 1 + length product + 1 + length version + 1 + 3 * 4"

definition enc_compute_buf_len :: "bytes \<Rightarrow> bytes \<Rightarrow> nat \<Rightarrow> nat" where
  "enc_compute_buf_len product version datalen =
     (let ret = enc_compute_header_len product version + (datalen + 4) in ret + (4 - ret mod 4))"

definition check_magic :: "bytes \<Rightarrow> bool" where
  "check_magic m \<longleftrightarrow> take ENC_MAGIC_LEN m = str ''start'' @ [0] \<or> take ENC_MAGIC_LEN m = str ''asar1'' @ [0]"

text \<open>\<open>encrypt_buf\<close>: the return value and the two buffers. A failed allocation leaves the parts
  written so far.\<close>

definition encrypt_buf ::
    "(nat \<Rightarrow> bool) \<Rightarrow> enc_param \<Rightarrow> bytes \<Rightarrow> bytes \<Rightarrow> (int \<times> bytes \<times> bytes) option" where
  "encrypt_buf mem ep hdr data =
     do { magic \<leftarrow> cstr_at (e_magic ep) 0;
          product \<leftarrow> cstr_at (e_product ep) 0;
          version \<leftarrow> cstr_at (e_version ep) 0;
          let magic = magic @ [0];
          let product = product @ [0];
          let version = version @ [0];
          let p = 0;
          hdr \<leftarrow> poke hdr p magic;
          let p = p + length magic;
          hdr \<leftarrow> poke hdr p [e_seed ep];
          let p = p + 1;
          hdr \<leftarrow> poke hdr p (be32 (of_nat (length product)));
          let p = p + 4;
          hdr \<leftarrow> poke hdr p product;
          (err, c) \<leftarrow> bcrypt_buf mem (e_seed ep) (e_key ep) product (e_longstate ep);
          hdr \<leftarrow> poke hdr p c;
          if err \<noteq> 0 then Some (-1, hdr, data)
          else do {
            let s = c ! 0;
            let p = p + length product;
            hdr \<leftarrow> poke hdr p (be32 (of_nat (length version)));
            let p = p + 4;
            hdr \<leftarrow> poke hdr p version;
            (err, c) \<leftarrow> bcrypt_buf mem s (e_key ep) version (e_longstate ep);
            hdr \<leftarrow> poke hdr p c;
            if err \<noteq> 0 then Some (-1, hdr, data)
            else do {
              let s = c ! 0;
              let p = p + length version;
              hdr \<leftarrow> poke hdr p (be32 (e_datalen ep));
              body \<leftarrow> peek data 0 (unat (e_datalen ep));
              (err, c) \<leftarrow> bcrypt_buf mem s (e_key ep) body (e_longstate ep);
              data \<leftarrow> poke data 0 c;
              if err \<noteq> 0 then Some (-1, hdr, data)
              else do {
                data \<leftarrow> poke data (unat (e_datalen ep)) (be32 (e_csum ep));
                Some (0, hdr, data) } } } }"

text \<open>\<open>decrypt_buf\<close>: a length that runs past the input, an unknown magic, an oversized name or a wrong
  checksum ends it with -1. The data is decrypted to the front of the buffer; the parameters change
  in place.\<close>

definition decrypt_buf ::
    "(nat \<Rightarrow> bool) \<Rightarrow> enc_param \<Rightarrow> bytes \<Rightarrow> (int \<times> enc_param \<times> bytes) option" where
  "decrypt_buf mem ep data =
     (let n = length data
      in if n < ENC_MAGIC_LEN \<or> \<not> check_magic data then Some (-1, ep, data)
      else let ep = ep\<lparr>e_magic := take ENC_MAGIC_LEN data\<rparr>; p = ENC_MAGIC_LEN
      in if n < p + 1 then Some (-1, ep, data)
      else let ep = ep\<lparr>e_seed := data ! p\<rparr>; p = p + 1
      in if n < p + 4 then Some (-1, ep, data)
      else let prod_len = unat (of_be32 (take 4 (drop p data))); p = p + 4
      in if prod_len > ENC_PRODUCT_LEN \<or> n < p + prod_len then Some (-1, ep, data)
      else let prod = take prod_len (drop p data);
               ep = ep\<lparr>e_product := prod @ drop prod_len (e_product ep)\<rparr>; p = p + prod_len
      in if n < p + 4 then Some (-1, ep, data)
      else let ver_len = unat (of_be32 (take 4 (drop p data))); p = p + 4
      in if ver_len > ENC_VERSION_LEN \<or> n < p + ver_len then Some (-1, ep, data)
      else let ver = take ver_len (drop p data);
               ep = ep\<lparr>e_version := ver @ drop ver_len (e_version ep)\<rparr>; p = p + ver_len
      in if n < p + 4 then Some (-1, ep, data)
      else let ep = ep\<lparr>e_datalen := of_be32 (take 4 (drop p data))\<rparr>; len = unat (e_datalen ep); p = p + 4
      in if n < p + len then Some (-1, ep, data)
      else do {
        (err, c) \<leftarrow> bcrypt_buf mem (e_version ep ! 0) (e_key ep) (take len (drop p data)) (e_longstate ep);
        data \<leftarrow> (if err \<noteq> 0 then Some data else poke data 0 c);
        let p = p + len;
        if err \<noteq> 0 \<or> n < p + 4 then Some (-1, ep, data)
        else do {
          let ep = ep\<lparr>e_csum := of_be32 (take 4 (drop p data))\<rparr>;
          if buffalo_csum (e_datalen ep) (take len data) \<noteq> e_csum ep then Some (-1, ep, data)
          else do {
            (err, c) \<leftarrow> bcrypt_buf mem (e_product ep ! 0) (e_key ep) ver (e_longstate ep);
            let ep = (if err \<noteq> 0 then ep else ep\<lparr>e_version := c @ drop ver_len (e_version ep)\<rparr>);
            if err \<noteq> 0 then Some (-1, ep, data)
            else do {
              (err, c) \<leftarrow> bcrypt_buf mem (e_seed ep) (e_key ep) prod (e_longstate ep);
              let ep = (if err \<noteq> 0 then ep else ep\<lparr>e_product := c @ drop prod_len (e_product ep)\<rparr>);
              Some (if err \<noteq> 0 then -1 else 0, ep, data) } } } })"

end
