(* ===== verification/Buffalo_Laws.thy ===== *)
theory Buffalo_Laws
  imports Buffalo
begin

text \<open>
  Laws of the Buffalo container: the table CRC is the bit-serial one, the cipher is a stream cipher
  and undoes itself, and decryption gives back what encryption was given.
\<close>

section \<open>Checksums\<close>

lemma crc_step_bitwise: "crc_step c b = crc_left_byte 0x04C11DB7 (c XOR push_bit 24 (ucast b))"
proof -
  have cast: "(ucast (drop_bit 24 c XOR ucast b) :: u8) = ucast (drop_bit 24 c) XOR b"
    by (rule bit_word_eqI) (auto simp: bit_simps)
  show ?thesis
    by (simp only: crc_step_def unat_and_ff cast crc32_table_ok crc_left_byte_split)
qed

interpretation bcrc: tabled_sum crc_step crc_data "\<lambda>c b. crc_left_byte 0x04C11DB7 (c XOR push_bit 24 (ucast b))"
  by unfold_locales (simp_all add: crc_step_bitwise)

interpretation bsum: stream_sum csum_step buffalo_csum
  by unfold_locales simp_all

section \<open>The cipher\<close>

definition bc_ctx :: "u8 \<times> bytes \<times> bool \<Rightarrow> nat \<Rightarrow> bcrypt_ctx" where
  "bc_ctx k n =
     (case k of (seed, key, longstate) \<Rightarrow>
        the (snd (bcrypt_init (\<lambda>_. True) (seed # key) (if longstate then n else BCRYPT_DEFAULT_STATE_LEN))))"

definition bc_crypt :: "u8 \<times> bytes \<times> bool \<Rightarrow> bytes \<Rightarrow> bytes" where
  "bc_crypt k xs = snd (bcrypt_process (bc_ctx k (length xs)) xs)"

definition bc_stream :: "u8 \<times> bytes \<times> bool \<Rightarrow> nat \<Rightarrow> bytes" where
  "bc_stream k n = snd (bcrypt_process (bc_ctx k n) (replicate n 0))"

lemma length_bcrypt_process: "length (snd (bcrypt_process ctx xs)) = length xs"
proof (induction xs arbitrary: ctx)
  case (Cons x xs)
  then show ?case by (metis (no_types, lifting) bcrypt_process.simps(2) case_prod_beta length_Cons snd_conv)
qed simp

lemma bcrypt_process_stream:
  "snd (bcrypt_process ctx xs) = map2 (XOR) xs (snd (bcrypt_process ctx (replicate (length xs) 0)))"
proof (induction xs arbitrary: ctx)
  case (Cons x xs)
  obtain c k where ck: "process_step ctx = (c, k)" by (meson surj_pair)
  obtain d ys where dy: "bcrypt_process c xs = (d, ys)" by (meson surj_pair)
  obtain d' zs where dz: "bcrypt_process c (replicate (length xs) 0) = (d', zs)" by (meson surj_pair)
  show ?case using Cons [of c] by (simp add: ck dy dz)
qed simp

interpretation bcrypt: stream_cipher bc_crypt bc_stream
  by unfold_locales (simp_all add: bc_crypt_def bc_stream_def length_bcrypt_process bcrypt_process_stream [symmetric])

lemma bcrypt_buf_ok:
  "length key \<le> BCRYPT_MAX_KEYLEN \<Longrightarrow> bcrypt_buf (\<lambda>_. True) seed key xs ls = Some (0, bc_crypt (seed, key, ls) xs)"
  by (simp add: bcrypt_buf_def bc_crypt_def bc_ctx_def bcrypt_init_def)

section \<open>Writing a header piece by piece\<close>

lemma poke_prefix:
  assumes "take p b = a" and "length a = p" and "p + length xs \<le> length b"
  obtains b' where "poke b p xs = Some b'" "take (p + length xs) b' = a @ xs" "length b' = length b"
    "drop (p + length xs) b' = drop (p + length xs) b"
proof -
  have "poke b p xs = Some (a @ xs @ drop (p + length xs) b)"
    using assms by (simp add: poke_def)
  then show thesis by (rule that) (use assms in simp_all)
qed

section \<open>Encryption and decryption\<close>

definition enc_ok :: "enc_param \<Rightarrow> bool" where
  "enc_ok ep \<longleftrightarrow>
     length (e_key ep) \<le> BCRYPT_MAX_KEYLEN \<and>
     e_magic ep \<in> {str ''start'' @ [0], str ''asar1'' @ [0]} \<and>
     length (e_product ep) = ENC_PRODUCT_LEN \<and> 0 \<in> set (e_product ep) \<and>
     length (e_version ep) = ENC_VERSION_LEN \<and> 0 \<in> set (e_version ep)"

text \<open>The encrypted image: header, data and checksum.\<close>

definition enc_image :: "enc_param \<Rightarrow> bytes \<Rightarrow> bytes \<times> bytes" where
  "enc_image ep body =
     (let k = e_key ep; ls = e_longstate ep;
          product = cstr (e_product ep) @ [0]; version = cstr (e_version ep) @ [0];
          cp = bc_crypt (e_seed ep, k, ls) product; cv = bc_crypt (cp ! 0, k, ls) version
      in (e_magic ep @ [e_seed ep] @ be32 (of_nat (length product)) @ cp
            @ be32 (of_nat (length version)) @ cv @ be32 (e_datalen ep),
          bc_crypt (cv ! 0, k, ls) body @ be32 (e_csum ep)))"

lemma cstr_at_some: "0 \<in> set b \<Longrightarrow> cstr_at b 0 = Some (cstr b) \<and> length (cstr b) < length b"
proof -
  assume z: "0 \<in> set b"
  have "cstr b \<noteq> b" using z is_cstr_cstr [of b] by (metis is_cstr_def)
  then have "length (cstr b) < length b"
    using length_takeWhile_le [of "\<lambda>c. c \<noteq> 0" b] takeWhile_eq_take [of "\<lambda>c. c \<noteq> 0" b]
    by (metis cstr_def le_neq_implies_less take_all_iff order_refl)
  then show ?thesis by (simp add: cstr_at_def)
qed

lemma enc_magic: "enc_ok ep \<Longrightarrow> cstr_at (e_magic ep) 0 = Some (butlast (e_magic ep)) \<and> butlast (e_magic ep) @ [0] = e_magic ep
    \<and> length (e_magic ep) = 6 \<and> (\<forall>r. check_magic (e_magic ep @ r))"
  by (auto simp: enc_ok_def cstr_at_def cstr_def str_def of_char_def check_magic_def ENC_MAGIC_LEN_def)

lemma poke_again:
  assumes "take (p + length xs) b = a @ xs" and "length a = p" and "length ys = length xs" and "p + length xs \<le> length b"
  obtains b' where "poke b p ys = Some b'" "take (p + length xs) b' = a @ ys" "length b' = length b"
proof -
  have "take p b = a"
    using arg_cong [OF assms(1), of "take p"] assms(2) by (simp add: min_def)
  then show thesis
    using poke_prefix [of p b a ys] assms(2-4) that by metis
qed

lemma encrypt_buf_image:
  assumes ok: "enc_ok ep" and hl: "enc_compute_header_len (cstr (e_product ep)) (cstr (e_version ep)) \<le> length hdr"
    and dl: "unat (e_datalen ep) + 4 \<le> length data"
  obtains hdr' data' where "encrypt_buf (\<lambda>_. True) ep hdr data = Some (0, hdr', data')"
    "take (length (fst (enc_image ep (take (unat (e_datalen ep)) data)))) hdr' = fst (enc_image ep (take (unat (e_datalen ep)) data))"
    "take (unat (e_datalen ep) + 4) data' = snd (enc_image ep (take (unat (e_datalen ep)) data))"
proof -
  let ?k = "e_key ep" and ?ls = "e_longstate ep" and ?n = "unat (e_datalen ep)"
  define m P V where "m = e_magic ep" and "P = cstr (e_product ep) @ [0]" and "V = cstr (e_version ep) @ [0]"
  define cP where "cP = bc_crypt (e_seed ep, ?k, ?ls) P"
  define cV where "cV = bc_crypt (cP ! 0, ?k, ?ls) V"
  define B where "B = take ?n data"
  define C where "C = bc_crypt (cV ! 0, ?k, ?ls) B"
  have key: "length ?k \<le> BCRYPT_MAX_KEYLEN" using ok by (simp add: enc_ok_def)
  note M = enc_magic [OF ok, folded m_def]
  have ps: "cstr_at (e_product ep) 0 = Some (cstr (e_product ep))" "cstr_at (e_version ep) 0 = Some (cstr (e_version ep))"
    using ok cstr_at_some by (auto simp: enc_ok_def)
  have L: "length m = 6" "length cP = length P" "length cV = length V" "length C = length B" "length B = ?n"
    using M dl by (simp_all add: cP_def cV_def C_def B_def bcrypt.length_crypt)
  have hl': "6 + 1 + 4 + length P + 4 + length V + 4 \<le> length hdr"
    using hl by (simp add: enc_compute_header_len_def ENC_MAGIC_LEN_def P_def V_def)
  have len1: "length (be32 w) = 4" for w by simp
  obtain h1 where h1: "poke hdr 0 m = Some h1" "take 6 h1 = m" "length h1 = length hdr"
    using poke_prefix [of 0 hdr "[]" m] hl' L by auto
  obtain h2 where h2: "poke h1 6 [e_seed ep] = Some h2" "take 7 h2 = m @ [e_seed ep]" "length h2 = length hdr"
    using poke_prefix [of 6 h1 m "[e_seed ep]"] h1 hl' L by auto
  let ?a = "m @ [e_seed ep] @ be32 (of_nat (length P))"
  obtain h3 where h3: "poke h2 7 (be32 (of_nat (length P))) = Some h3" "take 11 h3 = ?a" "length h3 = length hdr"
    using poke_prefix [of 7 h2 "m @ [e_seed ep]" "be32 (of_nat (length P))"] h2 hl' L by auto
  obtain h4 where h4: "poke h3 11 P = Some h4" "take (11 + length P) h4 = ?a @ P" "length h4 = length hdr"
    using poke_prefix [of 11 h3 ?a P] h3 hl' L by auto
  obtain h5 where h5: "poke h4 11 cP = Some h5" "take (11 + length P) h5 = ?a @ cP" "length h5 = length hdr"
    using poke_again [of 11 P h4 ?a cP] h4 hl' L by auto
  let ?b = "?a @ cP @ be32 (of_nat (length V))"
  obtain h6 where h6: "poke h5 (11 + length P) (be32 (of_nat (length V))) = Some h6"
    "take (15 + length P) h6 = ?b" "length h6 = length hdr"
    using poke_prefix [of "11 + length P" h5 "?a @ cP" "be32 (of_nat (length V))"] h5 hl' L by auto
  obtain h7 where h7: "poke h6 (15 + length P) V = Some h7" "take (15 + length P + length V) h7 = ?b @ V"
    "length h7 = length hdr"
    using poke_prefix [of "15 + length P" h6 ?b V] h6 hl' L by auto
  obtain h8 where h8: "poke h7 (15 + length P) cV = Some h8" "take (15 + length P + length V) h8 = ?b @ cV"
    "length h8 = length hdr"
    using poke_again [of "15 + length P" V h7 ?b cV] h7 hl' L by auto
  define Q where "Q = ?b @ cV"
  have Q: "length Q = 15 + length P + length V" using L by (simp add: Q_def)
  obtain h9 where h9: "poke h8 (15 + length P + length V) (be32 (e_datalen ep)) = Some h9"
    "take (15 + length P + length V + length (be32 (e_datalen ep))) h9 = Q @ be32 (e_datalen ep)"
    by (rule poke_prefix [OF h8(2) [folded Q_def] Q, of "be32 (e_datalen ep)"]) (use h8 hl' in auto)
  have B: "peek data 0 ?n = Some B" using dl by (simp add: peek_def B_def)
  obtain d1 where d1: "poke data 0 C = Some d1" "take ?n d1 = C" "length d1 = length data"
    using poke_prefix [of 0 data "[]" C] dl L by auto
  obtain d2 where d2: "poke d1 ?n (be32 (e_csum ep)) = Some d2" "take (?n + 4) d2 = C @ be32 (e_csum ep)"
    using poke_prefix [of ?n d1 C "be32 (e_csum ep)"] d1 dl L by auto
  have crypt: "bcrypt_buf (\<lambda>_. True) s ?k xs ?ls = Some (0, bc_crypt (s, ?k, ?ls) xs)" for s xs
    using key by (rule bcrypt_buf_ok)
  have nums: "0 + 6 = (6 :: nat)" "6 + 1 = (7 :: nat)" "7 + 4 = (11 :: nat)" "11 + length P + 4 = 15 + length P" by simp_all
  have "encrypt_buf (\<lambda>_. True) ep hdr data = Some (0, h9, d2)"
    unfolding encrypt_buf_def ps using M
    by (simp only: Option.bind_lunit Let_def P_def [symmetric] V_def [symmetric] m_def [symmetric] L nums crypt
        h1 h2 h3 h4 cP_def [symmetric] h5 h6 h7 cV_def [symmetric] h8 h9 B C_def [symmetric] d1 d2 case_prod_conv
        simp_thms if_False not_True_eq_False)
  moreover have "enc_image ep B = (?b @ cV @ be32 (e_datalen ep), C @ be32 (e_csum ep))"
    unfolding enc_image_def Let_def P_def [symmetric] V_def [symmetric] cP_def [symmetric] cV_def [symmetric]
      C_def [symmetric] m_def by simp
  ultimately show thesis
    using that [of h9 d2] h9(2) [folded Q_def] d2(2) unfolding B_def [symmetric]
    by (metis Q Q_def append.assoc fst_conv snd_conv length_append)
qed


lemma take_drop_mid: "length a = p \<Longrightarrow> length b = n \<Longrightarrow> d = a @ b @ r \<Longrightarrow> take n (drop p d) = b"
  by simp

lemma decrypt_parts:
  assumes D: "D = m @ [seed] @ be32 (of_nat (length cP)) @ cP @ be32 (of_nat (length cV)) @ cV @ be32 dl @ C @ be32 cs"
    and m: "length m = 6" "check_magic D" and lens: "length cP \<le> 32" "length cV \<le> 8" "cP \<noteq> []" "cV \<noteq> []"
    and C: "length C = unat dl" and key: "length (e_key ep) \<le> BCRYPT_MAX_KEYLEN"
    and arr: "length (e_product ep) = 32" "length (e_version ep) = 8"
    and sum: "buffalo_csum dl (bc_crypt (cV ! 0, e_key ep, e_longstate ep) C) = cs"
  shows "\<exists>data. decrypt_buf (\<lambda>_. True) ep D = Some (0, ep\<lparr>e_magic := m, e_seed := seed,
      e_product := bc_crypt (seed, e_key ep, e_longstate ep) cP @ drop (length cP) (e_product ep),
      e_version := bc_crypt (cP ! 0, e_key ep, e_longstate ep) cV @ drop (length cV) (e_version ep),
      e_datalen := dl, e_csum := cs\<rparr>, data)
    \<and> take (unat dl) data = bc_crypt (cV ! 0, e_key ep, e_longstate ep) C"
proof -
  let ?p = "length cP" and ?v = "length cV" and ?n = "unat dl"
  have L: "length D = 23 + ?p + ?v + ?n" using m C by (simp add: D)
  let ?bp = "be32 (of_nat ?p)" and ?bv = "be32 (of_nat ?v)"
  have p1: "take 6 D = m" "D ! 6 = seed" "take 4 (drop 7 D) = ?bp" "take ?p (drop 11 D) = cP"
    using m by (simp_all add: D nth_append)
  have p5: "take 4 (drop (11 + ?p) D) = ?bv"
    by (rule take_drop_mid [where a = "m @ [seed] @ ?bp @ cP" and r = "cV @ be32 dl @ C @ be32 cs"]) (use m C in \<open>simp_all add: D\<close>)
  have p6: "take ?v (drop (15 + ?p) D) = cV"
    by (rule take_drop_mid [where a = "m @ [seed] @ ?bp @ cP @ ?bv" and r = "be32 dl @ C @ be32 cs"]) (use m C in \<open>simp_all add: D\<close>)
  have p7: "take 4 (drop (15 + ?p + ?v) D) = be32 dl"
    by (rule take_drop_mid [where a = "m @ [seed] @ ?bp @ cP @ ?bv @ cV" and r = "C @ be32 cs"]) (use m C in \<open>simp_all add: D\<close>)
  have p8: "take ?n (drop (19 + ?p + ?v) D) = C"
    by (rule take_drop_mid [where a = "m @ [seed] @ ?bp @ cP @ ?bv @ cV @ be32 dl" and r = "be32 cs"]) (use m C in \<open>simp_all add: D\<close>)
  have p9: "take 4 (drop (19 + ?p + ?v + ?n) D) = be32 cs"
    by (rule take_drop_mid [where a = "m @ [seed] @ ?bp @ cP @ ?bv @ cV @ be32 dl @ C" and r = "[]"]) (use m C in \<open>simp_all add: D\<close>)
  note parts = p1 p5 p6 p7 p8 p9
  have u: "unat (of_nat ?p :: u32) = ?p" "unat (of_nat ?v :: u32) = ?v"
    using lens by (simp_all add: unat_of_nat)
  define X where "X = bc_crypt (cV ! 0, e_key ep, e_longstate ep) C"
  have X: "length X = ?n" by (simp add: X_def bcrypt.length_crypt C)
  define data where "data = X @ drop ?n D"
  have pk: "poke D 0 X = Some data" using X L by (simp add: poke_def data_def)
  have dd: "take ?n data = X" "take 4 (drop (19 + ?p + ?v + ?n) data) = be32 cs"
    using X L p9 by (simp_all add: data_def)
  have crypt: "bcrypt_buf (\<lambda>_. True) s (e_key ep) xs ls = Some (0, bc_crypt (s, e_key ep, ls) xs)" for s xs ls
    using key by (rule bcrypt_buf_ok)
  have arr0: "(cV @ r) ! 0 = cV ! 0" "(cP @ r) ! 0 = cP ! 0" for r
    using lens by (simp_all add: nth_append)
  have dropd: "drop ?p (cP @ r) = r" "drop ?v (cV @ r) = r" for r by simp_all
  have nums: "6 + 1 = (7 :: nat)" "7 + 4 = (11 :: nat)" "11 + ?p + 4 = 15 + ?p" "15 + ?p + ?v + 4 = 19 + ?p + ?v"
    by simp_all
  have ifs: "\<not> (length D < 6 \<or> \<not> check_magic D)" "\<not> length D < 7" "\<not> length D < 11"
    "\<not> (?p > 32 \<or> length D < 11 + ?p)" "\<not> length D < 15 + ?p" "\<not> (?v > 8 \<or> length D < 15 + ?p + ?v)"
    "\<not> length D < 19 + ?p + ?v" "\<not> length D < 19 + ?p + ?v + ?n" "\<not> length D < 19 + ?p + ?v + ?n + 4"
    using m lens L by simp_all
  have "decrypt_buf (\<lambda>_. True) ep D = Some (0, ep\<lparr>e_magic := m, e_seed := seed,
      e_product := bc_crypt (seed, e_key ep, e_longstate ep) cP @ drop (length cP) (e_product ep),
      e_version := bc_crypt (cP ! 0, e_key ep, e_longstate ep) cV @ drop (length cV) (e_version ep),
      e_datalen := dl, e_csum := cs\<rparr>, data)"
    unfolding decrypt_buf_def ENC_MAGIC_LEN_def ENC_PRODUCT_LEN_def ENC_VERSION_LEN_def Let_def parts
    by (simp only: nums parts of_be32_be32 u ifs if_False enc_param.simps crypt arr0 X_def [symmetric]
        Option.bind_lunit case_prod_conv pk dd sum [folded X_def] dropd simp_thms refl)
      (simp add: X_def [symmetric] crypt parts pk ifs [simplified] arr0 dd sum [folded X_def])
  then show ?thesis using dd(1) X_def by blast
qed


section \<open>Properties\<close>

text \<open>C27. The table-driven checksum of \<open>buffalo_crc\<close> is the bit-serial CRC-32 with polynomial
  \<open>0x04C11DB7\<close> over the data followed by the bytes of its length.\<close>

theorem buffalo_crc_bitwise:
  "buffalo_crc buf =
     NOT (foldl (\<lambda>c b. crc_left_byte 0x04C11DB7 (c XOR push_bit 24 (ucast b))) 0 (buf @ len_bytes (length buf)))"
  by (simp only: buffalo_crc_def bcrc.run_bitwise foldl_append)

text \<open>Running the cipher twice with the same seed and key gives back the text, for every length and
  both kinds of state.\<close>

theorem bcrypt_involution:
  assumes "length key \<le> BCRYPT_MAX_KEYLEN"
  shows "\<exists>c. bcrypt_buf (\<lambda>_. True) seed key xs longstate = Some (0, c) \<and> length c = length xs
    \<and> bcrypt_buf (\<lambda>_. True) seed key c longstate = Some (0, xs)"
  by (simp add: bcrypt_buf_ok [OF assms] bcrypt.length_crypt bcrypt.crypt_crypt)

theorem bcrypt_involution_witness:
  "\<exists>c. bcrypt_buf (\<lambda>_. True) 7 [1, 2, 3] [4, 5, 6, 7] True = Some (0, c)
     \<and> bcrypt_buf (\<lambda>_. True) 7 [1, 2, 3] c True = Some (0, [4, 5, 6, 7])"
  using bcrypt_involution [of "[1, 2, 3]" 7 "[4, 5, 6, 7]" True] by (auto simp: BCRYPT_MAX_KEYLEN_def)

text \<open>C26. What \<open>encrypt_buf\<close> writes, \<open>decrypt_buf\<close> accepts with the same key: it gives back the data,
  the names, the magic and the seed.\<close>

theorem buffalo_roundtrip:
  assumes ok: "enc_ok ep"
    and room: "enc_compute_header_len (cstr (e_product ep)) (cstr (e_version ep)) \<le> length hdr"
      "unat (e_datalen ep) + 4 \<le> length data"
    and sum: "e_csum ep = buffalo_csum (e_datalen ep) (take (unat (e_datalen ep)) data)"
    and rx: "e_key rx = e_key ep" "e_longstate rx = e_longstate ep"
      "length (e_product rx) = ENC_PRODUCT_LEN" "length (e_version rx) = ENC_VERSION_LEN"
  shows "\<exists>hdr' data' rx' out. encrypt_buf (\<lambda>_. True) ep hdr data = Some (0, hdr', data')
    \<and> decrypt_buf (\<lambda>_. True) rx
        (take (enc_compute_header_len (cstr (e_product ep)) (cstr (e_version ep))) hdr'
         @ take (unat (e_datalen ep) + 4) data') = Some (0, rx', out)
    \<and> take (unat (e_datalen ep)) out = take (unat (e_datalen ep)) data
    \<and> cstr (e_product rx') = cstr (e_product ep) \<and> cstr (e_version rx') = cstr (e_version ep)
    \<and> e_magic rx' = e_magic ep \<and> e_seed rx' = e_seed ep"
proof -
  let ?n = "unat (e_datalen ep)" and ?k = "e_key ep" and ?ls = "e_longstate ep"
  define P V where "P = cstr (e_product ep) @ [0]" and "V = cstr (e_version ep) @ [0]"
  define cP where "cP = bc_crypt (e_seed ep, ?k, ?ls) P"
  define cV where "cV = bc_crypt (cP ! 0, ?k, ?ls) V"
  define B where "B = take ?n data"
  define C where "C = bc_crypt (cV ! 0, ?k, ?ls) B"
  let ?hl = "enc_compute_header_len (cstr (e_product ep)) (cstr (e_version ep))"
  let ?H = "e_magic ep @ [e_seed ep] @ be32 (of_nat (length P)) @ cP @ be32 (of_nat (length V)) @ cV
    @ be32 (e_datalen ep)"
  have img: "enc_image ep B = (?H, C @ be32 (e_csum ep))"
    unfolding enc_image_def Let_def P_def V_def cP_def cV_def C_def ..
  have len: "length cP = length P" "length cV = length V" "length C = ?n" "length B = ?n"
    using room by (simp_all add: cP_def cV_def C_def B_def bcrypt.length_crypt)
  have hl: "length ?H = ?hl"
    using enc_magic [OF ok] len by (simp add: enc_compute_header_len_def ENC_MAGIC_LEN_def P_def V_def)
  obtain hdr' data' where e: "encrypt_buf (\<lambda>_. True) ep hdr data = Some (0, hdr', data')"
    "take ?hl hdr' = ?H" "take (?n + 4) data' = C @ be32 (e_csum ep)"
    by (rule encrypt_buf_image [OF ok room]) (use img hl in \<open>simp add: B_def\<close>)
  have small: "length P \<le> 32" "length V \<le> 8"
    using ok cstr_at_some [of "e_product ep"] cstr_at_some [of "e_version ep"]
    by (auto simp: enc_ok_def ENC_PRODUCT_LEN_def ENC_VERSION_LEN_def P_def V_def)
  have ne: "cP \<noteq> []" "cV \<noteq> []" using len by (auto simp: P_def V_def)
  let ?D = "?H @ C @ be32 (e_csum ep)"
  have "check_magic ?D" using enc_magic [OF ok] by simp
  moreover have "?D = e_magic ep @ [e_seed ep] @ be32 (of_nat (length cP)) @ cP @ be32 (of_nat (length cV)) @ cV
      @ be32 (e_datalen ep) @ C @ be32 (e_csum ep)" by (simp add: len)
  moreover have "buffalo_csum (e_datalen ep) (bc_crypt (cV ! 0, e_key rx, e_longstate rx) C) = e_csum ep"
    using sum by (simp add: rx C_def bcrypt.crypt_crypt B_def)
  ultimately obtain out where out: "decrypt_buf (\<lambda>_. True) rx ?D = Some (0, rx\<lparr>e_magic := e_magic ep, e_seed := e_seed ep,
      e_product := bc_crypt (e_seed ep, e_key rx, e_longstate rx) cP @ drop (length cP) (e_product rx),
      e_version := bc_crypt (cP ! 0, e_key rx, e_longstate rx) cV @ drop (length cV) (e_version rx),
      e_datalen := e_datalen ep, e_csum := e_csum ep\<rparr>, out)"
      "take ?n out = bc_crypt (cV ! 0, e_key rx, e_longstate rx) C"
    using decrypt_parts [of ?D "e_magic ep" "e_seed ep" cP cV "e_datalen ep" C "e_csum ep" rx]
      enc_magic [OF ok] ok small ne len rx
    by (auto simp: enc_ok_def ENC_PRODUCT_LEN_def ENC_VERSION_LEN_def)
  have "take ?n out = B" using out(2) by (simp add: rx C_def bcrypt.crypt_crypt)
  moreover have "cstr (bc_crypt (e_seed ep, e_key rx, e_longstate rx) cP @ r) = cstr (e_product ep)"
    "cstr (bc_crypt (cP ! 0, e_key rx, e_longstate rx) cV @ r) = cstr (e_version ep)" for r
    by (simp_all add: rx cP_def [symmetric] cV_def [symmetric] bcrypt.crypt_crypt P_def V_def cP_def cV_def)
  ultimately show ?thesis
    using e out(1) by (simp add: B_def)
qed

definition ex_enc :: enc_param where
  "ex_enc = \<lparr>e_key = [1, 2, 3], e_magic = str ''start'' @ [0], e_product = [65, 66] @ 0 # replicate 29 0,
     e_version = [49, 46, 48] @ 0 # replicate 4 0, e_seed = 9, e_longstate = False, e_datalen = 3,
     e_csum = buffalo_csum 3 [10, 20, 30]\<rparr>"

theorem buffalo_roundtrip_witness:
  "\<exists>hdr' data'. encrypt_buf (\<lambda>_. True) ex_enc (replicate 64 0) ([10, 20, 30] @ replicate 4 0) = Some (0, hdr', data')"
proof -
  have c: "cstr (e_product ex_enc) = [65, 66]" "cstr (e_version ex_enc) = [49, 46, 48]"
    by (simp_all add: ex_enc_def cstr_def)
  have ok: "enc_ok ex_enc"
    by (simp add: enc_ok_def ex_enc_def BCRYPT_MAX_KEYLEN_def ENC_PRODUCT_LEN_def ENC_VERSION_LEN_def)
  show ?thesis
    using buffalo_roundtrip [OF ok, of "replicate 64 0" "[10, 20, 30] @ replicate 4 0" ex_enc]
    by (auto simp: c enc_compute_header_len_def ENC_MAGIC_LEN_def)
      (auto simp: ex_enc_def ENC_PRODUCT_LEN_def ENC_VERSION_LEN_def)
qed

end
