(* ===== verification/Otrx.thy ===== *)
theory Otrx
  imports Prelude Contracts Libc Crc
begin

text \<open>
  \<open>package/utils/otrx/src/otrx.c\<close>: checking, creating and extracting TRX firmware containers.

  A file is a byte list; input files come from a map \<open>fs\<close> of paths (\<^term>\<open>None\<close>: it cannot be
  opened). Reads and writes of opened files succeed; \<open>mem\<close> says which allocations do. The options
  are given as \<open>getopt\<close> delivers them. The byte order of the host is a parameter: the header holds
  little-endian fields, converted by \<open>le32_to_cpu\<close> only where the code does so. The router has
  32-bit \<open>long\<close> and \<open>size_t\<close>. Results are negative error numbers.
\<close>

section \<open>Header and CRC\<close>

definition TRX_MAGIC :: u32 where "TRX_MAGIC = 0x30524448"
definition TRX_FLAGS_OFFSET :: nat where "TRX_FLAGS_OFFSET = 12"
definition TRX_MAX_PARTS :: nat where "TRX_MAX_PARTS = 3"
definition HDR_SIZE :: nat where "HDR_SIZE = 28"

definition EIO :: int where "EIO = 5"
definition ENOMEM :: int where "ENOMEM = 12"
definition EACCES :: int where "EACCES = 13"
definition EINVAL :: int where "EINVAL = 22"
definition ENOSPC :: int where "ENOSPC = 28"

record trx_header =
  x_magic :: u32
  x_length :: u32
  x_crc32 :: u32
  x_flags :: u16
  x_version :: u16
  x_offset :: "u32 list"

definition le32 :: "endian \<Rightarrow> u32 \<Rightarrow> u32" where
  "le32 e x = dec32 LE (enc32 e x)"

definition hdr_bytes :: "endian \<Rightarrow> trx_header \<Rightarrow> bytes" where
  "hdr_bytes e h =
     enc32 e (x_magic h) @ enc32 e (x_length h) @ enc32 e (x_crc32 h) @ enc16 e (x_flags h)
     @ enc16 e (x_version h) @ concat (map (enc32 e) (x_offset h))"

definition hdr_of :: "endian \<Rightarrow> bytes \<Rightarrow> trx_header" where
  "hdr_of e b =
     \<lparr>x_magic = dec32 e (take 4 b), x_length = dec32 e (take 4 (drop 4 b)),
      x_crc32 = dec32 e (take 4 (drop 8 b)), x_flags = dec16 e (take 2 (drop 12 b)),
      x_version = dec16 e (take 2 (drop 14 b)),
      x_offset = [dec32 e (take 4 (drop 16 b)), dec32 e (take 4 (drop 20 b)), dec32 e (take 4 (drop 24 b))]\<rparr>"

definition crc32_tbl :: "u32 list" where
  "crc32_tbl =
    [0x00000000, 0x77073096, 0xee0e612c, 0x990951ba, 0x076dc419, 0x706af48f,
     0xe963a535, 0x9e6495a3, 0x0edb8832, 0x79dcb8a4, 0xe0d5e91e, 0x97d2d988,
     0x09b64c2b, 0x7eb17cbd, 0xe7b82d07, 0x90bf1d91, 0x1db71064, 0x6ab020f2,
     0xf3b97148, 0x84be41de, 0x1adad47d, 0x6ddde4eb, 0xf4d4b551, 0x83d385c7,
     0x136c9856, 0x646ba8c0, 0xfd62f97a, 0x8a65c9ec, 0x14015c4f, 0x63066cd9,
     0xfa0f3d63, 0x8d080df5, 0x3b6e20c8, 0x4c69105e, 0xd56041e4, 0xa2677172,
     0x3c03e4d1, 0x4b04d447, 0xd20d85fd, 0xa50ab56b, 0x35b5a8fa, 0x42b2986c,
     0xdbbbc9d6, 0xacbcf940, 0x32d86ce3, 0x45df5c75, 0xdcd60dcf, 0xabd13d59,
     0x26d930ac, 0x51de003a, 0xc8d75180, 0xbfd06116, 0x21b4f4b5, 0x56b3c423,
     0xcfba9599, 0xb8bda50f, 0x2802b89e, 0x5f058808, 0xc60cd9b2, 0xb10be924,
     0x2f6f7c87, 0x58684c11, 0xc1611dab, 0xb6662d3d, 0x76dc4190, 0x01db7106,
     0x98d220bc, 0xefd5102a, 0x71b18589, 0x06b6b51f, 0x9fbfe4a5, 0xe8b8d433,
     0x7807c9a2, 0x0f00f934, 0x9609a88e, 0xe10e9818, 0x7f6a0dbb, 0x086d3d2d,
     0x91646c97, 0xe6635c01, 0x6b6b51f4, 0x1c6c6162, 0x856530d8, 0xf262004e,
     0x6c0695ed, 0x1b01a57b, 0x8208f4c1, 0xf50fc457, 0x65b0d9c6, 0x12b7e950,
     0x8bbeb8ea, 0xfcb9887c, 0x62dd1ddf, 0x15da2d49, 0x8cd37cf3, 0xfbd44c65,
     0x4db26158, 0x3ab551ce, 0xa3bc0074, 0xd4bb30e2, 0x4adfa541, 0x3dd895d7,
     0xa4d1c46d, 0xd3d6f4fb, 0x4369e96a, 0x346ed9fc, 0xad678846, 0xda60b8d0,
     0x44042d73, 0x33031de5, 0xaa0a4c5f, 0xdd0d7cc9, 0x5005713c, 0x270241aa,
     0xbe0b1010, 0xc90c2086, 0x5768b525, 0x206f85b3, 0xb966d409, 0xce61e49f,
     0x5edef90e, 0x29d9c998, 0xb0d09822, 0xc7d7a8b4, 0x59b33d17, 0x2eb40d81,
     0xb7bd5c3b, 0xc0ba6cad, 0xedb88320, 0x9abfb3b6, 0x03b6e20c, 0x74b1d29a,
     0xead54739, 0x9dd277af, 0x04db2615, 0x73dc1683, 0xe3630b12, 0x94643b84,
     0x0d6d6a3e, 0x7a6a5aa8, 0xe40ecf0b, 0x9309ff9d, 0x0a00ae27, 0x7d079eb1,
     0xf00f9344, 0x8708a3d2, 0x1e01f268, 0x6906c2fe, 0xf762575d, 0x806567cb,
     0x196c3671, 0x6e6b06e7, 0xfed41b76, 0x89d32be0, 0x10da7a5a, 0x67dd4acc,
     0xf9b9df6f, 0x8ebeeff9, 0x17b7be43, 0x60b08ed5, 0xd6d6a3e8, 0xa1d1937e,
     0x38d8c2c4, 0x4fdff252, 0xd1bb67f1, 0xa6bc5767, 0x3fb506dd, 0x48b2364b,
     0xd80d2bda, 0xaf0a1b4c, 0x36034af6, 0x41047a60, 0xdf60efc3, 0xa867df55,
     0x316e8eef, 0x4669be79, 0xcb61b38c, 0xbc66831a, 0x256fd2a0, 0x5268e236,
     0xcc0c7795, 0xbb0b4703, 0x220216b9, 0x5505262f, 0xc5ba3bbe, 0xb2bd0b28,
     0x2bb45a92, 0x5cb36a04, 0xc2d7ffa7, 0xb5d0cf31, 0x2cd99e8b, 0x5bdeae1d,
     0x9b64c2b0, 0xec63f226, 0x756aa39c, 0x026d930a, 0x9c0906a9, 0xeb0e363f,
     0x72076785, 0x05005713, 0x95bf4a82, 0xe2b87a14, 0x7bb12bae, 0x0cb61b38,
     0x92d28e9b, 0xe5d5be0d, 0x7cdcefb7, 0x0bdbdf21, 0x86d3d2d4, 0xf1d4e242,
     0x68ddb3f8, 0x1fda836e, 0x81be16cd, 0xf6b9265b, 0x6fb077e1, 0x18b74777,
     0x88085ae6, 0xff0f6a70, 0x66063bca, 0x11010b5c, 0x8f659eff, 0xf862ae69,
     0x616bffd3, 0x166ccf45, 0xa00ae278, 0xd70dd2ee, 0x4e048354, 0x3903b3c2,
     0xa7672661, 0xd06016f7, 0x4969474d, 0x3e6e77db, 0xaed16a4a, 0xd9d65adc,
     0x40df0b66, 0x37d83bf0, 0xa9bcae53, 0xdebb9ec5, 0x47b2cf7f, 0x30b5ffe9,
     0xbdbdf21c, 0xcabac28a, 0x53b39330, 0x24b4a3a6, 0xbad03605, 0xcdd70693,
     0x54de5729, 0x23d967bf, 0xb3667a2e, 0xc4614ab8, 0x5d681b02, 0x2a6f2b94,
     0xb40bbe37, 0xc30c8ea1, 0x5a05df1b, 0x2d02ef8d]"

lemma crc32_tbl_ok: "crc32_tbl ! unat (x :: u8) = crc_right_byte 0xEDB88320 (ucast x)"
proof (rule span_table)
  show "crc_right_byte 0xEDB88320 (ucast (x XOR y :: u8)) =
      crc_right_byte 0xEDB88320 (ucast x) XOR crc_right_byte 0xEDB88320 (ucast y)" for x y
    by (rule crc_right_lin)
  have "crc32_tbl = span [0x77073096, 0xee0e612c, 0x076dc419, 0x0edb8832, 0x1db71064, 0x3b6e20c8,
      0x76dc4190, 0xedb88320]"
    by (simp add: crc32_tbl_def span_def)
  with crc_right_basis show "crc32_tbl =
      span [crc_right_byte 0xEDB88320 (ucast (1 :: u8)), crc_right_byte 0xEDB88320 (ucast (2 :: u8)),
            crc_right_byte 0xEDB88320 (ucast (4 :: u8)), crc_right_byte 0xEDB88320 (ucast (8 :: u8)),
            crc_right_byte 0xEDB88320 (ucast (16 :: u8)), crc_right_byte 0xEDB88320 (ucast (32 :: u8)),
            crc_right_byte 0xEDB88320 (ucast (64 :: u8)), crc_right_byte 0xEDB88320 (ucast (128 :: u8))]"
    by (simp only: list.map list.inject)
qed

definition crc_step :: "u32 \<Rightarrow> u8 \<Rightarrow> u32" where
  "crc_step crc b = crc32_tbl ! unat ((crc XOR ucast b) AND 0xFF) XOR drop_bit 8 crc"

fun crc_run :: "u32 \<Rightarrow> bytes \<Rightarrow> u32" where
  "crc_run crc [] = crc"
| "crc_run crc (b # bs) = crc_run (crc_step crc b) bs"

definition otrx_crc32 :: "bytes \<Rightarrow> u32" where
  "otrx_crc32 buf = crc_run 0xFFFFFFFF buf"

section \<open>Check\<close>

text \<open>The read loop: \<open>rest\<close> is the file from the read position on. It ends when a read gives
  nothing, and leaves the CRC and the length that was not read.\<close>

function check_loop :: "u32 \<Rightarrow> nat \<Rightarrow> bytes \<Rightarrow> u32 \<times> nat" where
  "check_loop crc len rest =
     (let buf = take (min 1024 len) rest
      in if buf = [] then (crc, len)
         else check_loop (crc_run crc buf) (len - length buf) (drop (length buf) rest))"
  by pat_completeness auto
termination
  by (relation "measure (\<lambda>(crc, len, rest). length rest)") auto

declare check_loop.simps [simp del]

definition otrx_check :: "endian \<Rightarrow> nat \<Rightarrow> bytes option \<Rightarrow> int" where
  "otrx_check e trx_offset trx =
     (case trx of None \<Rightarrow> - EACCES
      | Some f \<Rightarrow>
          let b = take HDR_SIZE (drop trx_offset f); hdr = hdr_of e b
          in if length b \<noteq> HDR_SIZE then - EIO
             else if le32 e (x_magic hdr) \<noteq> TRX_MAGIC then - EINVAL
             else
               let len = unat (le32 e (x_length hdr))
               in if len < HDR_SIZE then - EINVAL
                  else
                    (let (crc, left) =
                       check_loop 0xFFFFFFFF (len - TRX_FLAGS_OFFSET) (drop (trx_offset + TRX_FLAGS_OFFSET) f)
                     in if left \<noteq> 0 then - EIO
                        else if crc \<noteq> le32 e (x_crc32 hdr) then - EINVAL
                        else 0))"

section \<open>Create\<close>

text \<open>The output file and its write position; a write behind the end fills the gap with zeros.\<close>

record ofile =
  o_data :: bytes
  o_pos :: nat

definition fwrite :: "bytes \<Rightarrow> ofile \<Rightarrow> ofile" where
  "fwrite xs f =
     (if xs = [] then f
      else \<lparr>o_data = take (o_pos f) (o_data f) @ replicate (o_pos f - length (o_data f)) 0
                     @ xs @ drop (o_pos f + length xs) (o_data f),
            o_pos = o_pos f + length xs\<rparr>)"

definition fseek :: "nat \<Rightarrow> ofile \<Rightarrow> ofile" where
  "fseek p f = f\<lparr>o_pos := p\<rparr>"

definition append_file :: "(bytes \<Rightarrow> bytes option) \<Rightarrow> bytes \<Rightarrow> ofile \<Rightarrow> int \<times> ofile" where
  "append_file fs path trx =
     (case fs path of None \<Rightarrow> (- EACCES, trx) | Some c \<Rightarrow> (int (length c), fwrite c trx))"

definition append_zeros :: "(nat \<Rightarrow> bool) \<Rightarrow> nat \<Rightarrow> ofile \<Rightarrow> int \<times> ofile" where
  "append_zeros mem len trx =
     (if \<not> mem len then (- ENOMEM, trx) else (int len, fwrite (replicate len 0) trx))"

definition create_align :: "(nat \<Rightarrow> bool) \<Rightarrow> nat \<Rightarrow> nat \<Rightarrow> ofile \<Rightarrow> int \<times> ofile" where
  "create_align mem curr_offset alignment trx =
     (if curr_offset mod alignment \<noteq> 0 then append_zeros mem (alignment - curr_offset mod alignment) trx
      else (0, trx))"

text \<open>\<open>otrx_create_write_hdr\<close>: the header is written, the file read back, and the header written
  again with the CRC.\<close>

definition write_hdr :: "(nat \<Rightarrow> bool) \<Rightarrow> endian \<Rightarrow> trx_header \<Rightarrow> ofile \<Rightarrow> (int \<times> ofile) option" where
  "write_hdr mem e hdr trx =
     (let hdr = hdr\<lparr>x_magic := le32 e TRX_MAGIC, x_version := 1\<rparr>;
          trx = fwrite (hdr_bytes e hdr) (fseek 0 trx);
          len = unat (le32 e (x_length hdr))
      in if \<not> mem len then Some (- ENOMEM, trx)
         else
           (let buf = take len (o_data trx)
            in if length buf \<noteq> len then Some (- ENOMEM, trx)
               else if len < TRX_FLAGS_OFFSET then None
               else
                 (let hdr = hdr\<lparr>x_crc32 := le32 e (otrx_crc32 (drop TRX_FLAGS_OFFSET buf))\<rparr>
                  in Some (0, fwrite (hdr_bytes e hdr) (fseek 0 trx)))))"

text \<open>An option \<open>-f path\<close> or \<open>-b offset\<close>. The state of the loop is the header, the number of
  partitions, the current offset and the file; the error is \<open>-ENOSPC\<close> for a fourth partition.\<close>

datatype create_opt = OptF bytes | OptB bytes

record create_state =
  s_hdr :: trx_header
  s_idx :: nat
  s_off :: nat
  s_trx :: ofile

definition ssize :: "int \<Rightarrow> int" where
  "ssize x = (x + 2 ^ 31) mod 2 ^ 32 - 2 ^ 31"

definition create_step ::
    "(nat \<Rightarrow> bool) \<Rightarrow> (bytes \<Rightarrow> bytes option) \<Rightarrow> create_opt \<Rightarrow> create_state \<Rightarrow> create_state option" where
  "create_step mem fs c s =
     (case c of
        OptF path \<Rightarrow>
          if s_idx s \<ge> TRX_MAX_PARTS then None
          else
            (let (sbytes, trx) = append_file fs path (s_trx s);
                 s = (if sbytes < 0 then s\<lparr>s_trx := trx\<rparr>
                      else s\<lparr>s_hdr := (s_hdr s)\<lparr>x_offset := (x_offset (s_hdr s))[s_idx s := of_nat (s_off s)]\<rparr>,
                             s_idx := s_idx s + 1, s_off := s_off s + nat sbytes, s_trx := trx\<rparr>);
                 (sbytes, trx) = create_align mem (s_off s) 4 (s_trx s)
             in Some (if sbytes < 0 then s\<lparr>s_trx := trx\<rparr>
                      else s\<lparr>s_off := s_off s + nat sbytes, s_trx := trx\<rparr>))
      | OptB arg \<Rightarrow>
          (let sbytes = ssize (strtol 32 0 arg - int (s_off s))
           in if sbytes < 0 then Some s
              else
                (let (sbytes, trx) = append_zeros mem (nat sbytes) (s_trx s)
                 in Some (if sbytes < 0 then s\<lparr>s_trx := trx\<rparr>
                          else s\<lparr>s_off := s_off s + nat sbytes, s_trx := trx\<rparr>))))"

fun create_loop ::
    "(nat \<Rightarrow> bool) \<Rightarrow> (bytes \<Rightarrow> bytes option) \<Rightarrow> create_opt list \<Rightarrow> create_state \<Rightarrow> create_state + ofile" where
  "create_loop mem fs [] s = Inl s"
| "create_loop mem fs (c # cs) s =
     (case create_step mem fs c s of None \<Rightarrow> Inr (s_trx s) | Some s \<Rightarrow> create_loop mem fs cs s)"

definition create_init :: create_state where
  "create_init =
     \<lparr>s_hdr = \<lparr>x_magic = 0, x_length = 0, x_crc32 = 0, x_flags = 0, x_version = 0, x_offset = [0, 0, 0]\<rparr>,
      s_idx = 0, s_off = HDR_SIZE, s_trx = \<lparr>o_data = [], o_pos = HDR_SIZE\<rparr>\<rparr>"

text \<open>The return value and the created file. The result of writing the header is dropped.\<close>

definition otrx_create ::
    "(nat \<Rightarrow> bool) \<Rightarrow> endian \<Rightarrow> (bytes \<Rightarrow> bytes option) \<Rightarrow> create_opt list \<Rightarrow> (int \<times> bytes) option" where
  "otrx_create mem e fs cs =
     (case create_loop mem fs cs create_init of
        Inr trx \<Rightarrow> Some (- ENOSPC, o_data trx)
      | Inl s \<Rightarrow> map_option (\<lambda>(_, trx). (0, o_data trx))
                   (write_hdr mem e ((s_hdr s)\<lparr>x_length := of_nat (s_off s)\<rparr>) (s_trx s)))"

section \<open>Extract\<close>

text \<open>\<open>otrx_extract_copy\<close>: the return value and the content of the output file.\<close>

definition extract_copy :: "(nat \<Rightarrow> bool) \<Rightarrow> bytes \<Rightarrow> nat \<Rightarrow> nat \<Rightarrow> int \<times> bytes" where
  "extract_copy mem trx offset len =
     (if \<not> mem len then (- ENOMEM, [])
      else let buf = take len (drop offset trx)
           in if length buf \<noteq> len then (- ENOMEM, []) else (0, buf))"

text \<open>The output files in the order they are written. The lengths are 32-bit differences.\<close>

definition extract_part ::
    "(nat \<Rightarrow> bool) \<Rightarrow> endian \<Rightarrow> nat \<Rightarrow> bytes \<Rightarrow> trx_header \<Rightarrow> nat \<Rightarrow> bytes option \<Rightarrow> (bytes \<times> bytes) list" where
  "extract_part mem e trx_offset trx hdr i part =
     (case part of None \<Rightarrow> []
      | Some path \<Rightarrow>
          if x_offset hdr ! i = 0 then []
          else
            (let len = (if i + 1 \<ge> TRX_MAX_PARTS \<or> x_offset hdr ! (i + 1) = 0
                        then le32 e (x_length hdr) - le32 e (x_offset hdr ! i)
                        else le32 e (x_offset hdr ! (i + 1)) - le32 e (x_offset hdr ! i))
             in [(path, snd (extract_copy mem trx (trx_offset + unat (le32 e (x_offset hdr ! i))) (unat len)))]))"

definition otrx_extract ::
    "(nat \<Rightarrow> bool) \<Rightarrow> endian \<Rightarrow> nat \<Rightarrow> bytes option list \<Rightarrow> bytes option \<Rightarrow> int \<times> (bytes \<times> bytes) list" where
  "otrx_extract mem e trx_offset parts trx =
     (case trx of None \<Rightarrow> (- EACCES, [])
      | Some f \<Rightarrow>
          let b = take HDR_SIZE (drop trx_offset f); hdr = hdr_of e b
          in if length b \<noteq> HDR_SIZE then (- EIO, [])
             else if le32 e (x_magic hdr) \<noteq> TRX_MAGIC then (- EINVAL, [])
             else (0, concat (map (\<lambda>i. extract_part mem e trx_offset f hdr i (parts ! i)) [0..<TRX_MAX_PARTS])))"

end
