(* ===== verification/Otrx_Laws.thy ===== *)
theory Otrx_Laws
  imports Otrx
begin

text \<open>
  Laws of the TRX tool: the CRC, the check loop as one pass, and the way from creation to check and
  extraction; on a big-endian host the created file does not pass the check.
\<close>

section \<open>The CRC\<close>

lemma trx_crc_step_bitwise: "crc_step c b = crc_right_byte 0xEDB88320 (c XOR ucast b)"
proof -
  have cast: "(ucast (c XOR ucast b) :: u8) = ucast c XOR b"
    by (rule bit_word_eqI) (auto simp: bit_simps)
  show ?thesis
    by (simp only: crc_step_def unat_and_ff cast crc32_tbl_ok crc_right_byte_split)
qed

interpretation trxcrc: tabled_sum crc_step crc_run "\<lambda>c b. crc_right_byte 0xEDB88320 (c XOR ucast b)"
  by unfold_locales (simp_all add: trx_crc_step_bitwise)

lemma check_loop_run: "check_loop crc len rest = (crc_run crc (take len rest), len - length rest)"
proof (induction crc len rest rule: check_loop.induct)
  case (1 crc len rest)
  let ?n = "min 1024 len"
  show ?case
  proof (cases "take ?n rest = []")
    case True
    then have "len = 0 \<or> rest = []" by (auto simp: min_def split: if_splits)
    then show ?thesis by (elim disjE) (subst check_loop.simps, simp)+
  next
    case False
    let ?b = "take ?n rest"
    have "check_loop crc len rest = check_loop (crc_run crc ?b) (len - length ?b) (drop (length ?b) rest)"
      by (subst check_loop.simps) (simp only: Let_def False if_False)
    also have "\<dots> = (crc_run (crc_run crc ?b) (take (len - length ?b) (drop (length ?b) rest)),
        len - length ?b - length (drop (length ?b) rest))"
      using "1.IH" [OF refl False] .
    also have "take len rest = ?b @ take (len - length ?b) (drop (length ?b) rest)"
    proof (cases "length rest \<le> ?n")
      case False
      then have lb: "length ?b = ?n" unfolding length_take by (intro min_absorb2) linarith
      have "take len rest = take (?n + (len - ?n)) rest" by simp
      then show ?thesis unfolding lb take_add .
    qed simp
    then have "crc_run (crc_run crc ?b) (take (len - length ?b) (drop (length ?b) rest)) = crc_run crc (take len rest)"
      by (simp only: trxcrc.run_append)
    finally show ?thesis by auto
  qed
qed

section \<open>Headers\<close>

lemma le32_LE [simp]: "le32 LE x = x"
  by (simp add: le32_def)

lemma list3: "length xs = 3 \<Longrightarrow> \<exists>a b c. xs = [a, b, c]"
  by (auto simp: length_Suc_conv numeral_3_eq_3)

lemma length_hdr_bytes [simp]: "length (x_offset h) = 3 \<Longrightarrow> length (hdr_bytes e h) = 28"
  using list3 [of "x_offset h"] by (auto simp: hdr_bytes_def)

lemma hdr_of_bytes [simp]: "length (x_offset h) = 3 \<Longrightarrow> hdr_of e (hdr_bytes e h) = h"
  using list3 [of "x_offset h"] by (auto simp: hdr_bytes_def hdr_of_def)

lemma drop_hdr_crc: "drop 12 (hdr_bytes e (h\<lparr>x_crc32 := c\<rparr>)) = drop 12 (hdr_bytes e h)"
  by (simp add: hdr_bytes_def)

section \<open>The created file\<close>

definition pad4 :: "bytes \<Rightarrow> bytes" where
  "pad4 c = c @ replicate ((4 - length c mod 4) mod 4) 0"

lemma pad4_arith: "4 dvd n + (4 - n mod 4) mod 4" for n :: nat
proof -
  define q r where "q = n div 4" and "r = n mod 4"
  have n: "n = 4 * q + r" and "r < 4" by (simp_all add: q_def r_def)
  then have "r = 0 \<or> r = 1 \<or> r = 2 \<or> r = 3" by linarith
  then have "4 dvd r + (4 - r) mod 4" by (elim disjE) simp_all
  then have "4 dvd 4 * q + (r + (4 - r) mod 4)" by (rule dvd_add [OF dvd_triv_left])
  then show ?thesis using n r_def by (metis add.assoc)
qed

lemma pad4_dvd: "4 dvd length (pad4 c)"
  unfolding pad4_def length_append length_replicate by (rule pad4_arith)

text \<open>The file as the code has it while partitions are appended: nothing is written before the first
  byte of data, then the header is a hole of zeros.\<close>

definition body_is :: "ofile \<Rightarrow> bytes \<Rightarrow> bool" where
  "body_is f body \<longleftrightarrow> o_pos f = 28 + length body \<and>
     (o_data f = [] \<and> body = [] \<or> o_data f = replicate 28 0 @ body)"

lemma body_is_fwrite: "body_is f body \<Longrightarrow> body_is (fwrite xs f) (body @ xs)"
  by (auto simp: body_is_def fwrite_def)

lemma body_is_init: "body_is (s_trx create_init) []"
  by (simp add: body_is_def create_init_def HDR_SIZE_def)

lemma create_step_file:
  assumes "fs path = Some c" and "s_idx s < 3" and "body_is (s_trx s) body" and "s_off s = 28 + length body"
    and "4 dvd length body"
  shows "\<exists>s'. create_step (\<lambda>_. True) fs (OptF path) s = Some s' \<and> s_idx s' = s_idx s + 1
    \<and> body_is (s_trx s') (body @ pad4 c) \<and> s_off s' = 28 + length (body @ pad4 c)
    \<and> s_hdr s' = (s_hdr s)\<lparr>x_offset := (x_offset (s_hdr s))[s_idx s := of_nat (s_off s)]\<rparr>"
proof -
  let ?s = "s\<lparr>s_hdr := (s_hdr s)\<lparr>x_offset := (x_offset (s_hdr s))[s_idx s := of_nat (s_off s)]\<rparr>,
    s_idx := s_idx s + 1, s_off := s_off s + length c, s_trx := fwrite c (s_trx s)\<rparr>"
  have f: "append_file fs path (s_trx s) = (int (length c), fwrite c (s_trx s))"
    using assms(1) by (simp add: append_file_def)
  have m: "(s_off s + length c) mod 4 = length c mod 4"
  proof -
    have "4 dvd s_off s" unfolding assms(4) using assms(5) by simp
    then show ?thesis by (auto elim!: dvdE)
  qed
  let ?k = "(4 - length c mod 4) mod 4"
  have al: "create_align (\<lambda>_. True) (s_off s + length c) 4 (fwrite c (s_trx s)) =
      (int ?k, fwrite (replicate ?k 0) (fwrite c (s_trx s)))"
    unfolding create_align_def m append_zeros_def by (auto simp: fwrite_def)
  have "create_step (\<lambda>_. True) fs (OptF path) s =
      Some (?s\<lparr>s_off := s_off s + length c + ?k, s_trx := fwrite (replicate ?k 0) (fwrite c (s_trx s))\<rparr>)"
    using assms(2) f al by (simp add: create_step_def TRX_MAX_PARTS_def Let_def)
  moreover have "body_is (fwrite (replicate ?k 0) (fwrite c (s_trx s))) (body @ pad4 c)"
    unfolding pad4_def append_assoc [symmetric] by (intro body_is_fwrite assms(3))
  ultimately show ?thesis using assms(4) by (simp add: pad4_def)
qed

fun offsets :: "nat \<Rightarrow> bytes list \<Rightarrow> u32 list" where
  "offsets off [] = []"
| "offsets off (c # cs) = of_nat off # offsets (off + length (pad4 c)) cs"

lemma length_offsets [simp]: "length (offsets off cs) = length cs"
  by (induction cs arbitrary: off) simp_all

lemma create_loop_files:
  "map fs ps = map Some cs \<Longrightarrow> s_idx s + length cs \<le> 3 \<Longrightarrow> body_is (s_trx s) body \<Longrightarrow>
   s_off s = 28 + length body \<Longrightarrow> 4 dvd length body \<Longrightarrow> length (x_offset (s_hdr s)) = 3 \<Longrightarrow>
   \<exists>s'. create_loop (\<lambda>_. True) fs (map OptF ps) s = Inl s'
     \<and> body_is (s_trx s') (body @ concat (map pad4 cs)) \<and> s_off s' = 28 + length (body @ concat (map pad4 cs))
     \<and> s_hdr s' = (s_hdr s)\<lparr>x_offset := take (s_idx s) (x_offset (s_hdr s)) @ offsets (28 + length body) cs
         @ drop (s_idx s + length cs) (x_offset (s_hdr s))\<rparr>"
proof (induction cs arbitrary: ps s body)
  case Nil
  then show ?case by simp
next
  case (Cons c cs)
  then obtain q qs where ps: "ps = q # qs" "fs q = Some c" "map fs qs = map Some cs" by auto
  obtain s1 where s1: "create_step (\<lambda>_. True) fs (OptF q) s = Some s1" "s_idx s1 = s_idx s + 1"
    "body_is (s_trx s1) (body @ pad4 c)" "s_off s1 = 28 + length (body @ pad4 c)"
    "s_hdr s1 = (s_hdr s)\<lparr>x_offset := (x_offset (s_hdr s))[s_idx s := of_nat (s_off s)]\<rparr>"
    using create_step_file [of fs q c s body, OF ps(2) _ Cons.prems(3,4,5)] Cons.prems(2) by auto
  have "4 dvd length (body @ pad4 c)" using Cons.prems(5) pad4_dvd by simp
  then obtain s' where s': "create_loop (\<lambda>_. True) fs (map OptF qs) s1 = Inl s'"
    "body_is (s_trx s') ((body @ pad4 c) @ concat (map pad4 cs))"
    "s_off s' = 28 + length ((body @ pad4 c) @ concat (map pad4 cs))"
    "s_hdr s' = (s_hdr s1)\<lparr>x_offset := take (s_idx s1) (x_offset (s_hdr s1)) @ offsets (28 + length (body @ pad4 c)) cs
         @ drop (s_idx s1 + length cs) (x_offset (s_hdr s1))\<rparr>"
    using Cons.IH [of qs s1 "body @ pad4 c", OF ps(3) _ s1(3,4)] Cons.prems s1 by auto
  have "take (s_idx s1) (x_offset (s_hdr s1)) = take (s_idx s) (x_offset (s_hdr s)) @ [of_nat (28 + length body)]"
    using Cons.prems s1 by (simp add: take_Suc_conv_app_nth)
  then show ?case using s' s1 ps(1) by (simp add: add.assoc)
qed

lemma create_loop_init:
  assumes "map fs ps = map Some cs" and "length cs \<le> 3"
  obtains s where "create_loop (\<lambda>_. True) fs (map OptF ps) create_init = Inl s"
    "body_is (s_trx s) (concat (map pad4 cs))" "s_off s = 28 + length (concat (map pad4 cs))"
    "s_hdr s = (s_hdr create_init)\<lparr>x_offset := offsets 28 cs @ replicate (3 - length cs) 0\<rparr>"
  using create_loop_files [OF assms(1), of create_init "[]"] body_is_init assms(2)
  by (auto simp: create_init_def HDR_SIZE_def numeral_3_eq_3 drop_replicate)
    (metis (no_types, lifting) One_nat_def drop_replicate numeral_3_eq_3 replicate_0 replicate_Suc)

lemma write_hdr_file:
  fixes h :: trx_header
  assumes "body_is f body" and "length (x_offset h) = 3" and "28 + length body < 2 ^ 32"
    and "x_length h = of_nat (28 + length body)"
  defines "h1 \<equiv> h\<lparr>x_magic := TRX_MAGIC, x_version := 1\<rparr>"
  shows "\<exists>f'. write_hdr (\<lambda>_. True) LE h f = Some (0, f') \<and>
    o_data f' = hdr_bytes LE (h1\<lparr>x_crc32 := otrx_crc32 (drop 12 (hdr_bytes LE h1) @ body)\<rparr>) @ body"
proof -
  have n: "unat (x_length h) = 28 + length body" unfolding assms(4) by (rule unat_of_nat_u32 [OF assms(3)])
  have l3: "length (x_offset h1) = 3" using assms(2) by (simp add: h1_def)
  then have lh: "length (hdr_bytes LE h1) = 28" by simp
  then have ne: "hdr_bytes LE h1 \<noteq> []" by auto
  have w1: "o_data (fwrite (hdr_bytes LE h1) (fseek 0 f)) = hdr_bytes LE h1 @ body"
    using assms(1) lh ne by (auto simp: fwrite_def fseek_def body_is_def)
  let ?h2 = "h1\<lparr>x_crc32 := otrx_crc32 (drop 12 (hdr_bytes LE h1) @ body)\<rparr>"
  have lh2: "length (hdr_bytes LE ?h2) = 28" using l3 by simp
  then have ne2: "hdr_bytes LE ?h2 \<noteq> []" by auto
  define f1 where "f1 = fwrite (hdr_bytes LE h1) (fseek 0 f)"
  have w1': "o_data f1 = hdr_bytes LE h1 @ body" unfolding f1_def by (rule w1)
  have "o_data (fwrite (hdr_bytes LE ?h2) (fseek 0 f1)) = hdr_bytes LE ?h2 @ body"
    using w1' lh lh2 ne2 by (simp add: fwrite_def [of "hdr_bytes LE ?h2"] fseek_def)
  moreover have "write_hdr (\<lambda>_. True) LE h f = Some (0, fwrite (hdr_bytes LE ?h2) (fseek 0 f1))"
    unfolding write_hdr_def h1_def [symmetric] le32_LE Let_def f1_def [symmetric] w1'
    using n lh by (simp add: h1_def [symmetric] TRX_FLAGS_OFFSET_def) (simp add: h1_def)
  ultimately show ?thesis by blast
qed

section \<open>Creating, checking and extracting\<close>

text \<open>The header and the file that \<open>otrx create\<close> makes from the contents \<open>cs\<close>.\<close>

definition made_hdr :: "bytes list \<Rightarrow> trx_header" where
  "made_hdr cs =
     (let body = concat (map pad4 cs);
          h = \<lparr>x_magic = TRX_MAGIC, x_length = of_nat (28 + length body), x_crc32 = 0, x_flags = 0,
               x_version = 1, x_offset = offsets 28 cs @ replicate (3 - length cs) 0\<rparr>
      in h\<lparr>x_crc32 := otrx_crc32 (drop 12 (hdr_bytes LE h) @ body)\<rparr>)"

definition made_trx :: "bytes list \<Rightarrow> bytes" where
  "made_trx cs = hdr_bytes LE (made_hdr cs) @ concat (map pad4 cs)"

lemma otrx_create_made:
  assumes "map fs ps = map Some cs" and "length cs \<le> 3" and "28 + length (concat (map pad4 cs)) < 2 ^ 32"
  shows "otrx_create (\<lambda>_. True) LE fs (map OptF ps) = Some (0, made_trx cs)"
proof -
  let ?body = "concat (map pad4 cs)"
  obtain s where s: "create_loop (\<lambda>_. True) fs (map OptF ps) create_init = Inl s"
    "body_is (s_trx s) ?body" "s_off s = 28 + length ?body"
    "s_hdr s = (s_hdr create_init)\<lparr>x_offset := offsets 28 cs @ replicate (3 - length cs) 0\<rparr>"
    by (rule create_loop_init [OF assms(1,2)])
  let ?h = "(s_hdr s)\<lparr>x_length := of_nat (s_off s)\<rparr>"
  have "length (x_offset ?h) = 3" using s(4) assms(2) by simp
  then obtain f' where f': "write_hdr (\<lambda>_. True) LE ?h (s_trx s) = Some (0, f')"
    "o_data f' = hdr_bytes LE ((?h\<lparr>x_magic := TRX_MAGIC, x_version := 1\<rparr>)\<lparr>x_crc32 :=
        otrx_crc32 (drop 12 (hdr_bytes LE (?h\<lparr>x_magic := TRX_MAGIC, x_version := 1\<rparr>)) @ ?body)\<rparr>) @ ?body"
    using write_hdr_file [OF s(2), of ?h] assms(3) s(3) by auto
  have "o_data f' = made_trx cs"
    unfolding f'(2) made_trx_def made_hdr_def Let_def s(3,4) by (simp add: create_init_def)
  then show ?thesis using s(1) f'(1) by (simp add: otrx_create_def)
qed

lemma made_hdr_simps:
  "x_magic (made_hdr cs) = TRX_MAGIC" "x_length (made_hdr cs) = of_nat (28 + length (concat (map pad4 cs)))"
  "x_offset (made_hdr cs) = offsets 28 cs @ replicate (3 - length cs) 0"
  by (simp_all add: made_hdr_def Let_def)

lemma made_hdr_len: "length cs \<le> 3 \<Longrightarrow> length (x_offset (made_hdr cs)) = 3"
  by (simp add: made_hdr_simps)

lemma made_hdr_crc:
  "x_crc32 (made_hdr cs) = otrx_crc32 (drop 12 (hdr_bytes LE (made_hdr cs)) @ concat (map pad4 cs))"
  unfolding made_hdr_def Let_def drop_hdr_crc by simp

lemma otrx_check_made:
  assumes "length cs \<le> 3" and "28 + length (concat (map pad4 cs)) < 2 ^ 32"
  shows "otrx_check LE 0 (Some (made_trx cs)) = 0"
proof -
  let ?b = "concat (map pad4 cs)"
  note l3 = made_hdr_len [OF assms(1)]
  have lh: "length (hdr_bytes LE (made_hdr cs)) = 28" using l3 by simp
  have b: "take HDR_SIZE (drop 0 (made_trx cs)) = hdr_bytes LE (made_hdr cs)"
    using lh by (simp add: made_trx_def HDR_SIZE_def)
  have n: "unat (x_length (made_hdr cs)) = 28 + length ?b"
    unfolding made_hdr_simps by (rule unat_of_nat_u32 [OF assms(2)])
  have rest: "drop (0 + 12) (made_trx cs) = drop 12 (hdr_bytes LE (made_hdr cs)) @ ?b"
    using lh by (simp add: made_trx_def)
  have "length (drop 12 (hdr_bytes LE (made_hdr cs)) @ ?b) = 28 + length ?b - 12" using lh by simp
  then have "check_loop 0xFFFFFFFF (28 + length ?b - 12) (drop 12 (hdr_bytes LE (made_hdr cs)) @ ?b)
      = (x_crc32 (made_hdr cs), 0)"
    unfolding check_loop_run made_hdr_crc otrx_crc32_def by (metis diff_self_eq_0 take_all_iff order_refl)
  then show ?thesis
    unfolding otrx_check_def option.case Let_def b hdr_of_bytes [OF l3] le32_LE n
    using lh rest by (simp add: HDR_SIZE_def TRX_FLAGS_OFFSET_def made_hdr_simps)
qed

lemma offsets_nth:
  "i < length cs \<Longrightarrow> offsets off cs ! i = of_nat (off + length (concat (map pad4 (take i cs))))"
proof (induction cs arbitrary: off i)
  case (Cons c cs)
  then show ?case by (cases i) (simp_all add: add.assoc)
qed simp

lemma extract_part_made:
  assumes "length cs \<le> 3" and "28 + length (concat (map pad4 cs)) < 2 ^ 32" and i: "i < length cs"
  shows "extract_part (\<lambda>_. True) LE 0 (made_trx cs) (made_hdr cs) i (Some out) = [(out, pad4 (cs ! i))]"
proof -
  let ?before = "concat (map pad4 (take i cs))" and ?part = "pad4 (cs ! i)"
    and ?after = "concat (map pad4 (drop (Suc i) cs))"
  have split: "concat (map pad4 cs) = ?before @ ?part @ ?after"
    using id_take_nth_drop [OF i] by (metis concat.simps(2) concat_append list.map(2) map_append)
  let ?o = "28 + length ?before"
  have o: "x_offset (made_hdr cs) ! i = of_nat ?o"
    using i by (simp add: made_hdr_simps nth_append offsets_nth)
  have small: "?o + length ?part < 2 ^ 32" using assms(2) split by simp
  then have uo: "unat (of_nat ?o :: u32) = ?o" by (intro unat_of_nat_u32) linarith
  then have nz: "(of_nat ?o :: u32) \<noteq> 0" by (metis add_is_0 unat_0 zero_neq_numeral)
  have len: "(if i + 1 \<ge> 3 \<or> x_offset (made_hdr cs) ! (i + 1) = 0 then x_length (made_hdr cs) - of_nat ?o
      else x_offset (made_hdr cs) ! (i + 1) - of_nat ?o) = of_nat (length ?part)"
  proof (cases "Suc i < length cs")
    case True
    have "concat (map pad4 (take (Suc i) cs)) = ?before @ ?part"
      using i by (simp add: take_Suc_conv_app_nth)
    then have o1: "x_offset (made_hdr cs) ! (i + 1) = of_nat (?o + length ?part)"
      using True by (simp add: made_hdr_simps nth_append offsets_nth)
    have "unat (of_nat (?o + length ?part) :: u32) = ?o + length ?part" by (rule unat_of_nat_u32 [OF small])
    then have "(of_nat (?o + length ?part) :: u32) \<noteq> 0" by (metis add_is_0 unat_0 zero_neq_numeral)
    then show ?thesis using True assms(1) unfolding o1 by simp
  next
    case False
    then have l: "i + 1 = length cs" using i by simp
    then have a: "drop (Suc i) cs = []" by simp
    have "x_length (made_hdr cs) - of_nat ?o = of_nat (length ?part)"
      unfolding made_hdr_simps split a by simp
    moreover have "i + 1 \<ge> 3 \<or> x_offset (made_hdr cs) ! (i + 1) = 0"
    proof (cases "length cs = 3")
      case False
      then show ?thesis using l assms(1) by (simp add: made_hdr_simps nth_append)
    qed (use l in simp)
    ultimately show ?thesis by simp
  qed
  have ul: "unat (of_nat (length ?part) :: u32) = length ?part"
    using small by (intro unat_of_nat_u32) linarith
  have lh: "length (hdr_bytes LE (made_hdr cs)) = 28" using made_hdr_len [OF assms(1)] by simp
  have "take (length ?part) (drop ?o (made_trx cs)) = ?part"
    using lh unfolding made_trx_def split by simp
  then show ?thesis
    unfolding extract_part_def option.case o le32_LE TRX_MAX_PARTS_def len Let_def uo ul
    using nz by (simp add: extract_copy_def)
qed

text \<open>C28. Creating a container from at most three readable files, on a little-endian host with enough
  memory and a total below 4 GiB, returns 0; checking the created file returns 0; and extracting the
  three partitions gives back every file, padded with zeros to a multiple of four bytes.\<close>

theorem otrx_roundtrip:
  assumes "map fs ps = map Some cs" and "length cs \<le> 3"
    and "28 + length (concat (map pad4 cs)) < 2 ^ 32" and "length outs = length cs"
  shows "\<exists>t. otrx_create (\<lambda>_. True) LE fs (map OptF ps) = Some (0, t) \<and> otrx_check LE 0 (Some t) = 0
    \<and> otrx_extract (\<lambda>_. True) LE 0 (map Some outs @ replicate (3 - length cs) None) (Some t)
        = (0, zip outs (map pad4 cs))"
proof -
  let ?t = "made_trx cs" and ?parts = "map Some outs @ replicate (3 - length cs) None"
  let ?f = "\<lambda>i. extract_part (\<lambda>_. True) LE 0 ?t (made_hdr cs) i (?parts ! i)"
  have l3: "length (x_offset (made_hdr cs)) = 3" by (rule made_hdr_len [OF assms(2)])
  have b: "take HDR_SIZE (drop 0 ?t) = hdr_bytes LE (made_hdr cs)"
    using l3 by (simp add: made_trx_def HDR_SIZE_def)
  have "?f i = [(outs ! i, pad4 (cs ! i))]" if "i < length cs" for i
    using that extract_part_made [OF assms(2,3) that] assms(4) by (simp add: nth_append)
  then have "map ?f [0..<length cs] = map (\<lambda>i. [(outs ! i, pad4 (cs ! i))]) [0..<length cs]" by simp
  then have "concat (map ?f [0..<length cs]) = map (\<lambda>i. (outs ! i, pad4 (cs ! i))) [0..<length cs]"
    by (simp only: concat_map_singleton)
  also have "\<dots> = zip outs (map pad4 cs)"
    using assms(4) by (intro nth_equalityI) simp_all
  finally have p1: "concat (map ?f [0..<length cs]) = zip outs (map pad4 cs)" .
  have "?f i = []" if "length cs \<le> i" "i < 3" for i
    using that assms(4) by (simp add: nth_append extract_part_def)
  then have "concat (map ?f [length cs..<3]) = []" by simp
  moreover have "[0..<3] = [0..<length cs] @ [length cs..<3]"
    using assms(2) upt_add_eq_append [of 0 "length cs" "3 - length cs"] by simp
  ultimately have "concat (map ?f [0..<3]) = zip outs (map pad4 cs)" using p1 by simp
  then have "otrx_extract (\<lambda>_. True) LE 0 ?parts (Some ?t) = (0, zip outs (map pad4 cs))"
    unfolding otrx_extract_def option.case Let_def b hdr_of_bytes [OF l3] le32_LE TRX_MAX_PARTS_def
    using l3 by (simp add: HDR_SIZE_def made_hdr_simps)
  with otrx_create_made [OF assms(1-3)] otrx_check_made [OF assms(2,3)] show ?thesis by blast
qed

lemma replicate_23: "replicate 2 x = [x, x]" "replicate 3 x = [x, x, x]"
  by (simp_all add: numeral_2_eq_2 numeral_3_eq_3)

lemma otrx_roundtrip_witness:
  "\<exists>t. otrx_create (\<lambda>_. True) LE (\<lambda>p. if p = [107] then Some [1, 2, 3, 4, 5] else None) [OptF [107]] = Some (0, t)
    \<and> otrx_check LE 0 (Some t) = 0
    \<and> otrx_extract (\<lambda>_. True) LE 0 [Some [49], None, None] (Some t) = (0, [([49], [1, 2, 3, 4, 5, 0, 0, 0])])"
  using otrx_roundtrip [of "\<lambda>p. if p = [107] then Some [1, 2, 3, 4, 5] else None" "[[107]]" "[[1, 2, 3, 4, 5]]" "[[49]]"]
  by (simp add: pad4_def replicate_23)

section \<open>Big-endian hosts\<close>

lemma le32_BE: "le32 BE x = of_be32 (rev (be32 x))"
  by (simp add: le32_def dec32_def enc32_def)

lemma le32_BE_inv: "le32 BE (le32 BE x) = x"
  by (simp add: le32_BE be32_of_be32)

lemma small_bits: "unat x < 2 ^ k \<Longrightarrow> bit x i \<Longrightarrow> i < k" for x :: u32
  by (metis bit_take_bit_iff take_bit_nat_eq_self unsigned_take_bit_eq word_unat_eq_iff)

lemma le32_BE_big:
  assumes "unat x < 2 ^ 16" and "x \<noteq> 0"
  shows "2 ^ 16 \<le> unat (le32 BE x)"
proof (rule ccontr)
  assume "\<not> 2 ^ 16 \<le> unat (le32 BE x)"
  then have hi: "\<not> bit (le32 BE x) i" if "16 \<le> i" for i
    using small_bits [of "le32 BE x" 16 i] that by auto
  have sm: "bit x i \<Longrightarrow> i < 16" for i by (rule small_bits [OF assms(1)])
  have lo: "\<not> bit (le32 BE x) i" if "i < 16" for i
    using that by (cases "i < 8") (auto simp: le32_BE be32_def bit_simps not_less dest: sm bit_byte)
  have "le32 BE x = 0" by (rule bit_word_eqI) (use hi lo not_less in auto)
  then have "x = le32 BE 0" using le32_BE_inv by metis
  then show False using assms(2) by (simp add: le32_BE be32_def)
qed

text \<open>On a big-endian host \<open>otrx_create\<close> returns 0 and leaves a file without a CRC that its own
  \<open>otrx_check\<close> refuses with \<open>-EIO\<close>: \<open>hdr.length\<close> is stored in host order and converted when it is
  used. Shown for at most three readable files with a total below 64 KiB.\<close>

theorem otrx_create_big_endian:
  assumes "map fs ps = map Some cs" and "length cs \<le> 3" and "28 + length (concat (map pad4 cs)) < 2 ^ 16"
    and "cs \<noteq> []" and "hd cs \<noteq> []"
  shows "\<exists>t. otrx_create (\<lambda>_. True) BE fs (map OptF ps) = Some (0, t)
    \<and> x_crc32 (hdr_of BE (take 28 t)) = 0 \<and> otrx_check BE 0 (Some t) = - EIO"
proof -
  let ?body = "concat (map pad4 cs)"
  have ne: "?body \<noteq> []" using assms(4,5) by (cases cs) (auto simp: pad4_def)
  obtain s where s: "create_loop (\<lambda>_. True) fs (map OptF ps) create_init = Inl s"
    "body_is (s_trx s) ?body" "s_off s = 28 + length ?body"
    "s_hdr s = (s_hdr create_init)\<lparr>x_offset := offsets 28 cs @ replicate (3 - length cs) 0\<rparr>"
    by (rule create_loop_init [OF assms(1,2)])
  define n where "n = s_off s"
  define h where "h = (s_hdr s)\<lparr>x_length := of_nat n, x_magic := le32 BE TRX_MAGIC, x_version := 1\<rparr>"
  define t where "t = hdr_bytes BE h @ ?body"
  have h: "length (x_offset h) = 3" "x_length h = of_nat n" "x_magic h = le32 BE TRX_MAGIC" "x_crc32 h = 0"
    using s(4) assms(2) by (simp_all add: h_def create_init_def)
  have lt: "length t = n" using h(1) s(3) by (simp add: t_def n_def)
  have n: "n < 2 ^ 16" "28 \<le> n" using assms(3) s(3) by (simp_all add: n_def)
  have un: "unat (of_nat n :: u32) = n" using n(1) by (intro unat_of_nat_u32) simp
  then have nz: "(of_nat n :: u32) \<noteq> 0" using n(2) by auto
  have big: "2 ^ 16 \<le> unat (le32 BE (of_nat n))"
    using le32_BE_big [OF _ nz] un n(1) by simp
  have ne_h: "hdr_bytes BE h \<noteq> []" using length_hdr_bytes [OF h(1), of BE] by auto
  have f: "o_data (fwrite (hdr_bytes BE h) (fseek 0 (s_trx s))) = t"
    using s(2) ne h(1) ne_h by (auto simp: fwrite_def fseek_def body_is_def t_def)
  have "write_hdr (\<lambda>_. True) BE ((s_hdr s)\<lparr>x_length := of_nat n\<rparr>) (s_trx s) =
      Some (- ENOMEM, fwrite (hdr_bytes BE h) (fseek 0 (s_trx s)))"
    unfolding write_hdr_def Let_def h_def [symmetric] f h(2)
    using big lt n(1) by (auto simp: min_def)
  then have c: "otrx_create (\<lambda>_. True) BE fs (map OptF ps) = Some (0, t)"
    using s(1) f by (simp add: otrx_create_def n_def)
  have b: "take HDR_SIZE (drop 0 t) = hdr_bytes BE h"
    using length_hdr_bytes [OF h(1), of BE] by (simp add: t_def HDR_SIZE_def)
  have "unat (le32 BE (of_nat n)) - TRX_FLAGS_OFFSET - length (drop (0 + TRX_FLAGS_OFFSET) t) \<noteq> 0"
    using big lt n(1) by (simp add: TRX_FLAGS_OFFSET_def)
  then have "otrx_check BE 0 (Some t) = - EIO"
    unfolding otrx_check_def option.case Let_def b hdr_of_bytes [OF h(1)] h(2,3) check_loop_run le32_BE_inv
    using big h(1) by (simp add: HDR_SIZE_def)
  with c b h show ?thesis by (auto simp: HDR_SIZE_def)
qed

lemma otrx_create_big_endian_witness:
  "\<exists>t. otrx_create (\<lambda>_. True) BE (\<lambda>p. if p = [107] then Some [1, 2, 3, 4] else None) [OptF [107]] = Some (0, t)
    \<and> x_crc32 (hdr_of BE (take 28 t)) = 0 \<and> otrx_check BE 0 (Some t) = - EIO"
  using otrx_create_big_endian [of "\<lambda>p. if p = [107] then Some [1, 2, 3, 4] else None" "[[107]]" "[[1, 2, 3, 4]]"]
  by (simp add: pad4_def)

section \<open>The CRC register is the bitwise CRC-32\<close>

text \<open>The table-driven CRC is the reflected bitwise CRC with polynomial 0xEDB88320, byte by byte:
  the 256 entries of the table and the update are right.\<close>

theorem otrx_crc32_bitwise:
  "otrx_crc32 bs = foldl (\<lambda>c b. crc_right_byte 0xEDB88320 (c XOR ucast b)) 0xFFFFFFFF bs"
  unfolding otrx_crc32_def by (rule trxcrc.run_bitwise)

end
