(* ===== verification/Word_Bytes.thy ===== *)
theory Word_Bytes
  imports Prelude
begin

text \<open>
  32-bit words as four bytes: packing, the bytes of a word, and how the bitwise operations act on
  them. Shared by the proofs about the block cipher and the hash function.
\<close>

section \<open>Bytes and words\<close>

definition byte3 :: "u32 \<Rightarrow> u8" where "byte3 w = ucast (drop_bit 24 w)"
definition byte2 :: "u32 \<Rightarrow> u8" where "byte2 w = ucast (drop_bit 16 w)"
definition byte1 :: "u32 \<Rightarrow> u8" where "byte1 w = ucast (drop_bit 8 w)"
definition byte0 :: "u32 \<Rightarrow> u8" where "byte0 w = ucast w"

definition pk :: "u8 \<Rightarrow> u8 \<Rightarrow> u8 \<Rightarrow> u8 \<Rightarrow> u32" where
  "pk a b c d = of_be32 [a, b, c, d]"

lemma bit_pk: "bit (pk a b c d) n \<longleftrightarrow>
     (if n < 8 then bit d n else if n < 16 then bit c (n - 8)
      else if n < 24 then bit b (n - 16) else bit a (n - 24))"
  unfolding pk_def by (rule bit_of_be32)

lemma bit_bytes:
  "bit (byte3 w) n \<longleftrightarrow> n < 8 \<and> bit w (24 + n)" "bit (byte2 w) n \<longleftrightarrow> n < 8 \<and> bit w (16 + n)"
  "bit (byte1 w) n \<longleftrightarrow> n < 8 \<and> bit w (8 + n)" "bit (byte0 w) n \<longleftrightarrow> n < 8 \<and> bit w n"
  by (simp_all add: byte3_def byte2_def byte1_def byte0_def bit_simps)

lemma bytes_pk [simp]: "byte3 (pk a b c d) = a" "byte2 (pk a b c d) = b" "byte1 (pk a b c d) = c" "byte0 (pk a b c d) = d"
  by (auto intro!: bit_word_eqI simp: bit_bytes bit_pk)

lemma pk_bytes [simp]: "pk (byte3 w) (byte2 w) (byte1 w) (byte0 w) = w"
  by (rule bit_word_eqI) (auto simp: bit_bytes bit_pk)

lemma bytes_xor:
  "byte3 (v XOR w) = byte3 v XOR byte3 w" "byte2 (v XOR w) = byte2 v XOR byte2 w"
  "byte1 (v XOR w) = byte1 v XOR byte1 w" "byte0 (v XOR w) = byte0 v XOR byte0 w"
  by (auto intro!: bit_word_eqI simp: bit_bytes bit_simps)

lemma pk_xor: "pk a b c d XOR pk a' b' c' d' = pk (a XOR a') (b XOR b') (c XOR c') (d XOR d')"
  by (rule bit_word_eqI) (auto simp: bit_pk bit_simps)

lemma pk_and: "pk a b c d AND pk a' b' c' d' = pk (a AND a') (b AND b') (c AND c') (d AND d')"
  by (rule bit_word_eqI) (auto simp: bit_pk bit_simps)

lemma pk_or: "pk a b c d OR pk a' b' c' d' = pk (a OR a') (b OR b') (c OR c') (d OR d')"
  by (rule bit_word_eqI) (auto simp: bit_pk bit_simps)

lemma ucast_pk: "push_bit 24 (ucast a) = pk a 0 0 0" "push_bit 16 (ucast a) = pk 0 a 0 0"
  "push_bit 8 (ucast a) = pk 0 0 a 0" "ucast a = pk 0 0 0 a"
  by (simp_all add: pk_def)

end
