(* ===== verification/Aes_Laws.thy ===== *)
theory Aes_Laws
  imports Aes Crc Word_Bytes
begin

text \<open>
  Laws of the block cipher: the tables hold the S-box, its inverse and the MixColumn products in
  GF(2^8), and decryption undoes encryption for every key and every block.
\<close>

section \<open>Rotation\<close>

lemma rotr_pk: "rotr (pk a b c d) 8 = pk d a b c" "rotr (pk a b c d) 16 = pk c d a b"
  "rotr (pk a b c d) 24 = pk b c d a"
  by (rule bit_word_eqI; auto simp: rotr_def bit_pk bit_simps bit_byte)+

lemma rotr_bytes:
  "rotr w 8 = pk (byte0 w) (byte3 w) (byte2 w) (byte1 w)" "rotr w 16 = pk (byte1 w) (byte0 w) (byte3 w) (byte2 w)"
  "rotr w 24 = pk (byte2 w) (byte1 w) (byte0 w) (byte3 w)"
  using rotr_pk [of "byte3 w" "byte2 w" "byte1 w" "byte0 w"] by simp_all

lemma byte_index:
  "unat (drop_bit 24 w AND 0xff :: u32) = unat (byte3 w)" "unat (drop_bit 16 w AND 0xff :: u32) = unat (byte2 w)"
  "unat (drop_bit 8 w AND 0xff :: u32) = unat (byte1 w)" "unat (w AND 0xff :: u32) = unat (byte0 w)"
  by (simp_all only: unat_and_ff byte3_def byte2_def byte1_def byte0_def)

section \<open>GF(2^8)\<close>

definition xtime :: "u8 \<Rightarrow> u8" where
  "xtime a = push_bit 1 a XOR (if bit a 7 then 0x1b else 0)"

text \<open>The MixColumn products [02, 01, 01, 03] and [0e, 09, 0d, 0b] of a byte.\<close>

definition mcol :: "u8 \<Rightarrow> u32" where
  "mcol a = pk (xtime a) a a (xtime a XOR a)"

definition icol :: "u8 \<Rightarrow> u32" where
  "icol a = (let x2 = xtime a; x4 = xtime x2; x8 = xtime x4
             in pk (x8 XOR x4 XOR x2) (x8 XOR a) (x8 XOR x4 XOR a) (x8 XOR x2 XOR a))"

lemma xtime_xor: "xtime (a XOR b) = xtime a XOR xtime b"
  by (rule bit_word_eqI) (auto simp: xtime_def bit_simps)

lemma mcol_xor: "mcol (a XOR b) = mcol a XOR mcol b"
  by (simp add: mcol_def xtime_xor pk_xor ac_simps)

lemma icol_xor: "icol (a XOR b) = icol a XOR icol b"
  by (simp add: icol_def xtime_xor pk_xor Let_def ac_simps)

lemma linear_ext:
  assumes "\<And>x y. f (x XOR y) = f x XOR f y" and "\<And>x y. g (x XOR y) = g x XOR g y"
    and "map f [1, 2, 4, 8, 16, 32, 64, 128] = map g [1, 2, 4, 8, 16, 32, 64, 128]"
  shows "f (x :: u8) = (g x :: u32)"
proof -
  have "span [f 1, f 2, f 4, f 8, f 16, f 32, f 64, f 128] = span [g 1, g 2, g 4, g 8, g 16, g 32, g 64, g 128]"
    using assms(3) by simp
  then show ?thesis
    using span_table [OF assms(1) refl, of x] span_table [OF assms(2) refl, of x] by simp
qed

section \<open>Tables\<close>

definition sbox :: "u8 list" where
  "sbox = map (\<lambda>w. ucast (drop_bit 8 w)) Te0"

definition sb :: "u8 \<Rightarrow> u8" where "sb x = sbox ! unat x"
definition isb :: "u8 \<Rightarrow> u8" where "isb x = Td4s ! unat x"

definition mtab :: "u32 list" where
  "mtab =
    [0x00000000, 0x02010103, 0x04020206, 0x06030305, 0x0804040c, 0x0a05050f, 0x0c06060a, 0x0e070709, 0x10080818, 0x1209091b, 0x140a0a1e, 0x160b0b1d,
     0x180c0c14, 0x1a0d0d17, 0x1c0e0e12, 0x1e0f0f11, 0x20101030, 0x22111133, 0x24121236, 0x26131335, 0x2814143c, 0x2a15153f, 0x2c16163a, 0x2e171739,
     0x30181828, 0x3219192b, 0x341a1a2e, 0x361b1b2d, 0x381c1c24, 0x3a1d1d27, 0x3c1e1e22, 0x3e1f1f21, 0x40202060, 0x42212163, 0x44222266, 0x46232365,
     0x4824246c, 0x4a25256f, 0x4c26266a, 0x4e272769, 0x50282878, 0x5229297b, 0x542a2a7e, 0x562b2b7d, 0x582c2c74, 0x5a2d2d77, 0x5c2e2e72, 0x5e2f2f71,
     0x60303050, 0x62313153, 0x64323256, 0x66333355, 0x6834345c, 0x6a35355f, 0x6c36365a, 0x6e373759, 0x70383848, 0x7239394b, 0x743a3a4e, 0x763b3b4d,
     0x783c3c44, 0x7a3d3d47, 0x7c3e3e42, 0x7e3f3f41, 0x804040c0, 0x824141c3, 0x844242c6, 0x864343c5, 0x884444cc, 0x8a4545cf, 0x8c4646ca, 0x8e4747c9,
     0x904848d8, 0x924949db, 0x944a4ade, 0x964b4bdd, 0x984c4cd4, 0x9a4d4dd7, 0x9c4e4ed2, 0x9e4f4fd1, 0xa05050f0, 0xa25151f3, 0xa45252f6, 0xa65353f5,
     0xa85454fc, 0xaa5555ff, 0xac5656fa, 0xae5757f9, 0xb05858e8, 0xb25959eb, 0xb45a5aee, 0xb65b5bed, 0xb85c5ce4, 0xba5d5de7, 0xbc5e5ee2, 0xbe5f5fe1,
     0xc06060a0, 0xc26161a3, 0xc46262a6, 0xc66363a5, 0xc86464ac, 0xca6565af, 0xcc6666aa, 0xce6767a9, 0xd06868b8, 0xd26969bb, 0xd46a6abe, 0xd66b6bbd,
     0xd86c6cb4, 0xda6d6db7, 0xdc6e6eb2, 0xde6f6fb1, 0xe0707090, 0xe2717193, 0xe4727296, 0xe6737395, 0xe874749c, 0xea75759f, 0xec76769a, 0xee777799,
     0xf0787888, 0xf279798b, 0xf47a7a8e, 0xf67b7b8d, 0xf87c7c84, 0xfa7d7d87, 0xfc7e7e82, 0xfe7f7f81, 0x1b80809b, 0x19818198, 0x1f82829d, 0x1d83839e,
     0x13848497, 0x11858594, 0x17868691, 0x15878792, 0x0b888883, 0x09898980, 0x0f8a8a85, 0x0d8b8b86, 0x038c8c8f, 0x018d8d8c, 0x078e8e89, 0x058f8f8a,
     0x3b9090ab, 0x399191a8, 0x3f9292ad, 0x3d9393ae, 0x339494a7, 0x319595a4, 0x379696a1, 0x359797a2, 0x2b9898b3, 0x299999b0, 0x2f9a9ab5, 0x2d9b9bb6,
     0x239c9cbf, 0x219d9dbc, 0x279e9eb9, 0x259f9fba, 0x5ba0a0fb, 0x59a1a1f8, 0x5fa2a2fd, 0x5da3a3fe, 0x53a4a4f7, 0x51a5a5f4, 0x57a6a6f1, 0x55a7a7f2,
     0x4ba8a8e3, 0x49a9a9e0, 0x4faaaae5, 0x4dababe6, 0x43acacef, 0x41adadec, 0x47aeaee9, 0x45afafea, 0x7bb0b0cb, 0x79b1b1c8, 0x7fb2b2cd, 0x7db3b3ce,
     0x73b4b4c7, 0x71b5b5c4, 0x77b6b6c1, 0x75b7b7c2, 0x6bb8b8d3, 0x69b9b9d0, 0x6fbabad5, 0x6dbbbbd6, 0x63bcbcdf, 0x61bdbddc, 0x67bebed9, 0x65bfbfda,
     0x9bc0c05b, 0x99c1c158, 0x9fc2c25d, 0x9dc3c35e, 0x93c4c457, 0x91c5c554, 0x97c6c651, 0x95c7c752, 0x8bc8c843, 0x89c9c940, 0x8fcaca45, 0x8dcbcb46,
     0x83cccc4f, 0x81cdcd4c, 0x87cece49, 0x85cfcf4a, 0xbbd0d06b, 0xb9d1d168, 0xbfd2d26d, 0xbdd3d36e, 0xb3d4d467, 0xb1d5d564, 0xb7d6d661, 0xb5d7d762,
     0xabd8d873, 0xa9d9d970, 0xafdada75, 0xaddbdb76, 0xa3dcdc7f, 0xa1dddd7c, 0xa7dede79, 0xa5dfdf7a, 0xdbe0e03b, 0xd9e1e138, 0xdfe2e23d, 0xdde3e33e,
     0xd3e4e437, 0xd1e5e534, 0xd7e6e631, 0xd5e7e732, 0xcbe8e823, 0xc9e9e920, 0xcfeaea25, 0xcdebeb26, 0xc3ecec2f, 0xc1eded2c, 0xc7eeee29, 0xc5efef2a,
     0xfbf0f00b, 0xf9f1f108, 0xfff2f20d, 0xfdf3f30e, 0xf3f4f407, 0xf1f5f504, 0xf7f6f601, 0xf5f7f702, 0xebf8f813, 0xe9f9f910, 0xeffafa15, 0xedfbfb16,
     0xe3fcfc1f, 0xe1fdfd1c, 0xe7fefe19, 0xe5ffff1a]"

definition itab :: "u32 list" where
  "itab =
    [0x00000000, 0x0e090d0b, 0x1c121a16, 0x121b171d, 0x3824342c, 0x362d3927, 0x24362e3a, 0x2a3f2331, 0x70486858, 0x7e416553, 0x6c5a724e, 0x62537f45,
     0x486c5c74, 0x4665517f, 0x547e4662, 0x5a774b69, 0xe090d0b0, 0xee99ddbb, 0xfc82caa6, 0xf28bc7ad, 0xd8b4e49c, 0xd6bde997, 0xc4a6fe8a, 0xcaaff381,
     0x90d8b8e8, 0x9ed1b5e3, 0x8ccaa2fe, 0x82c3aff5, 0xa8fc8cc4, 0xa6f581cf, 0xb4ee96d2, 0xbae79bd9, 0xdb3bbb7b, 0xd532b670, 0xc729a16d, 0xc920ac66,
     0xe31f8f57, 0xed16825c, 0xff0d9541, 0xf104984a, 0xab73d323, 0xa57ade28, 0xb761c935, 0xb968c43e, 0x9357e70f, 0x9d5eea04, 0x8f45fd19, 0x814cf012,
     0x3bab6bcb, 0x35a266c0, 0x27b971dd, 0x29b07cd6, 0x038f5fe7, 0x0d8652ec, 0x1f9d45f1, 0x119448fa, 0x4be30393, 0x45ea0e98, 0x57f11985, 0x59f8148e,
     0x73c737bf, 0x7dce3ab4, 0x6fd52da9, 0x61dc20a2, 0xad766df6, 0xa37f60fd, 0xb16477e0, 0xbf6d7aeb, 0x955259da, 0x9b5b54d1, 0x894043cc, 0x87494ec7,
     0xdd3e05ae, 0xd33708a5, 0xc12c1fb8, 0xcf2512b3, 0xe51a3182, 0xeb133c89, 0xf9082b94, 0xf701269f, 0x4de6bd46, 0x43efb04d, 0x51f4a750, 0x5ffdaa5b,
     0x75c2896a, 0x7bcb8461, 0x69d0937c, 0x67d99e77, 0x3daed51e, 0x33a7d815, 0x21bccf08, 0x2fb5c203, 0x058ae132, 0x0b83ec39, 0x1998fb24, 0x1791f62f,
     0x764dd68d, 0x7844db86, 0x6a5fcc9b, 0x6456c190, 0x4e69e2a1, 0x4060efaa, 0x527bf8b7, 0x5c72f5bc, 0x0605bed5, 0x080cb3de, 0x1a17a4c3, 0x141ea9c8,
     0x3e218af9, 0x302887f2, 0x223390ef, 0x2c3a9de4, 0x96dd063d, 0x98d40b36, 0x8acf1c2b, 0x84c61120, 0xaef93211, 0xa0f03f1a, 0xb2eb2807, 0xbce2250c,
     0xe6956e65, 0xe89c636e, 0xfa877473, 0xf48e7978, 0xdeb15a49, 0xd0b85742, 0xc2a3405f, 0xccaa4d54, 0x41ecdaf7, 0x4fe5d7fc, 0x5dfec0e1, 0x53f7cdea,
     0x79c8eedb, 0x77c1e3d0, 0x65daf4cd, 0x6bd3f9c6, 0x31a4b2af, 0x3fadbfa4, 0x2db6a8b9, 0x23bfa5b2, 0x09808683, 0x07898b88, 0x15929c95, 0x1b9b919e,
     0xa17c0a47, 0xaf75074c, 0xbd6e1051, 0xb3671d5a, 0x99583e6b, 0x97513360, 0x854a247d, 0x8b432976, 0xd134621f, 0xdf3d6f14, 0xcd267809, 0xc32f7502,
     0xe9105633, 0xe7195b38, 0xf5024c25, 0xfb0b412e, 0x9ad7618c, 0x94de6c87, 0x86c57b9a, 0x88cc7691, 0xa2f355a0, 0xacfa58ab, 0xbee14fb6, 0xb0e842bd,
     0xea9f09d4, 0xe49604df, 0xf68d13c2, 0xf8841ec9, 0xd2bb3df8, 0xdcb230f3, 0xcea927ee, 0xc0a02ae5, 0x7a47b13c, 0x744ebc37, 0x6655ab2a, 0x685ca621,
     0x42638510, 0x4c6a881b, 0x5e719f06, 0x5078920d, 0x0a0fd964, 0x0406d46f, 0x161dc372, 0x1814ce79, 0x322bed48, 0x3c22e043, 0x2e39f75e, 0x2030fa55,
     0xec9ab701, 0xe293ba0a, 0xf088ad17, 0xfe81a01c, 0xd4be832d, 0xdab78e26, 0xc8ac993b, 0xc6a59430, 0x9cd2df59, 0x92dbd252, 0x80c0c54f, 0x8ec9c844,
     0xa4f6eb75, 0xaaffe67e, 0xb8e4f163, 0xb6edfc68, 0x0c0a67b1, 0x02036aba, 0x10187da7, 0x1e1170ac, 0x342e539d, 0x3a275e96, 0x283c498b, 0x26354480,
     0x7c420fe9, 0x724b02e2, 0x605015ff, 0x6e5918f4, 0x44663bc5, 0x4a6f36ce, 0x587421d3, 0x567d2cd8, 0x37a10c7a, 0x39a80171, 0x2bb3166c, 0x25ba1b67,
     0x0f853856, 0x018c355d, 0x13972240, 0x1d9e2f4b, 0x47e96422, 0x49e06929, 0x5bfb7e34, 0x55f2733f, 0x7fcd500e, 0x71c45d05, 0x63df4a18, 0x6dd64713,
     0xd731dcca, 0xd938d1c1, 0xcb23c6dc, 0xc52acbd7, 0xef15e8e6, 0xe11ce5ed, 0xf307f2f0, 0xfd0efffb, 0xa779b492, 0xa970b999, 0xbb6bae84, 0xb562a38f,
     0x9f5d80be, 0x91548db5, 0x834f9aa8, 0x8d4697a3]"

lemma mtab_nth: "mtab ! unat x = mcol x"
proof (rule span_table [OF mcol_xor])
  have "map mcol [1, 2, 4, 8, 16, 32, 64, 128] = [0x02010103, 0x04020206, 0x0804040c, 0x10080818, 0x20101030, 0x40202060, 0x804040c0, 0x1b80809b]" by code_simp
  then show "mtab = span [mcol 1, mcol 2, mcol 4, mcol 8, mcol 16, mcol 32, mcol 64, mcol 128]"
    by (simp add: mtab_def span_def)
qed

lemma itab_nth: "itab ! unat x = icol x"
proof (rule span_table [OF icol_xor])
  have "map icol [1, 2, 4, 8, 16, 32, 64, 128] = [0x0e090d0b, 0x1c121a16, 0x3824342c, 0x70486858, 0xe090d0b0, 0xdb3bbb7b, 0xad766df6, 0x41ecdaf7]" by code_simp
  then show "itab = span [icol 1, icol 2, icol 4, icol 8, icol 16, icol 32, icol 64, icol 128]"
    by (simp add: itab_def span_def)
qed

lemma unat_u8_less: "unat (x :: u8) < 256"
  using unsigned_less [of x, where 'a = nat] by simp

lemma nth_via_map:
  "map f xs = ys \<Longrightarrow> length xs = 256 \<Longrightarrow> ys ! unat (x :: u8) = f (xs ! unat x)"
  using unat_u8_less [of x] by auto

lemma length_sbox: "length sbox = 256"
  by (simp add: sbox_def Te0_def)

lemma length_Td4s: "length Td4s = 256"
  by (simp add: Td4s_def)

lemma isb_sb [simp]: "isb (sb x) = x"
proof -
  have "map (\<lambda>x. Td4s ! unat x) sbox = map of_nat [0..<256]" by code_simp
  from nth_via_map [OF this length_sbox, of x] show ?thesis
    using unat_u8_less [of x] by (simp add: isb_def sb_def)
qed

lemma Te0_nth: "Te0 ! unat x = mcol (sb x)"
proof -
  have "map (\<lambda>x. mtab ! unat x) sbox = Te0" by code_simp
  from nth_via_map [OF this length_sbox, of x] show ?thesis by (simp add: mtab_nth sb_def)
qed

lemma Td0_nth: "Td0 ! unat x = icol (isb x)"
proof -
  have "map (\<lambda>x. itab ! unat x) Td4s = Td0" by code_simp
  from nth_via_map [OF this length_Td4s, of x] show ?thesis by (simp add: itab_nth isb_def)
qed

section \<open>MixColumn on words\<close>

definition mc :: "u32 \<Rightarrow> u32" where
  "mc w = mcol (byte3 w) XOR rotr (mcol (byte2 w)) 8 XOR rotr (mcol (byte1 w)) 16 XOR rotr (mcol (byte0 w)) 24"

definition imc :: "u32 \<Rightarrow> u32" where
  "imc w = icol (byte3 w) XOR rotr (icol (byte2 w)) 8 XOR rotr (icol (byte1 w)) 16 XOR rotr (icol (byte0 w)) 24"

lemma rotr_xor:
  "rotr (v XOR w) 8 = rotr v 8 XOR rotr w 8" "rotr (v XOR w) 16 = rotr v 16 XOR rotr w 16"
  "rotr (v XOR w) 24 = rotr v 24 XOR rotr w 24"
  by (simp_all add: rotr_bytes bytes_xor pk_xor)

lemma imc_xor: "imc (v XOR w) = imc v XOR imc w"
  unfolding imc_def bytes_xor icol_xor rotr_xor by (simp only: ac_simps)

lemma bytes_rotr:
  "byte3 (rotr w 8) = byte0 w" "byte2 (rotr w 8) = byte3 w" "byte1 (rotr w 8) = byte2 w" "byte0 (rotr w 8) = byte1 w"
  "byte3 (rotr w 16) = byte1 w" "byte2 (rotr w 16) = byte0 w" "byte1 (rotr w 16) = byte3 w" "byte0 (rotr w 16) = byte2 w"
  "byte3 (rotr w 24) = byte2 w" "byte2 (rotr w 24) = byte1 w" "byte1 (rotr w 24) = byte0 w" "byte0 (rotr w 24) = byte3 w"
  by (simp_all add: rotr_bytes)

lemma rotr_rotr:
  "rotr (rotr w 8) 8 = rotr w 16" "rotr (rotr w 16) 8 = rotr w 24" "rotr (rotr w 24) 8 = w"
  "rotr (rotr w 8) 16 = rotr w 24" "rotr (rotr w 16) 16 = w" "rotr (rotr w 24) 16 = rotr w 8"
  "rotr (rotr w 8) 24 = w" "rotr (rotr w 16) 24 = rotr w 8" "rotr (rotr w 24) 24 = rotr w 16"
  by (simp_all add: rotr_bytes)

lemma imc_rotr: "imc (rotr w 8) = rotr (imc w) 8" "imc (rotr w 16) = rotr (imc w) 16"
  "imc (rotr w 24) = rotr (imc w) 24"
  by (simp_all only: imc_def bytes_rotr rotr_xor rotr_rotr ac_simps)

lemma xor_left_self: "a XOR (a XOR b) = (b :: 'a :: len word)"
  by (simp flip: xor.assoc)

lemma imc_mcol: "imc (mcol a) = pk a 0 0 0"
  by (simp add: imc_def mcol_def icol_def Let_def bytes_pk rotr_pk pk_xor xtime_xor xor.assoc xor.commute
      xor.left_commute xor_left_self)

lemma imc_mc: "imc (mc w) = w"
proof -
  have "imc (mc w) = pk (byte3 w) 0 0 0 XOR rotr (pk (byte2 w) 0 0 0) 8 XOR rotr (pk (byte1 w) 0 0 0) 16
      XOR rotr (pk (byte0 w) 0 0 0) 24"
    by (simp only: mc_def imc_xor imc_rotr imc_mcol)
  also have "\<dots> = w" by (simp add: rotr_pk pk_xor)
  finally show ?thesis .
qed

section \<open>The macros of the code\<close>

lemma b0_drop: "byte0 (drop_bit 24 w) = byte3 w" "byte0 (drop_bit 16 w) = byte2 w" "byte0 (drop_bit 8 w) = byte1 w"
  by (simp_all add: byte3_def byte2_def byte1_def byte0_def)

lemma TE_simps: "TE0 i = mcol (sb (byte3 i))" "TE1 i = rotr (mcol (sb (byte2 i))) 8"
  "TE2 i = rotr (mcol (sb (byte1 i))) 16" "TE3 i = rotr (mcol (sb (byte0 i))) 24"
  by (simp_all only: TE0_def TE1_def TE2_def TE3_def byte_index b0_drop Te0_nth)

lemma TD_simps: "TD0 i = icol (isb (byte3 i))" "TD1 i = rotr (icol (isb (byte2 i))) 8"
  "TD2 i = rotr (icol (isb (byte1 i))) 16" "TD3 i = rotr (icol (isb (byte0 i))) 24"
  by (simp_all only: TD0_def TD1_def TD2_def TD3_def byte_index b0_drop Td0_nth)

lemma shift_pk: "push_bit 8 w = pk (byte2 w) (byte1 w) (byte0 w) 0" "drop_bit 8 w = pk 0 (byte3 w) (byte2 w) (byte1 w)"
  by (rule bit_word_eqI; auto simp: bit_simps bit_pk bit_bytes dest: bit_imp_le_length)+

lemma word_masks:
  "push_bit 8 w AND 0xff000000 = pk (byte2 w) 0 0 0" "w AND 0x00ff0000 = pk 0 (byte2 w) 0 0"
  "w AND 0x0000ff00 = pk 0 0 (byte1 w) 0" "drop_bit 8 w AND 0x000000ff = pk 0 0 0 (byte1 w)"
proof -
  have m: "(0xff000000 :: u32) = pk 0xff 0 0 0" "(0x00ff0000 :: u32) = pk 0 0xff 0 0"
    "(0x0000ff00 :: u32) = pk 0 0 0xff 0" "(0x000000ff :: u32) = pk 0 0 0 0xff"
    by (simp_all add: pk_def)
  show "push_bit 8 w AND 0xff000000 = pk (byte2 w) 0 0 0" unfolding m shift_pk pk_and by simp
  show "drop_bit 8 w AND 0x000000ff = pk 0 0 0 (byte1 w)" unfolding m(4) shift_pk pk_and by simp
  have "pk (byte3 w) (byte2 w) (byte1 w) (byte0 w) AND 0x00ff0000 = pk 0 (byte2 w) 0 0" unfolding m pk_and by simp
  then show "w AND 0x00ff0000 = pk 0 (byte2 w) 0 0" by simp
  have "pk (byte3 w) (byte2 w) (byte1 w) (byte0 w) AND 0x0000ff00 = pk 0 0 (byte1 w) 0" unfolding m pk_and by simp
  then show "w AND 0x0000ff00 = pk 0 0 (byte1 w) 0" by simp
qed

lemma b_mcol [simp]: "byte2 (mcol a) = a" "byte1 (mcol a) = a"
  by (simp_all add: mcol_def)

lemma TE4_simps: "TE41 i = pk (sb (byte3 i)) 0 0 0" "TE42 i = pk 0 (sb (byte2 i)) 0 0"
  "TE43 i = pk 0 0 (sb (byte1 i)) 0" "TE44 i = pk 0 0 0 (sb (byte0 i))"
  by (simp_all only: TE41_def TE42_def TE43_def TE44_def byte_index b0_drop Te0_nth)
    (simp_all only: word_masks b_mcol)

lemma TD4_simps: "TD41 i = pk (isb (byte3 i)) 0 0 0" "TD42 i = pk 0 (isb (byte2 i)) 0 0"
  "TD43 i = pk 0 0 (isb (byte1 i)) 0" "TD44 i = pk 0 0 0 (isb (byte0 i))"
  unfolding TD41_def TD42_def TD43_def TD44_def byte_index b0_drop isb_def [symmetric] by (rule ucast_pk)+

lemma drop24: "drop_bit 24 w = pk 0 0 0 (byte3 w)"
  by (rule bit_word_eqI) (auto simp: bit_simps bit_pk bit_bytes dest: bit_imp_le_length)

lemma unat_drop24: "unat (drop_bit 24 w :: u32) = unat (byte3 w)"
  by (simp only: drop24 ucast_pk(4) [symmetric] unat_ucast_u8)

lemma inv_mix_imc: "inv_mix w = imc w"
proof -
  have TE4: "TE4 (drop_bit 24 w) = pk 0 0 0 (sb (byte3 w))" "TE4 (drop_bit 16 w AND 0xff) = pk 0 0 0 (sb (byte2 w))"
    "TE4 (drop_bit 8 w AND 0xff) = pk 0 0 0 (sb (byte1 w))" "TE4 (w AND 0xff) = pk 0 0 0 (sb (byte0 w))"
    by (simp_all only: TE4_def unat_drop24 byte_index b0_drop Te0_nth)
      (simp_all only: word_masks b_mcol)
  have TD': "TD0_lo (pk 0 0 0 x) = icol (isb x)" "TD1_lo (pk 0 0 0 x) = rotr (icol (isb x)) 8"
    "TD2_lo (pk 0 0 0 x) = rotr (icol (isb x)) 16" "TD3_lo (pk 0 0 0 x) = rotr (icol (isb x)) 24" for x
    by (simp_all only: TD0_lo_def TD1_lo_def TD2_lo_def TD3_lo_def byte_index b0_drop bytes_pk Td0_nth)
  show ?thesis by (simp only: inv_mix_def TE4 TD' isb_sb imc_def)
qed

section \<open>Rounds\<close>

definition subshift :: "block \<Rightarrow> block" where
  "subshift = (\<lambda>(s0, s1, s2, s3).
     (pk (sb (byte3 s0)) (sb (byte2 s1)) (sb (byte1 s2)) (sb (byte0 s3)), pk (sb (byte3 s1)) (sb (byte2 s2)) (sb (byte1 s3)) (sb (byte0 s0)),
      pk (sb (byte3 s2)) (sb (byte2 s3)) (sb (byte1 s0)) (sb (byte0 s1)), pk (sb (byte3 s3)) (sb (byte2 s0)) (sb (byte1 s1)) (sb (byte0 s2))))"

lemma xor4_cancel [simp]: "xor4 (xor4 a k) k = a"
  by (cases a; cases k) (simp add: xor4_def xor.assoc)

lemma enc_last_subshift: "enc_last k s = xor4 (subshift s) k"
  by (cases s) (simp add: enc_last_def subshift_def TE4_simps pk_xor)

lemma dec_last_subshift: "dec_last k (subshift s) = xor4 s k"
  by (cases s) (simp add: dec_last_def subshift_def TD4_simps pk_xor)

lemma enc_round_mc:
  "enc_round k s = (case subshift s of (a, b, c, d) \<Rightarrow> xor4 (mc a, mc b, mc c, mc d) k)"
  by (cases s) (simp add: enc_round_def subshift_def TE_simps mc_def)

lemma dec_round_imc:
  "dec_round k (subshift s) = xor4 (inv_mix4 s) k"
  by (cases s) (simp add: dec_round_def subshift_def TD_simps inv_mix4_def inv_mix_imc imc_def)

lemma dec_enc_round: "dec_round (inv_mix4 k) (subshift (enc_round k s)) = subshift s"
proof -
  obtain a b c d where s: "subshift s = (a, b, c, d)" by (cases "subshift s")
  obtain k0 k1 k2 k3 where k: "k = (k0, k1, k2, k3)" by (cases k)
  show ?thesis
    unfolding dec_round_imc enc_round_mc s k
    by (simp add: inv_mix4_def inv_mix_imc xor4_def imc_xor imc_mc xor.assoc)
qed

section \<open>Blocks of bytes\<close>

lemma PUTU32_bytes: "PUTU32 w = [byte3 w, byte2 w, byte1 w, byte0 w]"
  by (simp add: PUTU32_def byte3_def byte2_def byte1_def byte0_def)

lemma GETU32_pk: "GETU32 p i = pk (p ! i) (p ! (i + 1)) (p ! (i + 2)) (p ! (i + 3))"
  unfolding GETU32_def ucast_pk(1-3) ucast_pk(4) [of "p ! (i + 3)"] pk_xor by simp

lemma put_get: "length p = 16 \<Longrightarrow> put_block (get_block p) = p"
proof -
  assume "length p = 16"
  then have "p = map ((!) p) [0..<16]" by (metis map_nth)
  also have "\<dots> = put_block (get_block p)"
    by (simp add: put_block_def get_block_def PUTU32_bytes GETU32_pk upt_rec) (simp add: eval_nat_numeral)
  finally show ?thesis by simp
qed

lemma get_put [simp]: "get_block (put_block s) = s"
  by (cases s) (simp add: put_block_def get_block_def PUTU32_bytes GETU32_pk)

lemma length_put_block [simp]: "length (put_block s) = 16"
  by (cases s) (simp add: put_block_def PUTU32_def)

section \<open>Decryption undoes encryption\<close>

lemma length_key_loop: "length (key_loop n i k) = n"
  by (induction n i k rule: key_loop.induct) simp_all

lemma swap_loop_rev:
  "swap_loop 0 10 [k0, k1, k2, k3, k4, k5, k6, k7, k8, k9, k10] =
     [k10, k9, k8, k7, k6, k5, k4, k3, k2, k1, k0]"
  by (simp add: swap_loop.simps)

lemma ex_keys: "\<exists>k0 k1 k2 k3 k4 k5 k6 k7 k8 k9 k10.
    rijndaelKeySetupEnc key = [k0, k1, k2, k3, k4, k5, k6, k7, k8, k9, k10]"
proof -
  have "length (rijndaelKeySetupEnc key) = 11"
    by (simp add: rijndaelKeySetupEnc_def length_key_loop)
  then show ?thesis by (auto simp: length_Suc_conv eval_nat_numeral)
qed

text \<open>C29. For every key and every 16-byte block, decrypting with the decryption schedule of the key
  gives back what was encrypted with its encryption schedule: the tables, the reordered round keys
  and their inverse MixColumn fit together over all ten rounds.\<close>

theorem aes_decrypt_encrypt:
  assumes "length pt = 16"
  shows "rijndaelDecrypt (rijndaelKeySetupDec key) (rijndaelEncrypt (rijndaelKeySetupEnc key) pt) = pt"
proof -
  obtain k0 k1 k2 k3 k4 k5 k6 k7 k8 k9 k10 where e:
    "rijndaelKeySetupEnc key = [k0, k1, k2, k3, k4, k5, k6, k7, k8, k9, k10]"
    using ex_keys [of key] by blast
  have d: "rijndaelKeySetupDec key = [k10, inv_mix4 k9, inv_mix4 k8, inv_mix4 k7, inv_mix4 k6, inv_mix4 k5,
      inv_mix4 k4, inv_mix4 k3, inv_mix4 k2, inv_mix4 k1, k0]"
    unfolding rijndaelKeySetupDec_def e swap_loop_rev by (simp add: upt_rec)
  have five: "round_loop rnd 5 rk s = round_loop rnd (Suc (Suc (Suc (Suc (Suc 0))))) rk s" for rnd rk s
    by (simp add: eval_nat_numeral)
  show ?thesis
    unfolding rijndaelDecrypt_def rijndaelEncrypt_def e d five
    by (simp add: Let_def enc_last_subshift dec_enc_round dec_last_subshift put_get assms)
qed

lemma aes_decrypt_encrypt_witness:
  "rijndaelDecrypt (rijndaelKeySetupDec (replicate 16 7)) (rijndaelEncrypt (rijndaelKeySetupEnc (replicate 16 7)) (replicate 16 1))
     = replicate 16 1"
  by (rule aes_decrypt_encrypt) simp

end
