(* ===== verification/Sha1.thy ===== *)
theory Sha1
  imports Prelude
begin

text \<open>
  \<open>package/network/services/ead/src/sha1.c\<close>: the SHA-1 transform of one 64-byte block as the
  emergency access daemon uses it (without padding and length), and its equivalence with the
  description of FIPS 180-1.
\<close>

section \<open>The code\<close>

definition rol32 :: "u32 \<Rightarrow> nat \<Rightarrow> u32" where
  "rol32 word shift = push_bit shift word OR drop_bit (32 - shift) word"

definition f1 :: "u32 \<Rightarrow> u32 \<Rightarrow> u32 \<Rightarrow> u32" where "f1 x y z = z XOR (x AND (y XOR z))"
definition f2 :: "u32 \<Rightarrow> u32 \<Rightarrow> u32 \<Rightarrow> u32" where "f2 x y z = x XOR y XOR z"
definition f3 :: "u32 \<Rightarrow> u32 \<Rightarrow> u32 \<Rightarrow> u32" where "f3 x y z = (x AND y) + (z AND (x XOR y))"

definition K1 :: u32 where "K1 = 0x5A827999"
definition K2 :: u32 where "K2 = 0x6ED9EBA1"
definition K3 :: u32 where "K3 = 0x8F1BBCDC"
definition K4 :: u32 where "K4 = 0xCA62C1D6"

text \<open>The workspace \<open>W\<close>: the first loop fills 16 words from the input, the second appends 64.\<close>

definition sha_load :: "bytes \<Rightarrow> u32 list" where
  "sha_load inp = map (\<lambda>i. push_bit 24 (ucast (inp ! (4 * i))) OR push_bit 16 (ucast (inp ! (4 * i + 1)))
     OR push_bit 8 (ucast (inp ! (4 * i + 2))) OR ucast (inp ! (4 * i + 3))) [0..<16]"

definition sha_extend :: "u32 list \<Rightarrow> nat \<Rightarrow> u32 list" where
  "sha_extend W i = W @ [rol32 (W ! (i + 13) XOR W ! (i + 8) XOR W ! (i + 2) XOR W ! i) 1]"

definition sha_schedule :: "bytes \<Rightarrow> u32 list" where
  "sha_schedule inp = foldl sha_extend (sha_load inp) [0..<64]"

type_synonym digest = "u32 \<times> u32 \<times> u32 \<times> u32 \<times> u32"

definition sha_round :: "(u32 \<Rightarrow> u32 \<Rightarrow> u32 \<Rightarrow> u32) \<Rightarrow> u32 \<Rightarrow> digest \<Rightarrow> u32 \<Rightarrow> digest" where
  "sha_round f K = (\<lambda>(a, b, c, d, e) w. (f b c d + K + rol32 a 5 + e + w, a, rol32 b 30, c, d))"

definition sha_transform :: "digest \<Rightarrow> bytes \<Rightarrow> digest" where
  "sha_transform dig inp =
     (let W = sha_schedule inp;
          s = dig;
          s = foldl (sha_round f1 K1) s (map ((!) W) [0..<20]);
          s = foldl (sha_round f2 K2) s (map ((!) W) [20..<40]);
          s = foldl (sha_round f3 K3) s (map ((!) W) [40..<60]);
          s = foldl (sha_round f2 K4) s (map ((!) W) [60..<80])
      in case (dig, s) of ((h0, h1, h2, h3, h4), (a, b, c, d, e)) \<Rightarrow>
           (h0 + a, h1 + b, h2 + c, h3 + d, h4 + e))"

definition sha_init :: digest where
  "sha_init = (0x67452301, 0xefcdab89, 0x98badcfe, 0x10325476, 0xc3d2e1f0)"

section \<open>FIPS 180-1\<close>

text \<open>The message words, functions and constants by round number, and the step of round \<open>t\<close>.\<close>

function fips_W :: "bytes \<Rightarrow> nat \<Rightarrow> u32" where
  "fips_W M t =
     (if t < 16 then of_be32 (take 4 (drop (4 * t) M))
      else word_rotl 1 (fips_W M (t - 3) XOR fips_W M (t - 8) XOR fips_W M (t - 14) XOR fips_W M (t - 16)))"
  by pat_completeness auto
termination
  by (relation "measure snd") auto

declare fips_W.simps [simp del]

definition fips_f :: "nat \<Rightarrow> u32 \<Rightarrow> u32 \<Rightarrow> u32 \<Rightarrow> u32" where
  "fips_f t B C D =
     (if t < 20 then (B AND C) OR (NOT B AND D)
      else if t < 40 then B XOR C XOR D
      else if t < 60 then (B AND C) OR (B AND D) OR (C AND D)
      else B XOR C XOR D)"

definition fips_K :: "nat \<Rightarrow> u32" where
  "fips_K t = (if t < 20 then 0x5A827999 else if t < 40 then 0x6ED9EBA1
               else if t < 60 then 0x8F1BBCDC else 0xCA62C1D6)"

definition fips_step :: "bytes \<Rightarrow> digest \<Rightarrow> nat \<Rightarrow> digest" where
  "fips_step M = (\<lambda>(A, B, C, D, E) t.
     (word_rotl 5 A + fips_f t B C D + E + fips_W M t + fips_K t, A, word_rotl 30 B, C, D))"

definition fips_block :: "digest \<Rightarrow> bytes \<Rightarrow> digest" where
  "fips_block H M =
     (case (H, foldl (fips_step M) H [0..<80]) of ((h0, h1, h2, h3, h4), (A, B, C, D, E)) \<Rightarrow>
        (h0 + A, h1 + B, h2 + C, h3 + D, h4 + E))"

section \<open>Equivalence\<close>

lemma rol32_rotl: "0 < n \<Longrightarrow> n < 32 \<Longrightarrow> rol32 w n = word_rotl n w"
proof (rule bit_word_eqI)
  fix m :: nat
  assume n: "0 < n" "n < 32" and "m < LENGTH(32)"
  then have m: "m < 32" by simp
  have "(m + 32 - n) mod 32 = (if n \<le> m then m - n else 32 + m - n)"
  proof (cases "n \<le> m")
    case True
    then have "m + 32 - n = m - n + 32" by simp
    then show ?thesis using m True by (simp only: mod_add_self2 mod_less less_imp_diff_less if_True)
  qed (use n m in auto)
  then show "bit (rol32 w n) m = bit (word_rotl n w) m"
    using n m by (auto simp: rol32_def bit_simps bit_word_rotl_iff dest: bit_imp_le_length)
qed

lemma f1_fips: "f1 x y z = (x AND y) OR (NOT x AND z)"
  by (rule bit_word_eqI) (auto simp: f1_def bit_simps)

lemma f3_fips: "f3 x y z = (x AND y) OR (x AND z) OR (y AND z)"
proof -
  have "f3 x y z = (x AND y) OR (z AND (x XOR y))"
    unfolding f3_def by (rule disjunctive_add) (auto simp: bit_simps)
  also have "\<dots> = (x AND y) OR (x AND z) OR (y AND z)"
    by (rule bit_word_eqI) (auto simp: bit_simps)
  finally show ?thesis .
qed

lemma sha_load_nth: "length M = 64 \<Longrightarrow> i < 16 \<Longrightarrow> sha_load M ! i = fips_W M i"
proof -
  assume "length M = 64" and "i < 16"
  then have "take 4 (drop (4 * i) M) = [M ! (4 * i), M ! (4 * i + 1), M ! (4 * i + 2), M ! (4 * i + 3)]"
    by (intro nth_equalityI) (auto simp: less_Suc_eq eval_nat_numeral)
  then show ?thesis using \<open>i < 16\<close> by (simp add: sha_load_def fips_W.simps [of M i])
qed

lemma sha_schedule_nth:
  assumes "length M = 64"
  shows "n \<le> 64 \<Longrightarrow> foldl sha_extend (sha_load M) [0..<n] = map (fips_W M) [0..<16 + n]"
proof (induction n)
  case 0
  have "length (sha_load M) = 16" by (simp add: sha_load_def)
  then show ?case using sha_load_nth [OF assms] by (intro nth_equalityI) auto
next
  case (Suc n)
  let ?W = "map (fips_W M) [0..<16 + n]"
  have "?W ! (n + 13) = fips_W M (16 + n - 3)" "?W ! (n + 8) = fips_W M (16 + n - 8)"
    "?W ! (n + 2) = fips_W M (16 + n - 14)" "?W ! n = fips_W M (16 + n - 16)"
    by (simp_all add: nth_append add.commute)
  then have "sha_extend ?W n = ?W @ [fips_W M (16 + n)]"
    unfolding sha_extend_def by (subst fips_W.simps [of M "16 + n"]) (simp add: rol32_rotl)
  moreover have "[0..<16 + Suc n] = [0..<16 + n] @ [16 + n]"
    unfolding add_Suc_right by (rule upt_Suc_append) simp
  ultimately show ?case using Suc by (simp only: upt_Suc_append foldl_append) simp
qed

lemma sha_round_fips:
  assumes "length M = 64" and "t < 80"
    and "f = fips_f t" and "K = fips_K t"
  shows "sha_round f K s (sha_schedule M ! t) = fips_step M s t"
proof -
  have "sha_schedule M ! t = fips_W M t"
    using sha_schedule_nth [OF assms(1), of 64] assms(2) by (simp add: sha_schedule_def)
  then show ?thesis
    by (cases s) (simp add: sha_round_def fips_step_def assms(3,4) rol32_rotl ac_simps)
qed

lemma sha_rounds_fips:
  assumes M: "length M = 64" and "k \<le> 80" and "\<And>t. j \<le> t \<Longrightarrow> t < k \<Longrightarrow> f = fips_f t \<and> K = fips_K t"
  shows "foldl (sha_round f K) s (map ((!) (sha_schedule M)) [j..<k]) = foldl (fips_step M) s [j..<k]"
proof -
  have "foldl (\<lambda>s t. sha_round f K s (sha_schedule M ! t)) s ts = foldl (fips_step M) s ts"
    if "\<forall>t \<in> set ts. t < 80 \<and> f = fips_f t \<and> K = fips_K t" for ts
    using that by (induction ts arbitrary: s) (simp_all add: sha_round_fips [OF M])
  then show ?thesis using assms(2,3) by (simp add: foldl_map)
qed

text \<open>C30. On a 64-byte block \<open>sha_transform\<close> is the block step of FIPS 180-1: the bitwise forms of the
  functions, the workspace with its offsets 13, 8, 2 and 0, and the four loops are right.\<close>

theorem sha_transform_fips:
  assumes "length M = 64"
  shows "sha_transform dig M = fips_block dig M"
proof -
  have "[0..<k + 20] = [0..<k] @ [k..<k + 20]" for k :: nat
    by (rule upt_add_eq_append) simp
  from this [of 60] this [of 40] this [of 20]
  have split: "[0..<80] = [0..<20] @ [20..<40] @ [40..<60] @ [60..<80::nat]" by simp
  have f: "t < 20 \<Longrightarrow> f1 = fips_f t" "20 \<le> t \<Longrightarrow> t < 40 \<Longrightarrow> f2 = fips_f t"
    "40 \<le> t \<Longrightarrow> t < 60 \<Longrightarrow> f3 = fips_f t" "60 \<le> t \<Longrightarrow> f2 = fips_f t" for t
    by (auto intro!: ext simp: fips_f_def f1_fips f2_def f3_fips)
  note K = fips_K_def K1_def K2_def K3_def K4_def
  have "foldl (sha_round f1 K1) s (map ((!) (sha_schedule M)) [0..<20]) = foldl (fips_step M) s [0..<20]"
    "foldl (sha_round f2 K2) s (map ((!) (sha_schedule M)) [20..<40]) = foldl (fips_step M) s [20..<40]"
    "foldl (sha_round f3 K3) s (map ((!) (sha_schedule M)) [40..<60]) = foldl (fips_step M) s [40..<60]"
    "foldl (sha_round f2 K4) s (map ((!) (sha_schedule M)) [60..<80]) = foldl (fips_step M) s [60..<80]" for s
    by (rule sha_rounds_fips [OF assms]; simp add: f K)+
  then show ?thesis
    by (simp only: sha_transform_def fips_block_def Let_def split foldl_append)
qed

lemma sha_transform_fips_witness:
  "sha_transform sha_init (replicate 64 0) = fips_block sha_init (replicate 64 0)"
  by (rule sha_transform_fips) simp

end
