(* ===== verification/Ead_Crypt.thy ===== *)
theory Ead_Crypt
  imports Prelude Aes Sha1
begin

text \<open>
  \<open>package/network/services/ead/src/ead-crypt.c\<close>: the encrypted messages of the emergency access
  daemon. The static variables are a record; \<open>ivofs_vec\<close> is the word at bytes 36 to 39 of the
  session key in host order. \<open>data\<close> is the memory behind the message header: the fields of
  \<open>struct ead_msg_encrypted\<close> are the hash at 0, the IV at 20, the padding length at 24 and the
  payload from 25 on. The message length of the header is passed and returned beside it.
\<close>

definition EAD_MAX_IV_INCR :: u32 where "EAD_MAX_IV_INCR = 128"
definition EAD_ENC_PAD :: nat where "EAD_ENC_PAD = 64"
definition ENC_HDR :: nat where "ENC_HDR = 25"

record ead_crypt =
  aes_enc_ctx :: "block list"
  aes_dec_ctx :: "block list"
  ead_rx_iv :: u32
  ead_tx_iv :: u32
  ivofs_vec :: u32
  ivofs_idx :: nat

definition ead_set_key :: "endian \<Rightarrow> bytes \<Rightarrow> ead_crypt \<Rightarrow> ead_crypt" where
  "ead_set_key e skey st =
     (let iv = of_be32 (take 4 (drop 32 skey)) AND 0x00ffffff
      in st\<lparr>aes_enc_ctx := rijndaelKeySetupEnc skey, aes_dec_ctx := rijndaelKeySetupDec skey,
            ead_rx_iv := iv, ead_tx_iv := iv, ivofs_vec := dec32 e (take 4 (drop 36 skey))\<rparr>)"

definition ead_check_rx_iv :: "u32 \<Rightarrow> ead_crypt \<Rightarrow> bool \<times> ead_crypt" where
  "ead_check_rx_iv iv st =
     (if iv \<le> ead_rx_iv st then (False, st)
      else if iv > ead_rx_iv st + EAD_MAX_IV_INCR then (False, st)
      else (True, st\<lparr>ead_rx_iv := iv\<rparr>))"

definition ead_get_tx_iv :: "ead_crypt \<Rightarrow> u32 \<times> ead_crypt" where
  "ead_get_tx_iv st =
     (let ofs = 1 + (drop_bit (2 * ivofs_idx st) (ivofs_vec st) AND 3);
          st = st\<lparr>ivofs_idx := (ivofs_idx st + 1) mod 16, ead_tx_iv := ead_tx_iv st + ofs\<rparr>
      in (ead_tx_iv st, st))"

text \<open>The hash loop from index \<open>i\<close> on, with \<open>len\<close> bytes left; a block is read whole.\<close>

function hash_loop :: "digest \<Rightarrow> bytes \<Rightarrow> nat \<Rightarrow> nat \<Rightarrow> digest option" where
  "hash_loop dig data i len =
     (if len = 0 then Some dig
      else do { b \<leftarrow> peek data i 64; hash_loop (sha_transform dig b) data (i + 64) (len - 64) })"
  by pat_completeness auto
termination
  by (relation "measure (\<lambda>(dig, data, i, len). len)") auto

declare hash_loop.simps [simp del]

text \<open>\<open>ead_hash_message\<close> clears the stored hash; it returns the hash and the memory.\<close>

definition ead_hash_message :: "bytes \<Rightarrow> int \<Rightarrow> (digest \<times> bytes) option" where
  "ead_hash_message data len =
     do { data \<leftarrow> poke data 0 (replicate 20 0);
          dig \<leftarrow> hash_loop sha_init data 0 (nat len);
          Some (dig, data) }"

definition hash_words :: "digest \<Rightarrow> bytes" where
  "hash_words = (\<lambda>(a, b, c, d, e). be32 a @ be32 b @ be32 c @ be32 d @ be32 e)"

text \<open>The loops that run the block cipher over the message in place.\<close>

function crypt_loop :: "(bytes \<Rightarrow> bytes) \<Rightarrow> bytes \<Rightarrow> nat \<Rightarrow> nat \<Rightarrow> bytes option" where
  "crypt_loop f data i len =
     (if len = 0 then Some data
      else do { b \<leftarrow> peek data i 16; data \<leftarrow> poke data i (f b); crypt_loop f data (i + 16) (len - 16) })"
  by pat_completeness auto
termination
  by (relation "measure (\<lambda>(f, data, i, len). len)") auto

declare crypt_loop.simps [simp del]

text \<open>The memory, the new message length and the state.\<close>

definition ead_encrypt_message :: "ead_crypt \<Rightarrow> bytes \<Rightarrow> nat \<Rightarrow> (bytes \<times> u32 \<times> ead_crypt) option" where
  "ead_encrypt_message st data len =
     (let len = len + ENC_HDR;
          pad = (EAD_ENC_PAD - len mod EAD_ENC_PAD) mod EAD_ENC_PAD;
          enclen = len + pad;
          (iv, st) = ead_get_tx_iv st
      in do {
        data \<leftarrow> poke data 24 [of_nat pad];
        data \<leftarrow> poke data 20 (be32 iv);
        (hash, data) \<leftarrow> ead_hash_message data (int enclen);
        data \<leftarrow> poke data 0 (hash_words hash);
        data \<leftarrow> crypt_loop (rijndaelEncrypt (aes_enc_ctx st)) data 0 enclen;
        Some (data, of_nat enclen, st) })"

text \<open>An \<open>int\<close> minus an unsigned number is unsigned; stored in an \<open>int\<close> it is that residue as a signed
  number.\<close>

definition int_minus :: "int \<Rightarrow> nat \<Rightarrow> int" where
  "int_minus a k = sint (of_int a - of_nat k :: u32)"

text \<open>The checks of the decrypted message: padding length, IV, hash. They give the length of the
  payload (0 for a refused message), the memory and the state.\<close>

definition check_message :: "ead_crypt \<Rightarrow> bytes \<Rightarrow> int \<Rightarrow> (int \<times> bytes \<times> ead_crypt) option" where
  "check_message st data len =
     do {
       pad \<leftarrow> idx data 24;
       if unat pad \<ge> EAD_ENC_PAD then Some (0, data, st)
       else do {
         ivb \<leftarrow> peek data 20 4;
         let (ok, st) = ead_check_rx_iv (of_be32 ivb) st;
         if \<not> ok then Some (0, data, st)
         else do {
           hash_old \<leftarrow> peek data 0 20;
           (hash_new, data) \<leftarrow> ead_hash_message data len;
           if hash_old \<noteq> hash_words hash_new then Some (0, data, st)
           else Some (int_minus len (unat pad + ENC_HDR), data, st) } } }"

text \<open>The length of the header is read as an \<open>int\<close>; C's remainder of a negative number is not
  positive.\<close>

definition ead_decrypt_message :: "ead_crypt \<Rightarrow> bytes \<Rightarrow> u32 \<Rightarrow> (int \<times> bytes \<times> ead_crypt) option" where
  "ead_decrypt_message st data mlen =
     (let len = sint mlen
      in if len = 0 \<or> (len > 0 \<and> len mod int EAD_ENC_PAD > 0) then Some (0, data, st)
         else do {
           data \<leftarrow> crypt_loop (rijndaelDecrypt (aes_dec_ctx st)) data 0 (nat len);
           check_message st data len })"

end
