(* ===== verification/Ead_Crypt_Laws.thy ===== *)
theory Ead_Crypt_Laws
  imports Ead_Crypt Aes_Laws
begin

text \<open>
  Laws of the encrypted messages: a message encrypted with a session key is accepted under the same
  key and gives back the payload; the receive IV only grows, so that no message is accepted twice;
  the length that is returned stays inside the message.
\<close>

section \<open>The cipher loop\<close>

fun blocks :: "(bytes \<Rightarrow> bytes) \<Rightarrow> nat \<Rightarrow> bytes \<Rightarrow> bytes" where
  "blocks f 0 xs = []"
| "blocks f (Suc n) xs = f (take 16 xs) @ blocks f n (drop 16 xs)"

lemma crypt_loop_blocks:
  assumes f: "\<And>b. length (f b) = 16"
  shows "i + 16 * n \<le> length data \<Longrightarrow>
    crypt_loop f data i (16 * n) = Some (take i data @ blocks f n (drop i data) @ drop (i + 16 * n) data)"
proof (induction n arbitrary: i data)
  case 0
  then show ?case by (simp add: crypt_loop.simps)
next
  case (Suc n)
  let ?b = "f (take 16 (drop i data))"
  let ?d = "take i data @ ?b @ drop (i + 16) data"
  have len: "length (take i data) = i" using Suc.prems by simp
  have "crypt_loop f data i (16 * Suc n) = crypt_loop f ?d (i + 16) (16 * n)"
    using Suc.prems f by (subst crypt_loop.simps) (simp add: peek_def poke_def)
  also have "\<dots> = Some (take (i + 16) ?d @ blocks f n (drop (i + 16) ?d) @ drop (i + 16 + 16 * n) ?d)"
    using Suc.prems f by (intro Suc.IH) simp
  also have "take (i + 16) ?d = take i data @ ?b" using len f by simp
  also have "drop (i + 16) ?d = drop (i + 16) data" using len f by simp
  also have "drop (i + 16 + 16 * n) ?d = drop (i + 16 + 16 * n) data"
    using len f by (simp add: add.commute)
  finally show ?case by (simp add: ac_simps)
qed

lemma length_blocks: "(\<And>b. length (f b) = 16) \<Longrightarrow> length (blocks f n xs) = 16 * n"
  by (induction f n xs rule: blocks.induct) simp_all

lemma blocks_inverse:
  assumes f: "\<And>b. length (f b) = 16" and gf: "\<And>b. length b = 16 \<Longrightarrow> g (f b) = b"
  shows "16 * n \<le> length xs \<Longrightarrow> blocks g n (blocks f n xs @ r) = take (16 * n) xs"
proof (induction n arbitrary: xs)
  case (Suc n)
  then have "blocks g (Suc n) (blocks f (Suc n) xs @ r) = take 16 xs @ take (16 * n) (drop 16 xs)"
    using f gf [of "take 16 xs"] by simp
  also have "\<dots> = take (16 + 16 * n) xs" by (simp only: take_add)
  finally show ?case by simp
qed simp

lemma length_enc [simp]: "length (rijndaelEncrypt rk b) = 16"
  by (simp add: rijndaelEncrypt_def split: prod.split)

lemma length_dec [simp]: "length (rijndaelDecrypt rk b) = 16"
  by (simp add: rijndaelDecrypt_def split: prod.split)

lemma crypt_loop_inverse:
  assumes "16 * n \<le> length data"
    and "crypt_loop (rijndaelEncrypt (rijndaelKeySetupEnc key)) data 0 (16 * n) = Some c"
  shows "crypt_loop (rijndaelDecrypt (rijndaelKeySetupDec key)) c 0 (16 * n) = Some data"
proof -
  let ?e = "rijndaelEncrypt (rijndaelKeySetupEnc key)" and ?d = "rijndaelDecrypt (rijndaelKeySetupDec key)"
  have c: "c = blocks ?e n data @ drop (16 * n) data"
    using crypt_loop_blocks [of ?e 0 n data] assms by simp
  have "blocks ?d n c = take (16 * n) data"
    unfolding c by (rule blocks_inverse) (simp_all add: aes_decrypt_encrypt assms(1))
  then show ?thesis
    using crypt_loop_blocks [of ?d 0 n c] assms(1) c length_blocks [of ?e n data] by simp
qed

section \<open>Receive IV\<close>

text \<open>A call either leaves the state alone and refuses, or has decrypted the message, advanced the
  receive IV to the one of the message, and compared the hash.\<close>

lemma int_minus_wrap: "int_minus a k = (a - int k + 2 ^ 31) mod 2 ^ 32 - 2 ^ 31"
proof -
  have "(of_int a - of_nat k :: u32) = of_int (a - int k)" by simp
  then have "int_minus a k = sint (of_int (a - int k) :: u32)" by (simp only: int_minus_def)
  also have "\<dots> = signed_take_bit 31 (a - int k)" by (rule trans [OF signed_of_int]) simp
  finally show ?thesis by (simp only: signed_take_bit_eq_take_bit_shift take_bit_eq_mod) simp
qed

lemma int_minus_small: "- (2 ^ 31) \<le> a - int k \<Longrightarrow> a - int k < 2 ^ 31 \<Longrightarrow> int_minus a k = a - int k"
  by (simp add: int_minus_wrap)

lemma int_minus_of_nat: "a < 2 ^ 31 \<Longrightarrow> k < 2 ^ 31 \<Longrightarrow> int_minus (int a) k = int a - int k"
  by (rule int_minus_small) simp_all

lemma int_minus_pos:
  assumes "0 \<le> a" and "a < 2 ^ 31" and "k < 2 ^ 31"
  shows "int_minus a k = a - int k"
proof (rule int_minus_small)
  have "int k < 2 ^ 31" using assms(3) by simp
  then show "- (2 ^ 31) \<le> a - int k" using assms(1) by linarith
  show "a - int k < 2 ^ 31" using assms(2) by linarith
qed

lemma int_minus_neg:
  assumes "a < 0" and "int k - 2 ^ 31 \<le> a"
  shows "int_minus a k = a - int k"
proof (rule int_minus_small)
  show "- (2 ^ 31) \<le> a - int k" using assms(2) by linarith
  have "a - int k < 0" using assms(1) by linarith
  also have "(0 :: int) < 2 ^ 31" by simp
  finally show "a - int k < 2 ^ 31" .
qed

lemma check_message_cases:
  assumes "check_message st d len = Some (n, data', st')"
  obtains (refused) "n = 0" "st' = st"
    | (checked) pad ivb hash data'' where
        "idx d 24 = Some pad" "unat pad < 64" "peek d 20 4 = Some ivb"
        "ead_rx_iv st < of_be32 ivb" "st' = st\<lparr>ead_rx_iv := of_be32 ivb\<rparr>"
        "ead_hash_message d len = Some (hash, data'')"
        "n = 0 \<or> (n = int_minus len (unat pad + 25) \<and> peek d 0 20 = Some (hash_words hash))"
proof -
  from assms obtain pad where pad: "idx d 24 = Some pad" by (cases "idx d 24") (auto simp: check_message_def)
  show ?thesis
  proof (cases "unat pad \<ge> EAD_ENC_PAD")
    case True
    then show ?thesis using assms pad by (intro refused) (simp_all add: check_message_def)
  next
    case small: False
    then obtain ivb where iv: "peek d 20 4 = Some ivb"
      using assms pad by (cases "peek d 20 4") (auto simp: check_message_def)
    obtain ok st1 where ck: "ead_check_rx_iv (of_be32 ivb) st = (ok, st1)" by (meson surj_pair)
    show ?thesis
    proof (cases ok)
      case False
      then have "st1 = st" using ck by (auto simp: ead_check_rx_iv_def split: if_splits)
      then show ?thesis using assms pad small iv ck False by (intro refused) (simp_all add: check_message_def)
    next
      case True
      then have st1: "ead_rx_iv st < of_be32 ivb" "st1 = st\<lparr>ead_rx_iv := of_be32 ivb\<rparr>"
        using ck by (auto simp: ead_check_rx_iv_def split: if_splits)
      obtain old hash d2 where h: "peek d 0 20 = Some old" "ead_hash_message d len = Some (hash, d2)"
        using assms pad small iv ck True
        by (cases "peek d 0 20"; cases "ead_hash_message d len") (auto simp: check_message_def)
      have "st' = st1 \<and> (n = 0 \<or> n = int_minus len (unat pad + 25) \<and> old = hash_words hash)"
        using assms pad small iv ck True h by (simp add: check_message_def ENC_HDR_def split: if_splits)
      then show ?thesis
        using checked [OF pad _ iv st1(1) _ h(2)] small st1(2) h(1) by (auto simp: EAD_ENC_PAD_def)
    qed
  qed
qed

lemma decrypt_cases:
  assumes "ead_decrypt_message st data mlen = Some (n, data', st')"
  obtains (refused) "n = 0" "st' = st"
    | (checked) d where
        "crypt_loop (rijndaelDecrypt (aes_dec_ctx st)) data 0 (nat (sint mlen)) = Some d"
        "check_message st d (sint mlen) = Some (n, data', st')"
  using assms by (auto simp: ead_decrypt_message_def Let_def bind_eq_Some_conv split: if_splits)

lemma check_message_state:
  assumes "check_message st d len = Some (n, data', st')"
  shows "ead_rx_iv st \<le> ead_rx_iv st'" and "st' = st\<lparr>ead_rx_iv := ead_rx_iv st'\<rparr>"
    and "n \<noteq> 0 \<Longrightarrow> \<exists>ivb. peek d 20 4 = Some ivb \<and> ead_rx_iv st < of_be32 ivb \<and> ead_rx_iv st' = of_be32 ivb"
  using assms by (cases rule: check_message_cases; simp)+

lemma decrypt_state:
  assumes "ead_decrypt_message st data mlen = Some (n, data', st')"
  shows "ead_rx_iv st \<le> ead_rx_iv st'" and "st' = st\<lparr>ead_rx_iv := ead_rx_iv st'\<rparr>"
  using assms check_message_state by (cases rule: decrypt_cases; simp; metis)+

text \<open>A message that was decrypted to a payload can be decrypted again without leaving its memory.\<close>

lemma decrypt_again:
  assumes "ead_decrypt_message st data mlen = Some (n, data', st')" and "n \<noteq> 0"
  shows "\<exists>m data'' later. ead_decrypt_message st' data mlen = Some (m, data'', later)"
proof -
  from assms(1) obtain d where d: "crypt_loop (rijndaelDecrypt (aes_dec_ctx st)) data 0 (nat (sint mlen)) = Some d"
    "check_message st d (sint mlen) = Some (n, data', st')"
    by (cases rule: decrypt_cases) (use assms(2) in auto)
  have k: "aes_dec_ctx st' = aes_dec_ctx st"
    using decrypt_state(2) [OF assms(1)] by (metis ead_crypt.ext_inject ead_crypt.surjective ead_crypt.update_convs(3))
  from d(2) show ?thesis
  proof (cases rule: check_message_cases)
    case (checked pad ivb hash data'')
    then have "check_message st' d (sint mlen) = Some (0, d, st')"
      by (simp add: check_message_def ead_check_rx_iv_def EAD_ENC_PAD_def)
    then show ?thesis using d(1) k by (simp add: ead_decrypt_message_def Let_def)
  qed (use assms(2) in simp)
qed

text \<open>C31. No message is accepted twice: once a message has been decrypted to a payload, the same bytes
  are refused in every later state with the same key, that is, with the same decryption schedule and
  a receive IV that is not below the one the message left.\<close>

theorem ead_no_replay:
  assumes "ead_decrypt_message st data mlen = Some (n, data', st')" and "n \<noteq> 0"
    and "aes_dec_ctx later = aes_dec_ctx st'" and "ead_rx_iv st' \<le> ead_rx_iv later"
    and "ead_decrypt_message later data mlen = Some (m, data'', later')"
  shows "m = 0 \<and> later' = later"
proof -
  from assms(1,2) obtain d ivb where d: "crypt_loop (rijndaelDecrypt (aes_dec_ctx st)) data 0 (nat (sint mlen)) = Some d"
    "peek d 20 4 = Some ivb" "ead_rx_iv st' = of_be32 ivb"
    by (cases rule: decrypt_cases) (use check_message_state(3) in blast)+
  have k: "aes_dec_ctx st' = aes_dec_ctx st" using decrypt_state(2) [OF assms(1)] by (metis ead_crypt.ext_inject ead_crypt.surjective ead_crypt.update_convs(3))
  from assms(5) show ?thesis
  proof (cases rule: decrypt_cases)
    case (checked d')
    then have "d' = d" using d(1) k assms(3) by simp
    from checked(2) show ?thesis
      by (cases rule: check_message_cases) (use \<open>d' = d\<close> d(2,3) assms(4) in auto)
  qed simp
qed

section \<open>Encryption and decryption\<close>

lemma sint_of_nat_u32: "n < 2 ^ 31 \<Longrightarrow> sint (of_nat n :: u32) = int n"
  by (simp add: signed_of_nat signed_take_bit_int_eq_self)

lemma hash_loop_defined:
  "i + 64 * n \<le> length data \<Longrightarrow> \<exists>dig'. hash_loop dig data i (64 * n) = Some dig'"
proof (induction n arbitrary: i dig)
  case 0
  show ?case by (rule exI [of _ dig]) (simp add: hash_loop.simps)
next
  case (Suc n)
  then have "hash_loop dig data i (64 * Suc n) = hash_loop (sha_transform dig (take 64 (drop i data))) data (i + 64) (64 * n)"
    by (subst hash_loop.simps) (simp add: peek_def)
  then show ?case using Suc by simp
qed

lemma length_hash_words [simp]: "length (hash_words h) = 20"
  by (cases h) (simp add: hash_words_def)

text \<open>The padding fills the message to a multiple of 64 bytes.\<close>

lemma pad_total:
  obtains n where "len + 25 + (64 - (len + 25) mod 64) mod 64 = 64 * n" "64 * n \<le> len + 88"
    "(64 - (len + 25) mod 64) mod 64 < (64 :: nat)" "0 < n"
proof -
  define m where "m = len + 25"
  define q where "q = m div 64"
  have m: "m = 64 * q + m mod 64" "m mod 64 < 64" by (simp_all add: q_def)
  show ?thesis
  proof (cases "m mod 64 = 0")
    case True
    then show ?thesis using m by (intro that [of q]) (auto simp: m_def [symmetric], auto simp: m_def)
  next
    case False
    then have "(64 - m mod 64) mod 64 = 64 - m mod 64" by simp
    then show ?thesis using m by (intro that [of "Suc q"]) (auto simp: m_def [symmetric], auto simp: m_def)
  qed
qed

lemma encrypt_image:
  assumes "len + 88 \<le> length data" and "64 * n \<le> length data"
    and "(64 - (len + 25) mod 64) mod 64 = pad" and "len + 25 + pad = 64 * n" and "ead_get_tx_iv st = (iv, st')"
  shows "\<exists>hash z plain c. z = replicate 20 0 @ be32 iv @ [of_nat pad] @ drop 25 data
    \<and> plain = hash_words hash @ be32 iv @ [of_nat pad] @ drop 25 data
    \<and> hash_loop sha_init z 0 (64 * n) = Some hash
    \<and> crypt_loop (rijndaelEncrypt (aes_enc_ctx st')) plain 0 (64 * n) = Some c
    \<and> ead_encrypt_message st data len = Some (c, of_nat (64 * n), st')"
proof -
  let ?z = "replicate 20 0 @ be32 iv @ [of_nat pad] @ drop 25 data"
  have lz: "0 + 64 * n \<le> length ?z" using assms(1,2) by simp
  then obtain hash where h: "hash_loop sha_init ?z 0 (64 * n) = Some hash"
    using hash_loop_defined by blast
  let ?p = "hash_words hash @ be32 iv @ [of_nat pad] @ drop 25 data"
  have lp: "0 + 16 * (4 * n) \<le> length ?p" using lz by simp
  obtain c where c: "crypt_loop (rijndaelEncrypt (aes_enc_ctx st')) ?p 0 (64 * n) = Some c"
    using crypt_loop_blocks [OF _ lp, of "rijndaelEncrypt (aes_enc_ctx st')"] by auto
  have p1: "poke data 24 [of_nat pad] = Some (take 24 data @ [of_nat pad] @ drop 25 data)"
    using assms(1) by (simp add: poke_def)
  have p2: "poke (take 24 data @ [of_nat pad] @ drop 25 data) 20 (be32 iv) =
      Some (take 20 data @ be32 iv @ [of_nat pad] @ drop 25 data)"
    using assms(1) by (simp add: poke_def)
  have p3: "poke (take 20 data @ be32 iv @ [of_nat pad] @ drop 25 data) 0 (replicate 20 0) = Some ?z"
    using assms(1) by (simp add: poke_def)
  have p4: "poke ?z 0 (hash_words hash) = Some ?p" by (simp add: poke_def)
  have "ead_encrypt_message st data len = Some (c, of_nat (64 * n), st')"
    unfolding ead_encrypt_message_def Let_def ENC_HDR_def EAD_ENC_PAD_def assms(3,4,5) split ead_hash_message_def
    using p1 p2 p3 p4 h c by (simp del: of_nat_mult)
  with h c show ?thesis by blast
qed

lemma ead_roundtrip_aux:
  assumes "aes_enc_ctx s = rijndaelKeySetupEnc key" and "aes_dec_ctx r = rijndaelKeySetupDec key"
    and "len + 88 \<le> length data" and "length data < 2 ^ 31"
    and "ead_rx_iv r < fst (ead_get_tx_iv s)" and "fst (ead_get_tx_iv s) \<le> ead_rx_iv r + EAD_MAX_IV_INCR"
  shows "\<exists>c mlen s' d r'. ead_encrypt_message s data len = Some (c, mlen, s')
    \<and> ead_decrypt_message r c mlen = Some (int len, d, r')
    \<and> take len (drop 25 d) = take len (drop 25 data) \<and> ead_rx_iv r' = ead_tx_iv s' \<and> 0 \<le> sint mlen"
proof -
  obtain iv s' where iv: "ead_get_tx_iv s = (iv, s')" by (meson surj_pair)
  then have s': "aes_enc_ctx s' = aes_enc_ctx s" "ead_tx_iv s' = iv"
    by (auto simp: ead_get_tx_iv_def Let_def)
  define pad where "pad = (64 - (len + 25) mod 64) mod (64 :: nat)"
  obtain n where n: "len + 25 + pad = 64 * n" "64 * n \<le> len + 88" "pad < 64" "0 < n"
    using pad_total [of len] unfolding pad_def by metis
  obtain hash z plain c where z: "z = replicate 20 0 @ be32 iv @ [of_nat pad] @ drop 25 data"
    and plain: "plain = hash_words hash @ be32 iv @ [of_nat pad] @ drop 25 data"
    and h: "hash_loop sha_init z 0 (64 * n) = Some hash"
    and c: "crypt_loop (rijndaelEncrypt (aes_enc_ctx s')) plain 0 (64 * n) = Some c"
    and enc: "ead_encrypt_message s data len = Some (c, of_nat (64 * n), s')"
    using encrypt_image [OF assms(3) le_trans [OF n(2) assms(3)] pad_def [symmetric] n(1) iv] by blast
  have lp: "16 * (4 * n) \<le> length plain" using assms(3) n(2) by (simp add: plain)
  have dec: "crypt_loop (rijndaelDecrypt (aes_dec_ctx r)) c 0 (64 * n) = Some plain"
    using crypt_loop_inverse [OF lp, of key c] c s'(1) assms(1,2) by simp
  have up: "unat (of_nat pad :: u8) = pad" using n(3) by (simp add: unat_of_nat)
  have i: "idx plain 24 = Some (of_nat pad)" by (simp add: plain idx_def nth_append)
  have p: "peek plain 20 4 = Some (be32 iv)" "peek plain 0 20 = Some (hash_words hash)"
    by (simp_all add: plain peek_def)
  have hm: "ead_hash_message plain (int (64 * n)) = Some (hash, z)"
    using h by (simp add: ead_hash_message_def plain z poke_def del: of_nat_mult)
  have ck: "ead_check_rx_iv iv r = (True, r\<lparr>ead_rx_iv := iv\<rparr>)"
    using assms(5,6) iv by (auto simp: ead_check_rx_iv_def)
  have si: "sint (of_nat (64 * n) :: u32) = int (64 * n)"
    using n(2) assms(3,4) by (intro sint_of_nat_u32) linarith
  have im: "int_minus (int (64 * n)) (pad + 25) = int len"
    using n(1,2) assms(3,4) int_minus_of_nat [of "64 * n" "pad + 25"] by linarith
  have "check_message r plain (int (64 * n)) = Some (int len, z, r\<lparr>ead_rx_iv := iv\<rparr>)"
    using i p hm ck up n(3) im by (simp add: check_message_def EAD_ENC_PAD_def ENC_HDR_def del: of_nat_mult)
  then have "ead_decrypt_message r c (of_nat (64 * n)) = Some (int len, z, r\<lparr>ead_rx_iv := iv\<rparr>)"
    unfolding ead_decrypt_message_def Let_def si using dec n(4)
    by (simp add: EAD_ENC_PAD_def nat_mult_distrib)
  moreover have "take len (drop 25 z) = take len (drop 25 data)" by (simp add: z)
  moreover have "0 \<le> sint (of_nat (64 * n) :: u32)" unfolding si by simp
  ultimately show ?thesis using enc s'(2) by (intro exI conjI) (assumption | simp)+
qed

text \<open>C32. A message encrypted under a session key is accepted under the same key as soon as its IV is
  ahead of the receive IV by at most 128: decryption returns the length of the payload and leaves the
  payload in place, whatever the buffers held before.\<close>

theorem ead_message_roundtrip:
  assumes "aes_enc_ctx s = rijndaelKeySetupEnc key" and "aes_dec_ctx r = rijndaelKeySetupDec key"
    and "len + 88 \<le> length data" and "length data < 2 ^ 31"
    and "ead_rx_iv r < fst (ead_get_tx_iv s)" and "fst (ead_get_tx_iv s) \<le> ead_rx_iv r + EAD_MAX_IV_INCR"
  shows "\<exists>c mlen s' d r'. ead_encrypt_message s data len = Some (c, mlen, s')
    \<and> ead_decrypt_message r c mlen = Some (int len, d, r')
    \<and> take len (drop 25 d) = take len (drop 25 data) \<and> ead_rx_iv r' = ead_tx_iv s'"
  using ead_roundtrip_aux [OF assms] by blast

lemma set_key_ctx [simp]:
  "aes_enc_ctx (ead_set_key e key st) = rijndaelKeySetupEnc key"
  "aes_dec_ctx (ead_set_key e key st) = rijndaelKeySetupDec key"
  by (simp_all add: ead_set_key_def Let_def)

definition zero_crypt :: ead_crypt where
  "zero_crypt = \<lparr>aes_enc_ctx = [], aes_dec_ctx = [], ead_rx_iv = 0, ead_tx_iv = 0, ivofs_vec = 0, ivofs_idx = 0\<rparr>"

lemma zero_key_iv:
  "ead_rx_iv (ead_set_key BE (replicate 40 0) zero_crypt) = 0"
  "fst (ead_get_tx_iv (ead_set_key BE (replicate 40 0) zero_crypt)) = 1"
proof -
  have "replicate 4 (0 :: u8) = [0, 0, 0, 0]" by (simp add: eval_nat_numeral)
  then have z: "of_be32 (replicate 4 0) = 0" by simp
  have t: "take 4 (drop 32 (replicate 40 0)) = replicate 4 (0 :: u8)" "take 4 (drop 36 (replicate 40 0)) = replicate 4 (0 :: u8)"
    by simp_all
  show "ead_rx_iv (ead_set_key BE (replicate 40 0) zero_crypt) = 0"
    by (simp only: ead_set_key_def Let_def t z) simp
  show "fst (ead_get_tx_iv (ead_set_key BE (replicate 40 0) zero_crypt)) = 1"
    by (simp only: ead_set_key_def ead_get_tx_iv_def Let_def t z dec32_def endian.case) (simp add: zero_crypt_def)
qed

lemma ead_message_roundtrip_witness:
  "\<exists>c mlen s' d r'. ead_encrypt_message (ead_set_key BE (replicate 40 0) zero_crypt) (replicate 100 7) 5 = Some (c, mlen, s')
    \<and> ead_decrypt_message (ead_set_key BE (replicate 40 0) zero_crypt) c mlen = Some (int 5, d, r')
    \<and> take 5 (drop 25 d) = take 5 (drop 25 (replicate 100 7)) \<and> ead_rx_iv r' = ead_tx_iv s'"
  by (rule ead_message_roundtrip [of _ "replicate 40 0"]) (simp_all add: zero_key_iv EAD_MAX_IV_INCR_def)

text \<open>The message of the round trip, accepted once and then refused.\<close>

lemma ead_no_replay_witness:
  "\<exists>c mlen n d r m d' r'. ead_decrypt_message (ead_set_key BE (replicate 40 0) zero_crypt) c mlen = Some (n, d, r)
    \<and> n \<noteq> 0 \<and> ead_decrypt_message r c mlen = Some (m, d', r') \<and> m = 0 \<and> r' = r"
proof -
  let ?k = "ead_set_key BE (replicate 40 0) zero_crypt"
  have iv: "ead_rx_iv ?k < fst (ead_get_tx_iv ?k)" "fst (ead_get_tx_iv ?k) \<le> ead_rx_iv ?k + EAD_MAX_IV_INCR"
    unfolding zero_key_iv by (simp_all add: EAD_MAX_IV_INCR_def)
  have sp: "5 + 88 \<le> length (replicate 100 (7 :: u8))" "length (replicate 100 (7 :: u8)) < 2 ^ 31" by simp_all
  obtain c mlen s' d r where acc: "ead_encrypt_message ?k (replicate 100 7) 5 = Some (c, mlen, s')"
    "ead_decrypt_message ?k c mlen = Some (int 5, d, r)"
    using ead_roundtrip_aux [OF set_key_ctx(1) set_key_ctx(2) sp iv] by blast
  obtain m d' r' where again: "ead_decrypt_message r c mlen = Some (m, d', r')"
    using decrypt_again [OF acc(2)] by auto
  have "m = 0 \<and> r' = r"
    by (rule ead_no_replay [OF acc(2) _ refl _ again]) simp_all
  with acc(2) again show ?thesis by fastforce
qed

lemma decrypt_payload:
  assumes "ead_decrypt_message st data mlen = Some (n, data', st')" and n: "n \<noteq> 0" and "0 \<le> sint mlen"
  shows "\<exists>pad. 0 \<le> pad \<and> pad < 64 \<and> n + 25 + pad = sint mlen"
  using assms(1)
proof (cases rule: decrypt_cases)
  case (checked d)
  from checked(2) show ?thesis
  proof (cases rule: check_message_cases)
    case (checked pad ivb hash data'')
    then have p: "int (unat pad) < 64" by linarith
    have "sint mlen < 2 ^ 31" using sint_lt [of mlen] by simp
    then have "int_minus (sint mlen) (unat pad + 25) = sint mlen - int (unat pad + 25)"
      using checked(2) assms(3) by (intro int_minus_pos) simp_all
    then have "n = sint mlen - int (unat pad + 25)" using checked(7) n by simp
    then have "n + 25 + int (unat pad) = sint mlen" by simp
    then show ?thesis using p by (intro exI [of _ "int (unat pad)"]) simp
  qed (use n in simp)
qed (use n in simp)

text \<open>A message of length 0, or of a positive length that is no multiple of 64, is refused.\<close>

lemma decrypt_refuses_length:
  assumes "sint mlen = 0 \<or> (0 < sint mlen \<and> sint mlen mod 64 \<noteq> 0)"
  shows "ead_decrypt_message st data mlen = Some (0, data, st)"
  using assms pos_mod_sign [of 64 "sint mlen"]
  by (auto simp: ead_decrypt_message_def Let_def EAD_ENC_PAD_def)

lemma check_message_frame:
  assumes "check_message st d len = Some (n, d', st')"
  shows "drop 20 d' = drop 20 d \<and> length d' = length d"
  using assms
  by (auto simp: check_message_def ead_hash_message_def poke_def
      split: if_splits prod.splits Option.bind_splits option.splits)

lemma crypt_loop_room: "crypt_loop f data i (16 * n) = Some d \<Longrightarrow> 0 < n \<Longrightarrow> i + 16 * n \<le> length data"
proof (induction n arbitrary: i data)
  case (Suc n)
  then have c: "crypt_loop f (take i data @ f (take 16 (drop i data)) @ drop (i + length (f (take 16 (drop i data)))) data)
      (i + 16) (16 * n) = Some d" "i + 16 \<le> length data"
    "i + length (f (take 16 (drop i data))) \<le> length data"
    by (auto simp: crypt_loop.simps [of f data i] peek_def poke_def bind_eq_Some_conv split: if_splits)
  show ?case
  proof (cases "n = 0")
    case False
    have "i + 16 + 16 * n \<le> length (take i data @ f (take 16 (drop i data)) @ drop (i + length (f (take 16 (drop i data)))) data)"
      by (rule Suc.IH [OF c(1)]) (use False in simp)
    then show ?thesis using c(2,3) by simp
  qed (use c(2) in simp)
qed simp

text \<open>What a decryption with a message of nonnegative length does to the memory: nothing beyond the
  message, and a payload is only returned when the message lies inside the memory.\<close>

lemma decrypt_frame:
  assumes "ead_decrypt_message st data mlen = Some (n, data', st')" and pos: "0 < sint mlen"
    and m: "sint mlen mod 64 = 0"
  shows "nat (sint mlen) \<le> length data \<and> length data' = length data
    \<and> drop (nat (sint mlen)) data' = drop (nat (sint mlen)) data"
proof -
  from m obtain k where k: "sint mlen = 64 * k" by (auto elim: dvdE simp: mod_0_imp_dvd)
  define j where "j = nat k"
  have j: "nat (sint mlen) = 16 * (4 * j)" "0 < 4 * j" "20 \<le> nat (sint mlen)"
    using k pos by (auto simp: j_def)
  obtain d where d: "crypt_loop (rijndaelDecrypt (aes_dec_ctx st)) data 0 (nat (sint mlen)) = Some d"
    "check_message st d (sint mlen) = Some (n, data', st')"
    using assms by (auto simp: ead_decrypt_message_def Let_def bind_eq_Some_conv EAD_ENC_PAD_def)
  have room: "0 + 16 * (4 * j) \<le> length data"
    by (rule crypt_loop_room [OF d(1) [unfolded j(1)] j(2)])
  then have "d = blocks (rijndaelDecrypt (aes_dec_ctx st)) (4 * j) data @ drop (nat (sint mlen)) data"
    using crypt_loop_blocks [of "rijndaelDecrypt (aes_dec_ctx st)" 0 "4 * j" data] d(1) j(1) by simp
  moreover have "length (blocks (rijndaelDecrypt (aes_dec_ctx st)) (4 * j) data) = nat (sint mlen)"
    unfolding j(1) by (rule length_blocks) (use room in simp_all)
  ultimately have "drop (nat (sint mlen)) d = drop (nat (sint mlen)) data" "length d = length data"
    using room j(1) by simp_all
  moreover have "drop (nat (sint mlen)) data' = drop (nat (sint mlen)) d"
  proof -
    have "drop (nat (sint mlen) - 20) (drop 20 data') = drop (nat (sint mlen) - 20) (drop 20 d)"
      using check_message_frame [OF d(2)] by simp
    then show ?thesis using j(3) by simp
  qed
  ultimately show ?thesis using room j(1) check_message_frame [OF d(2)] by simp
qed

text \<open>With a negative length the loop does not run, and the message is taken as it arrived.\<close>

lemma decrypt_negative:
  assumes "ead_decrypt_message st data mlen = Some (n, data', st')" and neg: "sint mlen < 0"
  shows "drop 20 data' = drop 20 data \<and> (0 < n \<longrightarrow> sint mlen < 88 - 2 ^ 31)"
proof -
  have c: "check_message st data (sint mlen) = Some (n, data', st')"
    using assms by (simp add: ead_decrypt_message_def Let_def crypt_loop.simps)
  then have "0 < n \<longrightarrow> sint mlen < 88 - 2 ^ 31"
  proof (cases rule: check_message_cases)
    case (checked pad ivb hash data'')
    then have p: "int (unat pad) < 64" by linarith
    show ?thesis
    proof (rule ccontr)
      assume "\<not> ?thesis"
      then have big: "0 < n" "88 - 2 ^ 31 \<le> sint mlen" by simp_all
      then have "int_minus (sint mlen) (unat pad + 25) = sint mlen - int (unat pad + 25)"
        using p neg by (intro int_minus_neg) linarith+
      moreover have "n = int_minus (sint mlen) (unat pad + 25)" using checked(7) big(1) by auto
      ultimately show False using big(1) neg by linarith
    qed
  qed simp
  then show ?thesis using check_message_frame [OF c] by simp
qed

text \<open>C33. What decryption does to the memory and the length, for every length of the header, read as
  the signed number the code takes it for. Of a message of nonnegative length nothing is written
  beyond its end; a payload is only returned from a message that is a multiple of 64 bytes long and
  lies inside the memory, and it ends inside the message: its length, the 25 header bytes and the
  padding add up to the length of the message. A negative length decrypts nothing: the bytes behind
  the hash stay as they arrived, and the result is positive only within 88 of the least number, where
  the subtraction of header and padding wraps.\<close>

theorem ead_decrypt_bounds:
  assumes "ead_decrypt_message st data mlen = Some (n, data', st')"
  shows "(0 \<le> sint mlen \<longrightarrow> drop (nat (sint mlen)) data' = drop (nat (sint mlen)) data
      \<and> (n \<noteq> 0 \<longrightarrow> sint mlen mod 64 = 0 \<and> nat (sint mlen) \<le> length data
          \<and> (\<exists>pad. 0 \<le> pad \<and> pad < 64 \<and> n + 25 + pad = sint mlen)))
    \<and> (sint mlen < 0 \<longrightarrow> drop 20 data' = drop 20 data \<and> (0 < n \<longrightarrow> sint mlen < 88 - 2 ^ 31))"
proof (cases "0 < sint mlen \<and> sint mlen mod 64 = 0")
  case True
  then show ?thesis using decrypt_frame [OF assms] decrypt_payload [OF assms] by simp
next
  case False
  show ?thesis
  proof (cases "sint mlen < 0")
    case True
    then show ?thesis using decrypt_negative [OF assms] by simp
  next
    case pos: False
    then have "sint mlen = 0 \<or> (0 < sint mlen \<and> sint mlen mod 64 \<noteq> 0)" using False by linarith
    then show ?thesis using decrypt_refuses_length [of mlen st data] assms pos by simp
  qed
qed

lemma ead_decrypt_bounds_witness:
  "\<exists>c mlen n d r pad. ead_decrypt_message (ead_set_key BE (replicate 40 0) zero_crypt) c mlen = Some (n, d, r)
    \<and> n \<noteq> 0 \<and> 0 \<le> pad \<and> pad < 64 \<and> n + 25 + pad = sint mlen
    \<and> drop (nat (sint mlen)) d = drop (nat (sint mlen)) c"
proof -
  let ?k = "ead_set_key BE (replicate 40 0) zero_crypt"
  have iv: "ead_rx_iv ?k < fst (ead_get_tx_iv ?k)" "fst (ead_get_tx_iv ?k) \<le> ead_rx_iv ?k + EAD_MAX_IV_INCR"
    unfolding zero_key_iv by (simp_all add: EAD_MAX_IV_INCR_def)
  have sp: "5 + 88 \<le> length (replicate 100 (7 :: u8))" "length (replicate 100 (7 :: u8)) < 2 ^ 31" by simp_all
  obtain c mlen d r where acc: "ead_decrypt_message ?k c mlen = Some (int 5, d, r)" "0 \<le> sint mlen"
    using ead_roundtrip_aux [OF set_key_ctx(1) set_key_ctx(2) sp iv] by blast
  from ead_decrypt_bounds [OF acc(1)] acc(2) obtain pad where "0 \<le> pad" "pad < 64" "int 5 + 25 + pad = sint mlen"
    "drop (nat (sint mlen)) d = drop (nat (sint mlen)) c" by auto
  with acc(1) show ?thesis by fastforce
qed

end
