(* ===== verification/Block_Hash.thy ===== *)
theory Block_Hash
  imports Contracts
begin

text \<open>
  What the contexts of the two hash functions of the emergency access daemon (SHA-1 in
  \<open>tinysrp/t_sha.c\<close>, MD5 in \<open>pw_encrypt_md5.c\<close>) share: they count the bits of the message in two
  words, keep the bytes of an incomplete block, and hand whole blocks of 64 bytes to a transform.
\<close>

section \<open>The loop over whole blocks\<close>

text \<open>The state and the index behind the last whole block of \<open>data\<close>, from index \<open>i\<close> on. The sum of the
  test has 32 bits; once a block was read, \<open>i + 64\<close> is within \<open>data\<close> and does not wrap.
  \<^term>\<open>None\<close> is a block that is not within \<open>data\<close>.\<close>

function block_loop :: "('s \<Rightarrow> bytes \<Rightarrow> 's) \<Rightarrow> 's \<Rightarrow> bytes \<Rightarrow> nat \<Rightarrow> ('s \<times> nat) option" where
  "block_loop transform st data i =
     (if (i + 63) mod 2 ^ 32 < length data then
        (if i + 64 \<le> length data then block_loop transform (transform st (take 64 (drop i data))) data (i + 64)
         else None)
      else Some (st, i))"
  by pat_completeness auto
termination
  by (relation "measure (\<lambda>(transform, st, data, i). length data - i)") auto

declare block_loop.simps [simp del]

text \<open>\<open>memcpy\<close> into the 64 bytes of the block of a context; \<^term>\<open>None\<close> when it runs past them.\<close>

definition buf_put :: "bytes \<Rightarrow> nat \<Rightarrow> bytes \<Rightarrow> bytes" where
  "buf_put buf j xs = take j buf @ xs @ drop (j + length xs) buf"

definition buf_copy :: "bytes \<Rightarrow> nat \<Rightarrow> bytes \<Rightarrow> bytes option" where
  "buf_copy buf j xs = (if j + length xs \<le> 64 then Some (buf_put buf j xs) else None)"

text \<open>The pieces of a message one after the other.\<close>

fun feed :: "('c \<Rightarrow> bytes \<Rightarrow> 'c option) \<Rightarrow> 'c \<Rightarrow> bytes list \<Rightarrow> 'c option" where
  "feed update c [] = Some c"
| "feed update c (d # ds) = (case update c d of None \<Rightarrow> None | Some c \<Rightarrow> feed update c ds)"

lemma block_loop_cong:
  "(\<And>s b. length b = 64 \<Longrightarrow> f s b = g s b) \<Longrightarrow> block_loop f st data i = block_loop g st data i"
proof (induction "length data - i" arbitrary: st i rule: less_induct)
  case less
  show ?case
  proof (cases "i + 64 \<le> length data")
    case True
    then have "block_loop f (g st (take 64 (drop i data))) data (i + 64)
        = block_loop g (g st (take 64 (drop i data))) data (i + 64)"
      using less.prems by (intro less.hyps) auto
    moreover have "f st (take 64 (drop i data)) = g st (take 64 (drop i data))" using True less.prems by simp
    ultimately have "(if (i + 63) mod 2 ^ 32 < length data then
        (if i + 64 \<le> length data then block_loop f (f st (take 64 (drop i data))) data (i + 64) else None) else Some (st, i))
      = (if (i + 63) mod 2 ^ 32 < length data then
        (if i + 64 \<le> length data then block_loop g (g st (take 64 (drop i data))) data (i + 64) else None) else Some (st, i))"
      by simp
    then show ?thesis by (simp only: block_loop.simps [of _ st])
  qed (subst (1 2) block_loop.simps, simp)
qed

lemma below_wrap: "j < 64 \<Longrightarrow> n \<le> 2 ^ 32 - 64 \<Longrightarrow> j + n < (2 :: nat) ^ 32"
  by simp

text \<open>The test on the right side of the wrap: with \<open>j\<close> bytes in the context, the sum does not wrap as
  long as \<open>j\<close> and the length of the piece do not.\<close>

lemma index_wraps_not:
  assumes "64 dvd i + j" and "j < 64" and "i \<le> n" and "j + n < 2 ^ 32"
  shows "(i + 63) mod 2 ^ 32 = i + (63 :: nat)"
proof -
  obtain k where k: "i + j = 64 * k" using assms(1) by (rule dvdE)
  then have "64 * k < 2 ^ 32" using assms(3,4) by linarith
  then have "k < 2 ^ 26" by simp
  then have "64 * k + 64 \<le> 2 ^ 32" by simp
  then have "i + 63 < 2 ^ 32" using k by linarith
  then show ?thesis by simp
qed

lemma block_loop_defined:
  "64 dvd i + j \<Longrightarrow> j < 64 \<Longrightarrow> i \<le> length data \<Longrightarrow> j + length data < 2 ^ 32 \<Longrightarrow>
   \<exists>st' i'. block_loop f st data i = Some (st', i') \<and> i' \<le> length data \<and> length data < i' + 64"
proof (induction "length data - i" arbitrary: st i rule: less_induct)
  case less
  note w = index_wraps_not [OF less.prems]
  show ?case
  proof (cases "i + 64 \<le> length data")
    case True
    have d: "64 dvd i + 64 + j" using less.prems(1) dvd_add [of 64 "i + j" 64] by (simp add: ac_simps)
    have "\<exists>st' i'. block_loop f (f st (take 64 (drop i data))) data (i + 64) = Some (st', i') \<and> i' \<le> length data \<and> length data < i' + 64"
      by (rule less.hyps) (use True d less.prems in auto)
    then show ?thesis using True w by (subst block_loop.simps) simp
  next
    case False
    then show ?thesis using w less.prems(3) by (subst block_loop.simps) simp
  qed
qed

text \<open>A piece with which the sum wraps: the loop runs past its end.\<close>

lemma block_loop_overrun:
  "64 dvd i + j \<Longrightarrow> j < 64 \<Longrightarrow> i \<le> length data \<Longrightarrow> length data < 2 ^ 32 \<Longrightarrow> 2 ^ 32 \<le> j + length data \<Longrightarrow> block_loop f st data i = None"
proof (induction "length data - i" arbitrary: st i rule: less_induct)
  case less
  show ?case
  proof (cases "i + 64 \<le> length data")
    case True
    have d: "64 dvd i + 64 + j" using less.prems(1) dvd_add [of 64 "i + j" 64] by (simp add: ac_simps)
    have "block_loop f (f st (take 64 (drop i data))) data (i + 64) = None"
      by (rule less.hyps) (use True d less.prems in auto)
    moreover have "(i + 63) mod 2 ^ 32 = i + 63" using True less.prems(4) by simp
    ultimately show ?thesis using True by (subst block_loop.simps) simp
  next
    case False
    obtain k where k: "i + j = 64 * k" using less.prems(1) by (rule dvdE)
    have "2 ^ 32 < i + j + 64" using False less.prems(5) by linarith
    then have "2 ^ 26 < k + 1" using k by simp
    then have "2 ^ 32 \<le> i + j" using k by simp
    then have o: "2 ^ 32 \<le> i + 63" using less.prems(2) by linarith
    have "i + 63 < 2 * 2 ^ 32" using less.prems(3,4) by simp
    then have "(i + 63) mod 2 ^ 32 = i + 63 - 2 ^ 32" using o by (simp add: mod_if)
    moreover have "i + 63 - 2 ^ 32 < length data" using o less.prems by simp
    ultimately show ?thesis using False by (subst block_loop.simps) simp
  qed
qed

section \<open>The bit counters\<close>

lemma mod_div_8: "n mod 2 ^ 32 div 8 mod 64 = n div 8 mod 64" for n :: nat
proof -
  have "n mod 2 ^ 32 div 8 = drop_bit 3 (take_bit 32 n)"
    by (simp add: drop_bit_eq_div take_bit_eq_mod)
  also have "\<dots> = take_bit 29 (drop_bit 3 n)" by (simp add: drop_bit_take_bit)
  also have "\<dots> = n div 8 mod 2 ^ 29" by (simp add: drop_bit_eq_div take_bit_eq_mod)
  finally show ?thesis by (simp add: mod_mod_cancel)
qed

lemma and_63: "(x :: u32) AND 63 = take_bit 6 x"
proof -
  have "(63 :: u32) = mask 6" by (simp add: mask_eq_exp_minus_1)
  then show ?thesis by (simp only: take_bit_eq_mask)
qed

lemma buf_index: "unat (drop_bit 3 (c :: u32) AND 63) = unat c div 8 mod 64"
proof -
  have "unat (take_bit 6 (drop_bit 3 c)) = take_bit 6 (unat (drop_bit 3 c))" by (rule unsigned_take_bit_eq)
  then show ?thesis by (simp add: and_63 take_bit_eq_mod unat_drop_bit)
qed

lemma count_update:
  fixes c0 c1 :: u32
  assumes "unat c0 + 2 ^ 32 * unat c1 = 8 * m" and "n < 2 ^ 32" and "m + n < 2 ^ 61"
  defines "l \<equiv> push_bit 3 (of_nat n :: u32)"
  shows "unat (c0 + l) + 2 ^ 32 * unat ((if c0 + l < l then c1 + 1 else c1) + drop_bit 29 (of_nat n :: u32)) = 8 * (m + n)"
proof -
  have un: "unat (of_nat n :: u32) = n" by (rule unat_of_nat_u32 [OF assms(2)])
  have l: "unat l = 8 * n mod 2 ^ 32"
    unfolding l_def unsigned_push_bit_eq un by (simp add: push_bit_eq_mult take_bit_eq_mod mult.commute)
  have h: "unat (drop_bit 29 (of_nat n :: u32)) = 8 * n div 2 ^ 32"
    unfolding unat_drop_bit un by (simp add: div_mult2_eq [of "8 * n" 8 "2 ^ 29", simplified])
  have split: "8 * n = 2 ^ 32 * (8 * n div 2 ^ 32) + unat l" unfolding l by (rule mult_div_mod_eq [symmetric])
  have a: "unat c0 < 2 ^ 32" "unat l < 2 ^ 32" using unsigned_less [of c0, where 'a = nat] unsigned_less [of l, where 'a = nat] by simp_all
  have s: "unat (c0 + l) = (unat c0 + unat l) mod 2 ^ 32" by (simp add: unat_word_ariths)
  have carry: "c0 + l < l \<longleftrightarrow> 2 ^ 32 \<le> unat c0 + unat l"
  proof (cases "2 ^ 32 \<le> unat c0 + unat l")
    case True
    then have "(unat c0 + unat l) mod 2 ^ 32 = unat c0 + unat l - 2 ^ 32"
      using a by (simp add: mod_if)
    then show ?thesis using True a s by (simp add: word_less_nat_alt)
  next
    case False
    then have "(unat c0 + unat l) mod 2 ^ 32 = unat c0 + unat l" by simp
    then show ?thesis using False s by (simp add: word_less_nat_alt)
  qed
  define k where "k = (if c0 + l < l then 1 else 0 :: nat)"
  have low: "unat (c0 + l) + 2 ^ 32 * k = unat c0 + unat l"
    unfolding s k_def carry using a by (auto simp: mod_if)
  have total: "unat (c0 + l) + 2 ^ 32 * (unat c1 + k + 8 * n div 2 ^ 32) = 8 * (m + n)"
    using low split assms(1) by (simp only: distrib_left)
  then have "2 ^ 32 * (unat c1 + k + 8 * n div 2 ^ 32) < 2 ^ 64" using assms(3) by simp
  then have small: "unat c1 + k + 8 * n div 2 ^ 32 < 2 ^ 32" by simp
  have "unat ((if c0 + l < l then c1 + 1 else c1) + drop_bit 29 (of_nat n :: u32)) = unat c1 + k + 8 * n div 2 ^ 32"
  proof -
    have "(if c0 + l < l then c1 + 1 else c1) + drop_bit 29 (of_nat n :: u32) = of_nat (unat c1 + k + 8 * n div 2 ^ 32)"
      unfolding h [symmetric] by (simp add: k_def)
    then show ?thesis using unat_of_nat_u32 [OF small] by simp
  qed
  then show ?thesis using total by simp
qed

lemma div_mod_64: "n = 64 * q + r \<Longrightarrow> r < 64 \<Longrightarrow> n div 64 = q \<and> n mod 64 = r" for n :: nat
  by simp

lemma next_block: "64 * q + r = m \<Longrightarrow> r < 64 \<Longrightarrow> 64 * Suc q = m + (64 - r)" for q r m :: nat
  by simp

section \<open>Contexts\<close>

text \<open>\<open>block\<close> is the reference for the transform of one block; \<open>st\<close>, \<open>lo\<close>, \<open>hi\<close> and \<open>buf\<close> read a
  context, \<open>update\<close> feeds it.\<close>

locale block_hash =
  fixes block :: "'s \<Rightarrow> bytes \<Rightarrow> 's"
    and init :: 's
    and st :: "'c \<Rightarrow> 's"
    and lo :: "'c \<Rightarrow> u32"
    and hi :: "'c \<Rightarrow> u32"
    and buf :: "'c \<Rightarrow> bytes"
    and update :: "'c \<Rightarrow> bytes \<Rightarrow> 'c option"
  assumes update_lo: "update c d = Some c' \<Longrightarrow> lo c' = lo c + push_bit 3 (of_nat (length d))"
    and update_hi: "update c d = Some c' \<Longrightarrow> hi c' =
      (if lo c + push_bit 3 (of_nat (length d)) < push_bit 3 (of_nat (length d)) then hi c + 1 else hi c)
        + drop_bit 29 (of_nat (length d))"
    and update_few: "j = unat (drop_bit 3 (lo c) AND 63) \<Longrightarrow> j + length d \<le> 63 \<Longrightarrow>
      \<exists>c'. update c d = Some c' \<and> st c' = st c \<and> buf c' = buf_put (buf c) j d"
    and update_blocks: "j = unat (drop_bit 3 (lo c) AND 63) \<Longrightarrow> 63 < j + length d \<Longrightarrow> j + length d < 2 ^ 32 \<Longrightarrow>
      length (buf c) = 64 \<Longrightarrow> b = buf_put (buf c) j (take (64 - j) d) \<Longrightarrow>
      block_loop block (block (st c) b) d (64 - j) = Some (s, i) \<Longrightarrow> length d \<le> i + 64 \<Longrightarrow>
      \<exists>c'. update c d = Some c' \<and> st c' = s \<and> buf c' = buf_put b 0 (drop i d)"
begin

definition absorb :: "bytes \<Rightarrow> nat \<Rightarrow> 's" where
  "absorb M n = foldl (\<lambda>s i. block s (take 64 (drop (64 * i) M))) init [0..<n]"

lemma absorb_Suc: "absorb M (Suc n) = block (absorb M n) (take 64 (drop (64 * n) M))"
  by (simp add: absorb_def)

lemma absorb_append: "64 * n \<le> length M \<Longrightarrow> absorb (M @ d) n = absorb M n"
  by (induction n) (simp_all add: absorb_def)

text \<open>A context holds the message \<open>M\<close>.\<close>

definition absorbed :: "'c \<Rightarrow> bytes \<Rightarrow> bool" where
  "absorbed ctx M \<longleftrightarrow> st ctx = absorb M (length M div 64)
     \<and> unat (lo ctx) + 2 ^ 32 * unat (hi ctx) = 8 * length M
     \<and> length (buf ctx) = 64
     \<and> take (length M mod 64) (buf ctx) = drop (64 * (length M div 64)) M"

lemma absorbed_init: "length (buf ctx) = 64 \<Longrightarrow> st ctx = init \<Longrightarrow> lo ctx = 0 \<Longrightarrow> hi ctx = 0 \<Longrightarrow> absorbed ctx []"
  by (simp add: absorbed_def absorb_def)

lemma absorbed_index: "absorbed ctx M \<Longrightarrow> unat (drop_bit 3 (lo ctx) AND 63) = length M mod 64"
proof -
  assume "absorbed ctx M"
  then have "unat (lo ctx) + 2 ^ 32 * unat (hi ctx) = 8 * length M" by (simp add: absorbed_def)
  moreover have "unat (lo ctx) < 2 ^ 32" using unsigned_less [of "lo ctx", where 'a = nat] by simp
  ultimately have "unat (lo ctx) = 8 * length M mod 2 ^ 32" by (metis mod_less mod_mult_self2)
  then show ?thesis unfolding buf_index by (simp only: mod_div_8) simp
qed

lemma block_loop_absorb:
  "64 * k = length M + i \<Longrightarrow> i \<le> length d \<Longrightarrow> length M mod 64 + length d < 2 ^ 32 \<Longrightarrow>
   block_loop block (absorb (M @ d) k) d i =
     Some (absorb (M @ d) ((length M + length d) div 64), 64 * ((length M + length d) div 64) - length M)"
proof (induction "length d - i" arbitrary: k i rule: less_induct)
  case less
  have "length M + i = 64 * (length M div 64) + (i + length M mod 64)" by simp
  then have "64 * k = 64 * (length M div 64) + (i + length M mod 64)" using less.prems(1) by linarith
  then have "64 dvd i + length M mod 64" by (metis dvd_add_right_iff dvd_triv_left)
  note w = index_wraps_not [OF this _ less.prems(2,3)]
  show ?case
  proof (cases "i + 63 < length d")
    case True
    have b: "take 64 (drop i d) = take 64 (drop (64 * k) (M @ d))" using less.prems by simp
    have "block_loop block (absorb (M @ d) (Suc k)) d (i + 64) =
        Some (absorb (M @ d) ((length M + length d) div 64), 64 * ((length M + length d) div 64) - length M)"
      by (rule less.hyps) (use True less.prems in simp_all)
    then show ?thesis
      using True w by (subst block_loop.simps) (simp add: absorb_Suc b)
  next
    case False
    have "length M + length d = 64 * k + (length d - i)" using less.prems by simp
    moreover have "length d - i < 64" using False by simp
    ultimately have "(length M + length d) div 64 = k" by simp
    then show ?thesis using False less.prems w by (subst block_loop.simps) simp
  qed
qed

lemma absorbed_update:
  assumes c: "absorbed ctx M" and room: "length M mod 64 + length d < 2 ^ 32" and "length M + length d < 2 ^ 61"
  shows "\<exists>ctx'. update ctx d = Some ctx' \<and> absorbed ctx' (M @ d)"
proof -
  let ?q = "length M div 64" and ?j = "length M mod 64"
  have len: "length M = 64 * ?q + ?j" by simp
  have j: "?j < 64" by simp
  note I = c [unfolded absorbed_def]
  have cnt: "unat (lo ctx') + 2 ^ 32 * unat (hi ctx') = 8 * length (M @ d)" if "update ctx d = Some ctx'" for ctx'
    unfolding update_lo [OF that] update_hi [OF that] length_append by (rule count_update) (use I assms(2,3) in auto)
  show ?thesis
  proof (cases "?j + length d > 63")
    case False
    have q: "length (M @ d) div 64 = ?q" "length (M @ d) mod 64 = ?j + length d"
      using div_mod_64 [of "length (M @ d)" ?q "?j + length d"] len False by simp_all
    obtain ctx' where st: "st ctx' = st ctx" "buf ctx' = buf_put (buf ctx) ?j d" and u: "update ctx d = Some ctx'"
      using update_few [of ?j ctx d] False absorbed_index [OF c] by auto
    have "take (?j + length d) (buf_put (buf ctx) ?j d) = drop (64 * ?q) M @ d"
      using I False minus_mult_div_eq_mod [of "length M" 64] by (simp add: buf_put_def)
    then have "absorbed ctx' (M @ d)"
      unfolding absorbed_def q st using cnt [OF u] I False absorb_append [of ?q M d]
      by (simp add: buf_put_def)
    then show ?thesis using u by blast
  next
    case True
    define b where "b = buf_put (buf ctx) ?j (take (64 - ?j) d)"
    let ?q' = "(length M + length d) div 64"
    have "b = drop (64 * ?q) M @ take (64 - ?j) d"
      using I True j by (simp add: b_def buf_put_def)
    also have "\<dots> = take 64 (drop (64 * ?q) (M @ d))"
    proof -
      have "64 - (length M - 64 * ?q) = 64 - ?j" by (simp only: minus_mult_div_eq_mod)
      then show ?thesis using j by (simp add: minus_mult_div_eq_mod)
    qed
    finally have b: "b = take 64 (drop (64 * ?q) (M @ d))" .
    have lb: "length b = 64" using I True j by (simp add: b_def buf_put_def)
    have t: "block (st ctx) b = absorb (M @ d) (Suc ?q)"
      using I absorb_append [of ?q M d] unfolding absorb_Suc b by simp
    have i1: "64 * Suc ?q = length M + (64 - ?j)" by (rule next_block) (simp_all add: j)
    have i2: "64 - ?j \<le> length d" using True by linarith
    note i = i1 i2
    have r: "length d - (64 * ?q' - length M) = (length M + length d) mod 64" "length M \<le> 64 * ?q'"
      "length (drop (64 * ?q' - length M) d) \<le> 64"
    proof -
      have "64 * Suc ?q \<le> length M + length d" using i by linarith
      then have "Suc ?q \<le> ?q'" by (simp add: less_eq_div_iff_mult_less_eq)
      then show m: "length M \<le> 64 * ?q'" using i by linarith
      have "64 * ?q' + (length M + length d) mod 64 = length M + length d" by simp
      then show "length d - (64 * ?q' - length M) = (length M + length d) mod 64" using m by linarith
      then show "length (drop (64 * ?q' - length M) d) \<le> 64" by simp
    qed
    obtain ctx' where u: "update ctx d = Some ctx'" and st: "st ctx' = absorb (M @ d) ?q'"
      "buf ctx' = buf_put b 0 (drop (64 * ?q' - length M) d)"
    proof -
      have l: "length d \<le> 64 * ?q' - length M + 64" using r(3) by simp
      have "63 < ?j + length d" using True by simp
      from update_blocks [OF absorbed_index [OF c, symmetric] this room _ b_def block_loop_absorb [OF i room, folded t] l] I that
      show thesis by blast
    qed
    have "take ((length M + length d) mod 64) (buf_put b 0 (drop (64 * ?q' - length M) d)) = drop (64 * ?q') (M @ d)"
      using r by (simp add: buf_put_def)
    moreover have "length (buf_put b 0 (drop (64 * ?q' - length M) d)) = 64"
      using lb r(3) by (simp add: buf_put_def)
    ultimately have "absorbed ctx' (M @ d)" using cnt [OF u] st by (simp add: absorbed_def)
    then show ?thesis using u by blast
  qed
qed

lemma absorbed_counts:
  assumes "absorbed ctx M" and "8 * length M < 2 ^ 64"
  shows "hi ctx = of_nat (8 * length M div 2 ^ 32)" and "lo ctx = of_nat (8 * length M)"
proof -
  have c: "8 * length M = unat (lo ctx) + 2 ^ 32 * unat (hi ctx)" using assms(1) by (simp add: absorbed_def)
  have l: "unat (lo ctx) < 2 ^ 32" using unsigned_less [of "lo ctx", where 'a = nat] by simp
  have "8 * length M div 2 ^ 32 = unat (hi ctx)" unfolding c using l by simp
  then show "hi ctx = of_nat (8 * length M div 2 ^ 32)" by simp
  have "(of_nat (8 * length M) :: u32) = of_nat (unat (lo ctx)) + 2 ^ 32 * of_nat (unat (hi ctx))"
    unfolding c by (simp only: of_nat_add of_nat_mult of_nat_power of_nat_numeral)
  moreover have "(2 :: u32) ^ 32 = 0" by simp
  ultimately have "(of_nat (8 * length M) :: u32) = of_nat (unat (lo ctx)) + 0 * of_nat (unat (hi ctx))"
    by (simp only:)
  then show "lo ctx = of_nat (8 * length M)" by simp
qed

text \<open>The piece as the callers feed it, far shorter than the bound.\<close>

lemma absorbed_the:
  assumes "absorbed ctx M" and "length d \<le> 2 ^ 32 - 64" and "length M + length d < 2 ^ 61"
  shows "absorbed (the (update ctx d)) (M @ d)"
proof -
  have "length M mod 64 + length d < 2 ^ 32" using assms(2) by (rule below_wrap [rotated]) simp
  then show ?thesis using absorbed_update [OF assms(1) _ assms(3)] by auto
qed

lemma absorbed_pieces:
  "absorbed ctx M \<Longrightarrow> \<forall>c \<in> set cs. length c \<le> 2 ^ 32 - 64 \<Longrightarrow> length M + length (concat cs) < 2 ^ 61 \<Longrightarrow>
   \<exists>ctx'. feed update ctx cs = Some ctx' \<and> absorbed ctx' (M @ concat cs)"
proof (induction cs arbitrary: ctx M)
  case (Cons c cs)
  have "length M mod 64 + length c < 2 ^ 32" by (rule below_wrap) (use Cons.prems(2) in simp_all)
  then obtain c1 where c1: "update ctx c = Some c1" "absorbed c1 (M @ c)"
    using absorbed_update [OF Cons.prems(1), of c] Cons.prems(3) by auto
  then show ?case using Cons.IH [of c1 "M @ c"] Cons.prems by simp
qed simp

end

end
