(* ===== verification/Tsha.thy ===== *)
theory Tsha
  imports Block_Hash Prelude Sha1
begin

text \<open>
  \<open>package/network/services/ead/src/tinysrp/t_sha.c\<close>: the SHA-1 contexts of the SRP library, as
  configured (\<open>SHA1HANDSOFF\<close>; \<open>WORDS_BIGENDIAN\<close> exactly on big-endian hosts, the parameter \<open>e\<close>).
  The sixteen words of the block are overwritten during the rounds. The five working variables are a
  tuple in the order in which a round names them; a round hands them on rotated by one place.
\<close>

definition rol :: "u32 \<Rightarrow> nat \<Rightarrow> u32" where
  "rol value bits = push_bit bits value OR drop_bit (32 - bits) value"

definition blk0 :: "endian \<Rightarrow> u32 list \<Rightarrow> nat \<Rightarrow> u32 list" where
  "blk0 e l i =
     (case e of BE \<Rightarrow> l
      | LE \<Rightarrow> l[i := (rol (l ! i) 24 AND 0xFF00FF00) OR (rol (l ! i) 8 AND 0x00FF00FF)])"

definition blk :: "u32 list \<Rightarrow> nat \<Rightarrow> u32 list" where
  "blk l i = l[i mod 16 :=
     rol (l ! ((i + 13) mod 16) XOR l ! ((i + 8) mod 16) XOR l ! ((i + 2) mod 16) XOR l ! (i mod 16)) 1]"

definition mix :: "u32 \<Rightarrow> u32 \<Rightarrow> u32 \<Rightarrow> u32" where "mix w x y = (w AND (x XOR y)) XOR y"
definition parity :: "u32 \<Rightarrow> u32 \<Rightarrow> u32 \<Rightarrow> u32" where "parity w x y = w XOR x XOR y"
definition major :: "u32 \<Rightarrow> u32 \<Rightarrow> u32 \<Rightarrow> u32" where "major w x y = ((w OR x) AND y) OR (w AND x)"

text \<open>The macros \<open>R0\<close> to \<open>R4\<close>: the block word comes from \<open>blk0\<close> in \<open>R0\<close>, else from \<open>blk\<close>.\<close>

definition R :: "(u32 \<Rightarrow> u32 \<Rightarrow> u32 \<Rightarrow> u32) \<Rightarrow> u32 \<Rightarrow> (u32 list \<Rightarrow> nat \<Rightarrow> u32 list)
    \<Rightarrow> u32 list \<times> digest \<Rightarrow> nat \<Rightarrow> u32 list \<times> digest" where
  "R f K blk_i = (\<lambda>(l, v, w, x, y, z) i.
     let l = blk_i l i
     in (l, z + (f w x y + l ! (i mod 16) + K + rol v 5), v, rol w 30, x, y))"

definition SHA1Transform :: "endian \<Rightarrow> digest \<Rightarrow> bytes \<Rightarrow> digest" where
  "SHA1Transform e state buffer =
     (let l = map (\<lambda>i. dec32 e (take 4 (drop (4 * i) buffer))) [0..<16];
          s = (l, state);
          s = foldl (R mix 0x5A827999 (blk0 e)) s [0..<16];
          s = foldl (R mix 0x5A827999 blk) s [16..<20];
          s = foldl (R parity 0x6ED9EBA1 blk) s [20..<40];
          s = foldl (R major 0x8F1BBCDC blk) s [40..<60];
          s = foldl (R parity 0xCA62C1D6 blk) s [60..<80]
      in case (state, snd s) of ((h0, h1, h2, h3, h4), (v, w, x, y, z)) \<Rightarrow>
           (h0 + v, h1 + w, h2 + x, h3 + y, h4 + z))"

record sha_ctx =
  c_state :: digest
  c_count0 :: u32
  c_count1 :: u32
  c_buffer :: bytes

text \<open>\<open>SHA1Init\<close> leaves the buffer alone.\<close>

definition SHA1Init :: "sha_ctx \<Rightarrow> sha_ctx" where
  "SHA1Init ctx = ctx\<lparr>c_state := (0x67452301, 0xEFCDAB89, 0x98BADCFE, 0x10325476, 0xC3D2E1F0),
                      c_count0 := 0, c_count1 := 0\<rparr>"

text \<open>The test \<open>(j + len) > 63\<close> and the one of the loop are on sums of 32 bits. \<^term>\<open>None\<close> is an access
  outside \<open>buffer\<close> or \<open>data\<close>.\<close>

definition SHA1Update :: "endian \<Rightarrow> sha_ctx \<Rightarrow> bytes \<Rightarrow> sha_ctx option" where
  "SHA1Update e ctx data =
     (let len = (of_nat (length data) :: u32);
          j = unat (drop_bit 3 (c_count0 ctx) AND 63);
          count0 = c_count0 ctx + push_bit 3 len;
          count1 = (if count0 < push_bit 3 len then c_count1 ctx + 1 else c_count1 ctx) + drop_bit 29 len;
          ctx = ctx\<lparr>c_count0 := count0, c_count1 := count1\<rparr>
      in do {
        (ctx, i, j) \<leftarrow>
          (if (j + length data) mod 2 ^ 32 > 63 then do {
             buf \<leftarrow> buf_copy (c_buffer ctx) j (take (64 - j) data);
             (st, i) \<leftarrow> block_loop (SHA1Transform e) (SHA1Transform e (c_state ctx) buf) data (64 - j);
             Some (ctx\<lparr>c_state := st, c_buffer := buf\<rparr>, i, 0) }
           else Some (ctx, 0, j));
        buf \<leftarrow> buf_copy (c_buffer ctx) j (drop i data);
        Some (ctx\<lparr>c_buffer := buf\<rparr>) })"

text \<open>The update as the rest of the program uses it, on pieces of a few hundred bytes, where it has a
  value (\<open>SHA1Update_defined\<close>).\<close>

definition sha_upd :: "endian \<Rightarrow> sha_ctx \<Rightarrow> bytes \<Rightarrow> sha_ctx" where
  "sha_upd e ctx data = the (SHA1Update e ctx data)"

lemma update_count0: "SHA1Update e ctx data = Some ctx' \<Longrightarrow> c_count0 ctx' = c_count0 ctx + push_bit 3 (of_nat (length data))"
  by (auto simp: SHA1Update_def Let_def bind_eq_Some_conv split: if_splits)

lemma buf_index_less: "unat (drop_bit 3 (c :: u32) AND 63) < 64"
  unfolding buf_index by simp

text \<open>The update has a value exactly when the index in the block and the length do not overflow 32 bits
  together.\<close>

lemma SHA1Update_defined:
  assumes "unat (drop_bit 3 (c_count0 ctx) AND 63) + length data < 2 ^ 32"
  shows "\<exists>ctx'. SHA1Update e ctx data = Some ctx'"
proof -
  define j where "j = unat (drop_bit 3 (c_count0 ctx) AND 63)"
  have j: "j < 64" unfolding j_def by (rule buf_index_less)
  have m: "(j + length data) mod 2 ^ 32 = j + length data" using assms by (simp add: j_def)
  show ?thesis
  proof (cases "63 < j + length data")
    case True
    define buf where "buf = buf_put (c_buffer ctx) j (take (64 - j) data)"
    obtain st i where b: "block_loop (SHA1Transform e) (SHA1Transform e (c_state ctx) buf) data (64 - j) = Some (st, i)"
      "length data < i + 64"
    proof -
      have "64 dvd 64 - j + j" "64 - j \<le> length data" using j True by simp_all
      from block_loop_defined [OF this(1) j this(2) assms [folded j_def], of "SHA1Transform e" "SHA1Transform e (c_state ctx) buf"]
      obtain st i where "block_loop (SHA1Transform e) (SHA1Transform e (c_state ctx) buf) data (64 - j) = Some (st, i)"
        "length data < i + 64" by blast
      then show thesis by (rule that)
    qed
    have "buf_copy (c_buffer ctx) j (take (64 - j) data) = Some buf" using j by (simp add: buf_copy_def buf_def)
    moreover have "buf_copy buf 0 (drop i data) = Some (buf_put buf 0 (drop i data))" using b(2) by (simp add: buf_copy_def)
    ultimately show ?thesis unfolding SHA1Update_def Let_def j_def [symmetric] m using True b(1) by simp
  next
    case False
    then show ?thesis unfolding SHA1Update_def Let_def j_def [symmetric] m by (simp add: buf_copy_def)
  qed
qed

lemma SHA1Update_overrun:
  assumes "length data < 2 ^ 32" and "2 ^ 32 \<le> unat (drop_bit 3 (c_count0 ctx) AND 63) + length data"
  shows "SHA1Update e ctx data = None"
proof -
  define j where "j = unat (drop_bit 3 (c_count0 ctx) AND 63)"
  have j: "j < 64" unfolding j_def by (rule buf_index_less)
  have a: "2 ^ 32 \<le> j + length data" using assms(2) by (simp add: j_def)
  have "(j + length data) mod 2 ^ 32 = j + length data - 2 ^ 32"
    using assms(1) a j by (simp add: mod_if)
  then have "\<not> 63 < (j + length data) mod 2 ^ 32" using assms(1) j by simp
  moreover have "buf_copy (c_buffer ctx) j data = None" using a by (auto simp: buf_copy_def)
  ultimately show ?thesis unfolding SHA1Update_def Let_def j_def [symmetric] by simp
qed

lemma sha_upd_count0:
  assumes "length data \<le> 2 ^ 32 - 64"
  shows "c_count0 (sha_upd e ctx data) = c_count0 ctx + push_bit 3 (of_nat (length data))"
proof -
  have "unat (drop_bit 3 (c_count0 ctx) AND 63) + length data < 2 ^ 32"
    by (rule below_wrap [OF buf_index_less assms])
  then obtain ctx' where "SHA1Update e ctx data = Some ctx'" using SHA1Update_defined by blast
  then show ?thesis using update_count0 by (simp add: sha_upd_def)
qed

lemma count_504: "(c :: u32) AND 504 = 448 \<longleftrightarrow> unat c div 8 mod 64 = 56"
proof -
  have c: "c AND 504 = push_bit 3 (take_bit 6 (drop_bit 3 c))"
  proof (rule bit_word_eqI)
    fix n assume "n < LENGTH(32)"
    have "(504 :: u32) = push_bit 3 (mask 6)" by (simp add: mask_eq_exp_minus_1 push_bit_eq_mult)
    then have "bit (504 :: u32) n = bit (push_bit 3 (mask 6) :: u32) n" by (rule arg_cong)
    also have "\<dots> = (3 \<le> n \<and> n < 9)" using \<open>n < LENGTH(32)\<close> by (auto simp: bit_simps)
    finally show "bit (c AND 504) n = bit (push_bit 3 (take_bit 6 (drop_bit 3 c))) n"
      using \<open>n < LENGTH(32)\<close> by (auto simp: bit_simps)
  qed
  have "push_bit 3 x = (448 :: u32) \<longleftrightarrow> unat x = 56" if "unat x < 64" for x :: u32
  proof -
    have "unat (push_bit 3 x) = 8 * unat x"
      using that by (simp add: push_bit_eq_mult unat_mult_lem [THEN iffD1] unat_word_ariths)
    then show ?thesis using word_unat_eq_iff [of "push_bit 3 x" 448] by simp
  qed
  then have "push_bit 3 (drop_bit 3 c AND 63) = (448 :: u32) \<longleftrightarrow> unat c div 8 mod 64 = 56"
    by (metis buf_index mod_less_divisor zero_less_numeral)
  then show ?thesis by (simp only: c and_63)
qed

lemma pad_dist: "k < 64 \<Longrightarrow> (120 - k) mod 64 = (if k \<le> 56 then 56 - k else 120 - k)" for k :: nat
proof (cases "k \<le> 56")
  case True
  then have "120 - k = 56 - k + 64" by simp
  then show ?thesis using True by (simp only: mod_add_self2) simp
qed simp

lemma pad_dist_step: "j < 64 \<Longrightarrow> j \<noteq> 56 \<Longrightarrow> (120 - j) mod 64 = Suc ((120 - (j + 1) mod 64) mod 64)" for j :: nat
  using pad_dist [of j] pad_dist [of "j + 1"] by (cases "j = 63") auto

text \<open>The padding loop of \<open>SHA1Final\<close>; the position in the block moves towards 56.\<close>

function pad_loop :: "endian \<Rightarrow> sha_ctx \<Rightarrow> sha_ctx" where
  "pad_loop e ctx = (if c_count0 ctx AND 504 \<noteq> 448 then pad_loop e (sha_upd e ctx [0]) else ctx)"
  by pat_completeness auto
termination
proof (relation "measure (\<lambda>(e, ctx). (120 - unat (c_count0 ctx) div 8 mod 64) mod 64)", goal_cases)
  case (2 e ctx)
  define a where "a = unat (c_count0 ctx)"
  have "unat (c_count0 (sha_upd e ctx [0])) = (a + 8) mod 2 ^ 32"
    by (simp add: sha_upd_count0 unat_word_ariths a_def)
  then have "unat (c_count0 (sha_upd e ctx [0])) div 8 mod 64 = (a div 8 mod 64 + 1) mod 64"
    by (simp only: mod_div_8 div_add_self2 mod_Suc_eq Suc_eq_plus1 [symmetric])
  moreover have "a div 8 mod 64 \<noteq> 56" using 2 by (simp add: count_504 a_def)
  ultimately show ?case using pad_dist_step [of "a div 8 mod 64"] by (simp add: a_def)
qed simp

declare pad_loop.simps [simp del]

text \<open>\<open>SHA1Final\<close>: the digest, and the context, which is wiped before one more transform runs on it.\<close>

definition SHA1Final :: "endian \<Rightarrow> sha_ctx \<Rightarrow> bytes \<times> sha_ctx" where
  "SHA1Final e ctx =
     (let finalcount = be32 (c_count1 ctx) @ be32 (c_count0 ctx);
          ctx = sha_upd e ctx [0x80];
          ctx = pad_loop e ctx;
          ctx = sha_upd e ctx finalcount
      in (case c_state ctx of (h0, h1, h2, h3, h4) \<Rightarrow> be32 h0 @ be32 h1 @ be32 h2 @ be32 h3 @ be32 h4,
          ctx\<lparr>c_state := SHA1Transform e (0, 0, 0, 0, 0) (replicate 64 0), c_count0 := 0, c_count1 := 0, c_buffer := replicate 64 0\<rparr>))"

end
