(* ===== verification/Tsha_Laws.thy ===== *)
theory Tsha_Laws
  imports Tsha Word_Bytes
begin

text \<open>
  Laws of the SHA-1 contexts: the unrolled transform is the block step of FIPS 180-1 on either byte
  order, and a context that was fed any sequence of pieces gives the SHA-1 digest of their
  concatenation.
\<close>

section \<open>The transform\<close>

lemma rol_rol32: "rol = rol32"
  by (intro ext) (simp add: rol_def rol32_def)

lemma funs_fips: "mix = f1" "parity = f2" "major B C D = (B AND C) OR (B AND D) OR (C AND D)"
proof -
  show "mix = f1" by (intro ext bit_word_eqI) (auto simp: mix_def f1_def bit_simps)
  show "parity = f2" by (intro ext) (simp add: parity_def f2_def)
  show "major B C D = (B AND C) OR (B AND D) OR (C AND D)"
    by (rule bit_word_eqI) (auto simp: major_def bit_simps)
qed

lemma rol_pk: "rol (pk a b c d) 8 = pk b c d a" "rol (pk a b c d) 24 = pk d a b c"
  by (rule bit_word_eqI; auto simp: rol_def bit_pk bit_simps bit_byte)+

lemma swap_word:
  "(rol (of_be32 [d, c, b, a]) 24 AND 0xFF00FF00) OR (rol (of_be32 [d, c, b, a]) 8 AND 0x00FF00FF) = of_be32 [a, b, c, d]"
proof -
  have m: "(0xFF00FF00 :: u32) = pk 0xff 0 0xff 0" "(0x00FF00FF :: u32) = pk 0 0xff 0 0xff"
    by (simp_all add: pk_def)
  show ?thesis
    unfolding pk_def [symmetric] m rol_pk pk_and pk_or by simp
qed

lemma blk0_word:
  assumes "i < 16" and "length l = 16" and "l ! i = dec32 e bs" and "length bs = 4"
  shows "blk0 e l i ! i = of_be32 bs" and "length (blk0 e l i) = 16"
    and "j \<noteq> i \<Longrightarrow> blk0 e l i ! j = l ! j"
proof -
  obtain a b c d where bs: "bs = [a, b, c, d]" using assms(4) by (auto simp: length_Suc_conv numeral_eq_Suc)
  show "blk0 e l i ! i = of_be32 bs"
    using assms bs swap_word by (cases e) (simp_all add: blk0_def dec32_def)
qed (cases e; simp add: blk0_def assms(2))+

text \<open>Before round \<open>i\<close> the block holds the message words of the last sixteen rounds, and behind them
  the words that have not been read yet.\<close>

definition ring :: "endian \<Rightarrow> bytes \<Rightarrow> u32 list \<Rightarrow> nat \<Rightarrow> bool" where
  "ring e M l i \<longleftrightarrow> length l = 16 \<and> (\<forall>j. j < i \<and> i \<le> j + 16 \<longrightarrow> l ! (j mod 16) = fips_W M j)
     \<and> (\<forall>j. i \<le> j \<and> j < 16 \<longrightarrow> l ! j = dec32 e (take 4 (drop (4 * j) M)))"

lemma mod_16_neq: "j < i \<Longrightarrow> i < j + 16 \<Longrightarrow> i mod 16 \<noteq> j mod (16 :: nat)"
proof
  assume "j < i" "i < j + 16" "i mod 16 = j mod 16"
  then have "16 dvd i - j" by (simp add: mod_eq_dvd_iff_nat)
  then show False using \<open>j < i\<close> \<open>i < j + 16\<close> by (auto dest: dvd_imp_le)
qed

lemma ring_blk0:
  assumes "ring e M l i" and i: "i < 16" and "length M = 64"
  shows "ring e M (blk0 e l i) (Suc i) \<and> blk0 e l i ! (i mod 16) = fips_W M i"
proof -
  have l: "length l = 16" "l ! i = dec32 e (take 4 (drop (4 * i) M))" using assms by (auto simp: ring_def)
  have lt: "length (take 4 (drop (4 * i) M)) = 4" using i assms(3) by simp
  note b = blk0_word [OF i l lt]
  have w: "blk0 e l i ! i = fips_W M i" using b(1) i by (simp add: fips_W.simps [of M i])
  have "blk0 e l i ! (j mod 16) = fips_W M j" if "j < Suc i" "Suc i \<le> j + 16" for j
    using that w i b(3) [of j] assms(1) by (cases "j = i") (auto simp: ring_def)
  then show ?thesis
    using assms(1) w i b(2,3) by (auto simp: ring_def)
qed

lemma ring_blk:
  assumes "ring e M l i" and i: "16 \<le> i"
  shows "ring e M (blk l i) (Suc i) \<and> blk l i ! (i mod 16) = fips_W M i"
proof -
  have l: "length l = 16" and w: "\<And>j. j < i \<Longrightarrow> i \<le> j + 16 \<Longrightarrow> l ! (j mod 16) = fips_W M j"
    using assms(1) by (auto simp: ring_def)
  have m: "(i + 13) mod 16 = (i - 3) mod 16" "(i + 8) mod 16 = (i - 8) mod 16" "(i + 2) mod 16 = (i - 14) mod 16"
    "i mod 16 = (i - 16) mod 16"
    using i by (simp_all add: mod_eq_dvd_iff_nat [symmetric] mod_eq_dvd_iff_nat)
  have v: "l ! ((i + 13) mod 16) = fips_W M (i - 3)" "l ! ((i + 8) mod 16) = fips_W M (i - 8)"
    "l ! ((i + 2) mod 16) = fips_W M (i - 14)" "l ! (i mod 16) = fips_W M (i - 16)"
    using i m(4) by (auto simp only: m(1-3) intro!: w)
  have new: "blk l i ! (i mod 16) = fips_W M i"
    using i l v by (simp add: blk_def rol_rol32 rol32_rotl fips_W.simps [of M i])
  have "blk l i ! (j mod 16) = fips_W M j" if "j < Suc i" "Suc i \<le> j + 16" for j
  proof (cases "j = i")
    case False
    then have "i mod 16 \<noteq> j mod 16" using that by (intro mod_16_neq) auto
    then show ?thesis using that False w by (simp add: blk_def)
  qed (use new in simp)
  then show ?thesis using new l i by (auto simp: ring_def blk_def)
qed

lemma R_fips:
  assumes "length M = 64" and "ring e M l i" and "if i < 16 then bl = blk0 e else bl = blk"
    and "f = fips_f i" and "K = fips_K i"
  shows "snd (R f K bl (l, s) i) = fips_step M s i \<and> ring e M (fst (R f K bl (l, s) i)) (Suc i)"
proof -
  have "ring e M (bl l i) (Suc i) \<and> bl l i ! (i mod 16) = fips_W M i"
    using ring_blk0 [OF assms(2) _ assms(1)] ring_blk [OF assms(2)] assms(3) by (cases "i < 16") auto
  then show ?thesis
    by (cases s) (simp add: R_def Let_def fips_step_def assms(4,5) rol_rol32 rol32_rotl ac_simps)
qed

lemma R_fold:
  assumes "length M = 64" and "\<And>i. j \<le> i \<Longrightarrow> i < k \<Longrightarrow> (if i < 16 then bl = blk0 e else bl = blk) \<and> f = fips_f i \<and> K = fips_K i"
    and "ring e M (fst ls) j" and "j \<le> k"
  shows "snd (foldl (R f K bl) ls [j..<k]) = foldl (fips_step M) (snd ls) [j..<k]
    \<and> ring e M (fst (foldl (R f K bl) ls [j..<k])) k"
  using assms(4,2)
proof (induction k rule: dec_induct)
  case base
  then show ?case using assms(3) by simp
next
  case (step k)
  then have IH: "snd (foldl (R f K bl) ls [j..<k]) = foldl (fips_step M) (snd ls) [j..<k]"
    "ring e M (fst (foldl (R f K bl) ls [j..<k])) k" by auto
  have "(if k < 16 then bl = blk0 e else bl = blk) \<and> f = fips_f k \<and> K = fips_K k" using step by auto
  then have "snd (R f K bl (foldl (R f K bl) ls [j..<k]) k) = fips_step M (foldl (fips_step M) (snd ls) [j..<k]) k
      \<and> ring e M (fst (R f K bl (foldl (R f K bl) ls [j..<k]) k)) (Suc k)"
    using R_fips [OF assms(1) IH(2), of bl f K] IH(1) by (metis prod.collapse)
  then show ?case using step(1) by simp
qed

lemma SHA1Transform_fips:
  assumes M: "length M = 64"
  shows "SHA1Transform e st M = fips_block st M"
proof -
  let ?l = "map (\<lambda>i. dec32 e (take 4 (drop (4 * i) M))) [0..<16]"
  have r0: "ring e M ?l 0" by (simp add: ring_def)
  have f: "t < 20 \<Longrightarrow> mix = fips_f t" "20 \<le> t \<Longrightarrow> t < 40 \<Longrightarrow> parity = fips_f t"
    "40 \<le> t \<Longrightarrow> t < 60 \<Longrightarrow> major = fips_f t" "60 \<le> t \<Longrightarrow> parity = fips_f t" for t
    by (auto intro!: ext simp: fips_f_def funs_fips f1_fips f2_def)
  define s1 where "s1 = foldl (R mix 0x5A827999 (blk0 e)) (?l, st) [0..<16]"
  define s2 where "s2 = foldl (R mix 0x5A827999 blk) s1 [16..<20]"
  define s3 where "s3 = foldl (R parity 0x6ED9EBA1 blk) s2 [20..<40]"
  define s4 where "s4 = foldl (R major 0x8F1BBCDC blk) s3 [40..<60]"
  define s5 where "s5 = foldl (R parity 0xCA62C1D6 blk) s4 [60..<80]"
  note fold = R_fold [OF M]
  have h1: "snd s1 = foldl (fips_step M) st [0..<16] \<and> ring e M (fst s1) 16"
    unfolding s1_def using fold [of 0 16 "blk0 e" e mix _ "(?l, st)"] r0 f(1) by (simp add: fips_K_def)
  have h2: "snd s2 = foldl (fips_step M) (snd s1) [16..<20] \<and> ring e M (fst s2) 20"
    unfolding s2_def by (rule fold) (use h1 f(1) in \<open>auto simp: fips_K_def\<close>)
  have h3: "snd s3 = foldl (fips_step M) (snd s2) [20..<40] \<and> ring e M (fst s3) 40"
    unfolding s3_def by (rule fold) (use h2 f(2) in \<open>auto simp: fips_K_def\<close>)
  have h4: "snd s4 = foldl (fips_step M) (snd s3) [40..<60] \<and> ring e M (fst s4) 60"
    unfolding s4_def by (rule fold) (use h3 f(3) in \<open>auto simp: fips_K_def\<close>)
  have h5: "snd s5 = foldl (fips_step M) (snd s4) [60..<80]"
    unfolding s5_def using fold [of 60 80 blk e parity _ s4] h4 f(4) by (auto simp: fips_K_def)
  have a: "i \<le> j \<Longrightarrow> [i..<j + k] = [i..<j] @ [j..<j + k]" for i j k :: nat by (rule upt_add_eq_append)
  have "[0..<80] = [0..<16] @ [16..<20] @ [20..<40] @ [40..<60] @ [60..<80::nat]"
    using a [of 0 16 64] a [of 16 20 60] a [of 20 40 40] a [of 40 60 20] by simp
  then have "snd s5 = foldl (fips_step M) st [0..<80]"
    using h1 h2 h3 h4 h5 by (simp only: foldl_append)
  then show ?thesis
    unfolding SHA1Transform_def Let_def fips_block_def s1_def [symmetric] s2_def [symmetric] s3_def [symmetric]
      s4_def [symmetric] s5_def [symmetric] by simp
qed

section \<open>Absorbing a message\<close>

lemma update_count1: "SHA1Update e ctx data = Some ctx' \<Longrightarrow> c_count1 ctx' =
    (if c_count0 ctx + push_bit 3 (of_nat (length data)) < push_bit 3 (of_nat (length data))
     then c_count1 ctx + 1 else c_count1 ctx) + drop_bit 29 (of_nat (length data))"
  by (auto simp: SHA1Update_def Let_def bind_eq_Some_conv split: if_splits)

lemma SHA1Update_few:
  assumes "j = unat (drop_bit 3 (c_count0 ctx) AND 63)" and "j + length d \<le> 63"
  shows "\<exists>ctx'. SHA1Update e ctx d = Some ctx' \<and> c_state ctx' = c_state ctx \<and> c_buffer ctx' = buf_put (c_buffer ctx) j d"
  using assms(2) unfolding SHA1Update_def Let_def assms(1) [symmetric] by (simp add: buf_copy_def)

lemma SHA1Update_blocks:
  assumes j: "j = unat (drop_bit 3 (c_count0 ctx) AND 63)" and long: "63 < j + length d" and room: "j + length d < 2 ^ 32"
    and "length (c_buffer ctx) = 64" and b: "b = buf_put (c_buffer ctx) j (take (64 - j) d)"
    and loop: "block_loop fips_block (fips_block (c_state ctx) b) d (64 - j) = Some (s, i)" and i: "length d \<le> i + 64"
  shows "\<exists>ctx'. SHA1Update e ctx d = Some ctx' \<and> c_state ctx' = s \<and> c_buffer ctx' = buf_put b 0 (drop i d)"
proof -
  have "j < 64" unfolding j by (rule buf_index_less)
  then have lb: "length b = 64" using long assms(4) by (simp add: b buf_put_def)
  have "(j + length d) mod 2 ^ 32 = j + length d" using room by simp
  moreover have "block_loop (SHA1Transform e) (SHA1Transform e (c_state ctx) b) d (64 - j) = Some (s, i)"
    using block_loop_cong [OF SHA1Transform_fips] loop by (simp add: SHA1Transform_fips [OF lb])
  moreover have "buf_copy (c_buffer ctx) j (take (64 - j) d) = Some b" using \<open>j < 64\<close> by (simp add: buf_copy_def b)
  moreover have "buf_copy b 0 (drop i d) = Some (buf_put b 0 (drop i d))" using i by (simp add: buf_copy_def)
  ultimately show ?thesis using long unfolding SHA1Update_def Let_def j [symmetric] by simp
qed

interpretation sha: block_hash fips_block sha_init c_state c_count0 c_count1 c_buffer "SHA1Update e" for e
  by unfold_locales (erule update_count0 update_count1 | erule (1) SHA1Update_few | rule SHA1Update_blocks; assumption)+

abbreviation sha_inv :: "sha_ctx \<Rightarrow> bytes \<Rightarrow> bool" where
  "sha_inv \<equiv> sha.absorbed"

lemma sha_inv_update:
  "sha_inv ctx M \<Longrightarrow> length d \<le> 2 ^ 32 - 64 \<Longrightarrow> length M + length d < 2 ^ 61 \<Longrightarrow> sha_inv (sha_upd e ctx d) (M @ d)"
  unfolding sha_upd_def by (rule sha.absorbed_the)

lemmas absorb_def = sha.absorb_def

lemma sha_inv_init: "length (c_buffer ctx) = 64 \<Longrightarrow> sha_inv (SHA1Init ctx) []"
  by (rule sha.absorbed_init) (simp_all add: SHA1Init_def sha_init_def)

section \<open>The digest\<close>

text \<open>Padding and digest of FIPS 180-1 for a message of whole bytes.\<close>

definition sha_pad :: "bytes \<Rightarrow> bytes" where
  "sha_pad M = M @ [0x80] @ replicate ((119 - length M mod 64) mod 64) 0
     @ be32 (of_nat (8 * length M div 2 ^ 32)) @ be32 (of_nat (8 * length M))"

definition digest_bytes :: "digest \<Rightarrow> bytes" where
  "digest_bytes = (\<lambda>(h0, h1, h2, h3, h4). be32 h0 @ be32 h1 @ be32 h2 @ be32 h3 @ be32 h4)"

definition fips_sha1 :: "bytes \<Rightarrow> bytes" where
  "fips_sha1 M = digest_bytes (sha.absorb (sha_pad M) (length (sha_pad M) div 64))"

lemma sha_inv_504: "sha_inv ctx M \<Longrightarrow> c_count0 ctx AND 504 = 448 \<longleftrightarrow> length M mod 64 = 56"
  using sha.absorbed_index [of ctx M] by (simp add: count_504 buf_index)

lemma pad_loop_zeros:
  "sha_inv ctx M \<Longrightarrow> length M + (120 - length M mod 64) mod 64 < 2 ^ 61 \<Longrightarrow>
   sha_inv (pad_loop e ctx) (M @ replicate ((120 - length M mod 64) mod 64) 0)"
proof (induction "(120 - length M mod 64) mod 64" arbitrary: ctx M)
  case 0
  then have "length M mod 64 = 56" using pad_dist [of "length M mod 64"] by (simp split: if_splits)
  then show ?case using 0 sha_inv_504 [of ctx M] by (subst pad_loop.simps) simp
next
  case (Suc k)
  then have n: "length M mod 64 \<noteq> 56" by auto
  have k: "k = (120 - length (M @ [0 :: u8]) mod 64) mod 64"
    using Suc.hyps(2) pad_dist_step [OF _ n] by (simp add: mod_Suc_eq)
  have "sha_inv (sha_upd e ctx [0]) (M @ [0])"
    using Suc.prems Suc.hyps(2) by (intro sha_inv_update) auto
  then have "sha_inv (pad_loop e (sha_upd e ctx [0])) ((M @ [0]) @ replicate k 0)"
    using Suc.hyps(1) [OF k, of "sha_upd e ctx [0]"] Suc.prems(2) Suc.hyps(2) k by simp
  moreover have "replicate ((120 - length M mod 64) mod 64) (0 :: u8) = 0 # replicate k 0"
    using Suc.hyps(2) by (metis replicate_Suc)
  ultimately show ?case
    using n sha_inv_504 [OF Suc.prems(1)] by (subst pad_loop.simps) simp
qed

lemma sha_final:
  assumes "sha_inv ctx M" and "length M + 200 < 2 ^ 61"
  shows "fst (SHA1Final e ctx) = fips_sha1 M"
proof -
  let ?fc = "be32 (c_count1 ctx) @ be32 (c_count0 ctx)"
  let ?z = "(119 - length M mod 64) mod 64"
  have z: "(120 - length (M @ [0x80 :: u8]) mod 64) mod 64 = ?z"
  proof -
    have "(length M + 1) mod 64 = (length M mod 64 + 1) mod 64" by (simp add: mod_simps)
    then show ?thesis by (cases "length M mod 64 = 63") (simp_all add: mod_Suc)
  qed
  have "sha_inv (sha_upd e ctx [0x80]) (M @ [0x80])"
    using assms by (intro sha_inv_update) auto
  then have "sha_inv (pad_loop e (sha_upd e ctx [0x80])) ((M @ [0x80]) @ replicate ?z 0)"
    using pad_loop_zeros [of "sha_upd e ctx [0x80]" "M @ [0x80]" e] assms(2) z by simp
  then have "sha_inv (sha_upd e (pad_loop e (sha_upd e ctx [0x80])) ?fc) (((M @ [0x80]) @ replicate ?z 0) @ ?fc)"
    using assms(2) by (intro sha_inv_update) auto
  moreover have "((M @ [0x80]) @ replicate ?z 0) @ ?fc = sha_pad M"
    using sha.absorbed_counts [OF assms(1)] assms(2) by (simp add: sha_pad_def)
  ultimately have "sha_inv (sha_upd e (pad_loop e (sha_upd e ctx [0x80])) ?fc) (sha_pad M)" by (simp only:)
  then have "c_state (sha_upd e (pad_loop e (sha_upd e ctx [0x80])) ?fc) = sha.absorb (sha_pad M) (length (sha_pad M) div 64)"
    unfolding sha.absorbed_def by (rule conjunct1)
  then show ?thesis by (simp add: SHA1Final_def Let_def fips_sha1_def digest_bytes_def)
qed

text \<open>C34. The pieces in which a message reaches the hash do not matter, nor does the byte order of the
  host: initialising a context, feeding it the pieces and finishing it gives the SHA-1 digest (FIPS
  180-1, with padding and length) of the concatenation, and no update leaves the buffers. The pieces
  have at most 2^32 - 64 bytes, all together less than 2^61 - 200; with a longer piece the 32-bit sum
  of the update can wrap (\<open>SHA1Update_overrun\<close>).\<close>

theorem sha_stream_fips:
  assumes "length (c_buffer ctx) = 64" and "\<forall>c \<in> set cs. length c \<le> 2 ^ 32 - 64"
    and "length (concat cs) + 200 < 2 ^ 61"
  shows "\<exists>ctx'. feed (SHA1Update e) (SHA1Init ctx) cs = Some ctx' \<and> fst (SHA1Final e ctx') = fips_sha1 (concat cs)"
proof -
  obtain ctx' where "feed (SHA1Update e) (SHA1Init ctx) cs = Some ctx'" "sha_inv ctx' ([] @ concat cs)"
    using sha.absorbed_pieces [OF sha_inv_init [OF assms(1)] assms(2), of e] assms(3) by auto
  then show ?thesis using sha_final [of ctx' "concat cs"] assms(3) by auto
qed

lemma sha_stream_fips_witness:
  "\<exists>ctx'. feed (SHA1Update LE) (SHA1Init \<lparr>c_state = (0, 0, 0, 0, 0), c_count0 = 0, c_count1 = 0,
     c_buffer = replicate 64 0\<rparr>) [[97], [98, 99]] = Some ctx' \<and> fst (SHA1Final LE ctx') = fips_sha1 [97, 98, 99]"
  using sha_stream_fips [of "\<lparr>c_state = (0, 0, 0, 0, 0), c_count0 = 0, c_count1 = 0, c_buffer = replicate 64 0\<rparr>"
      "[[97], [98, 99]]" LE] by simp

end
