(* ===== verification/Srp.thy ===== *)
theory Srp
  imports Prelude Tsha
begin

text \<open>
  The SRP library of the emergency access daemon, \<open>package/network/services/ead/src/tinysrp\<close>:
  \<open>t_math.c\<close> (numbers), \<open>t_misc.c\<close> (\<open>t_sessionkey\<close>), \<open>t_server.c\<close> and \<open>t_client.c\<close>.

  A \<open>BIGNUM\<close> is a natural number; the arithmetic below \<open>t_math.c\<close> is taken as exact. A \<open>t_num\<close> is
  its bytes. Random numbers are arguments: the bytes \<open>t_random\<close> stores. \<open>raw\<close> is the content of a
  hash context before \<open>SHA1Init\<close>; allocations succeed. \<open>e\<close> is the byte order of the host.
\<close>

section \<open>Numbers\<close>

fun BigIntegerFromBytes :: "bytes \<Rightarrow> nat" where
  "BigIntegerFromBytes bs = foldl (\<lambda>n b. 256 * n + unat b) 0 bs"

function BigIntegerToBytes :: "nat \<Rightarrow> bytes" where
  "BigIntegerToBytes n = (if n = 0 then [] else BigIntegerToBytes (n div 256) @ [of_nat (n mod 256)])"
  by pat_completeness auto
termination
  by (relation "measure id") auto

declare BigIntegerFromBytes.simps [simp del] BigIntegerToBytes.simps [simp del]

definition BigIntegerAdd :: "nat \<Rightarrow> nat \<Rightarrow> nat" where "BigIntegerAdd a b = a + b"
definition BigIntegerSub :: "nat \<Rightarrow> nat \<Rightarrow> nat" where "BigIntegerSub a b = a - b"
definition BigIntegerMulInt :: "nat \<Rightarrow> u32 \<Rightarrow> nat" where "BigIntegerMulInt a b = a * unat b"
definition BigIntegerModMul :: "nat \<Rightarrow> nat \<Rightarrow> nat \<Rightarrow> nat" where "BigIntegerModMul a b m = a * b mod m"
definition BigIntegerModExp :: "nat \<Rightarrow> nat \<Rightarrow> nat \<Rightarrow> nat" where "BigIntegerModExp b x m = b ^ x mod m"
definition BigIntegerModExpInt :: "nat \<Rightarrow> u32 \<Rightarrow> nat \<Rightarrow> nat" where
  "BigIntegerModExpInt b x m = b ^ unat x mod m"

section \<open>Session key\<close>

definition sha_of :: "endian \<Rightarrow> sha_ctx \<Rightarrow> bytes list \<Rightarrow> bytes" where
  "sha_of e raw ps = fst (SHA1Final e (foldl (sha_upd e) (SHA1Init raw) ps))"

text \<open>\<open>t_sessionkey\<close>: without leading zeros, every other byte from the end; the two digests
  interleaved.\<close>

definition interleave :: "bytes \<Rightarrow> bytes \<Rightarrow> bytes" where
  "interleave xs ys = concat (map2 (\<lambda>x y. [x, y]) xs ys)"

definition t_sessionkey :: "endian \<Rightarrow> sha_ctx \<Rightarrow> bytes \<Rightarrow> bytes" where
  "t_sessionkey e raw sk =
     (let sk = dropWhile (\<lambda>b. b = 0) sk;
          sklen = length sk;
          klen = sklen div 2
      in interleave (sha_of e raw [map (\<lambda>i. sk ! (sklen - 2 * i - 1)) [0..<klen]])
                    (sha_of e raw [map (\<lambda>i. sk ! (sklen - 2 * i - 2)) [0..<klen]]))"

section \<open>Server\<close>

record t_confent =
  modulus :: bytes
  generator :: bytes

record t_pwent =
  pw_name :: bytes
  pw_password :: bytes
  pw_salt :: bytes

record t_server =
  ts_n :: bytes
  ts_g :: bytes
  ts_v :: bytes
  ts_s :: bytes
  ts_b :: bytes
  ts_B :: bytes
  ts_oldhash :: sha_ctx
  ts_hash :: sha_ctx
  ts_oldckhash :: sha_ctx
  ts_ckhash :: sha_ctx
  ts_session_key :: bytes
  ts_session_response :: bytes

definition BLEN :: nat where "BLEN = 32"

text \<open>The digest of modulus and generator and the digest of the name, as both sides start with.\<close>

definition group_digest :: "endian \<Rightarrow> sha_ctx \<Rightarrow> bytes \<Rightarrow> bytes \<Rightarrow> bytes" where
  "group_digest e raw n g = map2 (XOR) (sha_of e raw [n]) (sha_of e raw [g])"

definition t_serveropenraw :: "endian \<Rightarrow> sha_ctx \<Rightarrow> t_pwent \<Rightarrow> t_confent \<Rightarrow> t_server" where
  "t_serveropenraw e raw ent tce =
     (let ck = SHA1Init raw;
          ck = sha_upd e ck (group_digest e raw (modulus tce) (generator tce));
          ck = sha_upd e ck (sha_of e raw [pw_name ent]);
          ck = sha_upd e ck (pw_salt ent)
      in \<lparr>ts_n = modulus tce, ts_g = generator tce, ts_v = pw_password ent, ts_s = pw_salt ent, ts_b = [], ts_B = [],
          ts_oldhash = SHA1Init raw, ts_hash = SHA1Init raw, ts_oldckhash = SHA1Init raw, ts_ckhash = ck,
          ts_session_key = [], ts_session_response = []\<rparr>)"

definition t_servergenexp :: "endian \<Rightarrow> bytes \<Rightarrow> t_server \<Rightarrow> t_server" where
  "t_servergenexp e rnd ts =
     (let blen = (if length (ts_n ts) < BLEN then length (ts_n ts) else BLEN);
          bb = take blen rnd;
          b = BigIntegerFromBytes bb; n = BigIntegerFromBytes (ts_n ts); g = BigIntegerFromBytes (ts_g ts);
          B = BigIntegerModExp g b n;
          v = BigIntegerFromBytes (ts_v ts);
          B = BigIntegerAdd B v;
          B = (if B > n then BigIntegerSub B n else B);
          Bb = BigIntegerToBytes B
      in ts\<lparr>ts_b := bb, ts_B := Bb, ts_oldckhash := sha_upd e (ts_oldckhash ts) Bb\<rparr>)"

definition scramble :: "endian \<Rightarrow> sha_ctx \<Rightarrow> bytes \<Rightarrow> u32" where
  "scramble e raw B = of_be32 (take 4 (sha_of e raw [B]))"

text \<open>\<open>t_servergetkey\<close>: the server afterwards and the key, \<^term>\<open>None\<close> for NULL.\<close>

definition t_servergetkey :: "endian \<Rightarrow> sha_ctx \<Rightarrow> bytes \<Rightarrow> t_server \<Rightarrow> t_server \<times> bytes option" where
  "t_servergetkey e raw clientval ts =
     (let ck = sha_upd e (sha_upd e (ts_ckhash ts) clientval) (ts_B ts);
          u = scramble e raw (ts_B ts);
          ts = ts\<lparr>ts_ckhash := ck, ts_oldhash := sha_upd e (ts_oldhash ts) clientval,
                  ts_hash := sha_upd e (ts_hash ts) clientval\<rparr>;
          n = BigIntegerFromBytes (ts_n ts); b = BigIntegerFromBytes (ts_b ts);
          v = BigIntegerFromBytes (ts_v ts); A = BigIntegerFromBytes clientval;
          prod = BigIntegerModExpInt v u n;
          res = BigIntegerModMul prod A n
      in if res \<le> 1 then (ts, None)
         else if BigIntegerAdd res 1 = n then (ts, None)
         else
           (let S = BigIntegerModExp res b n;
                key = t_sessionkey e raw (BigIntegerToBytes S)
            in (ts\<lparr>ts_session_key := key, ts_oldhash := sha_upd e (ts_oldhash ts) key,
                   ts_oldckhash := sha_upd e (ts_oldckhash ts) key, ts_ckhash := sha_upd e (ts_ckhash ts) key\<rparr>,
                Some key)))"

text \<open>\<open>t_serververify\<close>: whether 0 is returned. The old form of the response is tried first.\<close>

definition t_serververify :: "endian \<Rightarrow> bytes \<Rightarrow> t_server \<Rightarrow> t_server \<times> bool" where
  "t_serververify e resp ts =
     (let (expected, ctx) = SHA1Final e (ts_oldckhash ts); ts = ts\<lparr>ts_oldckhash := ctx\<rparr>
      in if expected = resp then
           (let (r, ctx) = SHA1Final e (ts_oldhash ts)
            in (ts\<lparr>ts_session_response := r, ts_oldhash := ctx\<rparr>, True))
         else
           (let (expected, ctx) = SHA1Final e (ts_ckhash ts); ts = ts\<lparr>ts_ckhash := ctx\<rparr>
            in if expected = resp then
                 (let (r, ctx) = SHA1Final e (sha_upd e (sha_upd e (ts_hash ts) expected) (ts_session_key ts))
                  in (ts\<lparr>ts_session_response := r, ts_hash := ctx\<rparr>, True))
               else (ts, False)))"

definition t_serverresponse :: "t_server \<Rightarrow> bytes" where
  "t_serverresponse ts = ts_session_response ts"

section \<open>Client\<close>

record t_client =
  tc_username :: bytes
  tc_n :: bytes
  tc_g :: bytes
  tc_s :: bytes
  tc_a :: bytes
  tc_A :: bytes
  tc_p :: bytes
  tc_v :: bytes
  tc_hash :: sha_ctx
  tc_ckhash :: sha_ctx
  tc_session_key :: bytes
  tc_session_response :: bytes

definition ALEN :: nat where "ALEN = 32"
definition MIN_MOD_BYTES :: nat where "MIN_MOD_BYTES = 64"
definition MAXUSERLEN :: nat where "MAXUSERLEN = 32"

text \<open>\<open>t_clientopen\<close>; \<open>pre\<close> are the built-in groups. A name of 32 bytes or more is refused by no one
  but leaves the field without a terminator: the model then has no value.\<close>

definition t_clientopen ::
    "endian \<Rightarrow> sha_ctx \<Rightarrow> t_confent list \<Rightarrow> bytes \<Rightarrow> bytes \<Rightarrow> bytes \<Rightarrow> bytes \<Rightarrow> t_client option option" where
  "t_clientopen e raw pre u n g s =
     (if length n < MIN_MOD_BYTES then Some None
      else if \<not> list_ex (\<lambda>tpc. modulus tpc = n \<and> generator tpc = g) pre then Some None
      else if length u \<ge> MAXUSERLEN then None
      else
        (let h = SHA1Init raw;
             h = sha_upd e h (group_digest e raw n g);
             h = sha_upd e h (sha_of e raw [u]);
             h = sha_upd e h s
         in Some (Some \<lparr>tc_username = u, tc_n = n, tc_g = g, tc_s = s, tc_a = [], tc_A = [], tc_p = [], tc_v = [],
                        tc_hash = h, tc_ckhash = SHA1Init raw, tc_session_key = [], tc_session_response = []\<rparr>)))"

definition t_clientgenexp :: "endian \<Rightarrow> bytes \<Rightarrow> t_client \<Rightarrow> t_client" where
  "t_clientgenexp e rnd tc =
     (let alen = (if length (tc_n tc) < ALEN then length (tc_n tc) else ALEN);
          ab = take alen rnd;
          A = BigIntegerModExp (BigIntegerFromBytes (tc_g tc)) (BigIntegerFromBytes ab) (BigIntegerFromBytes (tc_n tc));
          Ab = BigIntegerToBytes A
      in tc\<lparr>tc_a := ab, tc_A := Ab, tc_hash := sha_upd e (tc_hash tc) Ab, tc_ckhash := sha_upd e (tc_ckhash tc) Ab\<rparr>)"

text \<open>The private value \<open>H(s, H(u, ":", p))\<close>, computed alike by the client and by the daemon.\<close>

definition password_digest :: "endian \<Rightarrow> sha_ctx \<Rightarrow> bytes \<Rightarrow> bytes \<Rightarrow> bytes \<Rightarrow> bytes" where
  "password_digest e raw s u p = sha_of e raw [s, sha_of e raw [u, [58], p]]"

definition t_clientpasswd :: "endian \<Rightarrow> sha_ctx \<Rightarrow> bytes \<Rightarrow> t_client \<Rightarrow> t_client" where
  "t_clientpasswd e raw password tc =
     (let n = BigIntegerFromBytes (tc_n tc); g = BigIntegerFromBytes (tc_g tc);
          p = BigIntegerFromBytes (password_digest e raw (tc_s tc) (tc_username tc) password);
          v = BigIntegerModExp g p n
      in tc\<lparr>tc_p := BigIntegerToBytes p, tc_v := BigIntegerToBytes v\<rparr>)"

definition t_clientgetkey :: "endian \<Rightarrow> sha_ctx \<Rightarrow> bytes \<Rightarrow> t_client \<Rightarrow> t_client \<times> bytes option" where
  "t_clientgetkey e raw serverval tc =
     (let u = scramble e raw serverval
      in if u = 0 then (tc, None)
         else
           (let tc = tc\<lparr>tc_hash := sha_upd e (tc_hash tc) serverval\<rparr>;
                B = BigIntegerFromBytes serverval; n = BigIntegerFromBytes (tc_n tc)
            in if B \<ge> n \<or> B = 0 then (tc, None)
               else
                 (let v = BigIntegerFromBytes (tc_v tc);
                      B = (if B < v then BigIntegerAdd B n else B);
                      B = BigIntegerSub B v;
                      a = BigIntegerFromBytes (tc_a tc); p = BigIntegerFromBytes (tc_p tc);
                      sum = BigIntegerAdd (BigIntegerMulInt p u) a;
                      S = BigIntegerModExp B sum n;
                      key = t_sessionkey e raw (BigIntegerToBytes S);
                      (r, ctx) = SHA1Final e (sha_upd e (tc_hash tc) key)
                  in (tc\<lparr>tc_session_key := key, tc_session_response := r, tc_hash := ctx,
                         tc_ckhash := sha_upd e (sha_upd e (tc_ckhash tc) r) key\<rparr>, Some key))))"

text \<open>\<open>t_clientverify\<close>: the client afterwards, whose hash is finished and wiped, and whether 0 is
  returned.\<close>

definition t_clientverify :: "endian \<Rightarrow> bytes \<Rightarrow> t_client \<Rightarrow> t_client \<times> bool" where
  "t_clientverify e resp tc =
     (let (my_resp, ctx) = SHA1Final e (tc_ckhash tc) in (tc\<lparr>tc_ckhash := ctx\<rparr>, my_resp = resp))"

definition t_clientresponse :: "t_client \<Rightarrow> bytes" where
  "t_clientresponse tc = tc_session_response tc"

end
