(* ===== verification/Sha1_Eval.thy ===== *)
theory Sha1_Eval
  imports Sha1
begin

text \<open>
  Evaluating the SHA-1 transform in the kernel: the workspace as a sliding window of sixteen words,
  and the digests of two one-byte messages, used by the concrete SRP session.
\<close>

section \<open>The workspace as a window\<close>

fun sha_window :: "nat \<Rightarrow> u32 list \<Rightarrow> u32 list" where
  "sha_window 0 w = w"
| "sha_window (Suc n) w = hd w # sha_window n (tl w @ [rol32 (w ! 13 XOR w ! 8 XOR w ! 2 XOR w ! 0) 1])"

lemma sha_extend_window:
  "length w = 16 \<Longrightarrow> foldl sha_extend (p @ w) [length p..<length p + n] = p @ sha_window n w"
proof (induction n arbitrary: p w)
  case (Suc n)
  have "[length p..<length p + Suc n] = length p # [Suc (length p)..<Suc (length p) + n]"
    by (simp add: upt_conv_Cons del: upt_Suc)
  moreover have "sha_extend (p @ w) (length p) = (p @ [hd w]) @ (tl w @ [rol32 (w ! 13 XOR w ! 8 XOR w ! 2 XOR w ! 0) 1])"
    using Suc.prems by (cases w) (simp_all add: sha_extend_def nth_append)
  ultimately show ?case
    using Suc.IH [of "tl w @ [rol32 (w ! 13 XOR w ! 8 XOR w ! 2 XOR w ! 0) 1]" "p @ [hd w]"] Suc.prems by simp
qed simp

lemma sha_transform_window:
  assumes "sha_window 64 (sha_load M) = W"
  shows "sha_transform dig M =
    (case (dig, foldl (sha_round f2 K4) (foldl (sha_round f3 K3) (foldl (sha_round f2 K2) (foldl (sha_round f1 K1) dig
       (take 20 W)) (take 20 (drop 20 W))) (take 20 (drop 40 W))) (take 20 (drop 60 W)))
     of ((h0, h1, h2, h3, h4), (a, b, c, d, e)) \<Rightarrow> (h0 + a, h1 + b, h2 + c, h3 + d, h4 + e))"
proof -
  have l: "length (sha_load M) = 16" by (simp add: sha_load_def)
  have W: "sha_schedule M = W"
    using sha_extend_window [OF l, of "[]" 64] assms by (simp add: sha_schedule_def)
  have "length (foldl sha_extend w ns) = length w + length ns" for w ns
    by (induction ns arbitrary: w) (simp_all add: sha_extend_def)
  then have "length W = 80" using W l by (auto simp: sha_schedule_def)
  then have "map ((!) W) [j..<j + 20] = take 20 (drop j W)" if "j + 20 \<le> 80" for j
    using that by (intro nth_equalityI) simp_all
  from this [of 0] this [of 20] this [of 40] this [of 60] show ?thesis
    by (simp only: sha_transform_def W Let_def) simp
qed

lemma sha_window_numeral: "sha_window (numeral k) w =
    hd w # sha_window (pred_numeral k) (tl w @ [rol32 (w ! 13 XOR w ! 8 XOR w ! 2 XOR w ! 0) 1])"
  by (simp add: numeral_eq_Suc)

section \<open>Two digests\<close>

lemma hash_7: "sha_transform sha_init ([7, 128] @ replicate 61 0 @ [8]) = (0x5d1be7e9, 0xdda1ee88, 0x96be5b7e, 0x34a85ee1, 0x6452a7b4)"
proof -
  let ?M = "[7, 128] @ replicate 61 0 @ [8]"
  have "sha_load ?M = [0x07800000, 0x00000000, 0x00000000, 0x00000000, 0x00000000, 0x00000000, 0x00000000, 0x00000000, 0x00000000, 0x00000000, 0x00000000, 0x00000000, 0x00000000, 0x00000000, 0x00000000, 0x00000008]"
    by (simp add: sha_load_def upt_rec nth_append)
  then have "sha_window 64 (sha_load ?M) =
    [0x07800000, 0x00000000, 0x00000000, 0x00000000, 0x00000000, 0x00000000, 0x00000000, 0x00000000, 0x00000000, 0x00000000, 0x00000000, 0x00000000, 0x00000000, 0x00000000, 0x00000000, 0x00000008, 0x0f000000, 0x00000000, 0x00000010, 0x1e000000, 0x00000000, 0x00000020, 0x3c000000, 0x00000010, 0x1e000040, 0x78000000, 0x00000000, 0x00000080, 0xf0000000, 0x00000050, 0x66000100, 0xe0000031, 0x22000000, 0x00000200, 0xc0000043, 0x78000140, 0x98000401, 0x80000047, 0x78000000, 0x00000840, 0x7800000f, 0x00000500, 0x60001006, 0x0000033e, 0x1c000002, 0x00002040, 0x7800047c, 0xf80014e7, 0x34004019, 0x00000478, 0x80000147, 0x98008441, 0xf80000f7, 0x00005200, 0xc0010065, 0x000032a0, 0x58000420, 0x80020447, 0xf80047c7, 0x8001463f, 0x3804019c, 0x000042c0, 0x1800047e, 0x80084747, 0xd8000f7d, 0x00050000, 0x00100260, 0x80033e07, 0x0000021c, 0x00204000, 0x00047c78, 0x0014e778, 0xf0401934, 0x00047c00, 0x80014687, 0xe0844799, 0x4000f7fc, 0x00520600, 0x410061c4, 0x8032af87]" (is "_ = ?W")
    by (simp only:) (simp add: sha_window_numeral rol32_def)
  note t = sha_transform_window [OF this, of sha_init]
  have r0: "foldl (sha_round f1 K1) (0x67452301, 0xefcdab89, 0x98badcfe, 0x10325476, 0xc3d2e1f0)
      (take 20 ?W) = (0x16595bad, 0xf5669bad, 0x37205dcc, 0x7a85ae5c, 0x1599a749)"
    by (simp add: sha_round_def f1_def K1_def rol32_def)
  have r1: "foldl (sha_round f2 K2) (0x16595bad, 0xf5669bad, 0x37205dcc, 0x7a85ae5c, 0x1599a749)
      (take 20 (drop 20 ?W)) = (0x83ee55d2, 0x9c0a52a3, 0xaddce0ff, 0x2b8734bc, 0x37fc0685)"
    by (simp add: sha_round_def f2_def K2_def rol32_def)
  have r2: "foldl (sha_round f3 K3) (0x83ee55d2, 0x9c0a52a3, 0xaddce0ff, 0x2b8734bc, 0x37fc0685)
      (take 20 (drop 40 ?W)) = (0xad66fae5, 0x2c2444a0, 0x192260f6, 0x05c749a3, 0x4772f293)"
    by (simp add: sha_round_def f3_def K3_def rol32_def)
  have r3: "foldl (sha_round f2 K4) (0xad66fae5, 0x2c2444a0, 0x192260f6, 0x05c749a3, 0x4772f293)
      (take 20 (drop 60 ?W)) = (0xf5d6c4e8, 0xedd442ff, 0xfe037e80, 0x24760a6b, 0xa07fc5c4)"
    by (simp add: sha_round_def f2_def K4_def rol32_def)
  show ?thesis unfolding t unfolding sha_init_def r0 r1 r2 r3 by simp
qed

lemma hash_2: "sha_transform sha_init ([2, 128] @ replicate 61 0 @ [8]) = (0xc4ea21bb, 0x365bbeea, 0xf5f2c654, 0x883e56d1, 0x1e43c44e)"
proof -
  let ?M = "[2, 128] @ replicate 61 0 @ [8]"
  have "sha_load ?M = [0x02800000, 0x00000000, 0x00000000, 0x00000000, 0x00000000, 0x00000000, 0x00000000, 0x00000000, 0x00000000, 0x00000000, 0x00000000, 0x00000000, 0x00000000, 0x00000000, 0x00000000, 0x00000008]"
    by (simp add: sha_load_def upt_rec nth_append)
  then have "sha_window 64 (sha_load ?M) =
    [0x02800000, 0x00000000, 0x00000000, 0x00000000, 0x00000000, 0x00000000, 0x00000000, 0x00000000, 0x00000000, 0x00000000, 0x00000000, 0x00000000, 0x00000000, 0x00000000, 0x00000000, 0x00000008, 0x05000000, 0x00000000, 0x00000010, 0x0a000000, 0x00000000, 0x00000020, 0x14000000, 0x00000010, 0x0a000040, 0x28000000, 0x00000000, 0x00000080, 0x50000000, 0x00000050, 0x22000100, 0xa0000030, 0x1e000000, 0x00000200, 0x40000041, 0x28000140, 0x88000400, 0x80000042, 0x28000000, 0x00000840, 0x28000005, 0x00000500, 0x20001002, 0x0000032a, 0xf4000001, 0x00002040, 0x28000454, 0xa80014e2, 0xec004008, 0x00000428, 0x80000142, 0x88008440, 0xa8000052, 0x00005200, 0x40010023, 0x000033e0, 0xc800041f, 0x80020442, 0xa8004542, 0x8001466a, 0xe804008b, 0x000047c0, 0x0800042a, 0x80084742, 0x4800052b, 0x00050000, 0x00100620, 0x80032a02, 0x000001f4, 0x00204000, 0x00045428, 0x0014e228, 0x504008ec, 0x00042c00, 0x80014382, 0xa0844688, 0xc00052ab, 0x00520600, 0xc1002743, 0x8033ef82]" (is "_ = ?W")
    by (simp only:) (simp add: sha_window_numeral rol32_def)
  note t = sha_transform_window [OF this, of sha_init]
  have r0: "foldl (sha_round f1 K1) (0x67452301, 0xefcdab89, 0x98badcfe, 0x10325476, 0xc3d2e1f0)
      (take 20 ?W) = (0xce104d6a, 0xff229a5b, 0x61ede10b, 0x462b32fc, 0xa7307b7b)"
    by (simp add: sha_round_def f1_def K1_def rol32_def)
  have r1: "foldl (sha_round f2 K2) (0xce104d6a, 0xff229a5b, 0x61ede10b, 0x462b32fc, 0xa7307b7b)
      (take 20 (drop 20 ?W)) = (0x41de4ca5, 0xbb9fc20a, 0x90bd16ae, 0x65ffa189, 0x7903a148)"
    by (simp add: sha_round_def f2_def K2_def rol32_def)
  have r2: "foldl (sha_round f3 K3) (0x41de4ca5, 0xbb9fc20a, 0x90bd16ae, 0x65ffa189, 0x7903a148)
      (take 20 (drop 40 ?W)) = (0x28a8d7d0, 0x150f4037, 0xb1834b26, 0xaa952632, 0x04733d28)"
    by (simp add: sha_round_def f3_def K3_def rol32_def)
  have r3: "foldl (sha_round f2 K4) (0x28a8d7d0, 0x150f4037, 0xb1834b26, 0xaa952632, 0x04733d28)
      (take 20 (drop 60 ?W)) = (0x5da4feba, 0x468e1361, 0x5d37e956, 0x780c025b, 0x5a70e25e)"
    by (simp add: sha_round_def f2_def K4_def rol32_def)
  show ?thesis unfolding t unfolding sha_init_def r0 r1 r2 r3 by simp
qed


end
