(* ===== verification/Srp_Laws.thy ===== *)
theory Srp_Laws
  imports Srp Tsha_Laws Sha1_Eval
begin

text \<open>
  The agreement of the SRP exchange: a client that knows the password and the server that holds the
  verifier derive the same session key, and each accepts the proof of the other.
\<close>

section \<open>Numbers as bytes\<close>

lemma from_bytes_Nil [simp]: "BigIntegerFromBytes [] = 0"
  by (simp add: BigIntegerFromBytes.simps)

lemma from_bytes_snoc [simp]: "BigIntegerFromBytes (bs @ [b]) = 256 * BigIntegerFromBytes bs + unat b"
  by (simp add: BigIntegerFromBytes.simps)

lemma from_to_bytes [simp]: "BigIntegerFromBytes (BigIntegerToBytes n) = n"
proof (induction n rule: BigIntegerToBytes.induct)
  case (1 n)
  have "unat (of_nat (n mod 256) :: u8) = n mod 256" by (simp add: unat_of_nat)
  then show ?case using 1 by (subst BigIntegerToBytes.simps) simp
qed

lemma from_bytes_less: "BigIntegerFromBytes bs < 256 ^ length bs"
proof (induction bs rule: rev_induct)
  case (snoc b bs)
  have "unat b < 256" using unsigned_less [of b, where 'a = nat] by simp
  with snoc have "256 * BigIntegerFromBytes bs + unat b < 256 * 256 ^ length bs" by linarith
  then show ?case by simp
qed simp

lemma length_to_bytes: "n < 256 ^ k \<Longrightarrow> length (BigIntegerToBytes n) \<le> k"
proof (induction n arbitrary: k rule: BigIntegerToBytes.induct)
  case (1 n)
  show ?case
  proof (cases "n = 0")
    case False
    then obtain j where k: "k = Suc j" using "1.prems" by (cases k) auto
    then have "n div 256 < 256 ^ j" using "1.prems" by (simp add: less_mult_imp_div_less mult.commute)
    then show ?thesis using "1.IH" [OF False] False k by (subst BigIntegerToBytes.simps) simp
  qed (simp add: BigIntegerToBytes.simps)
qed

text \<open>The client's power of \<open>g^b\<close> is the server's power of \<open>A v^u\<close>.\<close>

lemma srp_powers:
  "(g ^ b mod n) ^ (x * u + a) mod n = (((g ^ x mod n) ^ u mod n) * (g ^ a mod n) mod n) ^ b mod (n :: nat)"
proof -
  have "(((g ^ x mod n) ^ u mod n) * (g ^ a mod n) mod n) ^ b mod n = ((g ^ x) ^ u * g ^ a) ^ b mod n"
    by (simp add: power_mod mod_simps)
  also have "\<dots> = (g ^ b) ^ (x * u + a) mod n"
    by (simp add: power_mult [symmetric] power_add [symmetric] algebra_simps)
  finally show ?thesis by (simp add: power_mod)
qed

lemma srp_public_value:
  assumes "gb < n" and "v < n" and "B = (if gb + v > n then gb + v - n else gb + v)" and "B < n"
  shows "(if B < v then B + n else B) - v = (gb :: nat)"
  using assms by (auto split: if_splits)

section \<open>Digests\<close>

definition ready :: "sha_ctx \<Rightarrow> bool" where
  "ready raw \<longleftrightarrow> length (c_buffer raw) = 64"

lemma sha_upd_pieces:
  "sha_inv ctx M \<Longrightarrow> \<forall>c \<in> set ps. length c < 2 ^ 31 \<Longrightarrow> length M + length (concat ps) < 2 ^ 60 \<Longrightarrow>
   sha_inv (foldl (sha_upd e) ctx ps) (M @ concat ps)"
proof (induction ps arbitrary: ctx M)
  case (Cons c ps)
  have "sha_inv (sha_upd e ctx c) (M @ c)" by (rule sha_inv_update) (use Cons.prems in auto)
  then show ?case using Cons.IH [of "sha_upd e ctx c" "M @ c"] Cons.prems by simp
qed simp

lemma sha_of_fips:
  assumes "ready raw" and "\<forall>c \<in> set ps. length c < 2 ^ 31" and "length (concat ps) < 2 ^ 60"
  shows "sha_of e raw ps = fips_sha1 (concat ps)"
proof -
  have "sha_inv (SHA1Init raw) []" using assms(1) by (intro sha_inv_init) (simp add: ready_def)
  from sha_upd_pieces [OF this assms(2), of e] assms(3) show ?thesis
    unfolding sha_of_def by (intro sha_final) simp_all
qed

lemma length_fips_sha1 [simp]: "length (fips_sha1 M) = 20"
  by (simp add: fips_sha1_def digest_bytes_def split: prod.split)

lemma length_final [simp]: "length (fst (SHA1Final e ctx)) = 20"
  by (simp add: SHA1Final_def Let_def split: prod.split)

lemma length_sha_of [simp]: "length (sha_of e raw ps) = 20"
  by (simp add: sha_of_def)

lemma length_interleave: "length xs = length ys \<Longrightarrow> length (interleave xs ys) = 2 * length xs"
  by (induction xs ys rule: list_induct2) (simp_all add: interleave_def)

lemma length_sessionkey [simp]: "length (t_sessionkey e raw sk) = 40"
  by (simp add: t_sessionkey_def Let_def length_interleave)

lemma length_group_digest [simp]: "length (group_digest e raw n g) = 20"
  by (simp add: group_digest_def)

text \<open>The digests do not depend on the host or on what the context held before.\<close>

lemma sha_of_single:
  "ready raw \<Longrightarrow> length c < 2 ^ 31 \<Longrightarrow> sha_of e raw [c] = fips_sha1 c"
  using sha_of_fips [of raw "[c]" e] by simp

lemma sessionkey_host:
  assumes "ready r1" and "ready r2" and "length sk < 2 ^ 31"
  shows "t_sessionkey e1 r1 sk = t_sessionkey e2 r2 sk"
proof -
  let ?s = "dropWhile (\<lambda>b. b = 0) sk"
  have "length ?s \<le> length sk" by (rule length_dropWhile_le)
  then have "length ?s div 2 < 2 ^ 31" using assms(3) by linarith
  then have "sha_of e1 r1 [map f [0..<length ?s div 2]] = sha_of e2 r2 [map f [0..<length ?s div 2]]" for f
    using assms by (simp add: sha_of_single)
  then show ?thesis unfolding t_sessionkey_def Let_def by simp
qed

lemma scramble_host: "ready r1 \<Longrightarrow> ready r2 \<Longrightarrow> length B < 2 ^ 31 \<Longrightarrow> scramble e1 r1 B = scramble e2 r2 B"
  by (simp add: scramble_def sha_of_single)

lemma group_digest_host:
  "ready r1 \<Longrightarrow> ready r2 \<Longrightarrow> length n < 2 ^ 31 \<Longrightarrow> length g < 2 ^ 31 \<Longrightarrow>
   group_digest e1 r1 n g = group_digest e2 r2 n g"
  by (simp add: group_digest_def sha_of_single)

text \<open>Updating a context that holds a message; the pieces are short.\<close>

lemma inv_upd: "sha_inv ctx M \<Longrightarrow> length c < 2 ^ 31 \<Longrightarrow> length M < 2 ^ 40 \<Longrightarrow> sha_inv (sha_upd e ctx c) (M @ c)"
  by (rule sha_inv_update) simp_all

lemma inv_final: "sha_inv ctx M \<Longrightarrow> length M < 2 ^ 40 \<Longrightarrow> fst (SHA1Final e ctx) = fips_sha1 M"
  by (rule sha_final) auto

section \<open>The server's side\<close>

text \<open>What both sides feed to their hashes before the public values.\<close>

definition hello :: "bytes \<Rightarrow> bytes \<Rightarrow> bytes \<Rightarrow> bytes \<Rightarrow> bytes" where
  "hello n g u s = map2 (XOR) (fips_sha1 n) (fips_sha1 g) @ fips_sha1 u @ s"

lemma length_hello: "length (hello n g u s) = 40 + length s"
  by (simp add: hello_def)

lemma hello_inv:
  assumes "ready raw" and "length n < 2 ^ 31" and "length g < 2 ^ 31" and "length u < 2 ^ 31" and "length s < 2 ^ 31"
  shows "sha_inv (sha_upd e (sha_upd e (sha_upd e (SHA1Init raw) (group_digest e raw n g)) (sha_of e raw [u])) s)
    (hello n g u s)"
proof -
  have i: "sha_inv (SHA1Init raw) []" using assms(1) by (intro sha_inv_init) (simp add: ready_def)
  have "sha_inv (sha_upd e (sha_upd e (sha_upd e (SHA1Init raw) (group_digest e raw n g)) (sha_of e raw [u])) s)
      ((([] @ group_digest e raw n g) @ sha_of e raw [u]) @ s)"
    using assms by (intro inv_upd i) simp_all
  then show ?thesis using assms by (simp add: hello_def group_digest_def sha_of_single)
qed

lemma server_key_inv:
  assumes "ready raw" and "length (modulus tce) < 2 ^ 31" and "length (generator tce) < 2 ^ 31"
    and "length (pw_name ent) < 2 ^ 31" and "length (pw_salt ent) < 2 ^ 31"
    and ts: "ts = t_servergenexp e rnd (t_serveropenraw e raw ent tce)"
    and "length A < 2 ^ 31" and "length (ts_B ts) < 2 ^ 31"
    and key: "t_servergetkey e raw A ts = (ts', Some K)"
  shows "sha_inv (ts_ckhash ts') (hello (modulus tce) (generator tce) (pw_name ent) (pw_salt ent) @ A @ ts_B ts @ K)"
    and "sha_inv (ts_hash ts') A" and "ts_session_key ts' = K" and "length K = 40"
proof -
  let ?h = "hello (modulus tce) (generator tce) (pw_name ent) (pw_salt ent)"
  have i: "sha_inv (SHA1Init raw) []" using assms(1) by (intro sha_inv_init) (simp add: ready_def)
  have ck: "sha_inv (ts_ckhash ts) ?h" and h: "ts_hash ts = SHA1Init raw"
    using hello_inv [OF assms(1-5)] unfolding ts by (simp_all add: t_servergenexp_def t_serveropenraw_def Let_def)
  show K: "length K = 40" "ts_session_key ts' = K"
    using key by (auto simp: t_servergetkey_def Let_def split: if_splits)
  have eqs: "ts_ckhash ts' = sha_upd e (sha_upd e (sha_upd e (ts_ckhash ts) A) (ts_B ts)) K"
    "ts_hash ts' = sha_upd e (ts_hash ts) A"
    using key by (auto simp: t_servergetkey_def Let_def split: if_splits)
  have "sha_inv (ts_ckhash ts') (((?h @ A) @ ts_B ts) @ K)"
    unfolding eqs using assms(5,7,8) K by (intro inv_upd ck) (simp_all add: length_hello)
  then show "sha_inv (ts_ckhash ts') (?h @ A @ ts_B ts @ K)" by simp
  show "sha_inv (ts_hash ts') A" unfolding eqs h using inv_upd [OF i, of A e] assms(7) by simp
qed

lemma final_eq: "sha_inv ctx M \<Longrightarrow> length M < 2 ^ 40 \<Longrightarrow> \<exists>c. SHA1Final e ctx = (fips_sha1 M, c)"
  using inv_final [of ctx M e] by (cases "SHA1Final e ctx") auto

lemma server_accepts:
  assumes "sha_inv (ts_ckhash ts) M" and "sha_inv (ts_hash ts) A" and "length M < 2 ^ 40" and "length A < 2 ^ 35"
    and "length (ts_session_key ts) = 40"
  shows "\<exists>ts'. t_serververify e (fips_sha1 M) ts = (ts', True)
    \<and> (fst (SHA1Final e (ts_oldckhash ts)) \<noteq> fips_sha1 M \<longrightarrow>
         t_serverresponse ts' = fips_sha1 (A @ fips_sha1 M @ ts_session_key ts))"
proof -
  obtain d c where o: "SHA1Final e (ts_oldckhash ts) = (d, c)" by (meson surj_pair)
  obtain c2 where k: "SHA1Final e (ts_ckhash ts) = (fips_sha1 M, c2)"
    using final_eq [OF assms(1,3)] by blast
  have "sha_inv (sha_upd e (sha_upd e (ts_hash ts) (fips_sha1 M)) (ts_session_key ts))
      ((A @ fips_sha1 M) @ ts_session_key ts)"
    using assms(4,5) by (intro inv_upd assms(2)) simp_all
  then obtain c3 where r: "SHA1Final e (sha_upd e (sha_upd e (ts_hash ts) (fips_sha1 M)) (ts_session_key ts))
      = (fips_sha1 (A @ fips_sha1 M @ ts_session_key ts), c3)"
    using final_eq [of _ "(A @ fips_sha1 M) @ ts_session_key ts" e] assms(4,5) by auto
  show ?thesis
  proof (cases "d = fips_sha1 M")
    case True
    then show ?thesis using o by (simp add: t_serververify_def split: prod.split)
  next
    case False
    then show ?thesis using o k r by (simp add: t_serververify_def t_serverresponse_def)
  qed
qed

section \<open>The client's side\<close>

lemma client_key_inv:
  assumes "ready raw" and "length n < 2 ^ 31" and "length g < 2 ^ 31" and "length s < 2 ^ 31"
    and open_: "t_clientopen e raw pre u n g s = Some (Some tc0)"
    and tc: "tc = t_clientpasswd e raw pw (t_clientgenexp e rnd tc0)"
    and "length (tc_A tc) < 2 ^ 31" and "length B < 2 ^ 31"
    and key: "t_clientgetkey e raw B tc = (tc', Some K)"
  shows "t_clientresponse tc' = fips_sha1 (hello n g u s @ tc_A tc @ B @ K)"
    and "sha_inv (tc_ckhash tc') (tc_A tc @ t_clientresponse tc' @ K)" and "length K = 40"
proof -
  let ?h = "hello n g u s"
  have i: "sha_inv (SHA1Init raw) []" using assms(1) by (intro sha_inv_init) (simp add: ready_def)
  have tc0: "tc0 = \<lparr>tc_username = u, tc_n = n, tc_g = g, tc_s = s, tc_a = [], tc_A = [], tc_p = [], tc_v = [],
      tc_hash = sha_upd e (sha_upd e (sha_upd e (SHA1Init raw) (group_digest e raw n g)) (sha_of e raw [u])) s,
      tc_ckhash = SHA1Init raw, tc_session_key = [], tc_session_response = []\<rparr>" and u: "length u < 2 ^ 31"
    using open_ by (auto simp: t_clientopen_def Let_def MAXUSERLEN_def split: if_splits)
  have h: "sha_inv (tc_hash tc) (?h @ tc_A tc)" "sha_inv (tc_ckhash tc) ([] @ tc_A tc)"
  proof -
    have "tc_hash tc = sha_upd e (tc_hash tc0) (tc_A tc)" "tc_ckhash tc = sha_upd e (SHA1Init raw) (tc_A tc)"
      unfolding tc tc0 by (simp_all add: t_clientpasswd_def t_clientgenexp_def Let_def)
    moreover have "sha_inv (tc_hash tc0) ?h" unfolding tc0 using hello_inv [OF assms(1-3) u assms(4)] by simp
    ultimately show "sha_inv (tc_hash tc) (?h @ tc_A tc)" "sha_inv (tc_ckhash tc) ([] @ tc_A tc)"
      using inv_upd [of "tc_hash tc0" ?h "tc_A tc" e] inv_upd [OF i, of "tc_A tc" e] assms(4,7)
      by (simp_all add: length_hello)
  qed
  show K: "length K = 40"
    using key by (auto simp: t_clientgetkey_def Let_def split: if_splits prod.splits)
  let ?c = "sha_upd e (sha_upd e (tc_hash tc) B) K"
  have "sha_inv ?c (((?h @ tc_A tc) @ B) @ K)"
    using assms(4,7,8) K by (intro inv_upd h) (simp_all add: length_hello)
  then obtain c where c: "SHA1Final e ?c = (fips_sha1 (?h @ tc_A tc @ B @ K), c)"
    using final_eq [of ?c "((?h @ tc_A tc) @ B) @ K" e] assms(4,7,8) K by (auto simp: length_hello)
  show r: "t_clientresponse tc' = fips_sha1 (?h @ tc_A tc @ B @ K)"
    using key c by (auto simp: t_clientgetkey_def t_clientresponse_def Let_def split: if_splits prod.splits)
  have "tc_ckhash tc' = sha_upd e (sha_upd e (tc_ckhash tc) (t_clientresponse tc')) K"
    using key by (auto simp: t_clientgetkey_def t_clientresponse_def Let_def split: if_splits prod.splits)
  moreover have "sha_inv (sha_upd e (sha_upd e (tc_ckhash tc) (t_clientresponse tc')) K)
      ((([] @ tc_A tc) @ t_clientresponse tc') @ K)"
    using assms(7) K r by (intro inv_upd h) simp_all
  ultimately show "sha_inv (tc_ckhash tc') (tc_A tc @ t_clientresponse tc' @ K)" by simp
qed

section \<open>Agreement\<close>

lemma password_digest_host:
  assumes "ready r1" and "ready r2" and "length s < 2 ^ 31" and "length u < 2 ^ 31" and "length p < 2 ^ 31"
  shows "password_digest e1 r1 s u p = password_digest e2 r2 s u p"
  using assms by (simp add: password_digest_def sha_of_fips)

text \<open>The common secret.\<close>

lemma server_secret:
  assumes "t_servergetkey e raw A ts = (ts', Some K)"
  shows "K = t_sessionkey e raw (BigIntegerToBytes
    ((BigIntegerFromBytes (ts_v ts) ^ unat (scramble e raw (ts_B ts)) mod BigIntegerFromBytes (ts_n ts)
        * BigIntegerFromBytes A mod BigIntegerFromBytes (ts_n ts)) ^ BigIntegerFromBytes (ts_b ts)
      mod BigIntegerFromBytes (ts_n ts)))"
  using assms by (auto simp: t_servergetkey_def Let_def BigIntegerModExp_def BigIntegerModExpInt_def
      BigIntegerModMul_def split: if_splits)

lemma client_secret:
  assumes "t_clientgetkey e raw B tc = (tc', Some K)"
  defines "b \<equiv> BigIntegerFromBytes B" and "n \<equiv> BigIntegerFromBytes (tc_n tc)" and "v \<equiv> BigIntegerFromBytes (tc_v tc)"
  shows "b < n" and "K = t_sessionkey e raw (BigIntegerToBytes
    (((if b < v then b + n else b) - v) ^ (BigIntegerFromBytes (tc_p tc) * unat (scramble e raw B)
       + BigIntegerFromBytes (tc_a tc)) mod n))"
  using assms by (auto simp: t_clientgetkey_def Let_def BigIntegerModExp_def BigIntegerAdd_def BigIntegerSub_def
      BigIntegerMulInt_def not_le split: if_splits prod.splits)

lemma less_mod_length: "m < BigIntegerFromBytes n \<Longrightarrow> length (BigIntegerToBytes m) \<le> length n"
  using from_bytes_less [of n] by (intro length_to_bytes) simp

text \<open>C35. When the verifier of the server was made from the client's password and both sides derive a
  key, they derive the same one, the server accepts the client's proof, and the client accepts the
  server's (the latter unless the proof of the older protocol form happens to be the same digest).
  The hosts may differ in byte order, and nothing depends on the random numbers.\<close>

theorem srp_agreement:
  assumes rdy: "ready rs" "ready rc" and len: "length n < 2 ^ 31" "length g < 2 ^ 31" "length s < 2 ^ 31" "length pw < 2 ^ 31"
    and op: "t_clientopen ec rc pre user n g s = Some (Some tc0)"
    and ent: "ent = \<lparr>pw_name = user, pw_password = BigIntegerToBytes (BigIntegerModExp (BigIntegerFromBytes g)
        (BigIntegerFromBytes (password_digest es rs s user pw)) (BigIntegerFromBytes n)), pw_salt = s\<rparr>"
    and ts: "ts = t_servergenexp es rb (t_serveropenraw es rs ent \<lparr>modulus = n, generator = g\<rparr>)"
    and tc: "tc = t_clientpasswd ec rc pw (t_clientgenexp ec ra tc0)"
    and sk: "t_servergetkey es rs (tc_A tc) ts = (ts', Some K)"
    and ck: "t_clientgetkey ec rc (ts_B ts) tc = (tc', Some K')"
  shows "K' = K \<and> (\<exists>ts''. t_serververify es (t_clientresponse tc') ts' = (ts'', True)
    \<and> (fst (SHA1Final es (ts_oldckhash ts')) \<noteq> t_clientresponse tc' \<longrightarrow>
         snd (t_clientverify ec (t_serverresponse ts'') tc')))"
proof -
  let ?N = "BigIntegerFromBytes n" and ?G = "BigIntegerFromBytes g"
  define x where "x = BigIntegerFromBytes (password_digest es rs s user pw)"
  define a where "a = BigIntegerFromBytes (tc_a tc)"
  define b where "b = BigIntegerFromBytes (ts_b ts)"
  define u where "u = scramble es rs (ts_B ts)"
  have tc0: "tc_username tc0 = user" "tc_n tc0 = n" "tc_g tc0 = g" "tc_s tc0 = s" "length user < 2 ^ 31"
    using op by (auto simp: t_clientopen_def Let_def MAXUSERLEN_def split: if_splits)
  have tcs: "tc_n tc = n" "tc_A tc = BigIntegerToBytes (?G ^ a mod ?N)" "tc_p tc = BigIntegerToBytes x"
    "tc_v tc = BigIntegerToBytes (?G ^ x mod ?N)"
    using tc0 password_digest_host [OF rdy len(3) tc0(5) len(4), of ec es]
    by (simp_all add: tc a_def x_def t_clientpasswd_def t_clientgenexp_def Let_def BigIntegerModExp_def
        password_digest_host [OF rdy len(3) tc0(5) len(4), of es ec])
  have tss: "ts_n ts = n" "ts_v ts = BigIntegerToBytes (?G ^ x mod ?N)"
    "BigIntegerFromBytes (ts_B ts) = (let w = ?G ^ b mod ?N + ?G ^ x mod ?N in if w > ?N then w - ?N else w)"
    "\<exists>m. ts_B ts = BigIntegerToBytes m"
    by (auto simp: ts ent b_def x_def t_servergenexp_def t_serveropenraw_def Let_def BigIntegerModExp_def
        BigIntegerAdd_def BigIntegerSub_def)
  have B: "BigIntegerFromBytes (ts_B ts) < ?N" using client_secret(1) [OF ck] tcs(1) by simp
  then have pos: "0 < ?N" by linarith
  have lB: "length (ts_B ts) \<le> length n" using tss(4) B less_mod_length by auto
  have lA: "length (tc_A tc) \<le> length n" unfolding tcs(2) using pos by (intro less_mod_length) simp
  have diff: "(if BigIntegerFromBytes (ts_B ts) < ?G ^ x mod ?N then BigIntegerFromBytes (ts_B ts) + ?N
      else BigIntegerFromBytes (ts_B ts)) - ?G ^ x mod ?N = ?G ^ b mod ?N"
    using pos B tss(3) by (intro srp_public_value) (simp_all add: Let_def)
  have u: "scramble ec rc (ts_B ts) = u" unfolding u_def using rdy lB len(1) by (intro scramble_host) auto
  have "K' = t_sessionkey ec rc (BigIntegerToBytes ((?G ^ b mod ?N) ^ (x * unat u + a) mod ?N))"
    using client_secret(2) [OF ck] unfolding tcs(1,3,4) from_to_bytes u diff a_def .
  moreover have "K = t_sessionkey es rs (BigIntegerToBytes ((?G ^ b mod ?N) ^ (x * unat u + a) mod ?N))"
    unfolding srp_powers using server_secret [OF sk] by (simp add: tss tcs u_def b_def)
  moreover have "length (BigIntegerToBytes ((?G ^ b mod ?N) ^ (x * unat u + a) mod ?N)) < 2 ^ 31"
    using less_mod_length [of "(?G ^ b mod ?N) ^ (x * unat u + a) mod ?N" n] pos len(1) by simp
  ultimately have KK: "K' = K" using sessionkey_host [OF rdy(2,1)] by simp
  let ?M = "hello n g user s @ tc_A tc @ ts_B ts @ K"
  have lens: "length (tc_A tc) < 2 ^ 31" "length (ts_B ts) < 2 ^ 31" using lA lB len(1) by simp_all
  have short: "length (modulus \<lparr>modulus = n, generator = g\<rparr>) < 2 ^ 31" "length (generator \<lparr>modulus = n, generator = g\<rparr>) < 2 ^ 31"
    "length (pw_name ent) < 2 ^ 31" "length (pw_salt ent) < 2 ^ 31"
    using len tc0(5) by (simp_all add: ent)
  note S = server_key_inv [OF rdy(1) short ts lens sk]
  have S1: "sha_inv (ts_ckhash ts') ?M" using S(1) by (simp add: ent)
  note C = client_key_inv [OF rdy(2) len(1-3) op tc lens ck, unfolded KK]
  have lM: "length ?M < 2 ^ 40" using lens len(3) C(3) by (simp add: length_hello)
  obtain ts'' where acc: "t_serververify es (fips_sha1 ?M) ts' = (ts'', True)"
    "fst (SHA1Final es (ts_oldckhash ts')) \<noteq> fips_sha1 ?M \<longrightarrow>
       t_serverresponse ts'' = fips_sha1 (tc_A tc @ fips_sha1 ?M @ K)"
    using server_accepts [OF S1 S(2) lM, of es] lens S(3,4) by auto
  have "fst (SHA1Final ec (tc_ckhash tc')) = fips_sha1 (tc_A tc @ t_clientresponse tc' @ K)"
    using C(1,3) lens by (intro inv_final C(2)) simp
  then show ?thesis using KK acc C(1) by (auto simp: t_clientverify_def case_prod_unfold)
qed

section \<open>A session\<close>

text \<open>In the ring of integers modulo 10, 6 is idempotent: the public values are 7 or 2 whatever the
  password digest is, and both sides derive a key.\<close>

definition raw0 :: sha_ctx where
  "raw0 = \<lparr>c_state = (0, 0, 0, 0, 0), c_count0 = 0, c_count1 = 0, c_buffer = replicate 64 0\<rparr>"

lemma ready_raw0: "ready raw0"
  by (simp add: ready_def raw0_def)

lemma six_power: "(6 :: nat) ^ Suc k mod 10 = 6"
proof (induction k)
  case (Suc k)
  have "(6 :: nat) ^ Suc (Suc k) mod 10 = 6 * (6 ^ Suc k mod 10) mod 10" by (simp add: mod_simps)
  then show ?case using Suc by simp
qed simp

lemma six_power_cases: "(6 :: nat) ^ k mod 10 \<in> {1, 6}"
  using six_power by (cases k) auto

lemma pad_single: "sha_pad [b] = [b, 128] @ replicate 61 0 @ [8]"
proof -
  have r: "replicate 4 (0 :: u8) = [0, 0, 0, 0]" "replicate 3 (0 :: u8) = [0, 0, 0]" by (simp_all add: numeral_eq_Suc)
  have z: "be32 0 = replicate 4 0" "be32 8 = replicate 3 0 @ [8]" unfolding r by (simp_all add: be32_def)
  have "sha_pad [b] = [b, 128] @ replicate (54 + (4 + 3)) 0 @ [8]"
    unfolding replicate_add by (simp add: sha_pad_def z)
  then show ?thesis by simp
qed

lemma scramble_nonzero: "b \<in> {7, 2} \<Longrightarrow> scramble e raw0 [b] \<noteq> 0"
proof -
  assume b: "b \<in> {7, 2}"
  have "sha_of e raw0 [[b]] = digest_bytes (sha.absorb (sha_pad [b]) 1)"
    by (simp add: sha_of_single [OF ready_raw0] fips_sha1_def) (simp add: pad_single)
  also have "sha.absorb (sha_pad [b]) 1 = fips_block sha_init (sha_pad [b])"
    by (simp add: absorb_def pad_single)
  also have "\<dots> = sha_transform sha_init ([b, 128] @ replicate 61 0 @ [8])"
    unfolding pad_single by (rule sha_transform_fips [symmetric]) simp
  finally show ?thesis using b hash_7 hash_2 by (auto simp: scramble_def digest_bytes_def)
qed

lemma client_derives:
  "scramble e raw B \<noteq> 0 \<Longrightarrow> 0 < BigIntegerFromBytes B \<Longrightarrow> BigIntegerFromBytes B < BigIntegerFromBytes (tc_n tc) \<Longrightarrow>
   \<exists>tc' K. t_clientgetkey e raw B tc = (tc', Some K)"
  by (simp add: t_clientgetkey_def Let_def case_prod_unfold)

lemma srp_agreement_witness:
  "\<exists>tc0 tc tc' ent ts ts' ts'' K K'.
     t_clientopen LE raw0 [\<lparr>modulus = replicate 63 0 @ [10], generator = [6]\<rparr>] [97] (replicate 63 0 @ [10]) [6] [] = Some (Some tc0)
     \<and> tc = t_clientpasswd LE raw0 [112] (t_clientgenexp LE (replicate 31 0 @ [1]) tc0)
     \<and> ts = t_servergenexp BE (replicate 31 0 @ [1]) (t_serveropenraw BE raw0 ent \<lparr>modulus = replicate 63 0 @ [10], generator = [6]\<rparr>)
     \<and> t_servergetkey BE raw0 (tc_A tc) ts = (ts', Some K) \<and> t_clientgetkey LE raw0 (ts_B ts) tc = (tc', Some K')
     \<and> K' = K \<and> t_serververify BE (t_clientresponse tc') ts' = (ts'', True)"
proof -
  let ?n = "replicate 63 0 @ [10 :: u8]" and ?r = "replicate 31 0 @ [1 :: u8]" and ?g = "[6 :: u8]"
  let ?pre = "[\<lparr>modulus = ?n, generator = ?g\<rparr>]"
  have rep0 [simp]: "BigIntegerFromBytes (replicate k 0) = 0" for k
  proof (induction k)
    case (Suc k)
    then show ?case using from_bytes_snoc [of "replicate k 0" 0] by (simp add: replicate_append_same)
  qed simp
  have n: "BigIntegerFromBytes ?n = 10" and r: "BigIntegerFromBytes ?r = 1" by simp_all
  have g: "BigIntegerFromBytes ?g = 6" using from_bytes_snoc [of "[]" 6] by simp
  obtain tc0 where op: "t_clientopen LE raw0 ?pre [97] ?n ?g [] = Some (Some tc0)"
    and tc0: "tc_n tc0 = ?n" "tc_g tc0 = ?g"
    by (simp add: t_clientopen_def MIN_MOD_BYTES_def MAXUSERLEN_def Let_def)
  define x where "x = BigIntegerFromBytes (password_digest BE raw0 [] [97] [112])"
  define x' where "x' = BigIntegerFromBytes (password_digest LE raw0 (tc_s tc0) (tc_username tc0) [112])"
  define v where "v = (6 :: nat) ^ x mod 10"
  define ent where "ent = \<lparr>pw_name = [97], pw_password = BigIntegerToBytes (BigIntegerModExp (BigIntegerFromBytes ?g)
      (BigIntegerFromBytes (password_digest BE raw0 [] [97] [112])) (BigIntegerFromBytes ?n)), pw_salt = []\<rparr>"
  define ts where "ts = t_servergenexp BE ?r (t_serveropenraw BE raw0 ent \<lparr>modulus = ?n, generator = ?g\<rparr>)"
  define tc where "tc = t_clientpasswd LE raw0 [112] (t_clientgenexp LE ?r tc0)"
  have v: "v \<in> {1, 6}" unfolding v_def by (rule six_power_cases)
  have ts_n: "ts_n ts = ?n" and ts_b: "ts_b ts = ?r" and ts_v: "BigIntegerFromBytes (ts_v ts) = v"
    and ts_B: "ts_B ts = BigIntegerToBytes (if 6 + v > 10 then 6 + v - 10 else 6 + v)"
    by (simp_all add: ts_def ent_def t_servergenexp_def t_serveropenraw_def Let_def BLEN_def n r g v_def x_def
        BigIntegerModExp_def BigIntegerAdd_def BigIntegerSub_def)
  have B: "\<exists>b \<in> {7, 2}. ts_B ts = [b]"
    using v by (auto simp: ts_B BigIntegerToBytes.simps)
  have A: "BigIntegerFromBytes (tc_A tc) = 6"
    by (simp add: tc_def t_clientpasswd_def t_clientgenexp_def Let_def ALEN_def tc0 n r g BigIntegerModExp_def)
  have tc_n: "tc_n tc = ?n" by (simp add: tc_def t_clientpasswd_def t_clientgenexp_def Let_def tc0)
  have "(v ^ k mod 10) * 6 mod 10 = 6" for k
    using v six_power [of k] by (auto simp: mult.commute mod_simps)
  then obtain ts' K where sk: "t_servergetkey BE raw0 (tc_A tc) ts = (ts', Some K)"
    by (simp add: t_servergetkey_def Let_def ts_n ts_v n A BigIntegerModExpInt_def BigIntegerModMul_def BigIntegerAdd_def)
  obtain tc' K' where ck: "t_clientgetkey LE raw0 (ts_B ts) tc = (tc', Some K')"
  proof -
    obtain b where b: "b \<in> {7, 2}" "ts_B ts = [b]" using B by blast
    have "BigIntegerFromBytes [b] = unat b" using from_bytes_snoc [of "[]" b] by simp
    then have "\<exists>tc' K'. t_clientgetkey LE raw0 [b] tc = (tc', Some K')"
      using b(1) scramble_nonzero [OF b(1), of LE] by (intro client_derives) (auto simp: tc_n)
    then show thesis using that b(2) by auto
  qed
  have "K' = K \<and> (\<exists>ts''. t_serververify BE (t_clientresponse tc') ts' = (ts'', True)
      \<and> (fst (SHA1Final BE (ts_oldckhash ts')) \<noteq> t_clientresponse tc' \<longrightarrow> snd (t_clientverify LE (t_serverresponse ts'') tc')))"
    by (rule srp_agreement [OF ready_raw0 ready_raw0 _ _ _ _ op ent_def ts_def tc_def sk ck]) simp_all
  with op ts_def tc_def sk ck show ?thesis by blast
qed

end
