(* ===== verification/T_Conv.thy ===== *)
theory T_Conv
  imports Prelude Srp
begin

text \<open>
  Number texts and built-in groups of the SRP library: \<open>tinysrp/t_conv.c\<close> (hexadecimal and base 64)
  and \<open>tinysrp/t_getconf.c\<close> (the table of groups). Texts are the characters before the NUL; a
  conversion returns the bytes it stores at \<open>dst\<close>.
\<close>

section \<open>Hexadecimal\<close>

definition hexDigitToInt :: "u8 \<Rightarrow> u8" where
  "hexDigitToInt c =
     (if c \<ge> 48 \<and> c \<le> 57 then c - 48
      else if c \<ge> 97 \<and> c \<le> 102 then c - 97 + 10
      else if c \<ge> 65 \<and> c \<le> 70 then c - 65 + 10
      else 0)"

fun fromhex_loop :: "bytes \<Rightarrow> bytes" where
  "fromhex_loop (a # b # src) = (push_bit 4 (hexDigitToInt a) OR hexDigitToInt b) # fromhex_loop src"
| "fromhex_loop _ = []"

definition t_fromhex :: "bytes \<Rightarrow> bytes" where
  "t_fromhex src =
     (case src of [] \<Rightarrow> [] | c # cs \<Rightarrow> if odd (length src) then hexDigitToInt c # fromhex_loop cs else fromhex_loop src)"

text \<open>\<open>%.2x\<close> of a byte.\<close>

definition hex_char :: "nat \<Rightarrow> u8" where
  "hex_char d = of_nat (if d < 10 then 48 + d else 87 + d)"

definition print_02x :: "u8 \<Rightarrow> bytes" where
  "print_02x b = [hex_char (unat b div 16), hex_char (unat b mod 16)]"

fun tohex_loop :: "bool \<Rightarrow> bytes \<Rightarrow> bytes" where
  "tohex_loop notleading [] = []"
| "tohex_loop notleading (b # src) =
     (if notleading \<or> b \<noteq> 0 then print_02x b @ tohex_loop True src else tohex_loop notleading src)"

text \<open>When no byte is printed \<open>dst\<close> keeps the text it had.\<close>

definition t_tohex :: "bytes \<Rightarrow> bytes \<Rightarrow> bytes" where
  "t_tohex dst src = (let t = tohex_loop False src in if t = [] then dst else t)"

section \<open>Base 64\<close>

definition b64table :: bytes where
  "b64table = str ''0123456789ABCDEFGHIJKLMNOPQRSTUVWXYZabcdefghijklmnopqrstuvwxyz./''"

fun index_of :: "u8 \<Rightarrow> bytes \<Rightarrow> nat option" where
  "index_of c [] = None"
| "index_of c (x # xs) = (if x = c then Some 0 else map_option Suc (index_of c xs))"

fun b64_digits :: "bytes \<Rightarrow> bytes" where
  "b64_digits [] = []"
| "b64_digits (c # src) =
     (case index_of c b64table of None \<Rightarrow> [] | Some d \<Rightarrow> of_nat d # b64_digits src)"

text \<open>The loop over the digit buffer \<open>a\<close>: digits are read downwards from \<open>i\<close>, bytes are stored
  downwards from \<open>j\<close>. It gives the buffer and the last \<open>j\<close>.\<close>

function fromb64_loop :: "bytes \<Rightarrow> nat \<Rightarrow> nat \<Rightarrow> bytes \<times> nat" where
  "fromb64_loop a i j =
     (let a = a[j := a ! i] in
      if i = 0 then (a, j) else
      let a = a[j := a ! j OR push_bit 6 (a ! (i - 1) AND 3)];
          a = a[j - 1 := drop_bit 2 (a ! (i - 1) AND 0x3c)] in
      if i = 1 then (a, j - 1) else
      let a = a[j - 1 := a ! (j - 1) OR push_bit 4 (a ! (i - 2) AND 0xf)];
          a = a[j - 2 := drop_bit 4 (a ! (i - 2) AND 0x30)] in
      if i = 2 then (a, j - 2) else
      let a = a[j - 2 := a ! (j - 2) OR push_bit 2 (a ! (i - 3))];
          a = a[j - 3 := 0] in
      if i = 3 then (a, j - 3) else fromb64_loop a (i - 4) (j - 3))"
  by pat_completeness auto
termination
  by (relation "measure (\<lambda>(a, i, j). i)") auto

declare fromb64_loop.simps [simp del]

text \<open>A text without a leading digit makes the loop read before the buffer.\<close>

definition t_fromb64 :: "bytes \<Rightarrow> bytes option" where
  "t_fromb64 src =
     (let ds = b64_digits (dropWhile (\<lambda>c. c = 32 \<or> c = 9 \<or> c = 10) src);
          size = length ds
      in if size = 0 then None
         else (let (a, j) = fromb64_loop (ds @ [0]) (size - 1) size
               in Some (dropWhile (\<lambda>b. b = 0) (drop j a))))"

definition put_digit :: "bytes \<times> bool \<Rightarrow> u8 \<Rightarrow> bytes \<times> bool" where
  "put_digit out c =
     (case out of (dst, notleading) \<Rightarrow>
        if notleading \<or> c \<noteq> 0 then (dst @ [b64table ! unat c], True) else (dst, notleading))"

definition put_group :: "bytes \<times> bool \<Rightarrow> u8 \<Rightarrow> u8 \<Rightarrow> u8 \<Rightarrow> bytes \<times> bool" where
  "put_group out b0 b1 b2 =
     (let out = put_digit out (drop_bit 2 (b0 AND 0xfc));
          out = put_digit out (push_bit 4 (b0 AND 3) OR drop_bit 4 (b1 AND 0xf0));
          out = put_digit out (push_bit 2 (b1 AND 0xf) OR drop_bit 6 (b2 AND 0xc0))
      in put_digit out (b2 AND 0x3f))"

fun tob64_loop :: "bytes \<times> bool \<Rightarrow> u8 \<Rightarrow> u8 \<Rightarrow> u8 \<Rightarrow> bytes \<Rightarrow> bytes" where
  "tob64_loop out b0 b1 b2 (x # y # z # src) = tob64_loop (put_group out b0 b1 b2) x y z src"
| "tob64_loop out b0 b1 b2 _ = fst (put_group out b0 b1 b2)"

definition t_tob64 :: "bytes \<Rightarrow> bytes" where
  "t_tob64 src =
     (let pos = length src mod 3;
          b1 = (if pos = 2 then src ! 0 else 0);
          b2 = (if pos = 1 then src ! 0 else if pos = 2 then src ! 1 else 0)
      in tob64_loop ([], False) 0 b1 b2 (drop pos src))"

section \<open>Built-in groups\<close>

definition pre_params :: "(bytes \<times> bytes) list" where
  "pre_params =
  [(str ''2iQzj1CagQc/5ctbuJYLWlhtAsPHc7xWVyCPAKFRLWKADpASkqe9djWPFWTNTdeJtL8nAhImCn3Sr/IAdQ1FrGw0WvQUstPx3FO9KNcXOwisOQ1VlL.gheAHYfbYyBaxXL.NcJx9TUwgWDT0hRzFzqSrdGGTN3FgSTA1v4QnHtEygNj3eZ.u0MThqWUaDiP87nqha7XnT66bkTCkQ8.7T8L4KZjIImrNrUftedTTBi.WCi.zlrBxDuOM0da0JbUkQlXqvp0yvJAPpC11nxmmZOAbQOywZGmu9nhZNuwTlxjfIro0FOdthaDTuZRL9VL7MRPUDo/DQEyW.d4H.UIlzp'',
    str ''2''),
   (str ''dUyyhxav9tgnyIg65wHxkzkb7VIPh4o0lkwfOKiPp4rVJrzLRYVBtb76gKlaO7ef5LYGEw3G.4E0jbMxcYBetDy2YdpiP/3GWJInoBbvYHIRO9uBuxgsFKTKWu7RnR7yTau/IrFTdQ4LY/q.AvoCzMxV0PKvD9Odso/LFIItn8PbTov3VMn/ZEH2SqhtpBUkWtmcIkEflhX/YY/fkBKfBbe27/zUaKUUZEUYZ2H2nlCL60.JIPeZJSzsu/xHDVcx'',
    str ''2''),
   (str ''3NUKQ2Re4P5BEK0TLg2dX3gETNNNECPoe92h4OVMaDn3Xo/0QdjgG/EvM.hiVV1BdIGklSI14HA38Mpe5k04juR5/EXMU0r1WtsLhNXwKBlf2zEfoOh0zVmDvqInpU695f29Iy7sNW3U5RIogcs740oUp2Kdv5wuITwnIx84cnO.e467/IV1lPnvMCr0pd1dgS0a.RV5eBJr03Q65Xy61R'',
    str ''2''),
   (str ''F//////////oG/QeY5emZJ4ncABWDmSqIa2JWYAPynq0Wk.fZiJco9HIWXvZZG4tU.L6RFDEaCRC2iARV9V53TFuJLjRL72HUI5jNPYNdx6z4n2wQOtxMiB/rosz0QtxUuuQ/jQYP.bhfya4NnB7.P9A6PHxEPJWV//////////'',
    str ''5''),
   (str ''Ewl2hcjiutMd3Fu2lgFnUXWSc67TVyy2vwYCKoS9MLsrdJVT9RgWTCuEqWJrfB6uE3LsE9GkOlaZabS7M29sj5TnzUqOLJMjiwEzArfiLr9WbMRANlF68N5AVLcPWvNx6Zjl3m5Scp0BzJBz9TkgfhzKJZ.WtP3Mv/67I/0wmRZ'',
    str ''2'')]"

definition t_getprecount :: int where
  "t_getprecount = int (length pre_params)"

definition t_getpreparam :: "nat \<Rightarrow> t_confent option" where
  "t_getpreparam i =
     do { (m, g) \<leftarrow> idx pre_params i;
          n \<leftarrow> t_fromb64 m;
          g \<leftarrow> t_fromb64 g;
          Some \<lparr>modulus = n, generator = g\<rparr> }"

text \<open>The index is counted from 1; NULL outside the table.\<close>

definition gettcid :: "int \<Rightarrow> t_confent option" where
  "gettcid i = (if i \<le> 0 \<or> i > t_getprecount then None else t_getpreparam (nat (i - 1)))"

end
