(* ===== verification/T_Conv_Laws.thy ===== *)
theory T_Conv_Laws
  imports T_Conv Srp_Laws
begin

text \<open>
  Laws of the conversions: base 64 and hexadecimal texts are the numbers of the SRP library in
  another base, and reading a printed number gives its bytes without leading zeros.
\<close>

section \<open>Reading base 64\<close>

fun val64 :: "bytes \<Rightarrow> nat" where
  "val64 [] = 0"
| "val64 (d # ds) = unat d + 64 * val64 ds"

text \<open>The number of a digit list is that of its reverse, least digit first. The bytes the loop makes,
  last byte first:\<close>

fun dec64 :: "bytes \<Rightarrow> bytes" where
  "dec64 [] = []"
| "dec64 [d] = [d]"
| "dec64 [d, e] = [d OR push_bit 6 (e AND 3), drop_bit 2 (e AND 0x3c)]"
| "dec64 [d, e, f] =
     [d OR push_bit 6 (e AND 3), drop_bit 2 (e AND 0x3c) OR push_bit 4 (f AND 0xf), drop_bit 4 (f AND 0x30)]"
| "dec64 (d # e # f # g # r) =
     [d OR push_bit 6 (e AND 3), drop_bit 2 (e AND 0x3c) OR push_bit 4 (f AND 0xf),
      drop_bit 4 (f AND 0x30) OR push_bit 2 g] @ (if r = [] then [0] else dec64 r)"

lemma rev_take_Suc: "i < length a \<Longrightarrow> rev (take (Suc i) a) = a ! i # rev (take i a)"
  by (simp add: take_Suc_conv_app_nth)

lemma rev_take_3: "3 \<le> length a \<Longrightarrow> rev (take 3 a) = [a ! 2, a ! 1, a ! 0]"
  by (auto simp: numeral_3_eq_3 numeral_2_eq_2 Suc_le_length_iff)

lemma drop_upd: "j < length a \<Longrightarrow> drop j (a[j := x]) = x # drop (Suc j) a"
  by (simp add: Cons_nth_drop_Suc [symmetric] drop_update_cancel)

lemma fromb64_0: "j < length a \<Longrightarrow> fromb64_loop a 0 j = (a[j := a ! 0], j)"
  by (subst fromb64_loop.simps) (simp add: Let_def cong: let_weak_cong if_weak_cong)

lemma fromb64_1:
  "j < length a \<Longrightarrow> 1 < j \<Longrightarrow> fromb64_loop a 1 j =
    (a[j := a ! 1 OR push_bit 6 (a ! 0 AND 3), j - 1 := drop_bit 2 (a ! 0 AND 0x3c)], j - 1)"
  by (subst fromb64_loop.simps) (simp add: Let_def cong: let_weak_cong if_weak_cong)

lemma fromb64_2:
  "j < length a \<Longrightarrow> 2 < j \<Longrightarrow> fromb64_loop a 2 j =
    (a[j := a ! 2 OR push_bit 6 (a ! 1 AND 3),
       j - 1 := drop_bit 2 (a ! 1 AND 0x3c) OR push_bit 4 (a ! 0 AND 0xf), j - 2 := drop_bit 4 (a ! 0 AND 0x30)], j - 2)"
  by (subst fromb64_loop.simps) (simp add: Let_def cong: let_weak_cong if_weak_cong)

lemma fromb64_more:
  assumes "j < length a" and "i + 3 < j"
  defines "b \<equiv> a[j := a ! (i + 3) OR push_bit 6 (a ! (i + 2) AND 3),
      j - 1 := drop_bit 2 (a ! (i + 2) AND 0x3c) OR push_bit 4 (a ! (i + 1) AND 0xf),
      j - 2 := drop_bit 4 (a ! (i + 1) AND 0x30) OR push_bit 2 (a ! i), j - 3 := 0]"
  shows "fromb64_loop a (i + 3) j = (if i = 0 then (b, j - 3) else fromb64_loop b (i - 1) (j - 3))"
  using assms(1,2) by (subst fromb64_loop.simps) (simp add: Let_def b_def cong: let_weak_cong if_weak_cong)

lemma fromb64_loop_dec64:
  "i < j \<Longrightarrow> j < length a \<Longrightarrow>
   (case fromb64_loop a i j of (a', j') \<Rightarrow> drop j' a' = rev (dec64 (rev (take (Suc i) a))) @ drop (Suc j) a)"
proof (induction i arbitrary: a j rule: less_induct)
  case (less i)
  consider "i = 0" | "i = 1" | "i = 2" | k where "i = k + 3"
  proof (cases "i < 3")
    case True
    then have "i = 0 \<or> i = 1 \<or> i = 2" by linarith
    then show ?thesis using that by blast
  next
    case False
    then show ?thesis using that(4) [of "i - 3"] by simp
  qed
  moreover have ne: "a \<noteq> []" using less.prems by auto
  ultimately show ?case
  proof cases
    case 1
    then show ?thesis using less.prems ne by (simp add: fromb64_0 drop_upd rev_take_Suc)
  next
    case 2
    then obtain k where "j = Suc k" using less.prems by (cases j) auto
    then show ?thesis using 2 less.prems ne by (simp add: fromb64_1 [unfolded One_nat_def] drop_upd rev_take_Suc)
  next
    case 3
    then obtain k where "j = Suc (Suc k)" using less.prems by (metis Suc_lessE numeral_2_eq_2)
    then show ?thesis using 3 less.prems ne by (simp add: fromb64_2 drop_upd rev_take_3)
  next
    case 4
    then have "3 < j" using less.prems by linarith
    then obtain m where m: "j = Suc (Suc (Suc m))" by (intro that [of "j - 3"]) simp
    let ?b = "a[j := a ! (k + 3) OR push_bit 6 (a ! (k + 2) AND 3),
      j - 1 := drop_bit 2 (a ! (k + 2) AND 0x3c) OR push_bit 4 (a ! (k + 1) AND 0xf),
      j - 2 := drop_bit 4 (a ! (k + 1) AND 0x30) OR push_bit 2 (a ! k), j - 3 := 0]"
    have km: "k < m" "Suc (Suc (Suc m)) < length a" using 4 m less.prems by simp_all
    have r: "rev (take (Suc i) a) = a ! (k + 3) # a ! (k + 2) # a ! (k + 1) # a ! k # rev (take k a)"
      using km 4 by (simp add: rev_take_Suc numeral_3_eq_3)
    have d: "drop m ?b = [0, drop_bit 4 (a ! (k + 1) AND 0x30) OR push_bit 2 (a ! k),
        drop_bit 2 (a ! (k + 2) AND 0x3c) OR push_bit 4 (a ! (k + 1) AND 0xf),
        a ! (k + 3) OR push_bit 6 (a ! (k + 2) AND 3)] @ drop (Suc j) a"
      using km by (simp add: m drop_upd)
    have loop: "fromb64_loop a i j = (if k = 0 then (?b, j - 3) else fromb64_loop ?b (k - 1) (j - 3))"
      unfolding 4 using less.prems 4 by (intro fromb64_more) simp_all
    show ?thesis
    proof (cases "k = 0")
      case True
      then show ?thesis unfolding loop r using d m by simp
    next
      case False
      have "drop (Suc m) ?b = tl (drop m ?b)" by (simp add: drop_Suc tl_drop)
      moreover have "take (Suc (k - 1)) ?b = take k a" using km False m by simp
      moreover have "case fromb64_loop ?b (k - 1) m of
          (a', j') \<Rightarrow> drop j' a' = rev (dec64 (rev (take (Suc (k - 1)) ?b))) @ drop (Suc m) ?b"
        using 4 km False m by (intro less.IH) simp_all
      ultimately show ?thesis unfolding loop r using d m False ne by (simp split: prod.splits)
    qed
  qed
qed

section \<open>The number that is read\<close>

lemma small: "(x :: u8) < of_nat n \<Longrightarrow> \<exists>i < n. x = of_nat i"
  by (intro exI [of _ "unat x"]) (simp add: word_less_nat_alt unat_of_nat order.strict_trans2)

lemma or_push_value:
  "x < 64 \<Longrightarrow> y < 4 \<Longrightarrow> unat (x OR push_bit 6 y :: u8) = unat x + 64 * unat y"
  "x < 16 \<Longrightarrow> y < 16 \<Longrightarrow> unat (x OR push_bit 4 y :: u8) = unat x + 16 * unat y"
  "x < 4 \<Longrightarrow> y < 64 \<Longrightarrow> unat (x OR push_bit 2 y :: u8) = unat x + 4 * unat y"
proof -
  have t: "list_all (\<lambda>i. list_all (\<lambda>j. unat (of_nat i OR push_bit 6 (of_nat j) :: u8) = i + 64 * j) [0..<4]) [0..<64]"
    "list_all (\<lambda>i. list_all (\<lambda>j. unat (of_nat i OR push_bit 4 (of_nat j) :: u8) = i + 16 * j) [0..<16]) [0..<16]"
    "list_all (\<lambda>i. list_all (\<lambda>j. unat (of_nat i OR push_bit 2 (of_nat j) :: u8) = i + 4 * j) [0..<64]) [0..<4]"
    by code_simp+
  show "x < 64 \<Longrightarrow> y < 4 \<Longrightarrow> unat (x OR push_bit 6 y :: u8) = unat x + 64 * unat y"
    using t(1) small [of x 64] small [of y 4] by (auto simp: list_all_iff unat_of_nat)
  show "x < 16 \<Longrightarrow> y < 16 \<Longrightarrow> unat (x OR push_bit 4 y :: u8) = unat x + 16 * unat y"
    using t(2) small [of x 16] small [of y 16] by (auto simp: list_all_iff unat_of_nat)
  show "x < 4 \<Longrightarrow> y < 64 \<Longrightarrow> unat (x OR push_bit 2 y :: u8) = unat x + 4 * unat y"
    using t(3) small [of x 4] small [of y 64] by (auto simp: list_all_iff unat_of_nat)
qed

lemma digit_parts:
  assumes "d < 64"
  shows "unat (d AND 3 :: u8) = unat d mod 4" and "unat (drop_bit 2 (d AND 0x3c)) = unat d div 4"
    and "unat (d AND 0xf) = unat d mod 16" and "unat (drop_bit 4 (d AND 0x30)) = unat d div 16"
    and "d AND 3 < 4" and "drop_bit 2 (d AND 0x3c) < 16" and "d AND 0xf < 16" and "drop_bit 4 (d AND 0x30) < 4"
proof -
  have t: "list_all (\<lambda>i. let d = of_nat i :: u8 in unat (d AND 3) = i mod 4 \<and> unat (drop_bit 2 (d AND 0x3c)) = i div 4
      \<and> unat (d AND 0xf) = i mod 16 \<and> unat (drop_bit 4 (d AND 0x30)) = i div 16
      \<and> d AND 3 < 4 \<and> drop_bit 2 (d AND 0x3c) < 16 \<and> d AND 0xf < 16 \<and> drop_bit 4 (d AND 0x30) < 4) [0..<64]"
    by code_simp
  obtain i where i: "i < 64" "d = of_nat i" using small [of d 64] assms by auto
  have u: "unat (of_nat i :: u8) = i" using i(1) by (simp add: unat_of_nat)
  have "i \<in> set [0..<64]" using i(1) by simp
  note p = bspec [OF t [unfolded list_all_iff Let_def] this]
  show "unat (d AND 3 :: u8) = unat d mod 4" and "unat (drop_bit 2 (d AND 0x3c)) = unat d div 4"
    and "unat (d AND 0xf) = unat d mod 16" and "unat (drop_bit 4 (d AND 0x30)) = unat d div 16"
    and "d AND 3 < 4" and "drop_bit 2 (d AND 0x3c) < 16" and "d AND 0xf < 16" and "drop_bit 4 (d AND 0x30) < 4"
    unfolding i(2) u using p by blast+
qed

lemma from_bytes_Cons_rev: "BigIntegerFromBytes (rev (b # bs)) = unat b + 256 * BigIntegerFromBytes (rev bs)"
  by simp

lemma byte_values:
  assumes "d < 64" and "e < 64" and "f < 64" and "g < 64"
  shows "unat (d OR push_bit 6 (e AND 3) :: u8) = unat d + 64 * (unat e mod 4)"
    and "unat (drop_bit 2 (e AND 0x3c) OR push_bit 4 (f AND 0xf) :: u8) = unat e div 4 + 16 * (unat f mod 16)"
    and "unat (drop_bit 4 (f AND 0x30) OR push_bit 2 g :: u8) = unat f div 16 + 4 * unat g"
  using or_push_value(1) [OF assms(1) digit_parts(5) [OF assms(2)]]
    or_push_value(2) [OF digit_parts(6) [OF assms(2)] digit_parts(7) [OF assms(3)]]
    or_push_value(3) [OF digit_parts(8) [OF assms(3)] assms(4)]
  by (simp_all only: digit_parts [OF assms(2)] digit_parts [OF assms(3)])

lemma regroup:
  fixes e f :: nat
  shows "x + 64 * (e mod 4) + 256 * (e div 4 + 16 * (f mod 16) + 256 * (f div 16 + y)) = x + 64 * e + 4096 * f + 65536 * y"
proof -
  have "x + 64 * m + 256 * (q + 16 * n + 256 * (p + y)) = x + 64 * (m + 4 * q) + 4096 * (n + 16 * p) + 65536 * y"
    for m q n p :: nat by (simp add: algebra_simps)
  from this [of "e mod 4" "e div 4" "f mod 16" "f div 16"] show ?thesis unfolding mod_mult_div_eq .
qed

lemma dec64_value: "list_all (\<lambda>d. d < 64) ds \<Longrightarrow> BigIntegerFromBytes (rev (dec64 ds)) = val64 ds"
proof (induction ds rule: dec64.induct)
  case (2 d)
  then show ?case unfolding dec64.simps from_bytes_Cons_rev by simp
next
  case (3 d e)
  then have l: "d < 64" "e < 64" by simp_all
  have "BigIntegerFromBytes (rev (dec64 [d, e])) = unat d + 64 * (unat e mod 4) + 256 * (unat e div 4)"
    unfolding dec64.simps from_bytes_Cons_rev byte_values(1) [OF l l] digit_parts(2) [OF l(2)] by simp
  moreover have "val64 [d, e] = unat d + 64 * unat e" by simp
  ultimately show ?case using regroup [of "unat d" "unat e" 0 0] by simp
next
  case (4 d e f)
  then have l: "d < 64" "e < 64" "f < 64" by simp_all
  have "BigIntegerFromBytes (rev (dec64 [d, e, f])) =
      unat d + 64 * (unat e mod 4) + 256 * (unat e div 4 + 16 * (unat f mod 16) + 256 * (unat f div 16))"
    unfolding dec64.simps from_bytes_Cons_rev byte_values [OF l l(3)] digit_parts(4) [OF l(3)] by simp
  moreover have "val64 [d, e, f] = unat d + 64 * unat e + 4096 * unat f" by simp
  ultimately show ?case using regroup [of "unat d" "unat e" "unat f" 0] by simp
next
  case (5 d e f g r)
  then have l: "d < 64" "e < 64" "f < 64" "g < 64" by simp_all
  have "BigIntegerFromBytes (rev (if r = [] then [0] else dec64 r)) = val64 r"
    using 5 by (cases "r = []") (simp_all add: from_bytes_Cons_rev [of 0 "[]", simplified])
  then have "BigIntegerFromBytes (rev (dec64 (d # e # f # g # r))) =
      unat d + 64 * (unat e mod 4) + 256 * (unat e div 4 + 16 * (unat f mod 16)
        + 256 * (unat f div 16 + 4 * unat g + 256 * val64 r))"
    unfolding dec64.simps append.simps from_bytes_Cons_rev byte_values [OF l] by simp
  moreover have "val64 (d # e # f # g # r) = unat d + 64 * unat e + 4096 * unat f + 262144 * unat g + 16777216 * val64 r"
    by simp
  ultimately show ?case
    using regroup [of "unat d" "unat e" "unat f" "4 * unat g + 256 * val64 r"] by (simp add: add.assoc)
qed simp

lemma to_bytes_zero [simp]: "BigIntegerToBytes 0 = []"
  by (simp add: BigIntegerToBytes.simps)

lemma to_from_bytes: "BigIntegerToBytes (BigIntegerFromBytes bs) = dropWhile (\<lambda>b. b = 0) bs"
proof (induction bs rule: rev_induct)
  case (snoc b bs)
  have b: "unat b < 256" using unsigned_less [of b, where 'a = nat] by simp
  have zero: "BigIntegerFromBytes bs = 0 \<longleftrightarrow> dropWhile (\<lambda>b. b = 0) bs = []"
  proof
    assume "BigIntegerFromBytes bs = 0"
    then show "dropWhile (\<lambda>b. b = 0) bs = []" using snoc by simp
  next
    assume "dropWhile (\<lambda>b. b = 0) bs = []"
    then have "BigIntegerToBytes (BigIntegerFromBytes bs) = []" using snoc by simp
    then show "BigIntegerFromBytes bs = 0" by (subst (asm) BigIntegerToBytes.simps) (simp split: if_splits)
  qed
  have div: "(256 * BigIntegerFromBytes bs + unat b) div 256 = BigIntegerFromBytes bs"
    "(256 * BigIntegerFromBytes bs + unat b) mod 256 = unat b" using b by simp_all
  show ?case
  proof (cases "dropWhile (\<lambda>b. b = 0) bs = []")
    case True
    then have "BigIntegerFromBytes bs = 0" "\<forall>c \<in> set bs. c = 0" using zero by (simp_all add: dropWhile_eq_Nil_conv)
    then show ?thesis using div b
      by (subst from_bytes_snoc, subst BigIntegerToBytes.simps)
        (auto simp: unat_eq_0 dropWhile_append)
  next
    case False
    then have "BigIntegerFromBytes bs \<noteq> 0" using zero by simp
    then have "BigIntegerToBytes (256 * BigIntegerFromBytes bs + unat b) = dropWhile (\<lambda>b. b = 0) bs @ [b]"
      using div snoc by (subst BigIntegerToBytes.simps) simp
    then show ?thesis using False by (auto simp: dropWhile_append)
  qed
qed simp

definition number64 :: "bytes \<Rightarrow> nat" where
  "number64 ds = foldl (\<lambda>n d. 64 * n + unat d) 0 ds"

lemma val64_snoc: "val64 (rev ds) = number64 ds"
proof -
  have "foldl (\<lambda>n d. 64 * n + unat d) n ds = val64 (rev ds) + 64 ^ length ds * n" for n
  proof (induction ds arbitrary: n)
    case (Cons d ds)
    have "val64 (xs @ [d]) = val64 xs + 64 ^ length xs * unat d" for xs
      by (induction xs) (simp_all add: algebra_simps)
    then show ?case using Cons by (simp add: algebra_simps)
  qed simp
  from this [of 0] show ?thesis by (simp add: number64_def)
qed

lemma number64_Nil [simp]: "number64 [] = 0"
  by (simp add: number64_def)

lemma number64_snoc [simp]: "number64 (ds @ [d]) = 64 * number64 ds + unat d"
  by (simp add: number64_def)

lemma index_of_less: "index_of c xs = Some i \<Longrightarrow> i < length xs \<and> xs ! i = c"
  by (induction xs arbitrary: i) (auto split: if_splits)

lemma length_b64table [simp]: "length b64table = 64"
  by (simp add: b64table_def)

lemma b64_digits_less: "list_all (\<lambda>d. d < 64) (b64_digits src)"
proof (induction src)
  case (Cons c src)
  show ?case
  proof (cases "index_of c b64table")
    case (Some i)
    then have "i < 64" using index_of_less by fastforce
    then have "(of_nat i :: u8) < 64" by (simp add: word_less_nat_alt unat_of_nat)
    then show ?thesis using Some Cons by simp
  qed simp
qed simp

definition b64_text :: "bytes \<Rightarrow> bytes" where
  "b64_text src = b64_digits (dropWhile (\<lambda>c. c = 32 \<or> c = 9 \<or> c = 10) src)"

text \<open>C38. \<open>t_fromb64\<close> reads the digits of the text as one number in base 64, most significant digit
  first, and stores its bytes without leading zeros; only a text with no digit has no value.\<close>

theorem t_fromb64_number:
  "t_fromb64 src = (if b64_text src = [] then None else Some (BigIntegerToBytes (number64 (b64_text src))))"
proof (cases "b64_text src = []")
  case True
  then show ?thesis by (simp add: t_fromb64_def b64_text_def)
next
  case False
  let ?d = "b64_text src"
  obtain a j where l: "fromb64_loop (?d @ [0]) (length ?d - 1) (length ?d) = (a, j)" by (meson surj_pair)
  have "case fromb64_loop (?d @ [0]) (length ?d - 1) (length ?d) of (a', j') \<Rightarrow>
      drop j' a' = rev (dec64 (rev (take (Suc (length ?d - 1)) (?d @ [0])))) @ drop (Suc (length ?d)) (?d @ [0])"
    using False by (intro fromb64_loop_dec64) simp_all
  then have "drop j a = rev (dec64 (rev ?d))" using False l by simp
  moreover have "BigIntegerFromBytes (rev (dec64 (rev ?d))) = number64 ?d"
    using b64_digits_less [of "dropWhile (\<lambda>c. c = 32 \<or> c = 9 \<or> c = 10) src"]
    by (simp add: dec64_value val64_snoc b64_text_def)
  ultimately have "dropWhile (\<lambda>b. b = 0) (drop j a) = BigIntegerToBytes (number64 ?d)"
    by (metis to_from_bytes)
  then show ?thesis using False l unfolding t_fromb64_def b64_text_def Let_def by simp
qed

section \<open>Printing base 64\<close>

text \<open>The digits of a group of three bytes, and of a whole number.\<close>

definition group64 :: "u8 \<Rightarrow> u8 \<Rightarrow> u8 \<Rightarrow> bytes" where
  "group64 b0 b1 b2 = [drop_bit 2 (b0 AND 0xfc), push_bit 4 (b0 AND 3) OR drop_bit 4 (b1 AND 0xf0),
     push_bit 2 (b1 AND 0xf) OR drop_bit 6 (b2 AND 0xc0), b2 AND 0x3f]"

fun groups64 :: "bytes \<Rightarrow> bytes" where
  "groups64 (x # y # z # src) = group64 x y z @ groups64 src"
| "groups64 _ = []"

definition put_digits :: "bytes \<times> bool \<Rightarrow> bytes \<Rightarrow> bytes \<times> bool" where
  "put_digits out cs = foldl put_digit out cs"

lemma put_group_digits: "put_group out b0 b1 b2 = put_digits out (group64 b0 b1 b2)"
  by (simp add: put_group_def put_digits_def group64_def Let_def)

lemma tob64_loop_digits:
  "length src mod 3 = 0 \<Longrightarrow> tob64_loop out b0 b1 b2 src = fst (put_digits out (group64 b0 b1 b2 @ groups64 src))"
proof (induction out b0 b1 b2 src rule: tob64_loop.induct)
  case (1 out b0 b1 b2 x y z src)
  then show ?case by (simp add: put_group_digits put_digits_def)
qed (simp_all add: put_group_digits)

lemma put_digits_text:
  "put_digits (dst, nl) cs =
     (let ds = (if nl then cs else dropWhile (\<lambda>c. c = 0) cs) in (dst @ map (\<lambda>c. b64table ! unat c) ds, nl \<or> ds \<noteq> []))"
proof (induction cs arbitrary: dst nl)
  case (Cons c cs)
  have "put_digits (dst, nl) (c # cs) = put_digits (put_digit (dst, nl) c) cs" by (simp add: put_digits_def)
  then show ?case using Cons by (auto simp: put_digit_def Let_def)
qed (simp add: put_digits_def)

lemma unat_drop_mask: "unat (drop_bit k b AND mask m :: 'a::len word) = unat b div 2 ^ k mod 2 ^ m"
  by (simp only: take_bit_eq_mask [symmetric] unsigned_take_bit_eq unat_drop_bit) (simp add: take_bit_eq_mod)

lemma byte_parts:
  "unat (drop_bit 2 (b AND 0xfc) :: u8) = unat b div 4" "unat (b AND 3) = unat b mod 4"
  "unat (drop_bit 4 (b AND 0xf0)) = unat b div 16" "unat (b AND 0xf) = unat b mod 16"
  "unat (drop_bit 6 (b AND 0xc0)) = unat b div 64" "unat (b AND 0x3f) = unat b mod 64"
proof -
  have l: "unat b < 256" using unsigned_less [of b, where 'a = nat] by simp
  have m: "mask 6 = (0x3f :: u8)" "mask 4 = (0xf :: u8)" "mask 2 = (3 :: u8)" by (simp_all add: mask_eq_exp_minus_1)
  have d: "drop_bit 2 (b AND 0xfc) = drop_bit 2 b AND mask 6" "drop_bit 4 (b AND 0xf0) = drop_bit 4 b AND mask 4"
    "drop_bit 6 (b AND 0xc0) = drop_bit 6 b AND mask 2" by (simp_all add: m)
  show "unat (drop_bit 2 (b AND 0xfc)) = unat b div 4" "unat (drop_bit 4 (b AND 0xf0)) = unat b div 16"
    "unat (drop_bit 6 (b AND 0xc0)) = unat b div 64"
    unfolding d unat_drop_mask using l by (simp_all add: less_mult_imp_div_less)
  show "unat (b AND 3) = unat b mod 4" "unat (b AND 0xf) = unat b mod 16" "unat (b AND 0x3f) = unat b mod 64"
    using unat_drop_mask [of 0 b] by (simp_all add: m [symmetric])
qed

lemma less_of_unat: "unat x < n \<Longrightarrow> n < 256 \<Longrightarrow> (x :: u8) < of_nat n"
  by (simp add: word_less_nat_alt unat_of_nat)

lemma group64_values:
  "map unat (group64 a b c) = [unat a div 4, 16 * (unat a mod 4) + unat b div 16, 4 * (unat b mod 16) + unat c div 64, unat c mod 64]"
proof -
  have l: "unat x < 256" for x :: u8 using unsigned_less [of x, where 'a = nat] by simp
  have "unat b div 16 < 16" "unat c div 64 < 4" using l [of b] l [of c] by (simp_all add: div_less_iff_less_mult)
  then have "drop_bit 4 (b AND 0xf0) < 16" "a AND 3 < 16" "drop_bit 6 (c AND 0xc0) < 4" "b AND 0xf < 64"
    using less_of_unat [of "drop_bit 4 (b AND 0xf0)" 16] less_of_unat [of "a AND 3" 16] less_of_unat [of "b AND 0xf" 64]
      less_of_unat [of "drop_bit 6 (c AND 0xc0)" 4] by (simp_all only: byte_parts) simp_all
  from or_push_value(2) [OF this(1,2)] or_push_value(3) [OF this(3,4)]
  have "unat (push_bit 4 (a AND 3) OR drop_bit 4 (b AND 0xf0)) = 16 * (unat a mod 4) + unat b div 16"
    "unat (push_bit 2 (b AND 0xf) OR drop_bit 6 (c AND 0xc0)) = 4 * (unat b mod 16) + unat c div 64"
    by (simp_all only: byte_parts or.commute add.commute)
  then show ?thesis by (simp only: group64_def list.map byte_parts)
qed

lemma number64_unats: "number64 ds = foldl (\<lambda>n d. 64 * n + d) 0 (map unat ds)"
  by (simp add: number64_def foldl_map)

lemma number64_group:
  "number64 (xs @ group64 a b c) = 16777216 * number64 xs + 65536 * unat a + 256 * unat b + unat c"
proof -
  have "64 * (64 * (64 * (64 * n + a div 4) + (16 * (a mod 4) + b div 16)) + (4 * (b mod 16) + c div 64)) + c mod 64
      = 16777216 * n + 65536 * a + 256 * b + (c :: nat)" for n a b c
  proof -
    have "64 * (64 * (64 * (64 * n + q) + (16 * m + q')) + (4 * m' + q'')) + m''
        = 16777216 * n + 65536 * (m + 4 * q) + 256 * (m' + 16 * q') + (m'' + 64 * (q'' :: nat))" for q m q' m' q'' m''
      by (simp add: algebra_simps)
    from this [of "a div 4" "a mod 4" "b div 16" "b mod 16" "c div 64" "c mod 64"] show ?thesis unfolding mod_mult_div_eq .
  qed
  then show ?thesis unfolding number64_unats map_append foldl_append group64_values foldl.simps .
qed

lemma number64_groups:
  "length src mod 3 = 0 \<Longrightarrow> number64 xs = BigIntegerFromBytes bs \<Longrightarrow>
   number64 (xs @ groups64 src) = BigIntegerFromBytes (bs @ src)"
proof (induction src arbitrary: xs bs rule: groups64.induct)
  case (1 x y z src)
  have "number64 ((xs @ group64 x y z) @ groups64 src) = BigIntegerFromBytes ((bs @ [x, y, z]) @ src)"
  proof (rule "1.IH")
    have "BigIntegerFromBytes (((bs @ [x]) @ [y]) @ [z]) = 16777216 * BigIntegerFromBytes bs + 65536 * unat x + 256 * unat y + unat z"
      unfolding from_bytes_snoc by simp
    then show "number64 (xs @ group64 x y z) = BigIntegerFromBytes (bs @ [x, y, z])"
      by (simp add: number64_group "1.prems"(2))
  qed (use "1.prems" in simp)
  then show ?case by simp
qed simp_all

lemma group64_less: "list_all (\<lambda>d. d < 64) (group64 a b c)"
proof -
  have l: "unat x < 256" for x :: u8 using unsigned_less [of x, where 'a = nat] by simp
  have "list_all (\<lambda>d. d < 64) (map unat (group64 a b c))"
    unfolding group64_values using l [of a] l [of b] l [of c]
    by (simp add: div_less_iff_less_mult) linarith
  then show ?thesis by (simp add: list_all_iff word_less_nat_alt)
qed

lemma groups64_less: "list_all (\<lambda>d. d < 64) (groups64 src)"
  by (induction src rule: groups64.induct) (simp_all add: group64_less)

definition digits64 :: "bytes \<Rightarrow> bytes" where
  "digits64 src =
     (let pos = length src mod 3
      in group64 0 (if pos = 2 then src ! 0 else 0) (if pos = 1 then src ! 0 else if pos = 2 then src ! 1 else 0)
         @ groups64 (drop pos src))"

lemma drop_mod3: "length (drop (length src mod 3) src) mod 3 = 0"
  by (simp add: minus_mod_eq_mult_div)

lemma t_tob64_digits: "t_tob64 src = map (\<lambda>c. b64table ! unat c) (dropWhile (\<lambda>c. c = 0) (digits64 src))"
  unfolding t_tob64_def Let_def digits64_def tob64_loop_digits [OF drop_mod3] put_digits_text by simp

lemma take_1: "1 \<le> length xs \<Longrightarrow> take 1 xs = [xs ! 0]"
  by (cases xs) simp_all

lemma take_2: "2 \<le> length xs \<Longrightarrow> take 2 xs = [xs ! 0, xs ! 1]"
  by (auto simp: Suc_le_length_iff numeral_2_eq_2)

lemma digits64_number: "number64 (digits64 src) = BigIntegerFromBytes src"
proof -
  let ?pos = "length src mod 3"
  have "number64 (group64 0 (if ?pos = 2 then src ! 0 else 0) (if ?pos = 1 then src ! 0 else if ?pos = 2 then src ! 1 else 0))
      = BigIntegerFromBytes (take ?pos src)"
  proof -
    have le: "?pos \<le> length src" by (rule mod_less_eq_dividend)
    consider "?pos = 0" | "?pos = 1" | "?pos = 2" by linarith
    then show ?thesis
    proof cases
      case 1
      then show ?thesis using number64_group [of "[]" 0 0 0] by simp
    next
      case 2
      then show ?thesis using number64_group [of "[]" 0 0 "src ! 0"] take_1 [of src] le from_bytes_snoc [of "[]" "src ! 0"]
        by simp
    next
      case 3
      then show ?thesis using number64_group [of "[]" 0 "src ! 0" "src ! 1"] take_2 [of src] le
          from_bytes_snoc [of "[]" "src ! 0"] from_bytes_snoc [of "[src ! 0]" "src ! 1"]
        by simp
    qed
  qed
  then have "number64 (digits64 src) = BigIntegerFromBytes (take ?pos src @ drop ?pos src)"
    unfolding digits64_def Let_def
    by (intro number64_groups drop_mod3)
  then show ?thesis by simp
qed

lemma digits64_less: "list_all (\<lambda>d. d < 64) (digits64 src)"
  by (simp add: digits64_def Let_def group64_less groups64_less)

lemma b64table_words: "b64table = [48, 49, 50, 51, 52, 53, 54, 55, 56, 57] @ [65, 66, 67, 68, 69, 70, 71, 72, 73, 74, 75, 76, 77, 78, 79, 80, 81, 82, 83, 84, 85, 86, 87, 88, 89, 90]
   @ [97, 98, 99, 100, 101, 102, 103, 104, 105, 106, 107, 108, 109, 110, 111, 112, 113, 114, 115, 116, 117, 118, 119, 120, 121, 122, 46, 47]"
  by (simp add: b64table_def str_def)

lemma distinct_b64table: "distinct b64table" "set b64table \<inter> {32, 9, 10} = {}"
  unfolding b64table_words by simp_all

lemma index_of_nth: "distinct xs \<Longrightarrow> i < length xs \<Longrightarrow> index_of (xs ! i) xs = Some i"
proof (induction xs arbitrary: i)
  case (Cons x xs)
  then show ?case by (cases i) (auto simp: in_set_conv_nth)
qed simp

lemma b64table_index:
  assumes "(c :: u8) < 64"
  shows "index_of (b64table ! unat c) b64table = Some (unat c)" and "b64table ! unat c \<notin> {32, 9, 10}"
proof -
  have i: "unat c < length b64table" using assms by (simp add: word_less_nat_alt)
  then show "index_of (b64table ! unat c) b64table = Some (unat c)" by (rule index_of_nth [OF distinct_b64table(1)])
  show "b64table ! unat c \<notin> {32, 9, 10}" using distinct_b64table(2) nth_mem [OF i] by blast
qed

lemma b64_digits_text: "list_all (\<lambda>d. d < 64) ds \<Longrightarrow> b64_digits (map (\<lambda>c. b64table ! unat c) ds) = ds"
  by (induction ds) (simp_all add: b64table_index)

lemma b64_text_map:
  assumes "list_all (\<lambda>d. d < 64) ds"
  shows "b64_text (map (\<lambda>c. b64table ! unat c) ds) = ds"
proof (cases ds)
  case (Cons d r)
  then have "b64table ! unat d \<notin> {32, 9, 10}" using assms by (intro b64table_index) simp
  then have "dropWhile (\<lambda>c. c = 32 \<or> c = 9 \<or> c = 10) (map (\<lambda>c. b64table ! unat c) ds) = map (\<lambda>c. b64table ! unat c) ds"
    using Cons by simp
  then show ?thesis using assms by (simp add: b64_text_def b64_digits_text)
qed (simp add: b64_text_def)

lemma number64_skip: "number64 (dropWhile (\<lambda>c. c = 0) ds) = number64 ds"
  by (induction ds) (simp_all add: number64_def)

lemma number64_zero: "number64 ds = 0 \<longleftrightarrow> dropWhile (\<lambda>c. c = 0) ds = []"
  by (induction ds rule: rev_induct) (auto simp: dropWhile_append unat_eq_0)

text \<open>C39. Reading back what \<open>t_tob64\<close> prints gives the bytes without their leading zeros; a number zero
  is printed as the empty text, which cannot be read.\<close>

theorem b64_roundtrip:
  "t_fromb64 (t_tob64 bs) =
     (if dropWhile (\<lambda>b. b = 0) bs = [] then None else Some (dropWhile (\<lambda>b. b = 0) bs))"
proof -
  let ?ds = "dropWhile (\<lambda>c. c = 0) (digits64 bs)"
  have "list_all (\<lambda>d. d < 64) ?ds" using digits64_less [of bs] by (auto simp: list_all_iff dest: set_dropWhileD)
  then have t: "b64_text (t_tob64 bs) = ?ds" by (simp add: t_tob64_digits b64_text_map)
  have n: "number64 ?ds = BigIntegerFromBytes bs" by (simp add: number64_skip digits64_number)
  have "?ds = [] \<longleftrightarrow> BigIntegerFromBytes bs = 0" using number64_zero digits64_number by metis
  also have "\<dots> \<longleftrightarrow> dropWhile (\<lambda>b. b = 0) bs = []"
    using to_from_bytes [of bs] from_to_bytes by (metis from_bytes_Nil to_bytes_zero)
  finally show ?thesis unfolding t_fromb64_number t n to_from_bytes by simp
qed

section \<open>Hexadecimal\<close>

lemma hex_digit_char: "i < 16 \<Longrightarrow> hexDigitToInt (hex_char i) = of_nat i"
proof -
  assume "i < 16"
  moreover have "list_all (\<lambda>i. hexDigitToInt (hex_char i) = of_nat i) [0..<16]" by code_simp
  ultimately show ?thesis by (simp only: list_all_iff set_upt) auto
qed

lemma hex_pair: "push_bit 4 (hexDigitToInt (hex_char (unat b div 16))) OR hexDigitToInt (hex_char (unat b mod 16)) = (b :: u8)"
proof -
  have l: "unat b div 16 < 16" "unat b mod 16 < 16"
    using unsigned_less [of b, where 'a = nat] by (simp_all add: less_mult_imp_div_less)
  then have w: "(of_nat (unat b div 16) :: u8) < 16" "(of_nat (unat b mod 16) :: u8) < 16"
    by (simp_all add: word_less_nat_alt unat_of_nat)
  have "unat (of_nat (unat b mod 16) OR push_bit 4 (of_nat (unat b div 16)) :: u8) = unat b mod 16 + 16 * (unat b div 16)"
    using or_push_value(2) [OF w(2) w(1)] l by (simp add: unat_of_nat)
  then have "of_nat (unat b mod 16) OR push_bit 4 (of_nat (unat b div 16)) = b"
    by (simp only: mod_mult_div_eq unsigned_word_eqI)
  then show ?thesis by (simp only: hex_digit_char l or.commute)
qed

lemma fromhex_tohex: "fromhex_loop (tohex_loop True bs) = bs"
  by (induction bs) (simp_all add: print_02x_def hex_pair)

lemma tohex_loop_skip: "tohex_loop False bs = tohex_loop True (dropWhile (\<lambda>b. b = 0) bs)"
  by (induction bs) simp_all

lemma even_tohex: "even (length (tohex_loop nl bs))"
  by (induction nl bs rule: tohex_loop.induct) (simp_all add: print_02x_def)

lemma t_fromhex_even: "even (length src) \<Longrightarrow> t_fromhex src = fromhex_loop src"
  by (cases src) (simp_all add: t_fromhex_def)

lemma tohex_Nil: "tohex_loop True bs = [] \<longleftrightarrow> bs = []"
  by (cases bs) (simp_all add: print_02x_def)

text \<open>Reading back what \<open>t_tohex\<close> prints gives the bytes without their leading zeros. For a number
  zero nothing is printed, not even the end of the text: what is read is what \<open>dst\<close> held before.\<close>

theorem hex_roundtrip:
  "t_fromhex (t_tohex dst bs) =
     (if dropWhile (\<lambda>b. b = 0) bs = [] then t_fromhex dst else dropWhile (\<lambda>b. b = 0) bs)"
proof -
  let ?t = "tohex_loop True (dropWhile (\<lambda>b. b = 0) bs)"
  have "t_fromhex ?t = dropWhile (\<lambda>b. b = 0) bs"
    by (simp only: t_fromhex_even even_tohex fromhex_tohex)
  then show ?thesis by (simp add: t_tohex_def Let_def tohex_loop_skip tohex_Nil)
qed

end
