(* ===== verification/Ead.thy ===== *)
theory Ead
  imports Prelude Ead_Crypt Srp T_Conv
begin

text \<open>
  The emergency access daemon, \<open>package/network/services/ead/src/ead.c\<close>: from a received frame to
  the frames that are sent and the commands that are run.

  The static variables are the record \<open>ead\<close>; what does not change after the start (name, node id,
  MAC address, instance, byte order) is \<open>ead_conf\<close>; what the system answers while one frame is
  handled (password file, random bytes, uninitialised memory, child process) is \<open>ead_env\<close>. The
  visible effects are appended to \<open>events\<close>. \<open>struct ead_packet\<close> is packed: the offsets are
  those of the fields. Integers are those of the 32-bit routers. A received frame is its captured
  bytes; access outside them, outside \<open>pktbuf\<close> or through NULL is \<^term>\<open>None\<close>, and so is a
  loop that does not end.
\<close>

section \<open>Constants and layout\<close>

definition EAD_PORT :: u16 where "EAD_PORT = 56026"
definition EAD_MAGIC :: u32 where "EAD_MAGIC = 3671771902"
definition EAD_CMD_TIMEOUT :: nat where "EAD_CMD_TIMEOUT = 10"

definition EAD_TYPE_PING :: nat where "EAD_TYPE_PING = 0"
definition EAD_TYPE_SET_USERNAME :: nat where "EAD_TYPE_SET_USERNAME = 2"
definition EAD_TYPE_GET_PRIME :: nat where "EAD_TYPE_GET_PRIME = 4"
definition EAD_TYPE_SEND_A :: nat where "EAD_TYPE_SEND_A = 6"
definition EAD_TYPE_SEND_AUTH :: nat where "EAD_TYPE_SEND_AUTH = 8"
definition EAD_TYPE_SEND_CMD :: nat where "EAD_TYPE_SEND_CMD = 10"

lemmas type_defs = EAD_TYPE_PING_def EAD_TYPE_SET_USERNAME_def EAD_TYPE_GET_PRIME_def EAD_TYPE_SEND_A_def
  EAD_TYPE_SEND_AUTH_def EAD_TYPE_SEND_CMD_def

text \<open>Offsets of the message and of its data; sizes of the message bodies.\<close>

definition MSG :: nat where "MSG = 42"
definition DATA :: nat where "DATA = 62"
definition ENC_DATA :: nat where "ENC_DATA = DATA + ENC_HDR"
definition SIZE_pong :: nat where "SIZE_pong = 2"
definition SIZE_user :: nat where "SIZE_user = 32"
definition SIZE_number :: nat where "SIZE_number = 1"
definition SIZE_salt :: nat where "SIZE_salt = 66"
definition SIZE_auth :: nat where "SIZE_auth = 20"
definition SIZE_cmd :: nat where "SIZE_cmd = 3"
definition SIZE_cmd_data :: nat where "SIZE_cmd_data = 1"
definition MAXPARAMLEN :: nat where "MAXPARAMLEN = 256"
definition MAXSALTLEN :: nat where "MAXSALTLEN = 32"
definition PCAP_MRU :: nat where "PCAP_MRU = 1600"

lemmas layout_defs = MSG_def DATA_def ENC_DATA_def ENC_HDR_def SIZE_pong_def SIZE_user_def SIZE_number_def
  SIZE_salt_def SIZE_auth_def SIZE_cmd_def SIZE_cmd_data_def MAXPARAMLEN_def MAXSALTLEN_def

definition get16 :: "bytes \<Rightarrow> nat \<Rightarrow> u16 option" where
  "get16 b i = map_option of_be16 (peek b i 2)"

definition get32 :: "bytes \<Rightarrow> nat \<Rightarrow> u32 option" where
  "get32 b i = map_option of_be32 (peek b i 4)"

section \<open>State\<close>

text \<open>\<open>password\<close> is declared \<open>const\<close> and written through a cast, which C leaves undefined: \<open>c_rw\<close>
  says whether the build keeps it in memory that can be written and reads back what was written.\<close>

record ead_conf =
  c_host :: endian
  c_dev_name :: bytes
  c_nid :: u16
  c_ethmac :: bytes
  c_inst :: nat
  c_rw :: bool

text \<open>One pass of the loop that forwards the output of a command: what was read, whether the child
  was pending when the loop asked, the seconds since the start, and whether it was pending then.\<close>

record round =
  r_out :: bytes
  r_pending :: bool
  r_time :: nat
  r_alive :: bool

record ead_env =
  e_raw :: sha_ctx
  e_passwd :: "bytes option"
  e_dig :: bytes
  e_rnd :: bytes
  e_pipe :: bool
  e_fork :: bool
  e_rounds :: "round list"

datatype event = Send bytes | Exec bytes | Kill

record ead =
  state :: nat
  username :: bytes
  password :: bytes
  saltbuf :: bytes
  pw_saltbuf :: bytes
  pwbuf :: bytes
  tce :: "t_confent option"
  ts :: "t_server option"
  A :: bytes
  B :: "bytes option"
  crypt :: ead_crypt
  child_pending :: bool
  pktbuf :: bytes
  events :: "event list"

definition tpe_index :: int where "tpe_index = 1"
definition tpe_salt_len :: nat where "tpe_salt_len = 0"

definition ead_start :: ead where
  "ead_start = \<lparr>state = EAD_TYPE_SET_USERNAME, username = [], password = [], saltbuf = replicate MAXSALTLEN 0,
     pw_saltbuf = replicate MAXSALTLEN 0, pwbuf = [], tce = None, ts = None, A = [], B = None,
     crypt = \<lparr>aes_enc_ctx = [], aes_dec_ctx = [], ead_rx_iv = 0, ead_tx_iv = 0, ivofs_vec = 0, ivofs_idx = 0\<rparr>,
     child_pending = False, pktbuf = replicate PCAP_MRU 0, events = []\<rparr>"

section \<open>Password file\<close>

text \<open>\<open>fgets\<close> with a buffer of \<open>n\<close> bytes, on a file that is not at its end.\<close>

definition fgets :: "nat \<Rightarrow> bytes \<Rightarrow> bytes" where
  "fgets n f = (let t = take (n - 1) f in take (length (takeWhile (\<lambda>c. c \<noteq> 10) t) + 1) t)"

definition strchr_from :: "bytes \<Rightarrow> nat \<Rightarrow> u8 \<Rightarrow> nat option" where
  "strchr_from s i c = (let k = i + length (takeWhile (\<lambda>x. x \<noteq> c) (drop i s)) in if k < length s then Some k else None)"

text \<open>One line: the password field, if the line is the user's, and \<open>pw_saltbuf\<close> afterwards.\<close>

definition passwd_line :: "bytes \<Rightarrow> bytes \<Rightarrow> bytes \<Rightarrow> bytes option \<times> bytes" where
  "passwd_line user salt lbuf =
     (let ulen = length user; s = drop (ulen + 1) lbuf in
      if take ulen lbuf \<noteq> user then (None, salt)
      else if take 1 (drop ulen lbuf) \<noteq> [58] then (None, salt)
      else if take 3 s \<noteq> [36, 49, 36] then (None, salt)
      else (case strchr_from s 3 36 of
          None \<Rightarrow> (None, salt)
        | Some k \<Rightarrow>
            if k \<ge> MAXSALTLEN then (None, salt)
            else
              (let salt = take k s @ [0] @ drop (k + 1) salt in
               case strchr_from s k 58 of
                 None \<Rightarrow> (None, salt)
               | Some m \<Rightarrow> if m \<ge> MAXPARAMLEN then (None, salt) else (Some (take m s), salt))))"

function passwd_loop :: "bytes \<Rightarrow> bytes \<Rightarrow> bytes \<Rightarrow> bytes option \<times> bytes" where
  "passwd_loop user salt f =
     (if f = [] then (None, salt)
      else
        (let l = fgets 1023 f in
         case passwd_line user salt (cstr l) of
           (Some p, salt) \<Rightarrow> (Some p, salt)
         | (None, salt) \<Rightarrow> passwd_loop user salt (drop (length l) f)))"
  by pat_completeness auto
termination
  by (relation "measure (\<lambda>(user, salt, f). length f)") (auto simp: fgets_def Let_def)

declare passwd_loop.simps [simp del]

text \<open>\<open>memcmp(a, b, n) == 0\<close>, byte by byte up to the first difference, as the library does it;
  \<^term>\<open>None\<close> when it comes to the end of one of the buffers before.\<close>

fun memcmp :: "bytes \<Rightarrow> bytes \<Rightarrow> nat \<Rightarrow> bool option" where
  "memcmp a b 0 = Some True"
| "memcmp (x # a) (y # b) (Suc n) = (if x = y then memcmp a b n else Some False)"
| "memcmp a b (Suc n) = None"

text \<open>\<open>e_dig\<close> is what the uninitialised \<open>dig\<close> holds: 20 bytes, of which the loop compares 32 with
  \<open>saltbuf\<close>. It leaves both alone, so when they agree it does not end.\<close>

definition SHA_DIGESTSIZE :: nat where "SHA_DIGESTSIZE = 20"

definition hash_password :: "ead_conf \<Rightarrow> ead_env \<Rightarrow> ead \<Rightarrow> ead option" where
  "hash_password conf env st =
     (let st = st\<lparr>tce := gettcid tpe_index\<rparr> in
      if memcmp (saltbuf st) (take SHA_DIGESTSIZE (e_dig env)) MAXSALTLEN \<noteq> Some False then None
      else
        (let st = (if saltbuf st ! 0 = 0 then st\<lparr>saltbuf := (saltbuf st)[0 := 0xff]\<rparr> else st)
         in do {
           t \<leftarrow> tce st;
           let n = BigIntegerFromBytes (modulus t);
           let g = BigIntegerFromBytes (generator t);
           let dig = password_digest (c_host conf) (e_raw env) (take tpe_salt_len (saltbuf st)) (username st) (password st);
           let x = BigIntegerFromBytes dig;
           let v = BigIntegerModExp g x n;
           Some (st\<lparr>pwbuf := BigIntegerToBytes v\<rparr>) }))"

definition prepare_password :: "ead_conf \<Rightarrow> ead_env \<Rightarrow> ead \<Rightarrow> (bool \<times> ead) option" where
  "prepare_password conf env st =
     (case e_passwd env of
        None \<Rightarrow> Some (False, st)
      | Some f \<Rightarrow>
          (case passwd_loop (username st) (pw_saltbuf st) f of
             (None, salt) \<Rightarrow> Some (False, st\<lparr>pw_saltbuf := salt\<rparr>)
           | (Some p, salt) \<Rightarrow>
               if \<not> c_rw conf then None
               else map_option (Pair True) (hash_password conf env (st\<lparr>pw_saltbuf := salt, password := p\<rparr>))))"

section \<open>Sending\<close>

fun chksum :: "u16 \<Rightarrow> bytes \<Rightarrow> u16" where
  "chksum s (a # b # data) =
     (let t = push_bit 8 (ucast a) + ucast b; s = s + t
      in chksum (if s < t then s + 1 else s) data)"
| "chksum s [a] =
     (let t = push_bit 8 (ucast a) + 0; s = s + t
      in if s < t then s + 1 else s)"
| "chksum s [] = s"

text \<open>The headers of the answer in \<open>pktbuf\<close>: addresses and ports exchanged, lengths, checksums.\<close>

definition ip_header :: "ead_conf \<Rightarrow> bytes \<Rightarrow> u16 \<Rightarrow> bytes \<Rightarrow> bytes option" where
  "ip_header conf pkt len b =
     do {
       hd \<leftarrow> peek pkt 0 MSG;
       b \<leftarrow> poke b 0 hd;
       b \<leftarrow> poke b 6 (c_ethmac conf);
       shost \<leftarrow> peek pkt 6 6;
       b \<leftarrow> poke b 0 shost;
       b \<leftarrow> poke b 16 (be16 len);
       ip \<leftarrow> peek pkt 58 4;
       b \<leftarrow> poke b 26 ip;
       src \<leftarrow> peek pkt 26 4;
       b \<leftarrow> poke b 30 src;
       b \<leftarrow> poke b 24 [0, 0];
       h \<leftarrow> peek b 14 20;
       let sum = chksum 0 h;
       let sum = (if sum = 0 then 0xffff else sum);
       poke b 24 (be16 (NOT sum)) }"

definition udp_header :: "bytes \<Rightarrow> u16 \<Rightarrow> bytes \<Rightarrow> bytes option" where
  "udp_header pkt len b =
     do {
       dport \<leftarrow> peek pkt 36 2;
       b \<leftarrow> poke b 34 dport;
       sport \<leftarrow> peek pkt 34 2;
       b \<leftarrow> poke b 36 sport;
       b \<leftarrow> poke b 38 (be16 len);
       b \<leftarrow> poke b 40 [0, 0];
       let sum = len + 17;
       addr \<leftarrow> peek b 26 8;
       let sum = chksum sum addr;
       u \<leftarrow> peek b 34 (unat len);
       let sum = chksum sum u;
       let sum = (if sum = 0 then 0xffff else sum);
       poke b 40 (be16 (NOT sum)) }"

definition ead_send_packet_clone :: "ead_conf \<Rightarrow> bytes \<Rightarrow> ead \<Rightarrow> ead option" where
  "ead_send_packet_clone conf pkt st =
     do {
       mlen \<leftarrow> get32 (pktbuf st) 46;
       let len = 62 - 14 + ucast mlen;
       b \<leftarrow> ip_header conf pkt len (pktbuf st);
       b \<leftarrow> udp_header pkt (len - 20) b;
       out \<leftarrow> peek b 0 (DATA + unat mlen);
       Some (st\<lparr>pktbuf := b, events := events st @ [Send out]\<rparr>) }"

section \<open>Session state\<close>

text \<open>\<open>set_state\<close>. \<open>B\<close> points into \<open>ts\<close> and is invalid once that is closed.\<close>

definition set_state :: "ead_conf \<Rightarrow> ead_env \<Rightarrow> nat \<Rightarrow> ead \<Rightarrow> ead option" where
  "set_state conf env nstate st =
     (if state st = nstate then Some st
      else if nstate < state st then
        (if nstate < EAD_TYPE_GET_PRIME \<and> state st \<ge> EAD_TYPE_GET_PRIME
         then Some (st\<lparr>ts := None, B := None, state := nstate\<rparr>)
         else Some (st\<lparr>state := nstate\<rparr>))
      else if state st = EAD_TYPE_SET_USERNAME then
        do {
          (ok, st) \<leftarrow> prepare_password conf env st;
          if \<not> ok then Some st
          else do {
            t \<leftarrow> tce st;
            let ent = \<lparr>pw_name = username st, pw_password = pwbuf st, pw_salt = take tpe_salt_len (saltbuf st)\<rparr>;
            let s = t_serveropenraw (c_host conf) (e_raw env) ent t;
            Some (st\<lparr>ts := Some s, state := nstate\<rparr>) } }
      else if state st = EAD_TYPE_GET_PRIME then
        do {
          s \<leftarrow> ts st;
          let s = t_servergenexp (c_host conf) (e_rnd env) s;
          Some (st\<lparr>ts := Some s, B := Some (ts_B s), state := nstate\<rparr>) }
      else if state st = EAD_TYPE_SEND_A then
        do {
          s \<leftarrow> ts st;
          let (s, skey) = t_servergetkey (c_host conf) (e_raw env) (A st) s;
          (case skey of
             None \<Rightarrow> Some (st\<lparr>ts := Some s\<rparr>)
           | Some k \<Rightarrow> Some (st\<lparr>ts := Some s, crypt := ead_set_key (c_host conf) k (crypt st), state := nstate\<rparr>)) }
      else Some (st\<lparr>state := nstate\<rparr>))"

section \<open>Handlers\<close>

text \<open>A handler gives its return value, \<open>nstate\<close>, the frame (which decryption changes in place) and
  the state.\<close>

type_synonym handler = "bytes \<Rightarrow> ead \<Rightarrow> (bool \<times> nat \<times> bytes \<times> ead) option"

definition handle_ping :: "ead_conf \<Rightarrow> handler" where
  "handle_ping conf pkt st =
     (let slen = (if length (c_dev_name conf) > 1024 then 1024 else length (c_dev_name conf)) in
      do {
        b \<leftarrow> poke (pktbuf st) 46 (be32 (of_nat (SIZE_pong + slen)));
        b \<leftarrow> poke b (DATA + 2) (take slen (c_dev_name conf));
        b \<leftarrow> poke b (DATA + 2 + slen) [0];
        b \<leftarrow> poke b DATA (be16 1);
        Some (True, state st, pkt, st\<lparr>pktbuf := b\<rparr>) })"

definition handle_set_username :: "ead_conf \<Rightarrow> ead_env \<Rightarrow> handler" where
  "handle_set_username conf env pkt st =
     do {
       st \<leftarrow> set_state conf env EAD_TYPE_SET_USERNAME st;
       user \<leftarrow> peek pkt DATA SIZE_user;
       b \<leftarrow> poke (pktbuf st) 46 (be32 0);
       Some (True, EAD_TYPE_GET_PRIME, pkt, st\<lparr>username := cstr (take 31 user), pktbuf := b\<rparr>) }"

definition handle_get_prime :: handler where
  "handle_get_prime pkt st =
     do {
       b \<leftarrow> poke (pktbuf st) 46 (be32 (of_nat SIZE_salt));
       t \<leftarrow> tce st;
       s \<leftarrow> ts st;
       b \<leftarrow> poke b DATA [of_int (tpe_index - 1)];
       b \<leftarrow> poke b (DATA + 1) [of_nat (length (ts_s s))];
       b \<leftarrow> poke b (DATA + 2) (ts_s s);
       b \<leftarrow> poke b (DATA + 2 + MAXSALTLEN) (pw_saltbuf st);
       Some (True, EAD_TYPE_SEND_A, pkt, st\<lparr>pktbuf := b\<rparr>) }"

definition handle_send_a :: handler where
  "handle_send_a pkt st =
     do {
       mlen \<leftarrow> get32 pkt 46;
       let len = sint (mlen - of_nat SIZE_number);
       if len > int MAXPARAMLEN + 1 then Some (False, state st, pkt, st)
       else if len < 0 then None
       else do {
         a \<leftarrow> peek pkt (DATA + 1) (nat len);
         bn \<leftarrow> B st;
         b \<leftarrow> poke (pktbuf st) 46 (be32 (of_nat (SIZE_number + length bn)));
         b \<leftarrow> poke b (DATA + 1) bn;
         Some (True, EAD_TYPE_SEND_AUTH, pkt, st\<lparr>A := a, pktbuf := b\<rparr>) } }"

definition handle_send_auth :: "ead_conf \<Rightarrow> handler" where
  "handle_send_auth conf pkt st =
     do {
       s \<leftarrow> ts st;
       auth \<leftarrow> peek pkt DATA SIZE_auth;
       let (s, ok) = t_serververify (c_host conf) auth s;
       if \<not> ok then Some (False, EAD_TYPE_SET_USERNAME, pkt, st\<lparr>ts := Some s\<rparr>)
       else do {
         b \<leftarrow> poke (pktbuf st) 46 (be32 (of_nat SIZE_auth));
         b \<leftarrow> poke b DATA (take SIZE_auth (t_serverresponse s));
         Some (True, EAD_TYPE_SEND_CMD, pkt, st\<lparr>ts := Some s, pktbuf := b\<rparr>) } }"

text \<open>\<open>ead_encrypt_message\<close> on the message in \<open>pktbuf\<close>.\<close>

definition encrypt_reply :: "nat \<Rightarrow> ead \<Rightarrow> ead option" where
  "encrypt_reply n st =
     do {
       (data, mlen, c) \<leftarrow> ead_encrypt_message (crypt st) (drop DATA (pktbuf st)) n;
       b \<leftarrow> poke (take DATA (pktbuf st) @ data) 46 (be32 mlen);
       Some (st\<lparr>pktbuf := b, crypt := c\<rparr>) }"

text \<open>The forwarding loop. After the last round of the environment there is no more output and the
  child is gone.\<close>

fun stream_loop :: "ead_conf \<Rightarrow> bytes \<Rightarrow> nat \<Rightarrow> round list \<Rightarrow> ead \<Rightarrow> ead option" where
  "stream_loop conf pkt timeout [] st =
     do {
       b \<leftarrow> poke (pktbuf st) ENC_DATA [0];
       Some (st\<lparr>pktbuf := b, child_pending := False\<rparr>) }"
| "stream_loop conf pkt timeout (r # rs) st =
     do {
       b \<leftarrow> poke (pktbuf st) ENC_DATA [0];
       let out = take 1024 (r_out r);
       b \<leftarrow> poke b (ENC_DATA + 1) out;
       let st = st\<lparr>pktbuf := b\<rparr>;
       if out = [] \<and> \<not> r_pending r then Some (st\<lparr>child_pending := False\<rparr>)
       else do {
         st \<leftarrow> encrypt_reply (SIZE_cmd_data + length out) st;
         st \<leftarrow> ead_send_packet_clone conf pkt st;
         if r_time r < timeout then stream_loop conf pkt timeout rs st
         else Some (st\<lparr>child_pending := r_alive r\<rparr>) } }"

text \<open>The end of the handler, after the command was started.\<close>

definition cmd_done :: "bytes \<Rightarrow> ead \<Rightarrow> (bool \<times> nat \<times> bytes \<times> ead) option" where
  "cmd_done pkt st =
     do {
       b \<leftarrow> poke (pktbuf st) ENC_DATA [1];
       st \<leftarrow> encrypt_reply SIZE_cmd_data (st\<lparr>pktbuf := b\<rparr>);
       Some (True, state st, pkt, st) }"

text \<open>\<open>ntohs\<close> of the one-byte field \<open>type\<close>.\<close>

definition cmd_type :: "ead_conf \<Rightarrow> u8 \<Rightarrow> u16" where
  "cmd_type conf t = (case c_host conf of BE \<Rightarrow> ucast t | LE \<Rightarrow> push_bit 8 (ucast t))"

definition run_cmd :: "ead_conf \<Rightarrow> ead_env \<Rightarrow> u16 \<Rightarrow> nat \<Rightarrow> handler" where
  "run_cmd conf env ty timeout pkt st =
     (if ty = 0 then
        (if \<not> e_pipe env then Some (False, state st, pkt, st)
         else
           (let st = st\<lparr>child_pending := True\<rparr> in
            if \<not> e_fork env then Some (False, state st, pkt, st)
            else do {
              cmd \<leftarrow> cstr_at pkt (ENC_DATA + 3);
              let st = st\<lparr>events := events st @ [Exec cmd]\<rparr>;
              let timeout = (if timeout = 0 then EAD_CMD_TIMEOUT else timeout);
              st \<leftarrow> stream_loop conf pkt timeout (e_rounds env) st;
              if child_pending st then Some (False, state st, pkt, st\<lparr>events := events st @ [Kill]\<rparr>)
              else cmd_done pkt st }))
      else if ty = 1 then
        (if \<not> e_fork env then Some (False, state st, pkt, st)
         else do {
           cmd \<leftarrow> cstr_at pkt (ENC_DATA + 3);
           cmd_done pkt (st\<lparr>events := events st @ [Exec cmd]\<rparr>) })
      else Some (False, state st, pkt, st))"

definition handle_send_cmd :: "ead_conf \<Rightarrow> ead_env \<Rightarrow> handler" where
  "handle_send_cmd conf env pkt st =
     do {
       mlen \<leftarrow> get32 pkt 46;
       (n, data, c) \<leftarrow> ead_decrypt_message (crypt st) (drop DATA pkt) mlen;
       let pkt = take DATA pkt @ data;
       let st = st\<lparr>crypt := c\<rparr>;
       let datalen = int_minus n SIZE_cmd;
       if datalen \<le> 0 then Some (False, state st, pkt, st)
       else do {
         ty \<leftarrow> idx pkt ENC_DATA;
         timeout \<leftarrow> get16 pkt (ENC_DATA + 1);
         pkt \<leftarrow> poke pkt (ENC_DATA + 3 + nat datalen) [0];
         run_cmd conf env (cmd_type conf ty) (unat timeout) pkt st } }"

section \<open>Dispatch\<close>

text \<open>The handler of a message type and the smallest frame it accepts.\<close>

definition select_handler :: "ead_conf \<Rightarrow> ead_env \<Rightarrow> int \<Rightarrow> (handler \<times> nat) option" where
  "select_handler conf env ty =
     (if ty = int EAD_TYPE_PING then Some (handle_ping conf, DATA)
      else if ty = int EAD_TYPE_SET_USERNAME then Some (handle_set_username conf env, DATA + SIZE_user)
      else if ty = int EAD_TYPE_GET_PRIME then Some (handle_get_prime, DATA)
      else if ty = int EAD_TYPE_SEND_A then Some (handle_send_a, DATA + SIZE_number)
      else if ty = int EAD_TYPE_SEND_AUTH then Some (handle_send_auth conf, DATA + SIZE_auth)
      else if ty = int EAD_TYPE_SEND_CMD then Some (handle_send_cmd conf env, DATA + (SIZE_cmd + ENC_HDR))
      else None)"

definition reply_header :: "ead_conf \<Rightarrow> u32 \<Rightarrow> bytes \<Rightarrow> bytes \<Rightarrow> bytes option" where
  "reply_header conf ty sid b =
     do {
       b \<leftarrow> poke b 42 (be32 EAD_MAGIC);
       b \<leftarrow> poke b 50 (be32 (ty + 1));
       b \<leftarrow> poke b 54 (be16 (c_nid conf));
       b \<leftarrow> poke b 56 sid;
       poke b 46 (be32 0) }"

definition parse_message :: "ead_conf \<Rightarrow> ead_env \<Rightarrow> int \<Rightarrow> bytes \<Rightarrow> ead \<Rightarrow> ead option" where
  "parse_message conf env len pkt st =
     do {
       type \<leftarrow> get32 pkt 50;
       if sint type \<ge> int EAD_TYPE_GET_PRIME \<and> int (state st) \<noteq> sint type then Some st
       else do {
         sid \<leftarrow> get16 pkt 56;
         if sint type \<noteq> int EAD_TYPE_PING \<and> unat (drop_bit 12 (sid AND 0xf000)) \<noteq> c_inst conf then Some st
         else (case select_handler conf env (sint type) of
             None \<Rightarrow> Some st
           | Some (handler, min_len) \<Rightarrow>
               if len < int min_len then Some st
               else do {
                 b \<leftarrow> reply_header conf type (be16 sid) (pktbuf st);
                 (ok, nstate, pkt, st) \<leftarrow> handler pkt (st\<lparr>pktbuf := b\<rparr>);
                 st \<leftarrow> (if ok then ead_send_packet_clone conf pkt st else Some st);
                 set_state conf env nstate st }) } }"

text \<open>\<open>handle_packet\<close>; \<open>hlen\<close> is the length of the frame on the wire.\<close>

definition handle_packet :: "ead_conf \<Rightarrow> ead_env \<Rightarrow> u32 \<Rightarrow> bytes \<Rightarrow> ead \<Rightarrow> ead option" where
  "handle_packet conf env hlen pkt st =
     (if hlen < of_nat DATA then Some st
      else do {
        ety \<leftarrow> get16 pkt 12;
        dhost \<leftarrow> peek pkt 0 6;
        proto \<leftarrow> idx pkt 23;
        dport \<leftarrow> get16 pkt 36;
        magic \<leftarrow> get32 pkt 42;
        mlen \<leftarrow> get32 pkt 46;
        nid \<leftarrow> get16 pkt 54;
        if ety \<noteq> 0x0800 then Some st
        else if dhost \<noteq> replicate 6 0xff then Some st
        else if proto \<noteq> 17 then Some st
        else if dport \<noteq> EAD_PORT then Some st
        else if magic \<noteq> EAD_MAGIC then Some st
        else if hlen < of_nat DATA + mlen then Some st
        else if nid \<noteq> 0xffff \<and> nid \<noteq> c_nid conf then Some st
        else parse_message conf env (sint hlen) pkt st })"

end
