(* ===== verification/Ead_Send.thy ===== *)
theory Ead_Send
  imports Ead
begin

text \<open>
  Laws of \<open>chksum\<close> and of \<open>ead_send_packet_clone\<close>: the one's complement sum, and the checksums of
  the frames the daemon sends.
\<close>

section \<open>The one's complement sum\<close>

text \<open>The 16-bit words of a buffer, an odd last byte padded with zero, added up.\<close>

fun be_words :: "bytes \<Rightarrow> nat" where
  "be_words (a # b # data) = 256 * unat a + unat b + be_words data"
| "be_words [a] = 256 * unat a"
| "be_words [] = 0"

lemma unat_byte_less: "unat (a :: u8) < 256"
  using unsigned_less [of a, where 'a = nat] by simp

lemma unat_u16_less: "unat (a :: u16) < 65536"
  using unsigned_less [of a, where 'a = nat] by simp

lemma unat_word2: "unat (push_bit 8 (ucast a) + ucast b :: u16) = 256 * unat (a :: u8) + unat (b :: u8)"
proof -
  have u: "unat (ucast a :: u16) = unat a" "unat (ucast b :: u16) = unat b"
    by (simp_all add: unsigned_ucast_eq take_bit_nat_eq_self unat_byte_less less_trans [OF unat_byte_less])
  have "unat (push_bit 8 (ucast a) :: u16) = 256 * unat a"
    using unat_byte_less [of a] by (simp only: unsigned_push_bit_eq u) (simp add: push_bit_eq_mult take_bit_nat_eq_self)
  then show ?thesis
    using unat_byte_less [of a] unat_byte_less [of b] u(2) by (subst unat_plus_if') simp
qed

lemma unat_word1: "unat (push_bit 8 (ucast a) + 0 :: u16) = 256 * unat (a :: u8)"
  using unat_word2 [of a 0] by simp

text \<open>One addition with its end-around carry.\<close>

lemma carry_sum:
  fixes s t :: u16
  defines "r \<equiv> (if s + t < t then s + t + 1 else s + t)"
  shows "unat r mod 65535 = (unat s + unat t) mod 65535" and "r = 0 \<longleftrightarrow> s = 0 \<and> t = 0"
proof -
  have *: "unat r = (if unat s + unat t < 65536 then unat s + unat t else unat s + unat t - 65535)"
  proof (cases "unat s + unat t < 65536")
    case True
    then have "unat (s + t) = unat s + unat t" by (simp add: unat_plus_if')
    then show ?thesis using True by (simp add: r_def word_less_nat_alt)
  next
    case False
    then have e: "unat (s + t) = unat s + unat t - 65536"
      by (simp add: unat_plus_if')
    then have l: "s + t < t" using False unat_u16_less [of s] by (simp add: word_less_nat_alt)
    have "unat (s + t + 1) = unat (s + t) + 1"
      using e unat_u16_less [of s] unat_u16_less [of t] False
      by (subst unat_plus_if') simp
    then show ?thesis using False l e by (simp add: r_def)
  qed
  show "unat r mod 65535 = (unat s + unat t) mod 65535"
    unfolding * by (simp add: mod_if)
  have "unat r = 0 \<longleftrightarrow> unat s = 0 \<and> unat t = 0" unfolding * by auto
  then show "r = 0 \<longleftrightarrow> s = 0 \<and> t = 0" by (simp add: unat_eq_0)
qed

lemma chksum_mod: "unat (chksum s d) mod 65535 = (unat s + be_words d) mod 65535"
proof (induction s d rule: chksum.induct)
  case (1 s a b data)
  let ?t = "push_bit 8 (ucast a) + ucast b :: u16"
  have "unat (chksum s (a # b # data)) mod 65535
      = (unat (if s + ?t < ?t then s + ?t + 1 else s + ?t) mod 65535 + be_words data) mod 65535"
    using 1 by (simp add: Let_def mod_simps)
  then show ?case by (simp add: carry_sum(1) unat_word2 mod_simps add.assoc)
next
  case (2 s a)
  then show ?case by (simp only: chksum.simps Let_def carry_sum(1) unat_word1 be_words.simps)
qed simp

lemma chksum_0_iff: "chksum s d = 0 \<longleftrightarrow> s = 0 \<and> be_words d = 0"
proof (induction s d rule: chksum.induct)
  case (1 s a b data)
  let ?t = "push_bit 8 (ucast a) + ucast b :: u16"
  have "?t = 0 \<longleftrightarrow> 256 * unat a + unat b = 0" by (metis unat_word2 unat_eq_0)
  moreover have "chksum s (a # b # data) = 0 \<longleftrightarrow> (s = 0 \<and> ?t = 0) \<and> be_words data = 0"
    using 1 carry_sum(2) [of s ?t] by (simp only: chksum.simps Let_def)
  ultimately show ?case by auto
next
  case (2 s a)
  let ?t = "push_bit 8 (ucast a) + 0 :: u16"
  have "?t = 0 \<longleftrightarrow> 256 * unat a = 0" by (metis unat_word1 unat_eq_0)
  moreover have "chksum s [a] = 0 \<longleftrightarrow> s = 0 \<and> ?t = 0"
    using carry_sum(2) [of s ?t] by (simp only: chksum.simps Let_def)
  ultimately show ?case by auto
qed simp

lemma be_words_append: "even (length x) \<Longrightarrow> be_words (x @ y) = be_words x + be_words y"
  by (induction x rule: be_words.induct) auto

lemma chksum_append: "even (length x) \<Longrightarrow> chksum s (x @ y) = chksum (chksum s x) y"
  by (induction s x rule: chksum.induct) (auto simp: Let_def)

lemma be_words_be16: "be_words (be16 w) = unat w"
proof -
  have "push_bit 8 (ucast (ucast (drop_bit 8 w) :: u8)) + ucast (ucast w :: u8) = w"
  proof -
    have "push_bit 8 (ucast (ucast (drop_bit 8 w) :: u8)) + ucast (ucast w :: u8)
        = push_bit 8 (ucast (ucast (drop_bit 8 w) :: u8)) OR (ucast (ucast w :: u8) :: u16)"
      by (rule disjunctive_add) (auto simp: bit_simps)
    also have "\<dots> = of_be16 (be16 w)" by (simp add: be16_def)
    finally show ?thesis by simp
  qed
  then show ?thesis using unat_word2 [of "ucast (drop_bit 8 w)" "ucast w"] by (simp add: be16_def)
qed

lemma unat_not: "unat (NOT (w :: u16)) = 65535 - unat w"
proof -
  have "NOT w = - 1 - w" by (simp add: not_eq_complement)
  moreover have "unat (- 1 - w) = unat (- 1 :: u16) - unat w" by (rule unat_sub) simp
  moreover have "unat (- 1 :: u16) = 65535" by (simp add: unsigned_minus_1_eq_mask mask_eq_exp_minus_1)
  ultimately show ?thesis by simp
qed

text \<open>Storing the complement of a sum makes the sum all ones: this is the receiver's test.\<close>

lemma chksum_fill:
  assumes "even (length x)" and "chksum s (x @ [0, 0] @ y) \<noteq> 0"
  shows "chksum s (x @ be16 (NOT (chksum s (x @ [0, 0] @ y))) @ y) = 0xffff"
proof -
  define m where "m = chksum s (x @ [0, 0] @ y)"
  define v where "v = chksum s (x @ be16 (NOT m) @ y)"
  have z: "be_words (x @ [0, 0] @ y) = be_words x + be_words y"
    using assms(1) be_words_append [of "[0, 0]" y] by (simp add: be_words_append)
  have w: "be_words (x @ be16 (NOT m) @ y) = be_words x + (65535 - unat m) + be_words y"
    using assms(1) be_words_append [of "be16 (NOT m)" y] by (simp add: be_words_append be_words_be16 unat_not)
  have le: "unat m \<le> 65535" using unat_u16_less [of m] by simp
  have "unat v mod 65535 = ((unat s + be_words x + be_words y) mod 65535 + (65535 - unat m)) mod 65535"
    unfolding v_def by (simp add: chksum_mod w mod_simps ac_simps)
  also have "(unat s + be_words x + be_words y) mod 65535 = unat m mod 65535"
    unfolding m_def chksum_mod z by (simp only: ac_simps)
  also have "(unat m mod 65535 + (65535 - unat m)) mod 65535 = 0"
    using le by (cases "unat m = 65535") simp_all
  finally have "unat v mod 65535 = 0" .
  moreover have "v \<noteq> 0"
    using assms(2) unfolding v_def chksum_0_iff z w by auto
  moreover have "unat v < 65536" by (rule unat_u16_less)
  ultimately have "unat v = 65535" by (cases "unat v < 65535") (simp_all add: unat_eq_0)
  then have "v = 0xffff" by (simp add: word_unat_eq_iff)
  then show ?thesis by (simp add: v_def m_def)
qed

section \<open>The frames sent\<close>

text \<open>The fields of a frame: destination, source, type to tos, length, identification to protocol,
  checksum, addresses, ports, UDP length and checksum, then the message up to its \<open>ip\<close> field.\<close>

lemma split_at: "n \<le> length xs \<Longrightarrow> \<exists>a b. xs = a @ b \<and> length a = n"
  by (metis append_take_drop_id length_take min_absorb2)

lemma frame_split:
  fixes pkt :: bytes
  defines "f \<equiv> \<lambda>i n. take n (drop i pkt)"
  shows "pkt = f 0 6 @ f 6 6 @ f 12 4 @ f 16 2 @ f 18 6 @ f 24 2 @ f 26 4 @ f 30 4 @ f 34 2 @ f 36 2 @ f 38 2
      @ f 40 2 @ f 42 16 @ f 58 4 @ drop 62 pkt"
proof -
  have d: "drop i pkt = f i n @ drop (i + n) pkt" for i n
    unfolding f_def by (metis append_take_drop_id drop_drop add.commute)
  show ?thesis
    using d [of 0 6] d [of 6 6] d [of 12 4] d [of 16 2] d [of 18 6] d [of 24 2] d [of 26 4] d [of 30 4] d [of 34 2]
      d [of 36 2] d [of 38 2] d [of 40 2] d [of 42 16] d [of 58 4] by simp
qed

text \<open>The answer: the fields of \<^term>\<open>pkt\<close> exchanged, and the message of \<open>pktbuf\<close>.\<close>

lemma clone_image:
  assumes "length (c_ethmac conf) = 6" and "get32 (pktbuf st) 46 = Some mlen"
    and len: "62 + unat mlen \<le> length (pktbuf st)" "length (pktbuf st) \<le> 1600"
    and pkt: "pkt = p1 @ p2 @ p3 @ p4 @ p5 @ p6 @ p7 @ p8 @ p9 @ p10 @ p11 @ p12 @ m1 @ p13 @ r"
    and lens: "length p1 = 6" "length p2 = 6" "length p3 = 4" "length p4 = 2" "length p5 = 6" "length p6 = 2"
      "length p7 = 4" "length p8 = 4" "length p9 = 2" "length p10 = 2" "length p11 = 2" "length p12 = 2" "length m1 = 16"
      "length p13 = 4"
  defines "L \<equiv> 62 - 14 + ucast mlen :: u16"
  defines "s1 \<equiv> chksum 0 ((drop 2 p3 @ be16 L @ p5) @ [0, 0] @ p13 @ p7)"
  defines "c1 \<equiv> be16 (NOT (if s1 = 0 then 0xffff else s1))"
  defines "m \<equiv> take (20 + unat mlen) (drop 42 (pktbuf st))"
  defines "s2 \<equiv> chksum (L - 20 + 17) ((p13 @ p7 @ p10 @ p9 @ be16 (L - 20)) @ [0, 0] @ m)"
  defines "c2 \<equiv> be16 (NOT (if s2 = 0 then 0xffff else s2))"
  shows "ead_send_packet_clone conf pkt st = Some (st\<lparr>
      pktbuf := p2 @ c_ethmac conf @ p3 @ be16 L @ p5 @ c1 @ p13 @ p7 @ p10 @ p9 @ be16 (L - 20) @ c2 @ drop 42 (pktbuf st),
      events := events st @ [Send (p2 @ c_ethmac conf @ p3 @ be16 L @ p5 @ c1 @ p13 @ p7 @ p10 @ p9 @ be16 (L - 20) @ c2 @ m)]\<rparr>)"
proof -
  let ?P = "pktbuf st" and ?mac = "c_ethmac conf"
  obtain a b where ab: "p3 = a @ b" "length a = 2" "length b = 2"
    using split_at [of 2 p3] lens(3) by auto
  have ip: "ip_header conf pkt L ?P = Some (p2 @ ?mac @ p3 @ be16 L @ p5 @ c1 @ p13 @ p7 @ p9 @ p10 @ p11 @ p12 @ drop 42 ?P)"
    using len lens(1,2,4-) ab assms(1)
    by (simp add: ip_header_def MSG_def pkt peek_def poke_def Let_def c1_def s1_def)
  have uL: "unat (L - 20) = 28 + unat mlen"
  proof -
    have "unat (ucast mlen :: u16) = unat mlen"
      using len by (simp add: unsigned_ucast_eq take_bit_nat_eq_self)
    moreover have "unat mlen + 28 < 65536" using len by simp
    ultimately have "unat (28 + ucast mlen :: u16) = 28 + unat mlen" by (simp add: unat_plus_if')
    then show ?thesis by (simp add: L_def)
  qed
  have m: "take (unat (L - 20) - 8) (drop 42 ?P) = m" using uL by (simp add: m_def)
  have t: "take (22 + unat mlen) (0 # 0 # drop 42 ?P) = 0 # 0 # m"
  proof -
    have "22 + unat mlen = Suc (Suc (20 + unat mlen))" by simp
    then show ?thesis by (simp only: take_Suc_Cons m_def)
  qed
  have udp: "udp_header pkt (L - 20) (p2 @ ?mac @ p3 @ be16 L @ p5 @ c1 @ p13 @ p7 @ p9 @ p10 @ p11 @ p12 @ drop 42 ?P)
      = Some (p2 @ ?mac @ p3 @ be16 L @ p5 @ c1 @ p13 @ p7 @ p10 @ p9 @ be16 (L - 20) @ c2 @ drop 42 ?P)"
    using len lens assms(1) uL
    by (simp add: t udp_header_def pkt peek_def poke_def Let_def c1_def c2_def s2_def chksum_append [symmetric])
  show ?thesis
    using ip udp len lens assms(1,2) m
    by (simp add: ead_send_packet_clone_def DATA_def L_def peek_def c1_def c2_def m_def)
qed

lemma ucast_small: "unat (w :: u32) < 65536 \<Longrightarrow> unat (ucast w :: u16) = unat w"
  by (simp add: unsigned_ucast_eq take_bit_nat_eq_self)

lemma add_small: "unat (a :: u16) + unat b < 65536 \<Longrightarrow> unat (a + b) = unat a + unat b"
  by (simp add: unat_plus_if')

lemma peek_bound: "peek b i n = Some x \<Longrightarrow> i + n \<le> length b"
  by (simp add: peek_Some_iff)

lemma clone_sent:
  assumes "ead_send_packet_clone conf pkt st = Some st'" and "length (c_ethmac conf) = 6" and "length (pktbuf st) \<le> 1600"
  obtains mlen out where "get32 (pktbuf st) 46 = Some mlen" "62 + unat mlen \<le> length (pktbuf st)" "62 \<le> length pkt"
    "events st' = events st @ [Send out]" "length out = 62 + unat mlen"
proof -
  obtain mlen b b2 out where m: "get32 (pktbuf st) 46 = Some mlen"
    and ip: "ip_header conf pkt (62 - 14 + ucast mlen) (pktbuf st) = Some b"
    and udp: "udp_header pkt (62 - 14 + ucast mlen - 20) b = Some b2"
    and out: "peek b2 0 (62 + unat mlen) = Some out" and st': "st' = st\<lparr>pktbuf := b2, events := events st @ [Send out]\<rparr>"
    using assms(1) by (auto simp: ead_send_packet_clone_def DATA_def Let_def bind_eq_Some_conv)
  have p: "62 \<le> length pkt" and b: "length b = length (pktbuf st)"
    using ip unfolding ip_header_def Let_def bind_eq_Some_conv by (clarsimp dest!: length_poke peek_bound)+
  have "length b2 = length (pktbuf st)"
    using udp b unfolding udp_header_def Let_def bind_eq_Some_conv by (clarsimp dest!: length_poke peek_bound)
  then have "62 + unat mlen \<le> length (pktbuf st)" using out by (simp add: peek_Some_iff)
  then show ?thesis using out st' m p by (intro that [of mlen out]) (auto simp: length_peek)
qed

text \<open>C40. Every frame that \<open>ead_send_packet_clone\<close> sends carries checksums that a receiver accepts: the one's
  complement sum over the IP header, and the one over the pseudo header and the UDP datagram, are
  all ones. The datagram goes back to the sender of the request, from the node the request named,
  with the message of \<open>pktbuf\<close>.\<close>

theorem ead_send_checksums:
  assumes "ead_send_packet_clone conf pkt st = Some st'" and mac: "length (c_ethmac conf) = 6"
    and P: "length (pktbuf st) \<le> 1600"
  shows "\<exists>out. events st' = events st @ [Send out]
    \<and> chksum 0 (take 20 (drop 14 out)) = 0xffff
    \<and> chksum (of_nat (length (drop 34 out)) + 17) (take 8 (drop 26 out) @ drop 34 out) = 0xffff
    \<and> take 6 out = take 6 (drop 6 pkt) \<and> take 6 (drop 6 out) = c_ethmac conf
    \<and> take 4 (drop 26 out) = take 4 (drop 58 pkt) \<and> take 4 (drop 30 out) = take 4 (drop 26 pkt)
    \<and> take 2 (drop 34 out) = take 2 (drop 36 pkt) \<and> take 2 (drop 36 out) = take 2 (drop 34 pkt)
    \<and> drop 42 out = take (length out - 42) (drop 42 (pktbuf st))"
proof -
  obtain mlen where m: "get32 (pktbuf st) 46 = Some mlen" "62 + unat mlen \<le> length (pktbuf st)" and p: "62 \<le> length pkt"
    using clone_sent [OF assms] by metis
  define p1 p2 p3 p4 p5 p6 p7 p8 where defs1: "p1 = take 6 (drop 0 pkt)" "p2 = take 6 (drop 6 pkt)" "p3 = take 4 (drop 12 pkt)"
    "p4 = take 2 (drop 16 pkt)" "p5 = take 6 (drop 18 pkt)" "p6 = take 2 (drop 24 pkt)" "p7 = take 4 (drop 26 pkt)"
    "p8 = take 4 (drop 30 pkt)"
  define p9 p10 p11 p12 m1 p13 r where defs2: "p9 = take 2 (drop 34 pkt)" "p10 = take 2 (drop 36 pkt)"
    "p11 = take 2 (drop 38 pkt)" "p12 = take 2 (drop 40 pkt)" "m1 = take 16 (drop 42 pkt)" "p13 = take 4 (drop 58 pkt)"
    "r = drop 62 pkt"
  note pkt = frame_split [of pkt, folded defs1 defs2]
  have l: "length p1 = 6" "length p2 = 6" "length p3 = 4" "length p4 = 2" "length p5 = 6" "length p6 = 2" "length p7 = 4"
    "length p8 = 4" "length p9 = 2" "length p10 = 2" "length p11 = 2" "length p12 = 2" "length m1 = 16" "length p13 = 4"
    using p by (simp_all add: defs1 defs2)
  define L where "L = (62 - 14 + ucast mlen :: u16)"
  define s1 where "s1 = chksum 0 ((drop 2 p3 @ be16 L @ p5) @ [0, 0] @ p13 @ p7)"
  define mm where "mm = take (20 + unat mlen) (drop 42 (pktbuf st))"
  define s2 where "s2 = chksum (L - 20 + 17) ((p13 @ p7 @ p10 @ p9 @ be16 (L - 20)) @ [0, 0] @ mm)"
  define out where "out = p2 @ c_ethmac conf @ p3 @ be16 L @ p5 @ be16 (NOT s1) @ p13 @ p7 @ p10 @ p9 @ be16 (L - 20) @ be16 (NOT s2) @ mm"
  have small: "unat mlen < 2000" using m(2) P by linarith
  have u: "unat L = 48 + unat mlen" "unat (L - 20) = 28 + unat mlen" "unat (L - 20 + 17) = 45 + unat mlen"
  proof -
    have "L = 48 + ucast mlen" "L - 20 = 28 + ucast mlen" "L - 20 + 17 = 45 + ucast mlen" 
      unfolding L_def diff_add_eq [symmetric] by simp_all
    moreover have "unat (k + ucast mlen :: u16) = unat k + unat mlen" if "unat k < 100" for k
      using small that by (simp add: add_small ucast_small)
    ultimately show "unat L = 48 + unat mlen" "unat (L - 20) = 28 + unat mlen" "unat (L - 20 + 17) = 45 + unat mlen"
      by simp_all
  qed
  have e1: "even (length (drop 2 p3 @ be16 L @ p5))" using l by simp
  have n1: "s1 \<noteq> 0"
  proof -
    have "be_words (be16 L) \<noteq> 0" using u by (simp add: be_words_be16)
    then show ?thesis using l unfolding s1_def chksum_0_iff by (simp add: be_words_append)
  qed
  have e2: "even (length (p13 @ p7 @ p10 @ p9 @ be16 (L - 20)))" using l by simp
  have n2: "s2 \<noteq> 0" unfolding s2_def chksum_0_iff using u(3) by (metis add_is_0 unat_0 zero_neq_numeral)
  have sent: "events st' = events st @ [Send out]"
    using clone_image [OF mac m(1) m(2) P pkt l] assms(1) n1 n2
    unfolding L_def [symmetric] s1_def [symmetric] mm_def [symmetric] s2_def [symmetric] by (simp add: out_def)
  have lm: "length mm = 20 + unat mlen" using m(2) by (simp add: mm_def)
  have lo: "length (drop 34 out) = 28 + unat mlen" using l mac lm by (simp add: out_def)
  then have "of_nat (length (drop 34 out)) = (of_nat (unat (L - 20)) :: u16)" by (simp only: u(2))
  then have w: "of_nat (length (drop 34 out)) = L - 20" by (simp only: of_nat_unat ucast_id)
  have parts: "take 20 (drop 14 out) = (drop 2 p3 @ be16 L @ p5) @ be16 (NOT s1) @ p13 @ p7"
    "take 8 (drop 26 out) @ drop 34 out = (p13 @ p7 @ p10 @ p9 @ be16 (L - 20)) @ be16 (NOT s2) @ mm"
    "take 6 out = p2" "take 6 (drop 6 out) = c_ethmac conf" "take 4 (drop 26 out) = p13" "take 4 (drop 30 out) = p7"
    "take 2 (drop 34 out) = p10" "take 2 (drop 36 out) = p9" "drop 42 out = mm" "length out - 42 = 20 + unat mlen"
    using l mac lm by (simp_all add: out_def)
  have sums: "chksum 0 (take 20 (drop 14 out)) = 0xffff"
    "chksum (of_nat (length (drop 34 out)) + 17) (take 8 (drop 26 out) @ drop 34 out) = 0xffff"
    unfolding parts(1,2) w
    using chksum_fill [OF e1, of 0 "p13 @ p7", folded s1_def, OF n1]
      chksum_fill [OF e2, of "L - 20 + 17" mm, folded s2_def, OF n2] by (simp_all only:)
  have "drop 42 out = take (length out - 42) (drop 42 (pktbuf st))" unfolding parts(9,10) mm_def ..
  then show ?thesis using sent sums parts(3-8) unfolding defs1 defs2 by blast
qed

end
