(* ===== verification/Ead_Inv.thy ===== *)
theory Ead_Inv
  imports Ead_Send Ead_Crypt_Laws T_Conv_Laws
begin

text \<open>
  The invariant of the daemon's state, that handling a frame keeps it, and what a frame can change.
\<close>

section \<open>The group of the daemon\<close>

lemma number64_Cons: "number64 (d # ds) = unat d * 64 ^ length ds + number64 ds"
proof (induction ds rule: rev_induct)
  case (snoc e ds)
  have "number64 (d # ds @ [e]) = 64 * number64 (d # ds) + unat e" using number64_snoc [of "d # ds" e] by simp
  then show ?case using snoc by (simp add: algebra_simps)
qed (simp add: number64_def)

lemma number64_less: "list_all (\<lambda>d. d < 64) ds \<Longrightarrow> number64 ds < 64 ^ length ds"
proof (induction ds)
  case (Cons d ds)
  then have "unat d \<le> 63" "number64 ds < 64 ^ length ds" by (simp_all add: word_less_nat_alt)
  then have "unat d * 64 ^ length ds + number64 ds < 63 * 64 ^ length ds + 64 ^ length ds"
    by (intro add_le_less_mono mult_le_mono1)
  then show ?case by (simp add: number64_Cons)
qed simp

lemma length_b64_digits: "length (b64_digits s) \<le> length s"
  by (induction s) (auto split: option.split)

lemma pre_params_first: "\<exists>r. idx pre_params 0 = Some (50 # r, [50]) \<and> length r = 341"
  by (simp add: pre_params_def idx_def str_def)

lemma b64_text_2: "b64_text (50 # r) = 2 # b64_digits r"
  by (simp add: b64_text_def b64table_def str_def)

lemma gettcid_1:
  "\<exists>t. gettcid tpe_index = Some t \<and> length (modulus t) \<le> MAXPARAMLEN \<and> 0 < BigIntegerFromBytes (modulus t)"
proof -
  obtain r where r: "idx pre_params 0 = Some (50 # r, [50])" "length r = 341" using pre_params_first by blast
  define n where "n = number64 (2 # b64_digits r)"
  have "number64 (b64_digits r) < 64 ^ length (b64_digits r)" by (rule number64_less [OF b64_digits_less])
  moreover have "64 ^ length (b64_digits r) \<le> (64 :: nat) ^ 341"
    using length_b64_digits [of r] r(2) by (intro power_increasing) simp_all
  ultimately have "n < 2 * 64 ^ 341 + 64 ^ 341"
    unfolding n_def number64_Cons by (intro add_le_less_mono mult_le_mono2) simp_all
  also have "\<dots> \<le> 4 * 64 ^ 341" by simp
  also have "\<dots> = 256 ^ 256" by simp
  finally have n: "n < 256 ^ 256" .
  have pos: "0 < n" unfolding n_def number64_Cons by simp
  have "gettcid tpe_index = Some \<lparr>modulus = BigIntegerToBytes n, generator = BigIntegerToBytes (number64 [2])\<rparr>"
    using r b64_text_2 [of "[]"]
    by (simp add: gettcid_def tpe_index_def t_getprecount_def t_getpreparam_def t_fromb64_number b64_text_2 n_def pre_params_def)
  then show ?thesis using length_to_bytes [OF n] pos by (simp add: MAXPARAMLEN_def)
qed

section \<open>The invariant\<close>

definition buffers_ok :: "ead \<Rightarrow> bool" where
  "buffers_ok st \<longleftrightarrow> length (pktbuf st) = PCAP_MRU \<and> length (pw_saltbuf st) = MAXSALTLEN \<and> length (saltbuf st) = MAXSALTLEN
     \<and> is_cstr (username st) \<and> length (username st) < 32 \<and> length (password st) < MAXPARAMLEN"

text \<open>The state number says how far the exchange is: from \<open>GET_PRIME\<close> on there is a server object on the
  built-in group, without a salt; from \<open>SEND_A\<close> on \<open>B\<close> is its public value and fits \<open>MAXPARAMLEN\<close>; from
  \<open>SEND_AUTH\<close> on the cipher has its session key.\<close>

definition session_ok :: "ead \<Rightarrow> bool" where
  "session_ok st \<longleftrightarrow>
     state st \<in> {EAD_TYPE_SET_USERNAME, EAD_TYPE_GET_PRIME, EAD_TYPE_SEND_A, EAD_TYPE_SEND_AUTH, EAD_TYPE_SEND_CMD}
     \<and> (ts st = None \<longleftrightarrow> state st = EAD_TYPE_SET_USERNAME)
     \<and> (\<forall>s. ts st = Some s \<longrightarrow> tce st = gettcid tpe_index \<and> ts_s s = [] \<and> Some (ts_n s) = map_option modulus (tce st)
          \<and> BigIntegerFromBytes (ts_v s) < BigIntegerFromBytes (ts_n s)
          \<and> (state st \<ge> EAD_TYPE_SEND_A \<longrightarrow> B st = Some (ts_B s) \<and> length (ts_B s) \<le> MAXPARAMLEN)
          \<and> (state st \<ge> EAD_TYPE_SEND_AUTH \<longrightarrow> aes_dec_ctx (crypt st) = rijndaelKeySetupDec (ts_session_key s)))"

definition ead_inv :: "ead \<Rightarrow> bool" where
  "ead_inv st \<longleftrightarrow> buffers_ok st \<and> session_ok st"

lemmas inv_defs = ead_inv_def buffers_ok_def session_ok_def

lemma inv_start: "ead_inv ead_start"
  by (simp add: inv_defs ead_start_def type_defs layout_defs)

subsection \<open>Password file\<close>

lemma length_strchr: "strchr_from s i c = Some k \<Longrightarrow> i \<le> k \<and> k < length s"
  by (auto simp: strchr_from_def Let_def split: if_splits)

lemma passwd_line_bounds:
  assumes "length salt = MAXSALTLEN" and "passwd_line user salt l = (p, salt')"
  shows "length salt' = MAXSALTLEN \<and> (\<forall>q. p = Some q \<longrightarrow> length q < MAXPARAMLEN)"
proof -
  show ?thesis
    using assms(2,1) unfolding passwd_line_def Let_def
    by (auto dest!: length_strchr split: if_splits option.splits)
qed

lemma passwd_loop_bounds:
  assumes "length salt = MAXSALTLEN" and "passwd_loop user salt f = (p, salt')"
  shows "length salt' = MAXSALTLEN \<and> (\<forall>q. p = Some q \<longrightarrow> length q < MAXPARAMLEN)"
  using assms
proof (induction user salt f rule: passwd_loop.induct)
  case (1 user salt f)
  show ?case
  proof (cases "f = []")
    case True
    then show ?thesis using "1.prems" by (simp add: passwd_loop.simps)
  next
    case False
    obtain q s where q: "passwd_line user salt (cstr (fgets 1023 f)) = (q, s)" by (meson surj_pair)
    note b = passwd_line_bounds [OF "1.prems"(1) q]
    show ?thesis
    proof (cases q)
      case None
      then show ?thesis using "1.IH" [OF False refl q [symmetric] None] b "1.prems"(2) q False
        by (subst (asm) passwd_loop.simps) simp
    next
      case (Some x)
      then show ?thesis using b q "1.prems"(2) False by (subst (asm) passwd_loop.simps) (auto simp: Let_def)
    qed
  qed
qed

text \<open>What \<open>prepare_password\<close> leaves: only the password buffers and the group change.\<close>

lemma prepare_password_cases:
  assumes "prepare_password conf env st = Some (ok, st')" and "buffers_ok st"
  obtains (no) "\<not> ok" "\<exists>salt. st' = st\<lparr>pw_saltbuf := salt\<rparr> \<and> length salt = MAXSALTLEN"
    | (yes) salt p sb v t where "ok" "st' = st\<lparr>pw_saltbuf := salt, password := p, tce := Some t, saltbuf := sb, pwbuf := v\<rparr>"
        "gettcid tpe_index = Some t" "length salt = MAXSALTLEN" "length p < MAXPARAMLEN" "length sb = MAXSALTLEN"
        "BigIntegerFromBytes v < BigIntegerFromBytes (modulus t)"
proof (cases "e_passwd env")
  case None
  then show ?thesis using assms by (intro no) (auto simp: prepare_password_def buffers_ok_def intro!: exI [of _ "pw_saltbuf st"])
next
  case (Some f)
  obtain q salt where q: "passwd_loop (username st) (pw_saltbuf st) f = (q, salt)" by (meson surj_pair)
  have b: "length salt = MAXSALTLEN \<and> (\<forall>p. q = Some p \<longrightarrow> length p < MAXPARAMLEN)"
    using passwd_loop_bounds [OF _ q] assms(2) by (simp add: buffers_ok_def)
  obtain t where t: "gettcid tpe_index = Some t" "0 < BigIntegerFromBytes (modulus t)" using gettcid_1 by blast
  show ?thesis
  proof (cases q)
    case None
    then show ?thesis using assms Some q b by (intro no) (auto simp: prepare_password_def)
  next
    case p: (Some p)
    from assms(1) Some q p have h: ok "hash_password conf env (st\<lparr>pw_saltbuf := salt, password := p\<rparr>) = Some st'"
      by (auto simp: prepare_password_def split: if_splits)
    have st': "st' = st\<lparr>pw_saltbuf := salt, password := p, tce := Some t, saltbuf := saltbuf st', pwbuf := pwbuf st'\<rparr>"
        "length (saltbuf st') = MAXSALTLEN" "BigIntegerFromBytes (pwbuf st') < BigIntegerFromBytes (modulus t)"
        using h(2) t assms(2) by (auto simp: hash_password_def Let_def buffers_ok_def BigIntegerModExp_def split: if_splits)
    have "length salt = MAXSALTLEN" "length p < MAXPARAMLEN" using b p by simp_all
    with h(1) st' t(1) show ?thesis by (intro yes)
  qed
qed

subsection \<open>The server object\<close>

lemma serveropen_fields [simp]:
  "ts_n (t_serveropenraw e raw ent t) = modulus t" "ts_s (t_serveropenraw e raw ent t) = pw_salt ent"
  "ts_v (t_serveropenraw e raw ent t) = pw_password ent"
  by (simp_all add: t_serveropenraw_def Let_def)

lemma servergenexp_fields [simp]:
  "ts_n (t_servergenexp e rnd s) = ts_n s" "ts_s (t_servergenexp e rnd s) = ts_s s" "ts_v (t_servergenexp e rnd s) = ts_v s"
  by (simp_all add: t_servergenexp_def Let_def)

lemma servergenexp_B:
  assumes "BigIntegerFromBytes (ts_v s) < BigIntegerFromBytes (ts_n s)" and "length (ts_n s) \<le> MAXPARAMLEN"
  shows "length (ts_B (t_servergenexp e rnd s)) \<le> MAXPARAMLEN"
proof -
  let ?n = "BigIntegerFromBytes (ts_n s)" and ?v = "BigIntegerFromBytes (ts_v s)"
  obtain m where m: "ts_B (t_servergenexp e rnd s) = BigIntegerToBytes m" "m \<le> ?n"
  proof -
    define b where "b = BigIntegerFromBytes (ts_g s)
      ^ BigIntegerFromBytes (take (if length (ts_n s) < BLEN then length (ts_n s) else BLEN) rnd) mod ?n"
    have "ts_B (t_servergenexp e rnd s) = BigIntegerToBytes (if b + ?v > ?n then b + ?v - ?n else b + ?v)"
      by (simp add: t_servergenexp_def Let_def BigIntegerModExp_def BigIntegerAdd_def BigIntegerSub_def b_def)
    moreover have "b < ?n" using assms(1) by (simp add: b_def)
    ultimately show ?thesis using assms(1) by (intro that) auto
  qed
  have "?n < 256 ^ length (ts_n s)" by (rule from_bytes_less)
  also have "\<dots> \<le> 256 ^ MAXPARAMLEN" using assms(2) by (intro power_increasing) simp_all
  finally have "m < 256 ^ MAXPARAMLEN" using m(2) by (rule le_less_trans [rotated])
  then show ?thesis unfolding m(1) by (rule length_to_bytes)
qed

lemma servergetkey_fields:
  assumes "t_servergetkey e raw a s = (s', k)"
  shows "ts_n s' = ts_n s" "ts_s s' = ts_s s" "ts_v s' = ts_v s" "ts_B s' = ts_B s" "k = Some key \<Longrightarrow> ts_session_key s' = key"
  using assms by (auto simp: t_servergetkey_def Let_def split: if_splits)

lemma serververify_fields:
  assumes "t_serververify e resp s = (s', ok)"
  shows "ts_n s' = ts_n s" "ts_s s' = ts_s s" "ts_v s' = ts_v s" "ts_B s' = ts_B s" "ts_session_key s' = ts_session_key s"
  using assms by (auto simp: t_serververify_def Let_def split: prod.splits if_splits)

lemma length_final_fst: "SHA1Final e c = (d, c') \<Longrightarrow> length d = 20"
  by (metis fst_conv length_final)

lemma length_serververify: "t_serververify e resp s = (s', True) \<Longrightarrow> length (t_serverresponse s') = 20"
  by (auto simp: t_serververify_def t_serverresponse_def Let_def dest: length_final_fst split: prod.splits if_splits)

subsection \<open>Changing the state\<close>

lemma set_state_events: "set_state conf env n st = Some st' \<Longrightarrow> events st' = events st \<and> pktbuf st' = pktbuf st"
proof -
  have h: "hash_password conf env s = Some s' \<Longrightarrow> events s' = events s \<and> pktbuf s' = pktbuf s" for s s'
    by (auto simp: hash_password_def Let_def bind_eq_Some_conv split: if_splits)
  have p: "prepare_password conf env s = Some y \<Longrightarrow> events (snd y) = events s \<and> pktbuf (snd y) = pktbuf s" for s y
    by (auto simp: prepare_password_def dest!: h split: option.splits prod.splits if_splits)
  show "set_state conf env n st = Some st' \<Longrightarrow> events st' = events st \<and> pktbuf st' = pktbuf st"
    by (auto simp: set_state_def Let_def bind_eq_Some_conv case_prod_unfold dest!: p split: if_splits option.splits)
qed

text \<open>The steps of the exchange, each to the next state.\<close>

definition next_state :: "nat \<Rightarrow> nat \<Rightarrow> bool" where
  "next_state m n \<longleftrightarrow> n = m \<or> n = EAD_TYPE_SET_USERNAME \<or> (n = m + 2 \<and> n \<le> EAD_TYPE_SEND_CMD)"

lemma set_state_inv:
  assumes inv: "ead_inv st" and "next_state (state st) n" and set: "set_state conf env n st = Some st'"
  shows "ead_inv st'"
proof -
  have b: "buffers_ok st" and s: "session_ok st" using inv by (simp_all add: ead_inv_def)
  have m: "state st \<in> {2, 4, 6, 8, 10}" using s by (simp add: session_ok_def type_defs)
  consider "state st = n" | "n = 2" "2 < state st" | "state st = 2" "n = 4" | "state st = 4" "n = 6" | "state st = 6" "n = 8"
    | "state st = 8" "n = 10"
    using assms(2) m unfolding next_state_def type_defs by auto
  then show ?thesis
  proof cases
    case 1
    then show ?thesis using set inv by (simp add: set_state_def)
  next
    case 2
    then show ?thesis using set b s by (auto simp: set_state_def inv_defs type_defs)
  next
    case 3
    then obtain ok st1 where p: "prepare_password conf env st = Some (ok, st1)"
      "(if \<not> ok then Some st1 else do {
          t \<leftarrow> tce st1;
          Some (st1\<lparr>ts := Some (t_serveropenraw (c_host conf) (e_raw env)
            \<lparr>pw_name = username st1, pw_password = pwbuf st1, pw_salt = take tpe_salt_len (saltbuf st1)\<rparr> t), state := n\<rparr>) }) = Some st'"
      using set unfolding set_state_def type_defs Let_def by (auto simp: bind_eq_Some_conv)
    from p(1) b show ?thesis
    proof (cases rule: prepare_password_cases)
      case no
      then obtain salt where "st' = st\<lparr>pw_saltbuf := salt\<rparr>" "length salt = MAXSALTLEN" using p(2) by auto
      then show ?thesis using b s by (simp add: inv_defs)
    next
      case (yes salt p sb v t)
      then show ?thesis using p(2) b s 3 by (auto simp: inv_defs type_defs tpe_salt_len_def)
    qed
  next
    case 4
    obtain t where t: "gettcid tpe_index = Some t" "length (modulus t) \<le> MAXPARAMLEN" using gettcid_1 by blast
    obtain s0 where s0: "ts st = Some s0" using s 4 by (auto simp: session_ok_def type_defs)
    define s1 where "s1 = t_servergenexp (c_host conf) (e_rnd env) s0"
    have st': "st' = st\<lparr>ts := Some s1, B := Some (ts_B s1), state := 6\<rparr>"
      using set 4 s0 by (simp add: set_state_def type_defs s1_def Let_def)
    have f: "tce st = gettcid tpe_index" "ts_s s0 = []" "ts_n s0 = modulus t" "BigIntegerFromBytes (ts_v s0) < BigIntegerFromBytes (ts_n s0)"
      using s s0 t by (auto simp: session_ok_def)
    moreover have "length (ts_B s1) \<le> MAXPARAMLEN" unfolding s1_def using f(3,4) t(2) by (intro servergenexp_B) simp_all
    ultimately show ?thesis using b t(1) unfolding st' by (simp add: inv_defs type_defs s1_def)
  next
    case 5
    then obtain s0 where s0: "ts st = Some s0"
      using set by (auto simp: set_state_def type_defs bind_eq_Some_conv)
    obtain s1 k where k: "t_servergetkey (c_host conf) (e_raw env) (A st) s0 = (s1, k)" by (meson surj_pair)
    have r: "(case k of None \<Rightarrow> Some (st\<lparr>ts := Some s1\<rparr>)
         | Some k \<Rightarrow> Some (st\<lparr>ts := Some s1, crypt := ead_set_key (c_host conf) k (crypt st), state := 8\<rparr>)) = Some st'"
      using set 5 s0 k by (simp add: set_state_def type_defs)
    note f = servergetkey_fields [OF k]
    show ?thesis
    proof (cases k)
      case None
      then show ?thesis using r s0 b s f 5 by (auto simp: inv_defs type_defs)
    next
      case (Some key)
      then show ?thesis using r s0 b s f(1-4) f(5) [OF Some] 5 by (auto simp: inv_defs type_defs)
    qed
  next
    case 6
    then show ?thesis using set b s by (auto simp: set_state_def inv_defs type_defs)
  qed
qed

end
