(* ===== verification/Ead_Step.thy ===== *)
theory Ead_Step
  imports Ead_Inv
begin

text \<open>
  What handling a frame can do: every handler keeps the invariant of \<open>Ead_Inv\<close>, answers leave the
  session alone, and commands are run in one place only.
\<close>

section \<open>Answers\<close>

text \<open>\<open>st'\<close> is reached from \<open>st\<close> by sending answers and running at most the command \<open>cmd\<close>: the session
  and the receive key are the same.\<close>

definition ran :: "bytes option \<Rightarrow> ead \<Rightarrow> ead \<Rightarrow> bool" where
  "ran cmd st st' \<longleftrightarrow>
     (\<exists>b c p es. st' = st\<lparr>pktbuf := b, crypt := c, child_pending := p, events := events st @ es\<rparr>
        \<and> length b = length (pktbuf st) \<and> aes_dec_ctx c = aes_dec_ctx (crypt st) \<and> (\<forall>x. Exec x \<in> set es \<longrightarrow> cmd = Some x))"

abbreviation replied :: "ead \<Rightarrow> ead \<Rightarrow> bool" where
  "replied \<equiv> ran None"

lemma ranI:
  "length b = length (pktbuf st) \<Longrightarrow> aes_dec_ctx c = aes_dec_ctx (crypt st) \<Longrightarrow> (\<And>x. Exec x \<in> set es \<Longrightarrow> cmd = Some x) \<Longrightarrow>
   ran cmd st (st\<lparr>pktbuf := b, crypt := c, child_pending := p, events := events st @ es\<rparr>)"
  unfolding ran_def by blast

lemma replied_refl: "replied st st"
  using ranI [of "pktbuf st" st "crypt st" "[]" None "child_pending st"] by simp

lemma ran_mono: "replied a b \<Longrightarrow> ran cmd a b"
proof -
  assume "replied a b"
  then obtain p c k es where b: "b = a\<lparr>pktbuf := p, crypt := c, child_pending := k, events := events a @ es\<rparr>"
      "length p = length (pktbuf a)" "aes_dec_ctx c = aes_dec_ctx (crypt a)" "\<forall>x. Exec x \<in> set es \<longrightarrow> None = Some x"
    unfolding ran_def by (elim exE conjE)
  show ?thesis unfolding b(1) using b(2-4) by (intro ranI) auto
qed

lemma ran_trans: "ran cmd a b \<Longrightarrow> ran cmd b c \<Longrightarrow> ran cmd a c"
proof -
  assume "ran cmd a b" and "ran cmd b c"
  then obtain p c1 k es q c2 l fs where
    b: "b = a\<lparr>pktbuf := p, crypt := c1, child_pending := k, events := events a @ es\<rparr>" "length p = length (pktbuf a)"
      "aes_dec_ctx c1 = aes_dec_ctx (crypt a)" "\<forall>x. Exec x \<in> set es \<longrightarrow> cmd = Some x"
    and c: "c = b\<lparr>pktbuf := q, crypt := c2, child_pending := l, events := events b @ fs\<rparr>" "length q = length (pktbuf b)"
      "aes_dec_ctx c2 = aes_dec_ctx (crypt b)" "\<forall>x. Exec x \<in> set fs \<longrightarrow> cmd = Some x"
    unfolding ran_def by (elim exE conjE)
  have eq: "c = a\<lparr>pktbuf := q, crypt := c2, child_pending := l, events := events a @ (es @ fs)\<rparr>"
    unfolding c(1) b(1) by simp
  have "cmd = Some x" if "Exec x \<in> set (es @ fs)" for x using that b(4) c(4) by auto
  then show ?thesis unfolding eq using b(1-3) c(2,3) by (intro ranI) simp_all
qed

lemmas replied_trans = ran_trans [of None]

lemma replied_pktbuf: "length b = length (pktbuf st) \<Longrightarrow> replied st (st\<lparr>pktbuf := b\<rparr>)"
  using ranI [of b st "crypt st" "[]" None "child_pending st"] by simp

lemma replied_pending: "replied st (st\<lparr>child_pending := p\<rparr>)"
  using ranI [of "pktbuf st" st "crypt st" "[]" None p] by simp

lemma replied_crypt: "aes_dec_ctx c = aes_dec_ctx (crypt st) \<Longrightarrow> replied st (st\<lparr>crypt := c\<rparr>)"
  using ranI [of "pktbuf st" st c "[]" None "child_pending st"] by simp

lemma replied_kill: "replied st (st\<lparr>events := events st @ [Kill]\<rparr>)"
  using ranI [of "pktbuf st" st "crypt st" "[Kill]" None "child_pending st"] by simp

lemma ran_exec: "ran (Some c) st (st\<lparr>events := events st @ [Exec c]\<rparr>)"
  using ranI [of "pktbuf st" st "crypt st" "[Exec c]" "Some c" "child_pending st"] by simp

lemma ran_inv: "ran cmd st st' \<Longrightarrow> ead_inv st \<Longrightarrow> ead_inv st'"
  unfolding ran_def by (elim exE conjE) (simp add: inv_defs)

lemma ran_session: "ran cmd st st' \<Longrightarrow> state st' = state st \<and> ts st' = ts st \<and> aes_dec_ctx (crypt st') = aes_dec_ctx (crypt st)"
  unfolding ran_def by (elim exE conjE) simp

lemma ran_events: "ran cmd st st' \<Longrightarrow> \<exists>es. events st' = events st @ es \<and> (\<forall>x. Exec x \<in> set es \<longrightarrow> cmd = Some x)"
  unfolding ran_def by (elim exE conjE) auto

lemma clone_replied: "ead_send_packet_clone conf pkt st = Some st' \<Longrightarrow> replied st st'"
proof -
  assume "ead_send_packet_clone conf pkt st = Some st'"
  then obtain mlen b b2 out where ip: "ip_header conf pkt (62 - 14 + ucast (mlen :: u32)) (pktbuf st) = Some b"
    and udp: "udp_header pkt (62 - 14 + ucast mlen - 20) b = Some b2"
    and st': "st' = st\<lparr>pktbuf := b2, events := events st @ [Send out]\<rparr>"
    by (auto simp: ead_send_packet_clone_def DATA_def Let_def bind_eq_Some_conv)
  have "length b = length (pktbuf st)"
    using ip unfolding ip_header_def Let_def bind_eq_Some_conv by (clarsimp dest!: length_poke peek_bound)
  moreover have "length b2 = length b"
    using udp unfolding udp_header_def Let_def bind_eq_Some_conv by (clarsimp dest!: length_poke peek_bound)
  ultimately show ?thesis
    unfolding st' using ranI [of b2 st "crypt st" "[Send out]" None "child_pending st"] by simp
qed

lemma crypt_loop_length: "crypt_loop f data i len = Some d \<Longrightarrow> length d = length data"
proof (induction f data i len rule: crypt_loop.induct)
  case (1 f data i len)
  show ?case
  proof (cases "len = 0")
    case True
    then show ?thesis using "1.prems" by (simp add: crypt_loop.simps)
  next
    case False
    then obtain b d2 where "peek data i 16 = Some b" "poke data i (f b) = Some d2" "crypt_loop f d2 (i + 16) (len - 16) = Some d"
      using "1.prems" by (subst (asm) crypt_loop.simps) (auto simp: bind_eq_Some_conv)
    then show ?thesis using "1.IH" [OF False] length_poke by metis
  qed
qed

lemma encrypt_state:
  assumes "ead_encrypt_message st data n = Some (d, mlen, st')"
  shows "length d = length data" and "aes_dec_ctx st' = aes_dec_ctx st"
proof -
  obtain iv s where iv: "ead_get_tx_iv st = (iv, s)" by (meson surj_pair)
  then have "aes_dec_ctx s = aes_dec_ctx st" by (auto simp: ead_get_tx_iv_def Let_def)
  then show "length d = length data" "aes_dec_ctx st' = aes_dec_ctx st"
    using assms unfolding ead_encrypt_message_def ead_hash_message_def Let_def iv split
    by (auto simp: bind_eq_Some_conv dest!: length_poke crypt_loop_length)
qed

lemma encrypt_reply_replied: "encrypt_reply n st = Some st' \<Longrightarrow> replied st st'"
proof -
  assume "encrypt_reply n st = Some st'"
  then obtain data mlen c b where e: "ead_encrypt_message (crypt st) (drop DATA (pktbuf st)) n = Some (data, mlen, c)"
    "poke (take DATA (pktbuf st) @ data) 46 (be32 mlen) = Some b" "st' = st\<lparr>pktbuf := b, crypt := c\<rparr>"
    by (auto simp: encrypt_reply_def bind_eq_Some_conv)
  have "length b = length (pktbuf st)" using length_poke [OF e(2)] encrypt_state(1) [OF e(1)] by simp
  then show ?thesis unfolding e(3)
    using ranI [of b st c "[]" None "child_pending st"] encrypt_state(2) [OF e(1)] by simp
qed

lemma stream_loop_replied: "stream_loop conf pkt timeout rs st = Some st' \<Longrightarrow> replied st st'"
proof (induction rs arbitrary: st)
  case Nil
  then obtain b where b: "length b = length (pktbuf st)" "st' = st\<lparr>pktbuf := b, child_pending := False\<rparr>"
    by (auto simp: bind_eq_Some_conv dest!: length_poke)
  show ?case unfolding b(2) using replied_trans [OF replied_pktbuf [OF b(1)] replied_pending] .
next
  case (Cons r rs)
  obtain b1 b where b1: "poke (pktbuf st) ENC_DATA [0] = Some b1" and b: "poke b1 (ENC_DATA + 1) (take 1024 (r_out r)) = Some b"
    using Cons.prems by (auto simp: bind_eq_Some_conv Let_def)
  let ?st = "st\<lparr>pktbuf := b\<rparr>"
  have r0: "replied st ?st" using length_poke [OF b1] length_poke [OF b] by (intro replied_pktbuf) simp
  show ?case
  proof (cases "take 1024 (r_out r) = [] \<and> \<not> r_pending r")
    case True
    then have "st' = ?st\<lparr>child_pending := False\<rparr>" using Cons.prems b1 b by (simp add: Let_def)
    then show ?thesis using replied_trans [OF r0 replied_pending] by simp
  next
    case False
    then obtain s1 s2 where s: "encrypt_reply (SIZE_cmd_data + length (take 1024 (r_out r))) ?st = Some s1"
      "ead_send_packet_clone conf pkt s1 = Some s2"
      "(if r_time r < timeout then stream_loop conf pkt timeout rs s2 else Some (s2\<lparr>child_pending := r_alive r\<rparr>)) = Some st'"
      using Cons.prems b1 b by (auto simp: Let_def bind_eq_Some_conv)
    have r2: "replied st s2"
      using replied_trans [OF r0 replied_trans [OF encrypt_reply_replied [OF s(1)] clone_replied [OF s(2)]]] .
    show ?thesis
    proof (cases "r_time r < timeout")
      case True
      then show ?thesis using Cons.IH [of s2] s(3) replied_trans [OF r2] by simp
    next
      case False
      then show ?thesis using s(3) replied_trans [OF r2 replied_pending] by auto
    qed
  qed
qed

lemma cmd_done_replied: "cmd_done pkt st = Some (ok, n, pkt', st') \<Longrightarrow> replied st st' \<and> n = state st' \<and> pkt' = pkt"
proof -
  assume "cmd_done pkt st = Some (ok, n, pkt', st')"
  then obtain b where b: "poke (pktbuf st) ENC_DATA [1] = Some b" "encrypt_reply SIZE_cmd_data (st\<lparr>pktbuf := b\<rparr>) = Some st'"
    "n = state st'" "pkt' = pkt" by (auto simp: cmd_done_def bind_eq_Some_conv)
  then show ?thesis
    using replied_trans [OF replied_pktbuf [OF length_poke [OF b(1)]] encrypt_reply_replied [OF b(2)]] by simp
qed

section \<open>Commands\<close>

lemma run_cmd_ran:
  assumes "run_cmd conf env ty timeout pkt st = Some (ok, n, pkt', st')"
  shows "n = state st \<and> pkt' = pkt \<and> (replied st st' \<or> (\<exists>cmd. cstr_at pkt (ENC_DATA + 3) = Some cmd \<and> ran (Some cmd) st st'))"
proof -
  let ?s1 = "st\<lparr>child_pending := True\<rparr>"
  consider (none) "n = state st" "pkt' = pkt" "st' = st \<or> st' = ?s1"
    | (normal) cmd to s where "cstr_at pkt (ENC_DATA + 3) = Some cmd"
        "stream_loop conf pkt to (e_rounds env) (?s1\<lparr>events := events ?s1 @ [Exec cmd]\<rparr>) = Some s"
        "(if child_pending s then Some (False, state s, pkt, s\<lparr>events := events s @ [Kill]\<rparr>) else cmd_done pkt s) = Some (ok, n, pkt', st')"
    | (background) cmd where "cstr_at pkt (ENC_DATA + 3) = Some cmd"
        "cmd_done pkt (st\<lparr>events := events st @ [Exec cmd]\<rparr>) = Some (ok, n, pkt', st')"
    using assms unfolding run_cmd_def Let_def by (auto simp: bind_eq_Some_conv split: if_splits)
  then show ?thesis
  proof cases
    case none
    then show ?thesis using replied_refl replied_pending by auto
  next
    case normal
    have r: "ran (Some cmd) st s"
      using ran_trans [OF ran_trans [OF ran_mono [OF replied_pending] ran_exec] ran_mono [OF stream_loop_replied [OF normal(2)]]] .
    show ?thesis
    proof (cases "child_pending s")
      case True
      then show ?thesis using normal(1,3) ran_trans [OF r ran_mono [OF replied_kill]] ran_session [OF r] by auto
    next
      case False
      then have d: "replied s st'" "n = state st'" "pkt' = pkt" using normal(3) cmd_done_replied by auto
      then show ?thesis
        using normal(1) ran_trans [OF r ran_mono [OF d(1)]] ran_session [OF r] ran_session [OF d(1)] by auto
    qed
  next
    case background
    note d = cmd_done_replied [OF background(2)]
    then have r: "ran (Some cmd) st st'" using ran_trans [OF ran_exec ran_mono] by blast
    then show ?thesis using background(1) d ran_session [OF r] by auto
  qed
qed

text \<open>The text after the byte that is overwritten with NUL does not matter.\<close>

lemma cstr_append_nul': "cstr (xs @ 0 # r) = cstr xs"
  by (induction xs) (simp_all add: cstr_def)

lemma cstr_at_poke:
  assumes "poke b (i + k) [0] = Some b'" and "cstr_at b' i = Some c"
  shows "c = cstr (take k (drop i b))"
proof -
  have "drop i b' = take k (drop i b) @ 0 # drop (i + k + 1) b"
    using assms(1) by (auto simp: poke_Some_iff drop_take)
  then show ?thesis using assms(2) by (auto simp: cstr_at_def Let_def cstr_append_nul' split: if_splits)
qed

lemma decrypt_length: "ead_decrypt_message st data mlen = Some (n, data', st') \<Longrightarrow> length data' = length data"
proof -
  assume "ead_decrypt_message st data mlen = Some (n, data', st')"
  then show ?thesis
    by (auto simp: ead_decrypt_message_def check_message_def ead_hash_message_def Let_def bind_eq_Some_conv case_prod_unfold
        dest!: crypt_loop_length length_poke split: if_splits)
qed

text \<open>A command is what a message of the session decrypts to.\<close>

text \<open>The message starts behind the frame's header, which gives its length.\<close>

definition decrypts_to :: "ead_crypt \<Rightarrow> bytes \<Rightarrow> bytes \<Rightarrow> bool" where
  "decrypts_to c pkt cmd \<longleftrightarrow>
     (\<exists>mlen n data' c'. get32 pkt 46 = Some mlen \<and> ead_decrypt_message c (drop DATA pkt) mlen = Some (n, data', c')
        \<and> 0 < int_minus n 3 \<and> cmd = cstr (take (nat (int_minus n 3)) (drop 28 data')))"

lemma handle_send_cmd_ran:
  assumes "handle_send_cmd conf env pkt st = Some (ok, n, pkt', st')"
  shows "n = state st \<and> length pkt' = length pkt \<and>
    (replied st st' \<or> (\<exists>cmd. decrypts_to (crypt st) pkt cmd \<and> ran (Some cmd) st st'))"
proof -
  obtain mlen m data c where d: "get32 pkt 46 = Some mlen" "ead_decrypt_message (crypt st) (drop DATA pkt) mlen = Some (m, data, c)"
    using assms by (auto simp: handle_send_cmd_def bind_eq_Some_conv)
  let ?p = "take DATA pkt @ data" and ?st = "st\<lparr>crypt := c\<rparr>"
  have c: "replied st ?st" using decrypt_state(2) [OF d(2)]
    by (intro replied_crypt) (metis ead_crypt.select_convs(2) ead_crypt.surjective ead_crypt.update_convs(3))
  have l: "length ?p = length pkt" using decrypt_length [OF d(2)] by simp
  show ?thesis
  proof (cases "int_minus m SIZE_cmd \<le> 0")
    case True
    then show ?thesis using assms d c l by (auto simp: handle_send_cmd_def)
  next
    case False
    then obtain ty to p2 where r: "idx ?p ENC_DATA = Some ty" "get16 ?p (ENC_DATA + 1) = Some to"
      "poke ?p (ENC_DATA + 3 + nat (int_minus m SIZE_cmd)) [0] = Some p2"
      "run_cmd conf env (cmd_type conf ty) (unat to) p2 ?st = Some (ok, n, pkt', st')"
      using assms d by (auto simp: handle_send_cmd_def bind_eq_Some_conv Let_def)
    have dt: "decrypts_to (crypt st) pkt cmd" if "cstr_at p2 (ENC_DATA + 3) = Some cmd" for cmd
    proof -
      have "62 \<le> length pkt" using r(1) l decrypt_length [OF d(2)] by (auto simp: idx_Some_iff layout_defs)
      moreover have "cmd = cstr (take (nat (int_minus m SIZE_cmd)) (drop (ENC_DATA + 3) ?p))" by (rule cstr_at_poke [OF r(3) that])
      ultimately have "cmd = cstr (take (nat (int_minus m 3)) (drop 28 data))" by (simp add: layout_defs)
      moreover have "0 < int_minus m 3" using False by (simp add: SIZE_cmd_def)
      ultimately show ?thesis unfolding decrypts_to_def using d by blast
    qed
    show ?thesis
      using run_cmd_ran [OF r(4)] dt replied_trans [OF c] ran_trans [OF ran_mono [OF c]] length_poke [OF r(3)] l by auto
  qed
qed

section \<open>The other handlers\<close>

lemma handle_ping_ran:
  assumes "handle_ping conf pkt st = Some (ok, n, pkt', st')"
  shows "replied st st' \<and> n = state st \<and> pkt' = pkt"
proof -
  have b: "length (pktbuf st') = length (pktbuf st)" "st' = st\<lparr>pktbuf := pktbuf st'\<rparr>" "n = state st" "pkt' = pkt"
    using assms unfolding handle_ping_def Let_def bind_eq_Some_conv by (clarsimp dest!: length_poke)+
  show ?thesis using replied_pktbuf [OF b(1)] b(2-4) by simp
qed

lemma handle_set_username_state:
  assumes "handle_set_username conf env pkt st = Some (ok, n, pkt', st')"
  obtains s u b where "set_state conf env EAD_TYPE_SET_USERNAME st = Some s" "st' = s\<lparr>username := cstr (take 31 u), pktbuf := b\<rparr>"
    "length b = length (pktbuf s)" "n = EAD_TYPE_GET_PRIME" "pkt' = pkt"
  using assms by (auto simp: handle_set_username_def bind_eq_Some_conv dest!: length_poke)

lemma handle_get_prime_ran:
  assumes "handle_get_prime pkt st = Some (ok, n, pkt', st')"
  shows "replied st st' \<and> n = EAD_TYPE_SEND_A \<and> pkt' = pkt"
proof -
  have b: "length (pktbuf st') = length (pktbuf st)" "st' = st\<lparr>pktbuf := pktbuf st'\<rparr>" "n = EAD_TYPE_SEND_A" "pkt' = pkt"
    using assms unfolding handle_get_prime_def bind_eq_Some_conv by (clarsimp dest!: length_poke)+
  show ?thesis using replied_pktbuf [OF b(1)] b(2-4) by simp
qed

lemma handle_send_a_state:
  "handle_send_a pkt st = Some (ok, n, pkt', st') \<Longrightarrow>
   st' = st\<lparr>A := A st', pktbuf := pktbuf st'\<rparr> \<and> length (pktbuf st') = length (pktbuf st)
   \<and> (n = state st \<or> n = EAD_TYPE_SEND_AUTH) \<and> pkt' = pkt"
  unfolding handle_send_a_def Let_def bind_eq_Some_conv by (auto simp: bind_eq_Some_conv dest!: length_poke split: if_splits)

lemma handle_send_auth_state:
  assumes "handle_send_auth conf pkt st = Some (ok, n, pkt', st')"
  obtains s auth s' good b where "ts st = Some s" "peek pkt DATA SIZE_auth = Some auth"
    "t_serververify (c_host conf) auth s = (s', good)" "st' = st\<lparr>ts := Some s', pktbuf := b\<rparr>" "length b = length (pktbuf st)"
    "n = (if good then EAD_TYPE_SEND_CMD else EAD_TYPE_SET_USERNAME)" "pkt' = pkt"
proof -
  obtain s auth where s: "ts st = Some s" "peek pkt DATA SIZE_auth = Some auth"
    using assms by (auto simp: handle_send_auth_def bind_eq_Some_conv)
  obtain s' good where v: "t_serververify (c_host conf) auth s = (s', good)" by (meson surj_pair)
  show ?thesis
  proof (cases good)
    case True
    then have "st' = st\<lparr>ts := Some s', pktbuf := pktbuf st'\<rparr>" "length (pktbuf st') = length (pktbuf st)"
      "n = EAD_TYPE_SEND_CMD" "pkt' = pkt"
      using assms s v unfolding handle_send_auth_def by (clarsimp simp: bind_eq_Some_conv dest!: length_poke)+
    then show ?thesis by (intro that [OF s v, of "pktbuf st'"]) (simp_all only: True if_True)
  next
    case False
    then have st': "st' = st\<lparr>ts := Some s'\<rparr>" "n = EAD_TYPE_SET_USERNAME" "pkt' = pkt"
      using assms s v by (simp_all add: handle_send_auth_def)
    have "st\<lparr>ts := Some s'\<rparr> = st\<lparr>ts := Some s', pktbuf := pktbuf st\<rparr>" by (cases st) simp
    then show ?thesis using that [OF s v, of "pktbuf st"] False st' by simp
  qed
qed

section \<open>A frame keeps the invariant\<close>

text \<open>The handlers as the dispatcher calls them: from the state that is theirs.\<close>

definition at_turn :: "int \<Rightarrow> ead \<Rightarrow> bool" where
  "at_turn ty st \<longleftrightarrow> (ty \<ge> int EAD_TYPE_GET_PRIME \<longrightarrow> int (state st) = ty)"

lemma set_username_clears:
  assumes "set_state conf env EAD_TYPE_SET_USERNAME st = Some s" and "ead_inv st"
  shows "ead_inv s" "state s = EAD_TYPE_SET_USERNAME"
proof -
  show "ead_inv s" by (rule set_state_inv [OF assms(2) _ assms(1)]) (simp add: next_state_def)
  show "state s = EAD_TYPE_SET_USERNAME"
  proof (cases "state st = 2")
    case False
    then have "2 < state st" using assms(2) by (auto simp: inv_defs type_defs)
    then show ?thesis using assms(1) by (auto simp: set_state_def type_defs split: if_splits)
  qed (use assms(1) in \<open>simp add: set_state_def type_defs\<close>)
qed

lemma handler_inv:
  assumes inv: "ead_inv st" and sel: "select_handler conf env ty = Some (h, m)" and turn: "at_turn ty st"
    and run: "h pkt st = Some (ok, n, pkt', st')"
  shows "ead_inv st' \<and> next_state (state st') n"
proof -
  from sel have "(ty = 0 \<and> h = handle_ping conf) \<or> (ty = 2 \<and> h = handle_set_username conf env) \<or> (ty = 4 \<and> h = handle_get_prime)
      \<or> (ty = 6 \<and> h = handle_send_a) \<or> (ty = 8 \<and> h = handle_send_auth conf) \<or> (ty = 10 \<and> h = handle_send_cmd conf env)"
    unfolding select_handler_def type_defs by (simp split: if_split_asm)
  moreover have "state st = nat ty" if "ty \<ge> 4" using turn that by (simp add: at_turn_def type_defs)
  ultimately consider "h = handle_ping conf" | "h = handle_set_username conf env" | "h = handle_get_prime" "state st = 4"
    | "h = handle_send_a" "state st = 6" | "h = handle_send_auth conf" "state st = 8" | "h = handle_send_cmd conf env"
    by (elim disjE conjE) simp_all
  then show ?thesis
  proof cases
    case 1
    then show ?thesis using handle_ping_ran run inv ran_inv ran_session by (fastforce simp: next_state_def)
  next
    case 2
    obtain s u b where s: "set_state conf env EAD_TYPE_SET_USERNAME st = Some s" "st' = s\<lparr>username := cstr (take 31 u), pktbuf := b\<rparr>"
      "length b = length (pktbuf s)" "n = EAD_TYPE_GET_PRIME"
      using handle_set_username_state run 2 by metis
    have "length (cstr (take 31 u)) < 32"
      unfolding cstr_def using length_takeWhile_le [of "\<lambda>c. c \<noteq> 0" "take 31 u"] by simp
    then show ?thesis using set_username_clears [OF s(1) inv] s(2-4) by (simp add: inv_defs next_state_def type_defs)
  next
    case 3
    then have r: "replied st st'" "n = EAD_TYPE_SEND_A" using handle_get_prime_ran run by auto
    then show ?thesis using 3 ran_inv [OF r(1) inv] ran_session [OF r(1)] by (simp add: next_state_def type_defs)
  next
    case 4
    then obtain a b where "st' = st\<lparr>A := a, pktbuf := b\<rparr>" "length b = length (pktbuf st)" "n = state st \<or> n = EAD_TYPE_SEND_AUTH"
      using handle_send_a_state run by blast
    then show ?thesis using 4 inv by (auto simp: inv_defs next_state_def type_defs)
  next
    case 5
    obtain s auth s' good b where s: "ts st = Some s" "t_serververify (c_host conf) auth s = (s', good)"
      "st' = st\<lparr>ts := Some s', pktbuf := b\<rparr>" "length b = length (pktbuf st)"
      "n = (if good then EAD_TYPE_SEND_CMD else EAD_TYPE_SET_USERNAME)"
      using handle_send_auth_state run 5(1) by metis
    show ?thesis using s inv 5(2) serververify_fields [OF s(2)] by (simp add: inv_defs next_state_def type_defs)
  next
    case 6
    then have "n = state st" "replied st st' \<or> (\<exists>cmd. ran (Some cmd) st st')" using handle_send_cmd_ran run by blast+
    then show ?thesis using inv ran_inv ran_session by (auto simp: next_state_def)
  qed
qed

lemma reply_header_length: "reply_header conf ty sid b = Some b' \<Longrightarrow> length b' = length b"
  unfolding reply_header_def bind_eq_Some_conv by (clarsimp dest!: length_poke)

text \<open>The stages of a frame that reaches a handler.\<close>

lemma parse_message_cases:
  assumes "parse_message conf env len pkt st = Some st'"
  obtains (ignored) "st' = st"
    | (handled) ty h m b ok n pkt' s1 s2 where
        "get32 pkt 50 = Some ty" "select_handler conf env (sint ty) = Some (h, m)" "at_turn (sint ty) st" "int m \<le> len"
        "length b = length (pktbuf st)" "h pkt (st\<lparr>pktbuf := b\<rparr>) = Some (ok, n, pkt', s1)"
        "(if ok then ead_send_packet_clone conf pkt' s1 = Some s2 else s2 = s1)" "set_state conf env n s2 = Some st'"
proof -
  obtain ty where ty: "get32 pkt 50 = Some ty" using assms by (auto simp: parse_message_def bind_eq_Some_conv)
  show ?thesis
  proof (cases "sint ty \<ge> int EAD_TYPE_GET_PRIME \<and> int (state st) \<noteq> sint ty")
    case True
    then show ?thesis using assms ty by (intro ignored) (simp add: parse_message_def)
  next
    case turn: False
    then obtain sid where sid: "get16 pkt 56 = Some sid" using assms ty by (auto simp: parse_message_def bind_eq_Some_conv)
    show ?thesis
    proof (cases "(sint ty \<noteq> int EAD_TYPE_PING \<and> unat (drop_bit 12 (sid AND 0xf000)) \<noteq> c_inst conf) \<or> select_handler conf env (sint ty) = None")
      case True
      then show ?thesis using assms ty sid turn by (intro ignored) (auto simp: parse_message_def split: if_splits)
    next
      case False
      then obtain h m where h: "select_handler conf env (sint ty) = Some (h, m)" by auto
      show ?thesis
      proof (cases "len < int m")
        case True
        then show ?thesis using assms ty sid turn False h by (intro ignored) (auto simp: parse_message_def)
      next
        case long: False
        then obtain b ok n pkt' s1 where b: "reply_header conf ty (be16 sid) (pktbuf st) = Some b"
          "h pkt (st\<lparr>pktbuf := b\<rparr>) = Some (ok, n, pkt', s1)"
          "(if ok then ead_send_packet_clone conf pkt' s1 else Some s1) \<bind> set_state conf env n = Some st'"
          using assms ty sid turn False h by (auto simp: parse_message_def bind_eq_Some_conv)
        then obtain s2 where "(if ok then ead_send_packet_clone conf pkt' s1 = Some s2 else s2 = s1)" "set_state conf env n s2 = Some st'"
          by (cases ok) (auto simp: bind_eq_Some_conv)
        then show ?thesis
          using handled [OF ty h _ _ reply_header_length [OF b(1)] b(2)] long turn by (auto simp: at_turn_def)
      qed
    qed
  qed
qed

lemma if_SomeE: "(if b then Some s else m) = Some s' \<Longrightarrow> (s' = s \<Longrightarrow> P) \<Longrightarrow> (m = Some s' \<Longrightarrow> P) \<Longrightarrow> P"
  by (cases b) auto

lemma bind_SomeE: "m \<bind> f = Some y \<Longrightarrow> (\<And>x. m = Some x \<Longrightarrow> f x = Some y \<Longrightarrow> P) \<Longrightarrow> P"
  by (cases m) auto

lemma handle_packet_parse:
  assumes "handle_packet conf env hlen pkt st = Some st'"
  obtains "st' = st" | "parse_message conf env (sint hlen) pkt st = Some st'"
  using assms unfolding handle_packet_def by (elim if_SomeE bind_SomeE; blast)

lemma handle_packet_inv:
  assumes "ead_inv st" and "handle_packet conf env hlen pkt st = Some st'"
  shows "ead_inv st'"
  using assms(2)
proof (cases rule: handle_packet_parse)
  case 2
  then show ?thesis
  proof (cases rule: parse_message_cases)
    case (handled ty h m b ok n pkt' s1 s2)
    have "ead_inv (st\<lparr>pktbuf := b\<rparr>)" using assms(1) handled(5) by (simp add: inv_defs)
    moreover have "at_turn (sint ty) (st\<lparr>pktbuf := b\<rparr>)" using handled(3) by (simp add: at_turn_def)
    ultimately have s1: "ead_inv s1 \<and> next_state (state s1) n" using handler_inv handled(2,6) by blast
    have "replied s1 s2" using handled(7) clone_replied replied_refl by (cases ok) auto
    then have "ead_inv s2 \<and> next_state (state s2) n" using s1 ran_inv ran_session by metis
    then show ?thesis using set_state_inv handled(8) by blast
  qed (use assms(1) in simp)
qed (use assms(1) in simp)

end
