(* ===== verification/Ead_Laws.thy ===== *)
theory Ead_Laws
  imports Ead_Step Contracts
begin

text \<open>
  The daemon as a machine: each step handles one frame, whatever the sender put into it and whatever
  the system answers. The machine is an instance of the locale of guarded state machines.
\<close>

section \<open>The machine\<close>

inductive ead_step :: "ead_conf \<Rightarrow> ead \<Rightarrow> ead \<Rightarrow> bool" for conf where
  frame: "handle_packet conf env hlen pkt st = Some st' \<Longrightarrow> ead_step conf st st'"

inductive_cases ead_stepE: "ead_step conf st st'"

interpretation ead: machine "\<lambda>st. st = ead_start" "ead_step conf" ead_inv for conf
  by unfold_locales (auto simp: inv_start elim!: ead_stepE intro: handle_packet_inv)

section \<open>Who may run commands\<close>

lemma set_state_cmd:
  assumes "set_state conf env n st = Some st'" and "ead_inv st" and "next_state (state st) n" and "state st' = 10"
  shows "ts st' = ts st \<and> n = 10"
proof -
  have m: "state st \<in> {2, 4, 6, 8, 10}" using assms(2) by (simp add: inv_defs type_defs)
  show ?thesis
  proof (cases "state st = n")
    case True
    then show ?thesis using assms(1,4) by (simp add: set_state_def)
  next
    case False
    consider "n = 2" "2 < state st" | "state st = 2" "n = 4" | "state st = 4" "n = 6" | "state st = 6" "n = 8" | "state st = 8" "n = 10"
      using assms(3) m False unfolding next_state_def type_defs by auto
    then show ?thesis
    proof cases
      case 2
      then obtain ok s where p: "prepare_password conf env st = Some (ok, s)" "state s = state st"
      proof -
        obtain ok s where p: "prepare_password conf env st = Some (ok, s)"
          using assms(1) 2 by (auto simp: set_state_def type_defs bind_eq_Some_conv)
        have "buffers_ok st" using assms(2) by (simp add: ead_inv_def)
        with p have "state s = state st" by (cases rule: prepare_password_cases) auto
        with p show ?thesis by (rule that)
      qed
      then show ?thesis using assms(1,4) 2 by (auto simp: set_state_def type_defs bind_eq_Some_conv Let_def split: if_splits)
    next
      case 4
      then obtain s where "ts st = Some s" using assms(1) by (auto simp: set_state_def type_defs bind_eq_Some_conv)
      then show ?thesis using assms(1,4) 4
        by (cases "t_servergetkey (c_host conf) (e_raw env) (A st) s") (auto simp: set_state_def type_defs split: option.splits)
    qed (use assms(1,4) in \<open>auto simp: set_state_def type_defs bind_eq_Some_conv Let_def split: if_splits\<close>)
  qed
qed

text \<open>The frame that proves knowledge of the password.\<close>

definition proves_password :: "ead_conf \<Rightarrow> bytes \<Rightarrow> ead \<Rightarrow> t_server \<Rightarrow> bool" where
  "proves_password conf pkt st s' \<longleftrightarrow> state st = EAD_TYPE_SEND_AUTH \<and>
     (\<exists>s auth. ts st = Some s \<and> peek pkt DATA SIZE_auth = Some auth \<and> t_serververify (c_host conf) auth s = (s', True))"

lemma select_handler_cases:
  assumes "select_handler conf env ty = Some (h, m)" and "at_turn ty st"
  obtains "h = handle_ping conf" | "h = handle_set_username conf env" | "h = handle_get_prime" "state st = 4"
    | "h = handle_send_a" "state st = 6" | "h = handle_send_auth conf" "state st = 8" | "h = handle_send_cmd conf env" "state st = 10"
proof -
  from assms(1) have "(ty = 0 \<and> h = handle_ping conf) \<or> (ty = 2 \<and> h = handle_set_username conf env) \<or> (ty = 4 \<and> h = handle_get_prime)
      \<or> (ty = 6 \<and> h = handle_send_a) \<or> (ty = 8 \<and> h = handle_send_auth conf) \<or> (ty = 10 \<and> h = handle_send_cmd conf env)"
    unfolding select_handler_def type_defs by (simp split: if_split_asm)
  moreover have "state st = nat ty" if "ty \<ge> 4" using assms(2) that by (simp add: at_turn_def type_defs)
  ultimately show ?thesis using that by (elim disjE conjE) simp_all
qed

lemma handler_effect:
  assumes inv: "ead_inv st" and sel: "select_handler conf env ty = Some (h, m)" "at_turn ty st"
    and run: "h pkt st = Some (ok, n, pkt', st')"
  shows "(\<exists>es. events st' = events st @ es \<and> (\<forall>c. Exec c \<in> set es \<longrightarrow> state st = 10 \<and> decrypts_to (crypt st) pkt c))
    \<and> (n = 10 \<longrightarrow> state st = 10 \<and> ts st' = ts st \<or> (\<exists>s'. proves_password conf pkt st s' \<and> ts st' = Some s'))"
  using sel
proof (cases rule: select_handler_cases)
  case 1
  then have r: "replied st st'" "n = state st" using handle_ping_ran run by auto
  then show ?thesis using ran_events [OF r(1)] ran_session [OF r(1)] by auto
next
  case 2
  obtain s u b where s: "set_state conf env EAD_TYPE_SET_USERNAME st = Some s" "st' = s\<lparr>username := cstr (take 31 u), pktbuf := b\<rparr>"
      "n = EAD_TYPE_GET_PRIME"
    using handle_set_username_state run 2 by metis
  then show ?thesis using set_state_events [OF s(1)] by (simp add: type_defs)
next
  case 3
  then have r: "replied st st'" "n = EAD_TYPE_SEND_A" using handle_get_prime_ran run by auto
  then show ?thesis using ran_events [OF r(1)] by (auto simp: type_defs)
next
  case 4
  then obtain a b where "st' = st\<lparr>A := a, pktbuf := b\<rparr>" "n = state st \<or> n = EAD_TYPE_SEND_AUTH"
    using handle_send_a_state run by blast
  then show ?thesis using 4 by (auto simp: type_defs)
next
  case 5
  obtain s auth s' good b where s: "ts st = Some s" "peek pkt DATA SIZE_auth = Some auth"
      "t_serververify (c_host conf) auth s = (s', good)"
      "st' = st\<lparr>ts := Some s', pktbuf := b\<rparr>" "n = (if good then EAD_TYPE_SEND_CMD else EAD_TYPE_SET_USERNAME)"
    using handle_send_auth_state run 5(1) by metis
  then show ?thesis using 5 by (auto simp: type_defs proves_password_def)
next
  case 6
  then have r: "n = state st" "replied st st' \<or> (\<exists>cmd. decrypts_to (crypt st) pkt cmd \<and> ran (Some cmd) st st')"
    using handle_send_cmd_ran run by blast+
  then obtain cmd where c: "ran cmd st st'" "\<forall>c. cmd = Some c \<longrightarrow> decrypts_to (crypt st) pkt c" by auto
  obtain es where es: "events st' = events st @ es" "\<forall>x. Exec x \<in> set es \<longrightarrow> cmd = Some x" using ran_events [OF c(1)] by blast
  have "\<forall>x. Exec x \<in> set es \<longrightarrow> state st = 10 \<and> decrypts_to (crypt st) pkt x" using es(2) c(2) 6(2) by simp
  moreover have "state st = 10 \<and> ts st' = ts st" using ran_session [OF c(1)] 6(2) by simp
  ultimately show ?thesis using es(1) by blast
qed

text \<open>One frame: which commands are run, and how the state for commands is entered.\<close>

lemma packet_effect:
  assumes inv: "ead_inv st" and run: "handle_packet conf env hlen pkt st = Some st'"
  shows "(\<exists>es. events st' = events st @ es \<and> (\<forall>c. Exec c \<in> set es \<longrightarrow> state st = 10 \<and> decrypts_to (crypt st) pkt c))
    \<and> (state st' = 10 \<longrightarrow> state st = 10 \<and> ts st' = ts st \<or> (\<exists>s'. proves_password conf pkt st s' \<and> ts st' = Some s'))"
  using run
proof (cases rule: handle_packet_parse)
  case 2
  then show ?thesis
  proof (cases rule: parse_message_cases)
    case (handled ty h m b ok n pkt' s1 s2)
    let ?st = "st\<lparr>pktbuf := b\<rparr>"
    have i: "ead_inv ?st" using inv handled(5) by (simp add: inv_defs)
    have t: "at_turn (sint ty) ?st" using handled(3) by (simp add: at_turn_def)
    note e = handler_effect [OF i handled(2) t handled(6)]
    have s1: "ead_inv s1" "next_state (state s1) n" using handler_inv [OF i handled(2) t handled(6)] by auto
    have r: "replied s1 s2" using handled(7) clone_replied replied_refl by (cases ok) auto
    have s2: "ead_inv s2" "next_state (state s2) n" using s1 ran_inv [OF r] ran_session [OF r] by auto
    obtain es where es: "events s2 = events s1 @ es" "\<forall>x. Exec x \<notin> set es" using ran_events [OF r] by auto
    have "events st' = events s1 @ es" using set_state_events [OF handled(8)] es by simp
    moreover have "state st' = 10 \<longrightarrow> ts st' = ts s1 \<and> n = 10"
      using set_state_cmd [OF handled(8) s2] ran_session [OF r] by auto
    ultimately show ?thesis using e es(2) by (auto simp: proves_password_def)
  qed auto
qed auto

lemma steps_inv: "(ead_step conf)\<^sup>*\<^sup>* ead_start st \<Longrightarrow> ead_inv st"
  by (rule ead.inv_reachable) simp_all

text \<open>Whoever is in the state for commands has proved the password in the session at hand.\<close>

lemma cmd_state_proved:
  assumes "(ead_step conf)\<^sup>*\<^sup>* ead_start st" and "state st = 10"
  shows "\<exists>a b env hlen pkt s. (ead_step conf)\<^sup>*\<^sup>* ead_start a \<and> handle_packet conf env hlen pkt a = Some b
    \<and> proves_password conf pkt a s \<and> (ead_step conf)\<^sup>*\<^sup>* b st \<and> ts st = Some s"
  using assms
proof (induction rule: rtranclp_induct)
  case base
  then show ?case by (simp add: ead_start_def type_defs)
next
  case (step y z)
  then obtain env hlen pkt where h: "handle_packet conf env hlen pkt y = Some z" by (auto elim: ead_stepE)
  from packet_effect [OF steps_inv [OF step.hyps(1)] h] step.prems
  consider "state y = 10" "ts z = ts y" | s where "proves_password conf pkt y s" "ts z = Some s" by auto
  then show ?case
  proof cases
    case 1
    then show ?thesis using step.IH step.hyps(2) by (metis rtranclp.rtrancl_into_rtrancl)
  next
    case 2
    then show ?thesis using step.hyps(1) h by blast
  qed
qed

text \<open>C3. Only a client that proved the password runs commands. When a frame makes the daemon start a
  command, an earlier frame was a proof of the password that the server object of the present session
  accepted; the command is the text of an encrypted message under the key of that exchange.\<close>

theorem ead_exec_authenticated:
  assumes "(ead_step conf)\<^sup>*\<^sup>* ead_start st" and "handle_packet conf env hlen pkt st = Some st'"
    and "events st' = events st @ es" and "Exec cmd \<in> set es"
  shows "decrypts_to (crypt st) pkt cmd
    \<and> (\<exists>a b env' hlen' pkt' s. (ead_step conf)\<^sup>*\<^sup>* ead_start a \<and> handle_packet conf env' hlen' pkt' a = Some b
         \<and> proves_password conf pkt' a s \<and> (ead_step conf)\<^sup>*\<^sup>* b st \<and> ts st = Some s
         \<and> aes_dec_ctx (crypt st) = rijndaelKeySetupDec (ts_session_key s))"
proof -
  have inv: "ead_inv st" by (rule steps_inv [OF assms(1)])
  have e: "state st = 10" "decrypts_to (crypt st) pkt cmd"
    using packet_effect [OF inv assms(2)] assms(3,4) by auto
  from cmd_state_proved [OF assms(1) e(1)] obtain a b env' hlen' pkt' s where
    a: "(ead_step conf)\<^sup>*\<^sup>* ead_start a" "handle_packet conf env' hlen' pkt' a = Some b" "proves_password conf pkt' a s"
      "(ead_step conf)\<^sup>*\<^sup>* b st" "ts st = Some s" by blast
  then have "aes_dec_ctx (crypt st) = rijndaelKeySetupDec (ts_session_key s)"
    using inv e(1) by (simp add: inv_defs type_defs)
  then show ?thesis using e(2) a by blast
qed

text \<open>C4. The invariant of the daemon: in every state that frames can lead to, the buffers have their
  sizes, the state number matches the session (a server object on the built-in group exactly from
  \<open>GET_PRIME\<close> on, its public value in \<open>B\<close> from \<open>SEND_A\<close> on, the cipher keyed with its session key from
  \<open>SEND_AUTH\<close> on).\<close>

theorem ead_invariant: "(ead_step conf)\<^sup>*\<^sup>* ead_start st \<Longrightarrow> ead_inv st"
  by (rule ead.inv_reachable) simp_all

end
