(* ===== verification/Ead_Safe.thy ===== *)
theory Ead_Safe
  imports Ead_Laws
begin

text \<open>
  Memory safety of the daemon: on which frames no access leaves a buffer, no NULL is followed and
  every loop ends.
\<close>

section \<open>Answers\<close>

text \<open>A message is in \<open>pktbuf\<close> and fits it.\<close>

definition reply_ok :: "bytes \<Rightarrow> bool" where
  "reply_ok b \<longleftrightarrow> length b = PCAP_MRU \<and> (\<exists>mlen. get32 b 46 = Some mlen \<and> 62 + unat mlen \<le> PCAP_MRU)"

lemma get32_poke: "poke b i (be32 w) = Some c \<Longrightarrow> get32 c i = Some w"
  using peek_poke_same [of b i "be32 w" c] by (simp add: get32_def)

lemma get32_poke_after: "poke b j xs = Some c \<Longrightarrow> i + 4 \<le> j \<Longrightarrow> get32 c i = get32 b i"
  by (simp add: get32_def peek_poke_before)

lemma get32_poke_before: "poke b j xs = Some c \<Longrightarrow> j + length xs \<le> i \<Longrightarrow> get32 c i = get32 b i"
  by (simp add: get32_def peek_poke_after)

lemma poke_ex: "i + length xs \<le> length b \<Longrightarrow> \<exists>c. poke b i xs = Some c \<and> length c = length b"
  using poke_defined length_poke by blast

lemma clone_defined:
  assumes "length (c_ethmac conf) = 6" and "62 \<le> length pkt" and "reply_ok (pktbuf st)"
  shows "\<exists>st'. ead_send_packet_clone conf pkt st = Some st'"
proof -
  define p1 p2 p3 p4 p5 p6 p7 p8 where defs1: "p1 = take 6 (drop 0 pkt)" "p2 = take 6 (drop 6 pkt)" "p3 = take 4 (drop 12 pkt)"
    "p4 = take 2 (drop 16 pkt)" "p5 = take 6 (drop 18 pkt)" "p6 = take 2 (drop 24 pkt)" "p7 = take 4 (drop 26 pkt)"
    "p8 = take 4 (drop 30 pkt)"
  define p9 p10 p11 p12 m1 p13 r where defs2: "p9 = take 2 (drop 34 pkt)" "p10 = take 2 (drop 36 pkt)"
    "p11 = take 2 (drop 38 pkt)" "p12 = take 2 (drop 40 pkt)" "m1 = take 16 (drop 42 pkt)" "p13 = take 4 (drop 58 pkt)"
    "r = drop 62 pkt"
  note pkt = frame_split [of pkt, folded defs1 defs2]
  have l: "length p1 = 6" "length p2 = 6" "length p3 = 4" "length p4 = 2" "length p5 = 6" "length p6 = 2" "length p7 = 4"
    "length p8 = 4" "length p9 = 2" "length p10 = 2" "length p11 = 2" "length p12 = 2" "length m1 = 16" "length p13 = 4"
    using assms(2) by (simp_all add: defs1 defs2)
  obtain mlen where m: "get32 (pktbuf st) 46 = Some mlen" "62 + unat mlen \<le> length (pktbuf st)" "length (pktbuf st) \<le> 1600"
    using assms(3) by (auto simp: reply_ok_def PCAP_MRU_def)
  show ?thesis using clone_image [OF assms(1) m(1) m(2) m(3) pkt l] by blast
qed

lemma clone_reply_ok:
  assumes "ead_send_packet_clone conf pkt st = Some st'"
  shows "length (pktbuf st') = length (pktbuf st)"
  using clone_replied [OF assms] unfolding ran_def by (elim exE conjE) simp

lemma encrypt_defined:
  assumes "len + 88 \<le> length data" and "len < 2000"
  shows "\<exists>c mlen st'. ead_encrypt_message st data len = Some (c, mlen, st') \<and> length c = length data \<and> unat mlen \<le> len + 88"
proof -
  obtain iv st' where iv: "ead_get_tx_iv st = (iv, st')" by (meson surj_pair)
  define pad where "pad = (64 - (len + 25) mod 64) mod (64 :: nat)"
  obtain n where n: "len + 25 + pad = 64 * n" "64 * n \<le> len + 88" using pad_total [of len] unfolding pad_def by metis
  obtain c where c: "ead_encrypt_message st data len = Some (c, of_nat (64 * n), st')"
    using encrypt_image [OF assms(1) le_trans [OF n(2) assms(1)] pad_def [symmetric] n(1) iv] by blast
  have "64 * n < 4000" using n(2) assms(2) by linarith
  then have "unat (of_nat (64 * n) :: u32) = 64 * n" by (intro unat_of_nat_u32) simp
  then show ?thesis using c encrypt_state(1) [OF c] n(2) by (auto simp del: of_nat_mult)
qed

lemma encrypt_reply_defined:
  assumes "length (pktbuf st) = PCAP_MRU" and "n \<le> 1025"
  shows "\<exists>st'. encrypt_reply n st = Some st' \<and> reply_ok (pktbuf st')"
proof -
  obtain c mlen cr where e: "ead_encrypt_message (crypt st) (drop DATA (pktbuf st)) n = Some (c, mlen, cr)"
    "length c = length (drop DATA (pktbuf st))" "unat mlen \<le> n + 88"
    using encrypt_defined [of n "drop DATA (pktbuf st)" "crypt st"] assms by (auto simp: layout_defs PCAP_MRU_def)
  let ?b = "take DATA (pktbuf st) @ c"
  have l: "length ?b = PCAP_MRU" using assms(1) e(2) by (simp add: layout_defs PCAP_MRU_def)
  then obtain b where b: "poke ?b 46 (be32 mlen) = Some b" "length b = PCAP_MRU"
    using poke_ex [of 46 "be32 mlen" ?b] by (auto simp: PCAP_MRU_def)
  have "reply_ok b" using b get32_poke [OF b(1)] e(3) assms(2) by (simp add: reply_ok_def PCAP_MRU_def)
  then show ?thesis using e(1) b(1) by (simp add: encrypt_reply_def)
qed

lemma stream_loop_defined:
  assumes "length (c_ethmac conf) = 6" and "62 \<le> length pkt" and "length (pktbuf st) = PCAP_MRU"
  shows "\<exists>st'. stream_loop conf pkt timeout rs st = Some st'"
  using assms(3)
proof (induction rs arbitrary: st)
  case Nil
  then show ?case using poke_defined [of ENC_DATA "[0]" "pktbuf st"] by (auto simp: layout_defs PCAP_MRU_def)
next
  case (Cons r rs)
  obtain b1 where b1: "poke (pktbuf st) ENC_DATA [0] = Some b1" "length b1 = PCAP_MRU"
    using poke_ex [of ENC_DATA "[0]" "pktbuf st"] Cons.prems by (auto simp: layout_defs PCAP_MRU_def)
  obtain b where b: "poke b1 (ENC_DATA + 1) (take 1024 (r_out r)) = Some b" "length b = PCAP_MRU"
  proof -
    have "length (take 1024 (r_out r)) \<le> 1024" by simp
    then have "ENC_DATA + 1 + length (take 1024 (r_out r)) \<le> length b1" unfolding b1(2) layout_defs PCAP_MRU_def by linarith
    then show ?thesis using poke_ex b1(2) that by metis
  qed
  obtain s1 where s1: "encrypt_reply (SIZE_cmd_data + length (take 1024 (r_out r))) (st\<lparr>pktbuf := b\<rparr>) = Some s1" "reply_ok (pktbuf s1)"
    using encrypt_reply_defined [of "st\<lparr>pktbuf := b\<rparr>" "SIZE_cmd_data + length (take 1024 (r_out r))"] b(2)
    by (auto simp: SIZE_cmd_data_def)
  obtain s2 where s2: "ead_send_packet_clone conf pkt s1 = Some s2" using clone_defined [OF assms(1,2) s1(2)] by blast
  have "length (pktbuf s2) = PCAP_MRU" using clone_reply_ok [OF s2] s1(2) by (simp add: reply_ok_def)
  then obtain s3 where "stream_loop conf pkt timeout rs s2 = Some s3" using Cons.IH by blast
  then show ?case using b1(1) b(1) s1(1) s2 by (simp add: Let_def)
qed

lemma cmd_done_defined:
  assumes "length (pktbuf st) = PCAP_MRU"
  shows "\<exists>ok n st'. cmd_done pkt st = Some (ok, n, pkt, st') \<and> reply_ok (pktbuf st')"
proof -
  obtain b where b: "poke (pktbuf st) ENC_DATA [1] = Some b" "length b = PCAP_MRU"
    using poke_ex [of ENC_DATA "[1]" "pktbuf st"] assms by (auto simp: layout_defs PCAP_MRU_def)
  then show ?thesis
    using encrypt_reply_defined [of "st\<lparr>pktbuf := b\<rparr>" SIZE_cmd_data] by (auto simp: cmd_done_def SIZE_cmd_data_def)
qed

section \<open>Handlers\<close>

lemma get32_ex: "i + 4 \<le> length b \<Longrightarrow> \<exists>w. get32 b i = Some w"
  by (simp add: get32_def peek_def)

lemma get16_ex: "i + 2 \<le> length b \<Longrightarrow> \<exists>w. get16 b i = Some w"
  by (simp add: get16_def peek_def)

lemma decrypt_defined:
  assumes "0 < sint mlen" and "nat (sint mlen) \<le> length data"
  shows "\<exists>n data' st'. ead_decrypt_message st data mlen = Some (n, data', st')"
proof (cases "sint mlen mod 64 = 0")
  case False
  then have "0 < sint mlen mod 64" using pos_mod_sign [of 64 "sint mlen"] by linarith
  then show ?thesis using assms(1) by (simp add: ead_decrypt_message_def EAD_ENC_PAD_def Let_def)
next
  case True
  then obtain k where k: "sint mlen = 64 * k" by (auto simp: mod_eq_0_iff_dvd elim: dvdE)
  define n where "n = nat k"
  have n: "nat (sint mlen) = 64 * n" "0 < n" using k assms(1) by (simp_all add: n_def nat_mult_distrib)
  have le: "0 + 16 * (4 * n) \<le> length data" using assms(2) n(1) by simp
  obtain d where d: "crypt_loop (rijndaelDecrypt (aes_dec_ctx st)) data 0 (64 * n) = Some d" "length d = length data"
    using crypt_loop_blocks [OF _ le, of "rijndaelDecrypt (aes_dec_ctx st)"] crypt_loop_length by fastforce
  have ld: "64 * n \<le> length d" "64 \<le> length d" using le n(2) d(2) by linarith+
  have "\<exists>r. check_message st d (sint mlen) = Some r"
  proof -
    obtain pad where pad: "idx d 24 = Some pad" using ld(2) by (simp add: idx_def)
    obtain ivb old where iv: "peek d 20 4 = Some ivb" "peek d 0 20 = Some old" using ld(2) by (simp add: peek_def)
    obtain d2 where d2: "poke d 0 (replicate 20 0) = Some d2" "length d2 = length d"
      using poke_ex [of 0 "replicate 20 0" d] ld(2) by auto
    have "0 + 64 * n \<le> length d2" using d2(2) ld(1) by simp
    then obtain h where "hash_loop sha_init d2 0 (64 * n) = Some h" using hash_loop_defined by blast
    then have "ead_hash_message d (sint mlen) = Some (h, d2)" using d2(1) n(1) by (simp add: ead_hash_message_def)
    then show ?thesis using pad iv
      by (cases "ead_check_rx_iv (of_be32 ivb) st") (simp add: check_message_def)
  qed
  then show ?thesis using d(1) n(1) assms(1) by (auto simp: ead_decrypt_message_def Let_def)
qed

lemma cstr_at_defined: "poke b (i + k) [0] = Some b' \<Longrightarrow> \<exists>c. cstr_at b' i = Some c"
proof -
  assume p: "poke b (i + k) [0] = Some b'"
  then have "drop i b' = take k (drop i b) @ 0 # drop (i + k + 1) b" by (auto simp: poke_Some_iff drop_take)
  then have "length (cstr (drop i b')) = length (cstr (take k (drop i b)))" by (simp only: cstr_append_nul')
  also have "\<dots> \<le> length (take k (drop i b))" unfolding cstr_def by (rule length_takeWhile_le)
  also have "\<dots> \<le> k" by simp
  finally show ?thesis using length_poke [OF p] p by (auto simp: cstr_at_def Let_def poke_Some_iff)
qed

lemma run_cmd_defined:
  assumes "length (c_ethmac conf) = 6" and "62 \<le> length pkt" and "length (pktbuf st) = PCAP_MRU"
    and "\<exists>c. cstr_at pkt (ENC_DATA + 3) = Some c"
  shows "\<exists>ok n st'. run_cmd conf env ty timeout pkt st = Some (ok, n, pkt, st') \<and> (ok \<longrightarrow> reply_ok (pktbuf st'))"
proof -
  obtain c where c: "cstr_at pkt (ENC_DATA + 3) = Some c" using assms(4) by blast
  let ?s = "st\<lparr>child_pending := True, events := events st @ [Exec c]\<rparr>"
  obtain s where s: "stream_loop conf pkt (if timeout = 0 then EAD_CMD_TIMEOUT else timeout) (e_rounds env) ?s = Some s"
    using stream_loop_defined [OF assms(1,2), of ?s] assms(3) by auto
  have ls: "length (pktbuf s) = PCAP_MRU"
    using stream_loop_replied [OF s] assms(3) unfolding ran_def by (elim exE conjE) simp
  obtain ok n s' where d: "cmd_done pkt s = Some (ok, n, pkt, s')" "reply_ok (pktbuf s')" using cmd_done_defined [OF ls] by blast
  obtain ok2 n2 s2 where d2: "cmd_done pkt (st\<lparr>events := events st @ [Exec c]\<rparr>) = Some (ok2, n2, pkt, s2)" "reply_ok (pktbuf s2)"
    using cmd_done_defined [of "st\<lparr>events := events st @ [Exec c]\<rparr>" pkt] assms(3) by auto
  show ?thesis
  proof (cases "ty = 0")
    case True
    then show ?thesis using c s d by (cases "e_pipe env"; cases "e_fork env"; cases "child_pending s") (auto simp: run_cmd_def Let_def)
  next
    case False
    then show ?thesis using c d2 by (cases "e_fork env"; cases "ty = 1") (auto simp: run_cmd_def)
  qed
qed

lemma handle_send_cmd_defined:
  assumes "length (c_ethmac conf) = 6" and "length (pktbuf st) = PCAP_MRU" and "get32 pkt 46 = Some m"
    and "0 < unat m" and "unat m < 2 ^ 31" and "62 + unat m < length pkt"
  shows "\<exists>ok n pkt' st'. handle_send_cmd conf env pkt st = Some (ok, n, pkt', st') \<and> (ok \<longrightarrow> reply_ok (pktbuf st'))"
proof -
  have sm: "sint m = int (unat m)" by (rule sint_small [OF assms(5)])
  have "0 < sint m" unfolding sm using assms(4) by (simp only: of_nat_0_less_iff)
  moreover have "nat (sint m) \<le> length (drop DATA pkt)" unfolding sm nat_int using assms(6) by (simp add: layout_defs)
  ultimately obtain n data c where d: "ead_decrypt_message (crypt st) (drop DATA pkt) m = Some (n, data, c)"
    using decrypt_defined by blast
  let ?p = "take DATA pkt @ data"
  have l: "length ?p = length pkt" using decrypt_length [OF d] by simp
  show ?thesis
  proof (cases "int_minus n SIZE_cmd \<le> 0")
    case True
    then have "handle_send_cmd conf env pkt st = Some (False, state st, ?p, st\<lparr>crypt := c\<rparr>)"
      using assms(3) d by (simp add: handle_send_cmd_def)
    then show ?thesis by blast
  next
    case False
    have "n \<noteq> 0"
    proof
      assume "n = 0"
      then have "int_minus n SIZE_cmd = - 3" by (simp add: int_minus_wrap SIZE_cmd_def)
      with False show False by simp
    qed
    then obtain pad where pad: "0 \<le> pad" "pad < 64" "n + 25 + pad = sint m"
      using decrypt_payload [OF d] \<open>0 < sint m\<close> by auto
    have m31: "sint m < 2 ^ 31" using sint_lt [of m] by simp
    have "int_minus n SIZE_cmd = n - 3"
      unfolding SIZE_cmd_def using pad m31 \<open>0 < sint m\<close> by (subst int_minus_small) simp_all
    then have n: "3 < n" "int_minus n SIZE_cmd = n - int SIZE_cmd" using False by (simp_all add: SIZE_cmd_def)
    then have nm: "nat n + 25 \<le> unat m" using pad sm by linarith
    then have long: "ENC_DATA + 3 + nat (int_minus n SIZE_cmd) + 1 \<le> length ?p" "92 \<le> length pkt"
      using assms(6) l n by (simp_all add: layout_defs)
    obtain p2 where p2: "poke ?p (ENC_DATA + 3 + nat (int_minus n SIZE_cmd)) [0] = Some p2" "length p2 = length ?p"
      using poke_ex [of "ENC_DATA + 3 + nat (int_minus n SIZE_cmd)" "[0]" ?p] long by auto
    obtain ty to where t: "idx ?p ENC_DATA = Some ty" "get16 ?p (ENC_DATA + 1) = Some to"
      using get16_ex [of "ENC_DATA + 1" ?p] long l by (auto simp: idx_def layout_defs)
    obtain ok n' st' where "run_cmd conf env (cmd_type conf ty) (unat to) p2 (st\<lparr>crypt := c\<rparr>) = Some (ok, n', p2, st')" "ok \<longrightarrow> reply_ok (pktbuf st')"
      using run_cmd_defined [OF assms(1), of p2 "st\<lparr>crypt := c\<rparr>"] cstr_at_defined [OF p2(1)] p2(2) l long(2) assms(2)
      by fastforce
    then show ?thesis using assms(3) d False t p2(1) by (simp add: handle_send_cmd_def Let_def)
  qed
qed

text \<open>What a lookup in the password file takes to be defined: the password buffer can be written, and
  \<open>memcmp\<close> finds a difference within the 20 bytes of \<open>dig\<close>.\<close>

definition lookup_ok :: "ead_conf \<Rightarrow> ead_env \<Rightarrow> ead \<Rightarrow> bool" where
  "lookup_ok conf env st \<longleftrightarrow> c_rw conf \<and> memcmp (saltbuf st) (take SHA_DIGESTSIZE (e_dig env)) MAXSALTLEN = Some False"

lemma lookup_ok_saltbuf: "saltbuf s = saltbuf st \<Longrightarrow> lookup_ok conf env s = lookup_ok conf env st"
  by (simp add: lookup_ok_def)

lemma set_state_defined:
  assumes inv: "ead_inv st" and n: "next_state (state st) n"
    and dig: "state st = 2 \<Longrightarrow> n = 4 \<Longrightarrow> lookup_ok conf env st"
  shows "\<exists>st'. set_state conf env n st = Some st'"
proof -
  have m: "state st \<in> {2, 4, 6, 8, 10}" using inv by (simp add: inv_defs type_defs)
  consider "state st = n" | "n = 2" "2 < state st" | "state st = 2" "n = 4" | "state st = 4" "n = 6" | "state st = 6" "n = 8"
    | "state st = 8" "n = 10"
    using n m unfolding next_state_def type_defs by auto
  then show ?thesis
  proof cases
    case 3
    obtain t where t: "gettcid tpe_index = Some t" using gettcid_1 by blast
    have h: "\<exists>s. hash_password conf env (st\<lparr>pw_saltbuf := salt, password := p\<rparr>) = Some s \<and> tce s = Some t" for salt p
      using dig [OF 3] t by (simp add: hash_password_def Let_def lookup_ok_def)
    have rw: "c_rw conf" using dig [OF 3] by (simp add: lookup_ok_def)
    have p: "\<exists>ok s. prepare_password conf env st = Some (ok, s) \<and> (ok \<longrightarrow> tce s = Some t)"
    proof (cases "e_passwd env")
      case (Some f)
      obtain q salt where q: "passwd_loop (username st) (pw_saltbuf st) f = (q, salt)" by (meson surj_pair)
      show ?thesis
      proof (cases q)
        case p: (Some p)
        then show ?thesis using h [of p salt] Some q rw by (auto simp: prepare_password_def)
      qed (use Some q in \<open>auto simp: prepare_password_def\<close>)
    qed (auto simp: prepare_password_def)
    then show ?thesis using 3 by (auto simp: set_state_def type_defs Let_def)
  next
    case 4
    then show ?thesis using inv by (auto simp: set_state_def inv_defs type_defs Let_def)
  next
    case 5
    then obtain s where s: "ts st = Some s" using inv by (auto simp: inv_defs type_defs)
    obtain s' k where "t_servergetkey (c_host conf) (e_raw env) (A st) s = (s', k)" by (meson surj_pair)
    then show ?thesis using 5 s by (cases k) (simp_all add: set_state_def type_defs)
  qed (auto simp: set_state_def type_defs)
qed

lemma send_a_defined:
  assumes "ead_inv st" and "state st = 6" and "get32 pkt 46 = Some m" and "0 < unat m" and "unat m < 2 ^ 31"
    and "62 + unat m < length pkt"
  shows "\<exists>ok n st'. handle_send_a pkt st = Some (ok, n, pkt, st') \<and> (ok \<longrightarrow> reply_ok (pktbuf st'))"
proof -
  have u: "unat (m - of_nat SIZE_number) = unat m - 1"
    using assms(4) by (simp add: SIZE_number_def unat_minus_one word_neq_0_conv [symmetric] unat_eq_0 [symmetric])
  then have sm: "sint (m - of_nat SIZE_number) = int (unat m - 1)"
    using sint_small [of "m - of_nat SIZE_number"] assms(5) by simp
  obtain bn where bn: "B st = Some bn" "length bn \<le> MAXPARAMLEN"
    using assms(1,2) by (auto simp: inv_defs type_defs)
  show ?thesis
  proof (cases "sint (m - of_nat SIZE_number) > int MAXPARAMLEN + 1")
    case True
    then have "handle_send_a pkt st = Some (False, state st, pkt, st)" using assms(3) by (simp add: handle_send_a_def)
    then show ?thesis by blast
  next
    case False
    obtain a where a: "peek pkt (DATA + 1) (unat m - 1) = Some a" using assms(4,6) by (auto simp: peek_def layout_defs)
    have lp: "length (pktbuf st) = 1600" using assms(1) by (simp add: inv_defs PCAP_MRU_def)
    obtain b1 where b1: "poke (pktbuf st) 46 (be32 (of_nat (SIZE_number + length bn))) = Some b1" "length b1 = 1600"
      using poke_ex [of 46 "be32 (of_nat (SIZE_number + length bn))" "pktbuf st"] lp by auto
    obtain b2 where b2: "poke b1 (DATA + 1) bn = Some b2" "length b2 = 1600"
      using poke_ex [of "DATA + 1" bn b1] b1(2) bn(2) by (auto simp: layout_defs)
    have "get32 b2 46 = Some (of_nat (SIZE_number + length bn))"
      using get32_poke [OF b1(1)] get32_poke_after [OF b2(1), of 46] by (simp add: layout_defs)
    moreover have "unat (of_nat (SIZE_number + length bn) :: u32) = SIZE_number + length bn"
      using bn(2) by (intro unat_of_nat_u32) (simp add: layout_defs)
    ultimately have "reply_ok b2" using b2(2) bn(2) by (simp add: reply_ok_def PCAP_MRU_def layout_defs)
    moreover have "handle_send_a pkt st = Some (True, EAD_TYPE_SEND_AUTH, pkt, st\<lparr>A := a, pktbuf := b2\<rparr>)"
      using assms(3) sm False a bn(1) b1(1) b2(1) by (simp add: handle_send_a_def Let_def)
    ultimately show ?thesis by auto
  qed
qed

lemma ping_defined:
  assumes "length (pktbuf st) = PCAP_MRU"
  shows "\<exists>ok n st'. handle_ping conf pkt st = Some (ok, n, pkt, st') \<and> (ok \<longrightarrow> reply_ok (pktbuf st'))"
proof -
  define slen where "slen = (if length (c_dev_name conf) > 1024 then 1024 else length (c_dev_name conf))"
  have sl: "slen \<le> 1024" by (simp add: slen_def)
  have l: "length (pktbuf st) = 1600" using assms by (simp add: PCAP_MRU_def)
  obtain b1 where b1: "poke (pktbuf st) 46 (be32 (of_nat (SIZE_pong + slen))) = Some b1" "length b1 = 1600"
    using poke_ex [of 46 "be32 (of_nat (SIZE_pong + slen))" "pktbuf st"] l by auto
  have "length (take slen (c_dev_name conf)) \<le> 1024" using sl by simp
  then have "DATA + 2 + length (take slen (c_dev_name conf)) \<le> length b1" unfolding b1(2) layout_defs by linarith
  then obtain b2 where b2: "poke b1 (DATA + 2) (take slen (c_dev_name conf)) = Some b2" "length b2 = 1600"
    using poke_ex b1(2) by metis
  obtain b3 where b3: "poke b2 (DATA + 2 + slen) [0] = Some b3" "length b3 = 1600"
    using poke_ex [of "DATA + 2 + slen" "[0]" b2] b2(2) sl by (auto simp: layout_defs)
  obtain b4 where b4: "poke b3 DATA (be16 1) = Some b4" "length b4 = 1600"
    using poke_ex [of DATA "be16 1" b3] b3(2) by (auto simp: layout_defs)
  have "get32 b4 46 = Some (of_nat (SIZE_pong + slen))"
    using get32_poke [OF b1(1)] get32_poke_after [OF b2(1), of 46] get32_poke_after [OF b3(1), of 46]
      get32_poke_after [OF b4(1), of 46] by (simp add: layout_defs)
  moreover have "unat (of_nat (SIZE_pong + slen) :: u32) = SIZE_pong + slen"
    using sl by (intro unat_of_nat_u32) (simp add: layout_defs)
  ultimately have "reply_ok b4" using b4(2) sl by (simp add: reply_ok_def PCAP_MRU_def layout_defs)
  moreover have "handle_ping conf pkt st = Some (True, state st, pkt, st\<lparr>pktbuf := b4\<rparr>)"
    using b1(1) b2(1) b3(1) b4(1) unfolding handle_ping_def slen_def Let_def by simp
  ultimately show ?thesis by auto
qed

lemma set_username_defined:
  assumes "ead_inv st" and "94 \<le> length pkt"
  shows "\<exists>ok n st'. handle_set_username conf env pkt st = Some (ok, n, pkt, st') \<and> (ok \<longrightarrow> reply_ok (pktbuf st'))"
proof -
  obtain s where s: "set_state conf env EAD_TYPE_SET_USERNAME st = Some s"
    using set_state_defined [OF assms(1), of EAD_TYPE_SET_USERNAME conf env] by (auto simp: next_state_def type_defs)
  have "ead_inv s" by (rule set_username_clears(1) [OF s assms(1)])
  then have l: "length (pktbuf s) = 1600" by (simp add: inv_defs PCAP_MRU_def)
  obtain b where b: "poke (pktbuf st) 46 (be32 0) = Some b" "length b = 1600"
    using poke_ex [of 46 "be32 0" "pktbuf st"] set_state_events [OF s] l by auto
  obtain u where u: "peek pkt DATA SIZE_user = Some u" using assms(2) by (simp add: peek_def layout_defs)
  have "reply_ok b" using b get32_poke [OF b(1)] by (simp add: reply_ok_def PCAP_MRU_def)
  moreover have "handle_set_username conf env pkt st = Some (True, EAD_TYPE_GET_PRIME, pkt, s\<lparr>username := cstr (take 31 u), pktbuf := b\<rparr>)"
    using s u b(1) set_state_events [OF s] by (simp add: handle_set_username_def)
  ultimately show ?thesis by auto
qed

lemma get_prime_defined:
  assumes "ead_inv st" and "state st = 4"
  shows "\<exists>ok n st'. handle_get_prime pkt st = Some (ok, n, pkt, st') \<and> (ok \<longrightarrow> reply_ok (pktbuf st'))"
proof -
  obtain s t where s: "ts st = Some s" "ts_s s = []" "tce st = Some t"
    using assms gettcid_1 by (auto simp: inv_defs type_defs)
  have l: "length (pktbuf st) = 1600" "length (pw_saltbuf st) = 32" using assms(1) by (simp_all add: inv_defs PCAP_MRU_def MAXSALTLEN_def)
  obtain b1 where b1: "poke (pktbuf st) 46 (be32 (of_nat SIZE_salt)) = Some b1" "length b1 = 1600"
    using poke_ex [of 46 "be32 (of_nat SIZE_salt)" "pktbuf st"] l by auto
  obtain b2 where b2: "poke b1 DATA [of_int (tpe_index - 1)] = Some b2" "length b2 = 1600"
    using poke_ex [of DATA "[of_int (tpe_index - 1)]" b1] b1(2) by (auto simp: layout_defs)
  obtain b3 where b3: "poke b2 (DATA + 1) [of_nat (length (ts_s s))] = Some b3" "length b3 = 1600"
    using poke_ex [of "DATA + 1" "[of_nat (length (ts_s s))]" b2] b2(2) by (auto simp: layout_defs)
  obtain b4 where b4: "poke b3 (DATA + 2) (ts_s s) = Some b4" "length b4 = 1600"
    using poke_ex [of "DATA + 2" "ts_s s" b3] b3(2) s(2) by (auto simp: layout_defs)
  obtain b5 where b5: "poke b4 (DATA + 2 + MAXSALTLEN) (pw_saltbuf st) = Some b5" "length b5 = 1600"
    using poke_ex [of "DATA + 2 + MAXSALTLEN" "pw_saltbuf st" b4] b4(2) l(2) by (auto simp: layout_defs)
  have "get32 b5 46 = Some (of_nat SIZE_salt)"
    using get32_poke [OF b1(1)] get32_poke_after [OF b2(1), of 46] get32_poke_after [OF b3(1), of 46]
      get32_poke_after [OF b4(1), of 46] get32_poke_after [OF b5(1), of 46] by (simp add: layout_defs)
  then have "reply_ok b5" using b5(2) by (simp add: reply_ok_def PCAP_MRU_def SIZE_salt_def)
  moreover have "handle_get_prime pkt st = Some (True, EAD_TYPE_SEND_A, pkt, st\<lparr>pktbuf := b5\<rparr>)"
    using s b1(1) b2(1) b3(1) b4(1) b5(1) by (simp add: handle_get_prime_def)
  ultimately show ?thesis by auto
qed

lemma send_auth_defined:
  assumes "ead_inv st" and "state st = 8" and "82 \<le> length pkt"
  shows "\<exists>ok n st'. handle_send_auth conf pkt st = Some (ok, n, pkt, st') \<and> (ok \<longrightarrow> reply_ok (pktbuf st'))"
proof -
  obtain s where s: "ts st = Some s" using assms(1,2) by (auto simp: inv_defs type_defs)
  obtain auth where a: "peek pkt DATA SIZE_auth = Some auth" using assms(3) by (simp add: peek_def layout_defs)
  obtain s' good where v: "t_serververify (c_host conf) auth s = (s', good)" by (meson surj_pair)
  have l: "length (pktbuf st) = 1600" using assms(1) by (simp add: inv_defs PCAP_MRU_def)
  show ?thesis
  proof (cases good)
    case False
    then show ?thesis using s a v by (auto simp: handle_send_auth_def)
  next
    case True
    obtain b1 where b1: "poke (pktbuf st) 46 (be32 (of_nat SIZE_auth)) = Some b1" "length b1 = 1600"
      using poke_ex [of 46 "be32 (of_nat SIZE_auth)" "pktbuf st"] l by auto
    have "length (take SIZE_auth (t_serverresponse s')) \<le> 20" by (simp add: SIZE_auth_def)
    then have "DATA + length (take SIZE_auth (t_serverresponse s')) \<le> length b1" unfolding b1(2) layout_defs by linarith
    then obtain b2 where b2: "poke b1 DATA (take SIZE_auth (t_serverresponse s')) = Some b2" "length b2 = 1600"
      using poke_ex b1(2) by metis
    have "get32 b2 46 = Some (of_nat SIZE_auth)"
      using get32_poke [OF b1(1)] get32_poke_after [OF b2(1), of 46] by (simp add: layout_defs)
    then have "reply_ok b2" using b2(2) by (simp add: reply_ok_def PCAP_MRU_def SIZE_auth_def)
    then show ?thesis using s a v True b1(1) b2(1) by (auto simp: handle_send_auth_def)
  qed
qed

section \<open>Frames\<close>

lemma ran_saltbuf: "ran cmd st st' \<Longrightarrow> saltbuf st' = saltbuf st"
  unfolding ran_def by (elim exE conjE) simp

lemma set_username_saltbuf:
  "ead_inv st \<Longrightarrow> set_state conf env EAD_TYPE_SET_USERNAME st = Some s \<Longrightarrow> saltbuf s = saltbuf st"
  by (auto simp: set_state_def inv_defs type_defs split: if_splits)

lemma handler_saltbuf:
  assumes inv: "ead_inv st" and sel: "select_handler conf env ty = Some (h, m)" "at_turn ty st"
    and run: "h pkt st = Some (ok, n, pkt', st')"
  shows "saltbuf st' = saltbuf st" and "length pkt' = length pkt"
proof -
  have "saltbuf st' = saltbuf st \<and> length pkt' = length pkt"
    using sel
  proof (cases rule: select_handler_cases)
    case 1
    then show ?thesis using handle_ping_ran run ran_saltbuf by blast
  next
    case 2
    obtain s u b where s: "set_state conf env EAD_TYPE_SET_USERNAME st = Some s" "st' = s\<lparr>username := cstr (take 31 u), pktbuf := b\<rparr>"
        "pkt' = pkt"
      using handle_set_username_state run 2 by metis
    then show ?thesis using set_username_saltbuf [OF inv s(1)] by simp
  next
    case 3
    then show ?thesis using handle_get_prime_ran run ran_saltbuf by blast
  next
    case 4
    then obtain a b where "st' = st\<lparr>A := a, pktbuf := b\<rparr>" "pkt' = pkt" using handle_send_a_state run by blast
    then show ?thesis by simp
  next
    case 5
    obtain s' b where "st' = st\<lparr>ts := Some s', pktbuf := b\<rparr>" "pkt' = pkt"
      using handle_send_auth_state run 5(1) by metis
    then show ?thesis by simp
  next
    case 6
    then show ?thesis using handle_send_cmd_ran run ran_saltbuf by blast
  qed
  then show "saltbuf st' = saltbuf st" and "length pkt' = length pkt" by simp_all
qed

text \<open>The handlers with the smallest frame each accepts.\<close>

lemma select_handler_sizes:
  assumes "select_handler conf env ty = Some (h, m)" and "at_turn ty st"
  obtains "h = handle_ping conf" | "h = handle_set_username conf env" "m = 94" "ty = 2" | "h = handle_get_prime" "state st = 4"
    | "h = handle_send_a" "state st = 6" | "h = handle_send_auth conf" "state st = 8" "m = 82"
    | "h = handle_send_cmd conf env" "state st = 10"
proof -
  from assms(1) have "(ty = 0 \<and> h = handle_ping conf) \<or> (ty = 2 \<and> h = handle_set_username conf env \<and> m = 94) \<or> (ty = 4 \<and> h = handle_get_prime)
      \<or> (ty = 6 \<and> h = handle_send_a) \<or> (ty = 8 \<and> h = handle_send_auth conf \<and> m = 82) \<or> (ty = 10 \<and> h = handle_send_cmd conf env)"
    unfolding select_handler_def type_defs layout_defs by (simp split: if_split_asm)
  moreover have "state st = nat ty" if "ty \<ge> 4" using assms(2) that by (simp add: at_turn_def type_defs)
  ultimately show ?thesis using that by (elim disjE conjE) simp_all
qed

lemma handler_defined:
  assumes inv: "ead_inv st" and sel: "select_handler conf env ty = Some (h, m)" and turn: "at_turn ty st"
    and mac: "length (c_ethmac conf) = 6"
    and ml: "get32 pkt 46 = Some ml" "0 < unat ml" "unat ml < 2 ^ 31" "62 + unat ml < length pkt" and m: "m < length pkt"
  shows "\<exists>ok n pkt' st'. h pkt st = Some (ok, n, pkt', st') \<and> (ok \<longrightarrow> reply_ok (pktbuf st'))"
  using sel turn
proof (cases rule: select_handler_sizes)
  case 1
  then show ?thesis using ping_defined [of st conf pkt] inv by (auto simp: inv_defs)
next
  case 2
  then show ?thesis using set_username_defined [OF inv, of pkt conf env] m by auto
next
  case 3
  then show ?thesis using get_prime_defined [OF inv, of pkt] by auto
next
  case 4
  then show ?thesis using send_a_defined [OF inv _ ml] by auto
next
  case 5
  then show ?thesis using send_auth_defined [OF inv, of pkt conf] m by auto
next
  case 6
  have "length (pktbuf st) = PCAP_MRU" using inv by (simp add: inv_defs)
  then show ?thesis using handle_send_cmd_defined [OF mac _ ml, of st env] 6 by auto
qed

text \<open>Only \<open>SET_USERNAME\<close> leads to a lookup.\<close>

lemma handler_looks_up:
  assumes sel: "select_handler conf env ty = Some (h, m)" and turn: "at_turn ty st"
    and run: "h pkt st = Some (ok, n, pkt', st')" and n: "n = 4" and st': "state st' = 2"
  shows "ty = 2"
  using sel turn
proof (cases rule: select_handler_sizes)
  case 1
  then have "state st' = state st" "n = state st" using handle_ping_ran run ran_session by fastforce+
  then show ?thesis using n st' by simp
next
  case 3
  then show ?thesis using handle_get_prime_ran run n by (fastforce simp: type_defs)
next
  case 4
  then show ?thesis using handle_send_a_state [of pkt st ok n pkt' st'] run n by (auto simp: type_defs)
next
  case 5
  obtain good :: bool where "n = (if good then EAD_TYPE_SEND_CMD else EAD_TYPE_SET_USERNAME)"
    using handle_send_auth_state run 5(1) by metis
  then show ?thesis using n by (cases good) (simp_all add: type_defs)
next
  case 6
  then show ?thesis using handle_send_cmd_ran [of conf env pkt st ok n pkt' st'] run n by auto
qed simp

lemma reply_header_defined:
  assumes "length b = PCAP_MRU" and "length sid = 2"
  shows "\<exists>b'. reply_header conf ty sid b = Some b' \<and> length b' = PCAP_MRU"
proof -
  note l = assms(1) [unfolded PCAP_MRU_def]
  obtain b1 where b1: "poke b 42 (be32 EAD_MAGIC) = Some b1" "length b1 = 1600" using poke_ex [of 42 "be32 EAD_MAGIC" b] l by auto
  obtain b2 where b2: "poke b1 50 (be32 (ty + 1)) = Some b2" "length b2 = 1600" using poke_ex [of 50 "be32 (ty + 1)" b1] b1(2) by auto
  obtain b3 where b3: "poke b2 54 (be16 (c_nid conf)) = Some b3" "length b3 = 1600"
    using poke_ex [of 54 "be16 (c_nid conf)" b2] b2(2) by auto
  obtain b4 where b4: "poke b3 56 sid = Some b4" "length b4 = 1600" using poke_ex [of 56 sid b3] b3(2) assms(2) by auto
  obtain b5 where "poke b4 46 (be32 0) = Some b5" "length b5 = 1600" using poke_ex [of 46 "be32 0" b4] b4(2) by auto
  then show ?thesis using b1(1) b2(1) b3(1) b4(1) by (simp add: reply_header_def PCAP_MRU_def)
qed

lemma parse_message_defined:
  assumes inv: "ead_inv st" and mac: "length (c_ethmac conf) = 6"
    and dig: "get32 pkt 50 = Some 2 \<longrightarrow> lookup_ok conf env st"
    and ml: "get32 pkt 46 = Some ml" "0 < unat ml" "unat ml < 2 ^ 31" "62 + unat ml < length pkt" and len: "len < int (length pkt)"
  shows "\<exists>st'. parse_message conf env len pkt st = Some st'"
proof -
  obtain ty where ty: "get32 pkt 50 = Some ty" using get32_ex [of 50 pkt] ml(4) by auto
  obtain sid where sid: "get16 pkt 56 = Some sid" using get16_ex [of 56 pkt] ml(4) by auto
  show ?thesis
  proof (cases "\<not> at_turn (sint ty) st \<or> (sint ty \<noteq> int EAD_TYPE_PING \<and> unat (drop_bit 12 (sid AND 0xf000)) \<noteq> c_inst conf)
      \<or> select_handler conf env (sint ty) = None")
    case True
    then show ?thesis using ty sid by (auto simp: parse_message_def at_turn_def)
  next
    case False
    then obtain h m where h: "select_handler conf env (sint ty) = Some (h, m)" by auto
    show ?thesis
    proof (cases "len < int m")
      case True
      then show ?thesis using ty sid h False by (auto simp: parse_message_def at_turn_def)
    next
      case long: False
      have "length (pktbuf st) = PCAP_MRU" using inv by (simp add: inv_defs)
      then obtain b where b: "reply_header conf ty (be16 sid) (pktbuf st) = Some b" "length b = PCAP_MRU"
        using reply_header_defined [of "pktbuf st" "be16 sid" conf ty] by auto
      let ?st = "st\<lparr>pktbuf := b\<rparr>"
      have i: "ead_inv ?st" using inv b(2) by (simp add: inv_defs)
      have t: "at_turn (sint ty) ?st" using False by (simp add: at_turn_def)
      have m: "m < length pkt" using long len by linarith
      obtain ok n pkt' s1 where s1: "h pkt ?st = Some (ok, n, pkt', s1)" "ok \<longrightarrow> reply_ok (pktbuf s1)"
        using handler_defined [OF i h t mac ml m] by blast
      note same = handler_saltbuf [OF i h t s1(1)]
      have i1: "ead_inv s1" "next_state (state s1) n" using handler_inv [OF i h t s1(1)] by auto
      obtain s2 where s2: "(if ok then ead_send_packet_clone conf pkt' s1 else Some s1) = Some s2" "replied s1 s2"
      proof (cases ok)
        case True
        then obtain s2 where "ead_send_packet_clone conf pkt' s1 = Some s2"
          using clone_defined [OF mac, of pkt' s1] s1(2) same(2) ml(4) by auto
        then show ?thesis using True clone_replied that by simp
      next
        case False
        then show ?thesis using that replied_refl by simp
      qed
      have look: "lookup_ok conf env s2" if "state s2 = 2" "n = 4"
      proof -
        have "state s1 = 2" using that ran_session [OF s2(2)] by simp
        then have "sint ty = 2" using handler_looks_up [OF h t s1(1) that(2)] by blast
        then have "word_of_int (sint ty) = (word_of_int 2 :: u32)" by (rule arg_cong)
        then have "ty = 2" by simp
        then have "lookup_ok conf env st" using dig ty by simp
        then show ?thesis using ran_saltbuf [OF s2(2)] same(1) by (simp add: lookup_ok_def)
      qed
      have "\<exists>st'. set_state conf env n s2 = Some st'"
        by (rule set_state_defined) (use ran_inv [OF s2(2) i1(1)] ran_session [OF s2(2)] i1(2) look in auto)
      then show ?thesis using ty sid h False long b(1) s1(1) s2(1) by (auto simp: parse_message_def at_turn_def)
    qed
  qed
qed

lemma handle_packet_defined:
  assumes "ead_inv st" and "length (c_ethmac conf) = 6"
    and "get32 pkt 50 = Some 2 \<longrightarrow> lookup_ok conf env st"
    and "unat hlen < length pkt" and "unat hlen < 2 ^ 31"
    and "get32 pkt 46 = Some ml" and "0 < unat ml" and "62 + unat ml < 2 ^ 32"
  shows "\<exists>st'. handle_packet conf env hlen pkt st = Some st'"
proof (cases "hlen < of_nat DATA")
  case True
  then show ?thesis by (simp add: handle_packet_def)
next
  case False
  then have "62 \<le> unat hlen" by (simp add: word_less_nat_alt DATA_def)
  then have long: "62 < length pkt" using assms(4) by linarith
  obtain ety dport nid where f16: "get16 pkt 12 = Some ety" "get16 pkt 36 = Some dport" "get16 pkt 54 = Some nid"
    using get16_ex [of 12 pkt] get16_ex [of 36 pkt] get16_ex [of 54 pkt] long by auto
  obtain magic where magic: "get32 pkt 42 = Some magic" using get32_ex [of 42 pkt] long by auto
  obtain dhost proto where d: "peek pkt 0 6 = Some dhost" "idx pkt 23 = Some proto" using long by (simp add: peek_def idx_def)
  show ?thesis
  proof (cases "hlen < of_nat DATA + ml")
    case True
    then show ?thesis using False f16 magic d assms(6) by (simp add: handle_packet_def)
  next
    case fits: False
    have "unat (of_nat DATA + ml) = 62 + unat ml" using assms(8) by (subst unat_plus_if') (simp add: DATA_def)
    then have le: "62 + unat ml \<le> unat hlen" using fits by (simp add: word_less_nat_alt)
    have "sint hlen < int (length pkt)"
      unfolding sint_small [OF assms(5)] using assms(4) by (simp only: of_nat_less_iff)
    moreover have "unat ml < 2 ^ 31" "62 + unat ml < length pkt" using le assms(4,5) by linarith+
    ultimately obtain st' where "parse_message conf env (sint hlen) pkt st = Some st'"
      using parse_message_defined [OF assms(1-3,6,7)] by blast
    then show ?thesis using False fits f16 magic d assms(6) by (simp add: handle_packet_def)
  qed
qed

text \<open>C5. Memory safety of the daemon, under three conditions. The capture buffer holds the frame and at
  least one byte more: the daemon goes by the length on the wire, and it ends a command with a NUL one
  byte behind its payload.
  The length the message announces is not zero and does not overflow the sum with the header: the code
  takes one off it before it copies. And a \<open>SET_USERNAME\<close> frame finds a lookup that is defined: the
  \<open>memcmp\<close> of 32 bytes with the 20 of the uninitialised \<open>dig\<close> stops at a difference within them, and
  the \<open>const\<close> password buffer can be written; with 20 equal bytes the model has no value, and for all
  other frames nothing is asked. Then the frame is handled to the end from every state of the
  invariant: no access leaves a buffer, no NULL is followed, no loop runs for ever, and the invariant
  holds again.\<close>

theorem ead_frame_safe:
  assumes "ead_inv st" and "length (c_ethmac conf) = 6"
    and "get32 pkt 50 = Some 2 \<longrightarrow> lookup_ok conf env st"
    and "unat hlen < length pkt" and "unat hlen < 2 ^ 31"
    and "get32 pkt 46 = Some ml" and "0 < unat ml" and "62 + unat ml < 2 ^ 32"
  shows "\<exists>st'. handle_packet conf env hlen pkt st = Some st' \<and> ead_inv st'"
  using handle_packet_defined [OF assms] handle_packet_inv [OF assms(1)] by blast

text \<open>A message of length 0 in the place of the client's public value: the length that is left is -1, and
  the copy of that many bytes is not defined.\<close>

lemma handle_send_a_empty: "get32 pkt 46 = Some 0 \<Longrightarrow> handle_send_a pkt st = None"
  by (simp add: handle_send_a_def SIZE_number_def)

text \<open>A lookup of a listed user whose \<open>memcmp\<close> finds the 20 bytes equal has no value: it reads behind
  \<open>dig\<close>.\<close>

lemma memcmp_overrun: "length b < n \<Longrightarrow> take (length b) a = b \<Longrightarrow> memcmp a b n = None"
proof (induction a b n rule: memcmp.induct)
  case (2 x a y b n)
  then show ?case by auto
qed (auto simp: take_Cons')

lemma lookup_overrun:
  assumes "length (e_dig env) = SHA_DIGESTSIZE" and "take SHA_DIGESTSIZE (saltbuf st) = e_dig env"
  shows "hash_password conf env st = None"
  using assms memcmp_overrun [of "e_dig env" MAXSALTLEN "saltbuf st"]
  by (simp add: hash_password_def SHA_DIGESTSIZE_def MAXSALTLEN_def)

end
