(* ===== verification/Ead_Msg.thy ===== *)
theory Ead_Msg
  imports Ead_Safe
begin

text \<open>
  Messages on the wire: the frames a client sends, the fields the daemon reads of them, and the
  message in the answer. Each handler of the first four steps is given as a function of the state.
\<close>

section \<open>Frames\<close>

text \<open>A message; in a frame it follows the headers, which the sender's system writes, and is followed
  by what is left of the capture buffer.\<close>

definition message :: "u32 \<Rightarrow> u16 \<Rightarrow> u16 \<Rightarrow> bytes \<Rightarrow> bytes \<Rightarrow> bytes" where
  "message ty nid sid ip body = be32 EAD_MAGIC @ be32 (of_nat (length body)) @ be32 ty @ be16 nid @ be16 sid @ ip @ body"

definition to_daemon :: "bytes \<Rightarrow> bool" where
  "to_daemon hdr \<longleftrightarrow> length hdr = 42 \<and> take 6 hdr = replicate 6 0xff \<and> take 2 (drop 12 hdr) = be16 0x0800
     \<and> hdr ! 23 = 17 \<and> take 2 (drop 36 hdr) = be16 EAD_PORT"

lemma frame_fields:
  assumes h: "to_daemon hdr" and ip: "length ip = 4"
  shows "get16 (hdr @ message ty nid sid ip body @ r) 12 = Some 0x0800"
    "peek (hdr @ message ty nid sid ip body @ r) 0 6 = Some (replicate 6 0xff)"
    "idx (hdr @ message ty nid sid ip body @ r) 23 = Some 17"
    "get16 (hdr @ message ty nid sid ip body @ r) 36 = Some EAD_PORT"
    "get32 (hdr @ message ty nid sid ip body @ r) 42 = Some EAD_MAGIC"
    "get32 (hdr @ message ty nid sid ip body @ r) 46 = Some (of_nat (length body))"
    "get32 (hdr @ message ty nid sid ip body @ r) 50 = Some ty"
    "get16 (hdr @ message ty nid sid ip body @ r) 54 = Some nid"
    "get16 (hdr @ message ty nid sid ip body @ r) 56 = Some sid"
    "drop 62 (hdr @ message ty nid sid ip body @ r) = body @ r"
    "length (hdr @ message ty nid sid ip body @ r) = 62 + length body + length r"
  using h ip by (simp_all add: to_daemon_def get16_def get32_def peek_def idx_def nth_append message_def)

text \<open>The message in \<open>pktbuf\<close>: magic number, length, type to address, data.\<close>

definition msg_in :: "bytes \<Rightarrow> bytes \<Rightarrow> bytes \<Rightarrow> bytes \<Rightarrow> bytes \<Rightarrow> bool" where
  "msg_in b x l y r \<longleftrightarrow> length b = PCAP_MRU \<and> length x = 4 \<and> length l = 4 \<and> length y = 12 \<and> drop 42 b = x @ l @ y @ r"

lemma msg_in_length: "msg_in b x l y r \<Longrightarrow> length b = PCAP_MRU \<and> length r = 1538"
proof -
  assume m: "msg_in b x l y r"
  then have "length (drop 42 b) = 4 + 4 + 12 + length r" by (simp add: msg_in_def)
  then show ?thesis using m by (simp add: msg_in_def PCAP_MRU_def)
qed

lemma msg_split:
  assumes "msg_in b x l y r"
  shows "b = take 42 b @ x @ l @ y @ r" and "length (take 42 b) = 42"
proof -
  show "b = take 42 b @ x @ l @ y @ r" using assms unfolding msg_in_def by (metis append_take_drop_id)
  show "length (take 42 b) = 42" using assms by (simp add: msg_in_def PCAP_MRU_def)
qed

lemma poke_append: "length a = i \<Longrightarrow> length xs = length xs' \<Longrightarrow> poke (a @ xs @ c) i xs' = Some (a @ xs' @ c)"
  by (simp add: poke_def)

lemma msg_poke_len:
  assumes m: "msg_in b x l y r" and "length l' = 4"
  shows "\<exists>b'. poke b 46 l' = Some b' \<and> msg_in b' x l' y r"
proof -
  let ?h = "take 42 b"
  note s = msg_split [OF m]
  have "poke ((?h @ x) @ l @ y @ r) 46 l' = Some ((?h @ x) @ l' @ y @ r)"
    using s(2) m assms(2) by (intro poke_append) (simp_all add: msg_in_def)
  moreover have "msg_in ((?h @ x) @ l' @ y @ r) x l' y r"
    using s m assms(2) msg_in_length [OF m] by (simp add: msg_in_def PCAP_MRU_def)
  ultimately show ?thesis using s(1) by auto
qed

lemma msg_poke_data:
  assumes m: "msg_in b x l y r" and k: "k + length d \<le> length r"
  shows "\<exists>b'. poke b (62 + k) d = Some b' \<and> msg_in b' x l y (take k r @ d @ drop (k + length d) r)"
proof -
  let ?h = "take 42 b"
  note s = msg_split [OF m]
  have r: "r = take k r @ take (length d) (drop k r) @ drop (k + length d) r"
    by (metis append_take_drop_id drop_drop add.commute)
  have "poke ((?h @ x @ l @ y @ take k r) @ take (length d) (drop k r) @ drop (k + length d) r) (62 + k) d
      = Some ((?h @ x @ l @ y @ take k r) @ d @ drop (k + length d) r)"
    using s(2) m k by (intro poke_append) (simp_all add: msg_in_def)
  moreover have "b = (?h @ x @ l @ y @ take k r) @ take (length d) (drop k r) @ drop (k + length d) r"
    using s(1) r by simp
  moreover have "msg_in ((?h @ x @ l @ y @ take k r) @ d @ drop (k + length d) r) x l y (take k r @ d @ drop (k + length d) r)"
    using s m k msg_in_length [OF m] by (simp add: msg_in_def PCAP_MRU_def)
  ultimately show ?thesis by metis
qed

text \<open>The answer that is sent carries the message.\<close>

lemma msg_clone:
  assumes m: "msg_in b x (be32 (of_nat n)) y r" and n: "n \<le> length r" and mac: "length (c_ethmac conf) = 6" and "62 \<le> length pkt"
  shows "\<exists>b' out. ead_send_packet_clone conf pkt (st\<lparr>pktbuf := b\<rparr>) = Some (st\<lparr>pktbuf := b', events := events st @ [Send out]\<rparr>)
    \<and> msg_in b' x (be32 (of_nat n)) y r \<and> drop 42 out = x @ be32 (of_nat n) @ y @ take n r \<and> length out = 62 + n"
proof -
  note l = msg_in_length [OF m]
  have un: "unat (of_nat n :: u32) = n" using n l by (intro unat_of_nat_u32) simp
  have d: "drop 42 b = x @ be32 (of_nat n) @ y @ r" "length x = 4" "length y = 12" using m by (simp_all add: msg_in_def)
  have "drop 46 b = drop 4 (drop 42 b)" by simp
  then have "drop 46 b = be32 (of_nat n) @ y @ r" unfolding d(1) using d(2) by simp
  then have g: "get32 b 46 = Some (of_nat n)" using l by (simp add: get32_def peek_def PCAP_MRU_def)
  let ?st = "st\<lparr>pktbuf := b\<rparr>"
  define p1 p2 p3 p4 p5 p6 p7 p8 where defs1: "p1 = take 6 (drop 0 pkt)" "p2 = take 6 (drop 6 pkt)" "p3 = take 4 (drop 12 pkt)"
    "p4 = take 2 (drop 16 pkt)" "p5 = take 6 (drop 18 pkt)" "p6 = take 2 (drop 24 pkt)" "p7 = take 4 (drop 26 pkt)"
    "p8 = take 4 (drop 30 pkt)"
  define p9 p10 p11 p12 m1 p13 s where defs2: "p9 = take 2 (drop 34 pkt)" "p10 = take 2 (drop 36 pkt)"
    "p11 = take 2 (drop 38 pkt)" "p12 = take 2 (drop 40 pkt)" "m1 = take 16 (drop 42 pkt)" "p13 = take 4 (drop 58 pkt)"
    "s = drop 62 pkt"
  note pkt = frame_split [of pkt, folded defs1 defs2]
  have ll: "length p1 = 6" "length p2 = 6" "length p3 = 4" "length p4 = 2" "length p5 = 6" "length p6 = 2" "length p7 = 4"
    "length p8 = 4" "length p9 = 2" "length p10 = 2" "length p11 = 2" "length p12 = 2" "length m1 = 16" "length p13 = 4"
    using assms(4) by (simp_all add: defs1 defs2)
  have small: "get32 (pktbuf ?st) 46 = Some (of_nat n)" "62 + unat (of_nat n :: u32) \<le> length (pktbuf ?st)" "length (pktbuf ?st) \<le> 1600"
    using g un n l by (simp_all add: PCAP_MRU_def)
  have t: "take (20 + n) (drop 42 b) = x @ be32 (of_nat n) @ y @ take n r" using d by simp
  define fin where "fin = (\<lambda>c L c1 c2. p2 @ c_ethmac conf @ p3 @ be16 L @ p5 @ be16 c1 @ p13 @ p7 @ p10 @ p9 @ be16 (L - 20) @ be16 c2 @ c)"
  note c = clone_image [OF mac small pkt ll, unfolded un]
  have "\<exists>L c1 c2. ead_send_packet_clone conf pkt ?st = Some (?st\<lparr>pktbuf := fin (drop 42 (pktbuf ?st)) L c1 c2,
      events := events ?st @ [Send (fin (take (20 + n) (drop 42 (pktbuf ?st))) L c1 c2)]\<rparr>)"
    unfolding fin_def by (intro exI) (rule c)
  then obtain L c1 c2 where "ead_send_packet_clone conf pkt ?st = Some (?st\<lparr>pktbuf := fin (drop 42 b) L c1 c2,
      events := events ?st @ [Send (fin (take (20 + n) (drop 42 b)) L c1 c2)]\<rparr>)" by auto
  moreover have f: "drop 42 (fin c L c1 c2) = c" "length (fin c L c1 c2) = 42 + length c" for c
    using ll mac by (simp_all add: fin_def)
  moreover have "msg_in (fin (drop 42 b) L c1 c2) x (be32 (of_nat n)) y r"
    using m l(1) unfolding msg_in_def f by (simp add: PCAP_MRU_def)
  moreover have "length (fin (take (20 + n) (drop 42 b)) L c1 c2) = 62 + n"
    unfolding f t using d(2,3) n by simp
  ultimately show ?thesis unfolding t
    by (intro exI [of _ "fin (drop 42 b) L c1 c2"] exI [of _ "fin (x @ be32 (of_nat n) @ y @ take n r) L c1 c2"]) simp
qed

lemma reply_header_msg:
  assumes "length b = PCAP_MRU" and "length sid = 2"
  shows "\<exists>b' ip r. reply_header conf ty sid b = Some b' \<and> length ip = 4
    \<and> msg_in b' (be32 EAD_MAGIC) (be32 0) (be32 (ty + 1) @ be16 (c_nid conf) @ sid @ ip) r"
proof -
  define h x l t n s ip r where d: "h = take 42 b" "x = take 4 (drop 42 b)" "l = take 4 (drop 46 b)" "t = take 4 (drop 50 b)"
    "n = take 2 (drop 54 b)" "s = take 2 (drop 56 b)" "ip = take 4 (drop 58 b)" "r = drop 62 b"
  have st: "drop i b = take k (drop i b) @ drop (i + k) b" for i k by (metis append_take_drop_id drop_drop add.commute)
  have b: "b = h @ x @ l @ t @ n @ s @ ip @ r"
    using st [of 42 4] st [of 46 4] st [of 50 4] st [of 54 2] st [of 56 2] st [of 58 4] unfolding d
    by (simp add: append_take_drop_id)
  have ln: "length h = 42" "length x = 4" "length l = 4" "length t = 4" "length n = 2" "length s = 2" "length ip = 4" "length r = 1538"
    using assms(1) by (simp_all add: d PCAP_MRU_def)
  have "reply_header conf ty sid b = Some (h @ be32 EAD_MAGIC @ be32 0 @ be32 (ty + 1) @ be16 (c_nid conf) @ sid @ ip @ r)"
    unfolding reply_header_def b using ln assms(2) by (simp add: poke_def)
  then show ?thesis using ln assms(2) by (auto simp: msg_in_def PCAP_MRU_def)
qed


section \<open>Answering\<close>

text \<open>A handler that answers: its next state, the frame and the state it leaves, and what it stores as the
  data of the message.\<close>

definition answers :: "handler \<Rightarrow> bytes \<Rightarrow> ead \<Rightarrow> nat \<Rightarrow> bytes \<Rightarrow> ead \<Rightarrow> (bytes \<Rightarrow> bool) \<Rightarrow> bool" where
  "answers h pkt st n pkt' g P \<longleftrightarrow>
     (\<forall>b y r. msg_in b (be32 EAD_MAGIC) (be32 0) y r \<longrightarrow>
        (\<exists>b' r' reply. h pkt (st\<lparr>pktbuf := b\<rparr>) = Some (True, n, pkt', g\<lparr>pktbuf := b'\<rparr>)
          \<and> msg_in b' (be32 EAD_MAGIC) (be32 (of_nat (length reply))) y r' \<and> length reply \<le> length r' \<and> take (length reply) r' = reply
          \<and> P reply))"

text \<open>A frame of the right type, for this node and instance, reaches its handler.\<close>

lemma daemon_dispatch:
  assumes h: "to_daemon hdr" and ip: "length ip = 4" and nid: "nid = 0xffff \<or> nid = c_nid conf"
    and inst: "ty = 0 \<or> unat (drop_bit 12 (sid AND 0xf000)) = c_inst conf"
    and sel: "select_handler conf env (sint ty) = Some (hh, m)" "at_turn (sint ty) st"
    and m: "m \<le> 62 + length body" and small: "length body < 1500"
    and pkt: "pkt = hdr @ message ty nid sid ip body @ rest"
    and r: "reply_header conf ty (be16 sid) (pktbuf st) = Some b"
  shows "handle_packet conf env (of_nat (62 + length body)) pkt st =
    do { (ok, n, pkt, st) \<leftarrow> hh pkt (st\<lparr>pktbuf := b\<rparr>);
         st \<leftarrow> (if ok then ead_send_packet_clone conf pkt st else Some st);
         set_state conf env n st }"
proof -
  note f = frame_fields [OF h ip, of ty nid sid body rest, folded pkt]
  have u: "unat (of_nat (62 + length body) :: u32) = 62 + length body" "unat (of_nat (length body) :: u32) = length body"
    using small by (intro unat_of_nat_u32; simp)+
  then have s: "sint (of_nat (62 + length body) :: u32) = int (62 + length body)"
    using small by (subst sint_small) (simp_all only:, simp)
  have "unat (of_nat DATA + of_nat (length body) :: u32) = 62 + length body"
    using u(1) by (simp add: DATA_def)
  then have lens: "\<not> (of_nat (62 + length body) :: u32) < of_nat DATA" "\<not> (of_nat (62 + length body) :: u32) < of_nat DATA + of_nat (length body)"
    using u by (simp_all add: word_less_nat_alt DATA_def del: of_nat_add)
  have "sint ty = int EAD_TYPE_PING \<longleftrightarrow> ty = 0"
    by (simp add: EAD_TYPE_PING_def signed_eq_0_iff)
  then have turn: "\<not> (sint ty \<ge> int EAD_TYPE_GET_PRIME \<and> int (state st) \<noteq> sint ty)"
      "\<not> (sint ty \<noteq> int EAD_TYPE_PING \<and> unat (drop_bit 12 (sid AND 0xf000)) \<noteq> c_inst conf)"
    using sel(2) inst by (auto simp: at_turn_def)
  have m': "\<not> int (62 + length body) < int m" using m by simp
  have "handle_packet conf env (of_nat (62 + length body)) pkt st = parse_message conf env (int (62 + length body)) pkt st"
    unfolding handle_packet_def if_not_P [OF lens(1)] f(1-6,8) bind.bind_lunit if_not_P [OF lens(2)] s using nid by auto
  then show ?thesis
    unfolding parse_message_def f(7) bind.bind_lunit f(9) if_not_P [OF turn(1)] if_not_P [OF turn(2)] sel(1) option.case prod.case
      if_not_P [OF m'] r .
qed

text \<open>When the handler answers, what it stores is sent.\<close>

lemma daemon_answer:
  assumes h: "to_daemon hdr" and ip: "length ip = 4" and mac: "length (c_ethmac conf) = 6" and b: "length (pktbuf st) = PCAP_MRU"
    and nid: "nid = 0xffff \<or> nid = c_nid conf"
    and inst: "ty = 0 \<or> unat (drop_bit 12 (sid AND 0xf000)) = c_inst conf"
    and sel: "select_handler conf env (sint ty) = Some (hh, m)" "at_turn (sint ty) st"
    and m: "m \<le> 62 + length body" and small: "length body < 1500"
    and pkt: "pkt = hdr @ message ty nid sid ip body @ rest"
    and run: "answers hh pkt st n pkt' g P"
    and pkt': "length pkt' = length pkt"
  shows "\<exists>b out ip' reply. handle_packet conf env (of_nat (62 + length body)) pkt st
      = set_state conf env n (g\<lparr>pktbuf := b, events := events g @ [Send out]\<rparr>)
    \<and> drop 42 out = message (ty + 1) (c_nid conf) sid ip' reply \<and> length ip' = 4 \<and> length b = PCAP_MRU \<and> P reply"
proof -
  obtain b1 ip' r where r: "reply_header conf ty (be16 sid) (pktbuf st) = Some b1" "length ip' = 4"
    "msg_in b1 (be32 EAD_MAGIC) (be32 0) (be32 (ty + 1) @ be16 (c_nid conf) @ be16 sid @ ip') r"
    using reply_header_msg [OF b, of "be16 sid" conf ty] by auto
  obtain b2 r2 reply where s2: "hh pkt (st\<lparr>pktbuf := b1\<rparr>) = Some (True, n, pkt', g\<lparr>pktbuf := b2\<rparr>)"
    "msg_in b2 (be32 EAD_MAGIC) (be32 (of_nat (length reply))) (be32 (ty + 1) @ be16 (c_nid conf) @ be16 sid @ ip') r2"
    "length reply \<le> length r2" "take (length reply) r2 = reply" "P reply"
    using run r(3) unfolding answers_def by blast
  have p: "62 \<le> length pkt'" using pkt' frame_fields(11) [OF h ip, of ty nid sid body rest] pkt by simp
  obtain b3 out where c: "ead_send_packet_clone conf pkt' (g\<lparr>pktbuf := b2\<rparr>) = Some (g\<lparr>pktbuf := b3, events := events g @ [Send out]\<rparr>)"
    "msg_in b3 (be32 EAD_MAGIC) (be32 (of_nat (length reply))) (be32 (ty + 1) @ be16 (c_nid conf) @ be16 sid @ ip') r2"
    "drop 42 out = be32 EAD_MAGIC @ be32 (of_nat (length reply)) @ (be32 (ty + 1) @ be16 (c_nid conf) @ be16 sid @ ip') @ reply"
    using msg_clone [OF s2(2,3) mac p, of g] unfolding s2(4) by blast
  have "handle_packet conf env (of_nat (62 + length body)) pkt st
      = set_state conf env n (g\<lparr>pktbuf := b3, events := events g @ [Send out]\<rparr>)"
    unfolding daemon_dispatch [OF h ip nid inst sel m small pkt r(1)] s2(1) by (simp add: c(1))
  moreover have "drop 42 out = message (ty + 1) (c_nid conf) sid ip' reply" using c(3) by (simp add: message_def)
  moreover have "length b3 = PCAP_MRU" using msg_in_length [OF c(2)] by simp
  ultimately show ?thesis using r(2) s2(5)
    by (intro exI [of _ b3] exI [of _ out] exI [of _ ip'] exI [of _ reply]) (simp only: simp_thms)
qed

subsection \<open>The handlers\<close>

lemma ping_answers:
  "answers (handle_ping conf) pkt st (state st) pkt st (\<lambda>reply. reply = be16 1 @ take 1024 (c_dev_name conf))"
  unfolding answers_def
proof (intro allI impI)
  fix b y r
  assume m: "msg_in b (be32 EAD_MAGIC) (be32 0) y r"
  define slen where "slen = (if length (c_dev_name conf) > 1024 then 1024 else length (c_dev_name conf))"
  define d where "d = take slen (c_dev_name conf)"
  have d: "d = take 1024 (c_dev_name conf)" "length d = slen" "slen \<le> 1024" by (simp_all add: d_def slen_def)
  obtain b1 where b1: "poke b 46 (be32 (of_nat (SIZE_pong + slen))) = Some b1"
    "msg_in b1 (be32 EAD_MAGIC) (be32 (of_nat (SIZE_pong + slen))) y r" using msg_poke_len [OF m, of "be32 (of_nat (SIZE_pong + slen))"] by auto
  have r: "length r = 1538" using msg_in_length [OF m] by simp
  obtain b2 r2 where b2: "poke b1 (DATA + 2) d = Some b2" "msg_in b2 (be32 EAD_MAGIC) (be32 (of_nat (SIZE_pong + slen))) y r2"
    "r2 = take 2 r @ d @ drop (2 + slen) r"
    using msg_poke_data [OF b1(2), of 2 d] r d by (auto simp: DATA_def)
  have r2: "length r2 = 1538" using msg_in_length [OF b2(2)] by simp
  obtain b3 r3 where b3: "poke b2 (DATA + 2 + slen) [0] = Some b3" "msg_in b3 (be32 EAD_MAGIC) (be32 (of_nat (SIZE_pong + slen))) y r3"
    "r3 = take (2 + slen) r2 @ [0] @ drop (2 + slen + 1) r2"
    using msg_poke_data [OF b2(2), of "2 + slen" "[0]"] r2 d by (auto simp: DATA_def add.assoc)
  have r3: "length r3 = 1538" using msg_in_length [OF b3(2)] by simp
  obtain b4 r4 where b4: "poke b3 DATA (be16 1) = Some b4" "msg_in b4 (be32 EAD_MAGIC) (be32 (of_nat (SIZE_pong + slen))) y r4"
    "r4 = be16 1 @ drop 2 r3"
    using msg_poke_data [OF b3(2), of 0 "be16 1"] r3 by (auto simp: DATA_def numeral_2_eq_2)
  let ?reply = "be16 1 @ d"
  have l: "length ?reply = SIZE_pong + slen" using d by (simp add: SIZE_pong_def)
  have t: "take (length ?reply) r4 = ?reply" unfolding b4(3) b3(3) b2(3) using r d(2,3) by simp
  have "length ?reply \<le> length r4" using msg_in_length [OF b4(2)] d by simp
  moreover have "handle_ping conf pkt (st\<lparr>pktbuf := b\<rparr>) = Some (True, state st, pkt, st\<lparr>pktbuf := b4\<rparr>)"
    using b1(1) b2(1) b3(1) b4(1) unfolding handle_ping_def slen_def [symmetric] d_def Let_def by simp
  ultimately show "\<exists>b' r' reply. handle_ping conf pkt (st\<lparr>pktbuf := b\<rparr>) = Some (True, state st, pkt, st\<lparr>pktbuf := b'\<rparr>)
      \<and> msg_in b' (be32 EAD_MAGIC) (be32 (of_nat (length reply))) y r' \<and> length reply \<le> length r' \<and> take (length reply) r' = reply
      \<and> reply = be16 1 @ take 1024 (c_dev_name conf)"
    using b4(2) t l d(1) by metis
qed

text \<open>\<open>set_state (EAD_TYPE_SET_USERNAME)\<close> ends the session.\<close>

definition cleared :: "ead \<Rightarrow> ead" where
  "cleared st = (if state st = 2 then st else st\<lparr>ts := None, B := None, state := 2\<rparr>)"

lemma username_answers:
  assumes inv: "ead_inv st" and u: "peek pkt DATA SIZE_user = Some user"
  shows "answers (handle_set_username conf env) pkt st EAD_TYPE_GET_PRIME pkt ((cleared st)\<lparr>username := cstr (take 31 user)\<rparr>) (\<lambda>reply. reply = [])"
  unfolding answers_def
proof (intro allI impI)
  fix b y r
  assume m: "msg_in b (be32 EAD_MAGIC) (be32 0) y r"
  obtain b1 where b1: "poke b 46 (be32 0) = Some b1" "msg_in b1 (be32 EAD_MAGIC) (be32 0) y r"
    using msg_poke_len [OF m, of "be32 0"] by auto
  have sv: "state st \<in> {2, 4, 6, 8, 10}" using inv by (simp add: inv_defs type_defs)
  have "set_state conf env EAD_TYPE_SET_USERNAME (st\<lparr>pktbuf := b\<rparr>) = Some ((cleared st)\<lparr>pktbuf := b\<rparr>)"
    using sv by (cases "state st = 2") (auto simp: set_state_def cleared_def type_defs)
  then have "handle_set_username conf env pkt (st\<lparr>pktbuf := b\<rparr>)
      = Some (True, EAD_TYPE_GET_PRIME, pkt, (cleared st)\<lparr>username := cstr (take 31 user), pktbuf := b1\<rparr>)"
    using u b1(1) by (simp add: handle_set_username_def)
  then show "\<exists>b' r' reply. handle_set_username conf env pkt (st\<lparr>pktbuf := b\<rparr>)
        = Some (True, EAD_TYPE_GET_PRIME, pkt, (cleared st)\<lparr>username := cstr (take 31 user), pktbuf := b'\<rparr>)
      \<and> msg_in b' (be32 EAD_MAGIC) (be32 (of_nat (length reply))) y r' \<and> length reply \<le> length r' \<and> take (length reply) r' = reply
      \<and> reply = []"
    using b1(2) by (intro exI [of _ b1] exI [of _ r] exI [of _ "[]"]) simp
qed

lemma prime_answers:
  assumes ts: "ts st = Some s" "ts_s s = []" and "tce st \<noteq> None" and salt: "length (pw_saltbuf st) = MAXSALTLEN"
  shows "answers handle_get_prime pkt st EAD_TYPE_SEND_A pkt st
    (\<lambda>reply. \<exists>old. length old = 32 \<and> reply = [0, 0] @ old @ pw_saltbuf st)"
  unfolding answers_def
proof (intro allI impI)
  fix b y r
  assume m: "msg_in b (be32 EAD_MAGIC) (be32 0) y r"
  have salt: "length (pw_saltbuf st) = 32" using salt by (simp add: MAXSALTLEN_def)
  obtain b1 where b1: "poke b 46 (be32 (of_nat SIZE_salt)) = Some b1" "msg_in b1 (be32 EAD_MAGIC) (be32 (of_nat SIZE_salt)) y r"
    using msg_poke_len [OF m, of "be32 (of_nat SIZE_salt)"] by auto
  have r: "length r = 1538" using msg_in_length [OF m] by simp
  obtain b2 where b2: "poke b1 DATA [of_int (tpe_index - 1)] = Some b2"
    "msg_in b2 (be32 EAD_MAGIC) (be32 (of_nat SIZE_salt)) y ([0] @ drop 1 r)"
    using msg_poke_data [OF b1(2), of 0 "[of_int (tpe_index - 1)]"] r by (auto simp: DATA_def tpe_index_def)
  obtain b3 where b3: "poke b2 (DATA + 1) [0] = Some b3" "msg_in b3 (be32 EAD_MAGIC) (be32 (of_nat SIZE_salt)) y ([0, 0] @ drop 2 r)"
    using msg_poke_data [OF b2(2), of 1 "[0]"] r by (auto simp: DATA_def numeral_2_eq_2)
  obtain b4 where b4: "poke b3 (DATA + 2) [] = Some b4" "msg_in b4 (be32 EAD_MAGIC) (be32 (of_nat SIZE_salt)) y ([0, 0] @ drop 2 r)"
    using msg_poke_data [OF b3(2), of 2 "[]"] r by (auto simp: DATA_def)
  define old where "old = take 32 (drop 2 r)"
  obtain b5 r5 where b5: "poke b4 (DATA + 2 + MAXSALTLEN) (pw_saltbuf st) = Some b5"
    "msg_in b5 (be32 EAD_MAGIC) (be32 (of_nat SIZE_salt)) y r5" "take 66 r5 = [0, 0] @ old @ pw_saltbuf st"
    using msg_poke_data [OF b4(2), of 34 "pw_saltbuf st"] r salt by (auto simp: DATA_def MAXSALTLEN_def old_def)
  have "handle_get_prime pkt (st\<lparr>pktbuf := b\<rparr>) = Some (True, EAD_TYPE_SEND_A, pkt, st\<lparr>pktbuf := b5\<rparr>)"
    using b1(1) b2(1) b3(1) b4(1) b5(1) ts assms(3) by (auto simp: handle_get_prime_def)
  moreover have "length ([0, 0] @ old @ pw_saltbuf st) = 66" "length old = 32" using r salt by (simp_all add: old_def)
  moreover have "length r5 = 1538" using msg_in_length [OF b5(2)] by simp
  ultimately show "\<exists>b' r' reply. handle_get_prime pkt (st\<lparr>pktbuf := b\<rparr>) = Some (True, EAD_TYPE_SEND_A, pkt, st\<lparr>pktbuf := b'\<rparr>)
      \<and> msg_in b' (be32 EAD_MAGIC) (be32 (of_nat (length reply))) y r' \<and> length reply \<le> length r' \<and> take (length reply) r' = reply
      \<and> (\<exists>old. length old = 32 \<and> reply = [0, 0] @ old @ pw_saltbuf st)"
    using b5(2,3) by (intro exI [of _ b5] exI [of _ r5] exI [of _ "[0, 0] @ old @ pw_saltbuf st"]) (simp only:, auto simp: SIZE_salt_def)
qed

lemma a_answers:
  assumes bn: "B st = Some bn" "length bn \<le> MAXPARAMLEN" and pkt: "get32 pkt 46 = Some (of_nat (1 + length a))" "length a \<le> 257"
    and a: "peek pkt (DATA + 1) (length a) = Some a"
  shows "answers handle_send_a pkt st EAD_TYPE_SEND_AUTH pkt (st\<lparr>A := a\<rparr>) (\<lambda>reply. \<exists>x. reply = x # bn)"
  unfolding answers_def
proof (intro allI impI)
  fix b y r
  assume m: "msg_in b (be32 EAD_MAGIC) (be32 0) y r"
  have bl: "length bn \<le> 256" using bn by (simp add: MAXPARAMLEN_def)
  have r: "length r = 1538" using msg_in_length [OF m] by simp
  obtain b1 where b1: "poke b 46 (be32 (of_nat (SIZE_number + length bn))) = Some b1"
    "msg_in b1 (be32 EAD_MAGIC) (be32 (of_nat (SIZE_number + length bn))) y r"
    using msg_poke_len [OF m, of "be32 (of_nat (SIZE_number + length bn))"] by auto
  obtain b2 r2 where b2: "poke b1 (DATA + 1) bn = Some b2"
    "msg_in b2 (be32 EAD_MAGIC) (be32 (of_nat (SIZE_number + length bn))) y r2" "r2 = take 1 r @ bn @ drop (1 + length bn) r"
    using msg_poke_data [OF b1(2), of 1 bn] r bl by (auto simp: DATA_def)
  obtain x where x: "take 1 r = [x]" using r by (cases r) auto
  have sl: "sint (of_nat (1 + length a) - of_nat SIZE_number :: u32) = int (length a)"
    using pkt(2) sint_of_nat_u32 [of "length a"] by (simp add: SIZE_number_def)
  have "handle_send_a pkt (st\<lparr>pktbuf := b\<rparr>) = Some (True, EAD_TYPE_SEND_AUTH, pkt, st\<lparr>A := a, pktbuf := b2\<rparr>)"
    unfolding handle_send_a_def pkt(1) bind.bind_lunit Let_def sl
    using pkt(2) a bn(1) b1(1) b2(1) by (simp add: MAXPARAMLEN_def)
  moreover have "take (length (x # bn)) r2 = x # bn" "length (x # bn) \<le> length r2" using x b2(3) r bl by simp_all
  ultimately show "\<exists>b' r' reply. handle_send_a pkt (st\<lparr>pktbuf := b\<rparr>) = Some (True, EAD_TYPE_SEND_AUTH, pkt, st\<lparr>A := a, pktbuf := b'\<rparr>)
      \<and> msg_in b' (be32 EAD_MAGIC) (be32 (of_nat (length reply))) y r' \<and> length reply \<le> length r' \<and> take (length reply) r' = reply
      \<and> (\<exists>x. reply = x # bn)"
    using b2(2) by (intro exI [of _ b2] exI [of _ r2] exI [of _ "x # bn"]) (auto simp: SIZE_number_def)
qed

lemma auth_answers:
  assumes ts: "ts st = Some s" and auth: "peek pkt DATA SIZE_auth = Some auth"
    and ok: "t_serververify (c_host conf) auth s = (s', True)"
  shows "answers (handle_send_auth conf) pkt st EAD_TYPE_SEND_CMD pkt (st\<lparr>ts := Some s'\<rparr>) (\<lambda>reply. reply = t_serverresponse s')"
  unfolding answers_def
proof (intro allI impI)
  fix b y r
  assume m: "msg_in b (be32 EAD_MAGIC) (be32 0) y r"
  have l: "length (t_serverresponse s') = 20" by (rule length_serververify [OF ok])
  have r: "length r = 1538" using msg_in_length [OF m] by simp
  obtain b1 where b1: "poke b 46 (be32 (of_nat SIZE_auth)) = Some b1" "msg_in b1 (be32 EAD_MAGIC) (be32 (of_nat SIZE_auth)) y r"
    using msg_poke_len [OF m, of "be32 (of_nat SIZE_auth)"] by auto
  obtain b2 r2 where b2: "poke b1 DATA (t_serverresponse s') = Some b2"
    "msg_in b2 (be32 EAD_MAGIC) (be32 (of_nat SIZE_auth)) y r2" "r2 = t_serverresponse s' @ drop 20 r"
    using msg_poke_data [OF b1(2), of 0 "t_serverresponse s'"] r l by (auto simp: DATA_def)
  have "take SIZE_auth (t_serverresponse s') = t_serverresponse s'" using l by (simp add: SIZE_auth_def)
  then have "handle_send_auth conf pkt (st\<lparr>pktbuf := b\<rparr>) = Some (True, EAD_TYPE_SEND_CMD, pkt, st\<lparr>ts := Some s', pktbuf := b2\<rparr>)"
    using b1(1) b2(1) ts auth ok by (simp add: handle_send_auth_def)
  then show "\<exists>b' r' reply. handle_send_auth conf pkt (st\<lparr>pktbuf := b\<rparr>) = Some (True, EAD_TYPE_SEND_CMD, pkt, st\<lparr>ts := Some s', pktbuf := b'\<rparr>)
      \<and> msg_in b' (be32 EAD_MAGIC) (be32 (of_nat (length reply))) y r' \<and> length reply \<le> length r' \<and> take (length reply) r' = reply
      \<and> reply = t_serverresponse s'"
    using b2(2,3) l r by (intro exI [of _ b2] exI [of _ r2] exI [of _ "t_serverresponse s'"]) (simp add: SIZE_auth_def)
qed

end
