(* ===== verification/Ead_Session.thy ===== *)
theory Ead_Session
  imports Ead_Msg
begin

text \<open>
  A whole session with the daemon: the built-in group leaves room for a public value that the server
  accepts, each message of the exchange leads to the next state, and an encrypted message runs its
  command.
\<close>

section \<open>The built-in group\<close>

lemma b64_digits_all: "list_all (\<lambda>c. c \<in> set b64table) s \<Longrightarrow> b64_digits s = map (\<lambda>c. of_nat (the (index_of c b64table))) s"
proof (induction s)
  case (Cons c s)
  then obtain i where "i < length b64table" "c = b64table ! i" by (auto simp: in_set_conv_nth)
  then have "index_of c b64table = Some i" using index_of_nth [OF distinct_b64table(1)] by blast
  then show ?case using Cons by simp
qed simp

lemma table_ranges: "b64table = map of_nat ([48..<58] @ [65..<91] @ [97..<123] @ [46..<48])"
  by (simp add: b64table_words upt_rec)

lemma table_char:
  assumes "(46 \<le> c \<and> c \<le> 57) \<or> (65 \<le> c \<and> c \<le> 90) \<or> (97 \<le> c \<and> c \<le> 122)"
  shows "(c :: u8) \<in> set b64table"
proof -
  have "unat c \<in> set ([48..<58] @ [65..<91] @ [97..<123] @ [46..<48])"
    using assms unfolding word_le_nat_alt set_append set_upt Un_iff atLeastLessThan_iff by simp linarith
  then have "of_nat (unat c) \<in> set b64table" unfolding table_ranges set_map by (rule imageI)
  then show ?thesis by simp
qed

text \<open>The text of the modulus: digits of the table, the first of them 2, the last odd.\<close>

lemma modulus_text:
  "\<exists>r. idx pre_params 0 = Some (50 # r @ [112], [50]) \<and> list_all (\<lambda>c. c \<in> set b64table) r \<and> length r = 340"
proof -
  define s where "s = fst (pre_params ! 0)"
  have s: "idx pre_params 0 = Some (s, [50])" by (simp add: s_def pre_params_def idx_def str_def [of "''2''"])
  have l: "length s = 342" by (simp add: s_def pre_params_def)
  have h: "hd s = 50" by (simp add: s_def pre_params_def str_def list.map_sel(1) del: list.map)
  have n: "s ! 341 = 112" by (simp add: s_def pre_params_def str_def nth_map del: list.map)
  have e: "list_all (\<lambda>c. (46 \<le> c \<and> c \<le> 57) \<or> (65 \<le> c \<and> c \<le> 90) \<or> (97 \<le> c \<and> c \<le> 122)) s"
    by (simp add: s_def pre_params_def str_def)
  have "last s = 112" using l n by (cases "s = []") (simp_all add: last_conv_nth)
  moreover note h
  moreover have "s \<noteq> []" "tl s \<noteq> []" using l by (cases s; cases "tl s"; simp)+
  ultimately obtain r where r: "s = 50 # r @ [112]" by (metis append_butlast_last_id last_tl list.collapse)
  have "list_all (\<lambda>c. c \<in> set b64table) s" using e table_char by (auto simp: list_all_iff)
  then show ?thesis using s l unfolding r by auto
qed

lemma odd_modulus:
  obtains t where "gettcid tpe_index = Some t" "odd (BigIntegerFromBytes (modulus t))" "4 < BigIntegerFromBytes (modulus t)"
    "BigIntegerFromBytes (generator t) = 2"
proof -
  obtain r where r: "idx pre_params 0 = Some (50 # r @ [112], [50])" "list_all (\<lambda>c. c \<in> set b64table) r" "length r = 340"
    using modulus_text by blast
  let ?ds = "map (\<lambda>c. of_nat (the (index_of c b64table))) r :: bytes"
  have d: "b64_digits (r @ [112]) = ?ds @ [51]"
    using r(2) by (subst b64_digits_all) (simp_all add: b64table_words)
  define n where "n = number64 (2 # ?ds @ [51])"
  have n: "n = 64 * number64 (2 # ?ds) + 51" unfolding n_def using number64_snoc [of "2 # ?ds" 51] by simp
  have "gettcid tpe_index = Some \<lparr>modulus = BigIntegerToBytes n, generator = BigIntegerToBytes (number64 [2])\<rparr>"
    using r(1) b64_text_2 [of "[]"] b64_text_2 [of "r @ [112]", unfolded d]
    by (simp add: gettcid_def tpe_index_def t_getprecount_def t_getpreparam_def t_fromb64_number n_def pre_params_def)
  moreover have "odd n" "4 < n" unfolding n by simp_all
  moreover have "number64 [2] = 2" using number64_snoc [of "[]" 2] by simp
  ultimately show ?thesis by (intro that [of "\<lparr>modulus = BigIntegerToBytes n, generator = BigIntegerToBytes (number64 [2])\<rparr>"]) simp_all
qed

text \<open>Whatever the verifier is, the server accepts one of two public values.\<close>

lemma server_key_possible:
  assumes t: "gettcid tpe_index = Some t" and s: "ts_n s = modulus t"
    and v: "BigIntegerFromBytes (ts_v s) = 2 ^ x mod BigIntegerFromBytes (modulus t)"
  shows "\<exists>a s' key. a \<in> {1, 2} \<and> t_servergetkey e raw [a] s = (s', Some key)"
proof -
  define n where "n = BigIntegerFromBytes (modulus t)"
  have n: "odd n" "4 < n" using odd_modulus t unfolding n_def by (metis option.inject)+
  define u where "u = unat (scramble e raw (ts_B s))"
  define w where "w = (2 ^ x mod n) ^ u mod n"
  have w: "w = (2 ^ x) ^ u mod n" by (simp add: w_def power_mod)
  have "coprime ((2 ^ x) ^ u) n" using n(1) by simp
  then have "coprime w n" unfolding w using n(2) by (simp add: coprime_mod_left_iff del: coprime_power_left_iff)
  then have w0: "w \<noteq> 0" using n(2) by (intro notI) simp
  have a: "BigIntegerFromBytes [a] = unat a" for a using from_bytes_snoc [of "[]" a] by simp
  have res: "\<exists>s' key. t_servergetkey e raw [a] s = (s', Some key)" if "1 < w * unat a mod n" "w * unat a mod n + 1 \<noteq> n" for a
    using that by (auto simp: t_servergetkey_def Let_def s v a n_def [symmetric] u_def [symmetric] w_def [symmetric]
        BigIntegerModExpInt_def BigIntegerModMul_def BigIntegerAdd_def)
  show ?thesis
  proof (cases "1 < w \<and> w + 1 \<noteq> n")
    case True
    then show ?thesis using res [of 1] n(2) by (auto simp: w_def)
  next
    case False
    then have "w * 2 mod n = 2 \<or> w * 2 mod n = n - 2"
    proof (cases "w = 1")
      case False
      with \<open>\<not> (1 < w \<and> w + 1 \<noteq> n)\<close> w0 have "w = n - 1" by linarith
      then have "w * 2 = n + (n - 2)" using n(2) by linarith
      then have "w * 2 mod n = (n - 2) mod n" by (simp only: mod_add_self1)
      then show ?thesis using n(2) by simp
    qed (use n(2) in simp)
    then show ?thesis using res [of 2] n by auto
  qed
qed

section \<open>The steps\<close>

text \<open>The server object for a user whose password field is \<open>p\<close>.\<close>

definition opened :: "ead_conf \<Rightarrow> ead_env \<Rightarrow> bytes \<Rightarrow> bytes \<Rightarrow> t_confent \<Rightarrow> t_server" where
  "opened conf env user p t = t_serveropenraw (c_host conf) (e_raw env)
     \<lparr>pw_name = user, pw_password = BigIntegerToBytes (BigIntegerModExp (BigIntegerFromBytes (generator t))
          (BigIntegerFromBytes (password_digest (c_host conf) (e_raw env) [] user p)) (BigIntegerFromBytes (modulus t))),
      pw_salt = []\<rparr> t"

definition listed :: "ead_env \<Rightarrow> bytes \<Rightarrow> bytes \<Rightarrow> bytes \<Rightarrow> bytes \<Rightarrow> bool" where
  "listed env user old p salt \<longleftrightarrow> (\<exists>f. e_passwd env = Some f \<and> passwd_loop user old f = (Some p, salt))"

lemma open_session:
  assumes pw: "listed env (username st) (pw_saltbuf st) p salt" and dig: "lookup_ok conf env st"
    and t: "gettcid tpe_index = Some t" and s: "state st = 2"
  shows "\<exists>sb v. set_state conf env 4 st = Some (st\<lparr>pw_saltbuf := salt, password := p, tce := Some t, saltbuf := sb, pwbuf := v,
    ts := Some (opened conf env (username st) p t), state := 4\<rparr>)"
proof -
  obtain f where f: "e_passwd env = Some f" "passwd_loop (username st) (pw_saltbuf st) f = (Some p, salt)"
    using pw by (auto simp: listed_def)
  define sb where "sb = (if saltbuf st ! 0 = 0 then (saltbuf st)[0 := 0xff] else saltbuf st)"
  define v where "v = BigIntegerToBytes (BigIntegerModExp (BigIntegerFromBytes (generator t))
          (BigIntegerFromBytes (password_digest (c_host conf) (e_raw env) [] (username st) p)) (BigIntegerFromBytes (modulus t)))"
  have "prepare_password conf env st = Some (True, st\<lparr>pw_saltbuf := salt, password := p, tce := Some t, saltbuf := sb, pwbuf := v\<rparr>)"
    using f dig t by (simp add: prepare_password_def hash_password_def lookup_ok_def Let_def tpe_salt_len_def sb_def v_def)
  then have "set_state conf env 4 st = Some (st\<lparr>pw_saltbuf := salt, password := p, tce := Some t, saltbuf := sb, pwbuf := v,
      ts := Some (opened conf env (username st) p t), state := 4\<rparr>)"
    using s by (simp add: set_state_def type_defs opened_def v_def tpe_salt_len_def)
  then show ?thesis by blast
qed

lemma select_types:
  "select_handler conf env (sint (0 :: u32)) = Some (handle_ping conf, 62)"
  "select_handler conf env (sint (2 :: u32)) = Some (handle_set_username conf env, 94)"
  "select_handler conf env (sint (4 :: u32)) = Some (handle_get_prime, 62)"
  "select_handler conf env (sint (6 :: u32)) = Some (handle_send_a, 63)"
  "select_handler conf env (sint (8 :: u32)) = Some (handle_send_auth conf, 82)"
  "select_handler conf env (sint (10 :: u32)) = Some (handle_send_cmd conf env, 90)"
  by (simp_all add: select_handler_def type_defs layout_defs)

definition for_node :: "ead_conf \<Rightarrow> u16 \<Rightarrow> u16 \<Rightarrow> bool" where
  "for_node conf nid sid \<longleftrightarrow> (nid = 0xffff \<or> nid = c_nid conf) \<and> unat (drop_bit 12 (sid AND 0xf000)) = c_inst conf"

text \<open>The answer to a message, as the client receives it.\<close>

definition answered :: "ead_conf \<Rightarrow> ead \<Rightarrow> ead \<Rightarrow> u32 \<Rightarrow> u16 \<Rightarrow> bytes \<Rightarrow> bool" where
  "answered conf st st' ty sid reply \<longleftrightarrow>
     (\<exists>out ip. events st' = events st @ [Send out] \<and> drop 42 out = message ty (c_nid conf) sid ip reply \<and> length ip = 4)"

lemma peek_frame:
  assumes "to_daemon hdr" and "length ip = 4" and "k + n \<le> length body"
  shows "peek (hdr @ message ty nid sid ip body @ r) (62 + k) n = Some (take n (drop k body))"
proof -
  define F where "F = hdr @ message ty nid sid ip body @ r"
  have F: "drop 62 F = body @ r" "length F = 62 + length body + length r"
    using frame_fields(10,11) [OF assms(1,2), of ty nid sid body r] by (simp_all only: F_def)
  have "drop (62 + k) F = drop k (drop 62 F)" by (simp only: drop_drop add.commute)
  then have "peek F (62 + k) n = Some (take n (drop k body))" unfolding F(1) using F(2) assms(3) by (simp add: peek_def)
  then show ?thesis by (simp only: F_def)
qed

lemma step_user:
  assumes inv: "ead_inv st" and hdr: "to_daemon hdr" and ip: "length ip = 4" and mac: "length (c_ethmac conf) = 6"
    and node: "for_node conf nid sid" and user: "length body = 32" "cstr (take 31 body) = user"
    and pw: "listed env user (pw_saltbuf st) p salt" and dig: "lookup_ok conf env st" and t: "gettcid tpe_index = Some t"
  shows "\<exists>st'. handle_packet conf env (of_nat (62 + length body)) (hdr @ message 2 nid sid ip body @ rest) st = Some st'
    \<and> state st' = 4 \<and> ts st' = Some (opened conf env user p t) \<and> pw_saltbuf st' = salt \<and> crypt st' = crypt st
    \<and> answered conf st st' 3 sid []"
proof -
  let ?pkt = "hdr @ message 2 nid sid ip body @ rest"
  have "peek ?pkt DATA SIZE_user = Some body"
    using peek_frame [OF hdr ip, of 0 32 body] user(1) by (simp add: layout_defs)
  note run = username_answers [OF inv this, of conf env, unfolded user(2)]
  let ?g = "(cleared st)\<lparr>username := user\<rparr>"
  have b: "length (pktbuf st) = PCAP_MRU" using inv by (simp add: inv_defs)
  obtain b out ip' where a: "handle_packet conf env (of_nat (62 + length body)) ?pkt st
      = set_state conf env 4 (?g\<lparr>pktbuf := b, events := events ?g @ [Send out]\<rparr>)"
    "drop 42 out = message 3 (c_nid conf) sid ip' []" "length ip' = 4"
    using daemon_answer [OF hdr ip mac b _ _ select_types(2) _ _ _ refl run refl] node user(1)
    by (auto simp: for_node_def at_turn_def type_defs)
  let ?s = "?g\<lparr>pktbuf := b, events := events ?g @ [Send out]\<rparr>"
  have c: "pw_saltbuf (cleared st) = pw_saltbuf st" "saltbuf (cleared st) = saltbuf st" "state (cleared st) = 2"
    "crypt (cleared st) = crypt st" "events (cleared st) = events st" by (simp_all add: cleared_def)
  have "listed env (username ?s) (pw_saltbuf ?s) p salt" "lookup_ok conf env ?s" "state ?s = 2"
    using pw dig c by (simp_all add: lookup_ok_def)
  from open_session [OF this(1,2) t this(3)] obtain sb v where
    "set_state conf env 4 ?s = Some (?s\<lparr>pw_saltbuf := salt, password := p, tce := Some t, saltbuf := sb, pwbuf := v,
      ts := Some (opened conf env (username ?s) p t), state := 4\<rparr>)" by blast
  then show ?thesis using a c by (auto simp: answered_def)
qed

lemma step_prime:
  assumes inv: "ead_inv st" and hdr: "to_daemon hdr" and ip: "length ip = 4" and mac: "length (c_ethmac conf) = 6"
    and node: "for_node conf nid sid" and st: "state st = 4" "ts st = Some s"
  shows "\<exists>st' old. handle_packet conf env (of_nat 62) (hdr @ message 4 nid sid ip [] @ rest) st = Some st'
    \<and> state st' = 6 \<and> ts st' = Some (t_servergenexp (c_host conf) (e_rnd env) s) \<and> crypt st' = crypt st
    \<and> length old = 32 \<and> answered conf st st' 5 sid ([0, 0] @ old @ pw_saltbuf st)"
proof -
  let ?pkt = "hdr @ message 4 nid sid ip [] @ rest"
  have b: "length (pktbuf st) = PCAP_MRU" "length (pw_saltbuf st) = MAXSALTLEN" using inv by (simp_all add: inv_defs)
  have "ts_s s = []" "tce st \<noteq> None" using inv st gettcid_1 by (auto simp: inv_defs)
  note run = prime_answers [OF st(2) this b(2), of ?pkt]
  obtain b' out ip' reply where a: "handle_packet conf env (of_nat (62 + length ([] :: bytes))) ?pkt st
      = set_state conf env 6 (st\<lparr>pktbuf := b', events := events st @ [Send out]\<rparr>)"
    "drop 42 out = message 5 (c_nid conf) sid ip' reply" "length ip' = 4"
    "\<exists>old. length old = 32 \<and> reply = [0, 0] @ old @ pw_saltbuf st"
    using daemon_answer [OF hdr ip mac b(1) _ _ select_types(3) [of conf env] _ _ _ refl run refl] node st(1)
    by (auto simp: for_node_def at_turn_def type_defs)
  then show ?thesis using st by (auto simp: set_state_def type_defs Let_def answered_def)
qed

lemma step_a:
  assumes inv: "ead_inv st" and hdr: "to_daemon hdr" and ip: "length ip = 4" and mac: "length (c_ethmac conf) = 6"
    and node: "for_node conf nid sid" and st: "state st = 6" "ts st = Some s" and a: "length a \<le> 257"
    and key: "t_servergetkey (c_host conf) (e_raw env) a s = (s', k)"
  shows "\<exists>st' y. handle_packet conf env (of_nat (62 + length (x # a))) (hdr @ message 6 nid sid ip (x # a) @ rest) st = Some st'
    \<and> state st' = (if k = None then 6 else 8) \<and> ts st' = Some s'
    \<and> crypt st' = (case k of None \<Rightarrow> crypt st | Some key \<Rightarrow> ead_set_key (c_host conf) key (crypt st))
    \<and> answered conf st st' 7 sid (y # ts_B s)"
proof -
  let ?pkt = "hdr @ message 6 nid sid ip (x # a) @ rest"
  have b: "length (pktbuf st) = PCAP_MRU" "B st = Some (ts_B s)" "length (ts_B s) \<le> MAXPARAMLEN"
    using inv st by (auto simp: inv_defs type_defs)
  have "get32 ?pkt 46 = Some (of_nat (1 + length a))" using frame_fields(6) [OF hdr ip, of 6 nid sid "x # a" rest] by simp
  moreover have "peek ?pkt (DATA + 1) (length a) = Some a"
    using peek_frame [OF hdr ip, of 1 "length a" "x # a"] by (simp add: DATA_def)
  ultimately have run: "answers handle_send_a ?pkt st EAD_TYPE_SEND_AUTH ?pkt (st\<lparr>A := a\<rparr>) (\<lambda>reply. \<exists>y. reply = y # ts_B s)"
    using a_answers [OF b(2,3) _ a] by blast
  obtain b' out ip' reply where p: "handle_packet conf env (of_nat (62 + length (x # a))) ?pkt st
      = set_state conf env 8 (st\<lparr>A := a, pktbuf := b', events := events st @ [Send out]\<rparr>)"
    "drop 42 out = message 7 (c_nid conf) sid ip' reply" "length ip' = 4" "\<exists>y. reply = y # ts_B s"
    using daemon_answer [OF hdr ip mac b(1) _ _ select_types(4) [of conf env] _ _ _ refl run refl] node st(1) a
    by (auto simp: for_node_def at_turn_def type_defs)
  then show ?thesis unfolding p(1) using st key by (cases k) (auto simp: set_state_def type_defs answered_def)
qed

lemma step_auth:
  assumes inv: "ead_inv st" and hdr: "to_daemon hdr" and ip: "length ip = 4" and mac: "length (c_ethmac conf) = 6"
    and node: "for_node conf nid sid" and st: "state st = 8" "ts st = Some s" and auth: "length auth = 20"
    and ok: "t_serververify (c_host conf) auth s = (s', True)"
  shows "\<exists>st'. handle_packet conf env (of_nat (62 + length auth)) (hdr @ message 8 nid sid ip auth @ rest) st = Some st'
    \<and> state st' = 10 \<and> ts st' = Some s' \<and> crypt st' = crypt st \<and> answered conf st st' 9 sid (t_serverresponse s')"
proof -
  let ?pkt = "hdr @ message 8 nid sid ip auth @ rest"
  have b: "length (pktbuf st) = PCAP_MRU" using inv by (simp add: inv_defs)
  have "peek ?pkt DATA SIZE_auth = Some auth" using peek_frame [OF hdr ip, of 0 20 auth] auth by (simp add: layout_defs)
  note run = auth_answers [OF st(2) this ok]
  obtain b' out ip' reply where p: "handle_packet conf env (of_nat (62 + length auth)) ?pkt st
      = set_state conf env 10 (st\<lparr>ts := Some s', pktbuf := b', events := events st @ [Send out]\<rparr>)"
    "drop 42 out = message 9 (c_nid conf) sid ip' reply" "length ip' = 4" "reply = t_serverresponse s'"
    using daemon_answer [OF hdr ip mac b(1) _ _ select_types(5) [of conf env] _ _ _ refl run refl] node st(1) auth
    by (auto simp: for_node_def at_turn_def type_defs)
  then show ?thesis unfolding p(1) using st by (auto simp: set_state_def type_defs answered_def)
qed

section \<open>Commands\<close>

text \<open>Decryption looks at the message only.\<close>

lemma crypt_loop_append:
  "i + len \<le> length a \<Longrightarrow> 16 dvd len \<Longrightarrow> (\<And>b. length (f b) = 16) \<Longrightarrow>
   crypt_loop f (a @ r) i len = map_option (\<lambda>d. d @ r) (crypt_loop f a i len)"
proof (induction f a i len rule: crypt_loop.induct)
  case (1 f a i len)
  show ?case
  proof (cases "len = 0")
    case True
    then show ?thesis by (simp add: crypt_loop.simps)
  next
    case False
    then have "16 \<le> len" using "1.prems"(2) by (simp add: dvd_imp_le)
    then have p: "peek (a @ r) i 16 = Some (take 16 (drop i a))" "peek a i 16 = Some (take 16 (drop i a))"
      using "1.prems"(1) by (simp_all add: peek_def)
    define a' where "a' = take i a @ f (take 16 (drop i a)) @ drop (i + 16) a"
    have q: "poke a i (f (take 16 (drop i a))) = Some a'" "poke (a @ r) i (f (take 16 (drop i a))) = Some (a' @ r)" "length a' = length a"
      using \<open>16 \<le> len\<close> "1.prems"(1,3) by (simp_all add: poke_def a'_def)
    have "16 dvd len - 16" using "1.prems"(2) by (simp add: dvd_diff_nat)
    then have "crypt_loop f (a' @ r) (i + 16) (len - 16) = map_option (\<lambda>d. d @ r) (crypt_loop f a' (i + 16) (len - 16))"
      using "1.IH" [OF False p(2) q(1)] "1.prems"(1,3) q(3) \<open>16 \<le> len\<close> by simp
    then show ?thesis by (subst (1 2) crypt_loop.simps) (simp add: p q False)
  qed
qed

lemma hash_loop_append: "i + len \<le> length a \<Longrightarrow> 64 dvd len \<Longrightarrow> hash_loop dig (a @ r) i len = hash_loop dig a i len"
proof (induction dig a i len rule: hash_loop.induct)
  case (1 dig a i len)
  show ?case
  proof (cases "len = 0")
    case True
    then show ?thesis by (simp add: hash_loop.simps)
  next
    case False
    then have le: "64 \<le> len" using "1.prems"(2) by (simp add: dvd_imp_le)
    then have p: "peek (a @ r) i 64 = Some (take 64 (drop i a))" "peek a i 64 = Some (take 64 (drop i a))"
      using "1.prems"(1) by (simp_all add: peek_def)
    have "64 dvd len - 64" using "1.prems"(2) by (simp add: dvd_diff_nat)
    then have "hash_loop (sha_transform dig (take 64 (drop i a))) (a @ r) (i + 64) (len - 64)
        = hash_loop (sha_transform dig (take 64 (drop i a))) a (i + 64) (len - 64)"
      using "1.IH" [OF False p(2)] "1.prems"(1) le by simp
    then show ?thesis by (subst (1 2) hash_loop.simps) (simp add: p False)
  qed
qed

lemma check_message_append:
  assumes "length a = 64 * n" and "0 < n"
  shows "check_message st (a @ r) (int (64 * n)) = map_option (\<lambda>(m, d, st'). (m, d @ r, st')) (check_message st a (int (64 * n)))"
proof -
  have l: "64 \<le> length a" using assms by simp
  define z where "z = replicate 20 0 @ drop 20 a"
  have i: "idx (a @ r) 24 = Some (a ! 24)" "idx a 24 = Some (a ! 24)" using l by (simp_all add: idx_def nth_append)
  have p: "peek (a @ r) 20 4 = Some (take 4 (drop 20 a))" "peek a 20 4 = Some (take 4 (drop 20 a))"
    "peek (a @ r) 0 20 = Some (take 20 a)" "peek a 0 20 = Some (take 20 a)" using l by (simp_all add: peek_def)
  have "hash_loop sha_init (z @ r) 0 (64 * n) = hash_loop sha_init z 0 (64 * n)"
    using assms l by (intro hash_loop_append) (simp_all add: z_def)
  moreover have "poke (a @ r) 0 (replicate 20 0) = Some (z @ r)" "poke a 0 (replicate 20 0) = Some z"
    using l by (simp_all add: poke_def z_def)
  ultimately have h: "ead_hash_message (a @ r) (int (64 * n)) = map_option (\<lambda>(h, d). (h, d @ r)) (ead_hash_message a (int (64 * n)))"
    by (cases "hash_loop sha_init z 0 (64 * n)") (simp_all add: ead_hash_message_def del: of_nat_mult)
  show ?thesis
    unfolding check_message_def i p h
    by (cases "ead_hash_message a (int (64 * n))") (auto split: prod.split simp del: of_nat_mult)
qed

lemma decrypt_append:
  assumes "length a = 64 * n" and "0 < n" and "64 * n < 2 ^ 31"
  shows "ead_decrypt_message st (a @ r) (of_nat (64 * n))
    = map_option (\<lambda>(m, d, st'). (m, d @ r, st')) (ead_decrypt_message st a (of_nat (64 * n)))"
proof -
  have si: "sint (of_nat (64 * n) :: u32) = int (64 * n)" using assms(3) by (intro sint_of_nat_u32)
  let ?f = "rijndaelDecrypt (aes_dec_ctx st)"
  have c: "crypt_loop ?f (a @ r) 0 (64 * n) = map_option (\<lambda>d. d @ r) (crypt_loop ?f a 0 (64 * n))"
    using assms(1) by (intro crypt_loop_append) (simp_all add: dvd_mult2)
  show ?thesis
  proof (cases "crypt_loop ?f a 0 (64 * n)")
    case None
    then show ?thesis unfolding ead_decrypt_message_def Let_def si nat_int c using assms(2) by (simp add: EAD_ENC_PAD_def)
  next
    case (Some d)
    then have "length d = 64 * n" using crypt_loop_length assms(1) by metis
    from check_message_append [OF this assms(2), of st r] show ?thesis
      unfolding ead_decrypt_message_def Let_def si nat_int c Some using assms(2) by (simp add: EAD_ENC_PAD_def)
  qed
qed

text \<open>A message encrypted under the key arrives, whatever follows it in the frame.\<close>

lemma message_arrives:
  assumes "aes_enc_ctx s = rijndaelKeySetupEnc key" and "aes_dec_ctx r = rijndaelKeySetupDec key"
    and "len + 88 \<le> length data" and "length data < 2 ^ 31"
    and "ead_rx_iv r < fst (ead_get_tx_iv s)" and "fst (ead_get_tx_iv s) \<le> ead_rx_iv r + EAD_MAX_IV_INCR"
  shows "\<exists>c n s'. ead_encrypt_message s data len = Some (c, of_nat (64 * n), s') \<and> length c = length data
    \<and> len + 25 \<le> 64 * n \<and> 64 * n \<le> len + 88
    \<and> (\<forall>rest. \<exists>d r'. ead_decrypt_message r (take (64 * n) c @ rest) (of_nat (64 * n)) = Some (int len, d, r')
         \<and> take len (drop 25 d) = take len (drop 25 data) \<and> r' = r\<lparr>ead_rx_iv := ead_tx_iv s'\<rparr>)"
proof -
  obtain iv s1 where iv: "ead_get_tx_iv s = (iv, s1)" by (meson surj_pair)
  define pad where "pad = (64 - (len + 25) mod 64) mod (64 :: nat)"
  obtain n where n: "len + 25 + pad = 64 * n" "64 * n \<le> len + 88" "0 < n"
    using pad_total [of len] unfolding pad_def by metis
  obtain c where c: "ead_encrypt_message s data len = Some (c, of_nat (64 * n), s1)"
    using encrypt_image [OF assms(3) le_trans [OF n(2) assms(3)] pad_def [symmetric] n(1) iv] by blast
  then obtain d r' where d: "ead_decrypt_message r c (of_nat (64 * n)) = Some (int len, d, r')"
    "take len (drop 25 d) = take len (drop 25 data)" "ead_rx_iv r' = ead_tx_iv s1"
    using ead_roundtrip_aux [OF assms] by auto
  have lc: "length c = length data" by (rule encrypt_state(1) [OF c])
  have k: "64 * n \<le> length c" using n(2) assms(3) lc by linarith
  then have a: "length (take (64 * n) c) = 64 * n" "64 * n < 2 ^ 31" using assms(4) lc by simp_all
  have "ead_decrypt_message r (take (64 * n) c @ drop (64 * n) c) (of_nat (64 * n)) = Some (int len, d, r')"
    using d(1) by simp
  then obtain d0 where d0: "ead_decrypt_message r (take (64 * n) c) (of_nat (64 * n)) = Some (int len, d0, r')" "d = d0 @ drop (64 * n) c"
    unfolding decrypt_append [OF a(1) n(3) a(2)] by auto
  have l0: "length d0 = 64 * n" using decrypt_length [OF d0(1)] a(1) by simp
  have r': "r' = r\<lparr>ead_rx_iv := ead_tx_iv s1\<rparr>" using decrypt_state(2) [OF d(1)] d(3) by simp
  have "len + 25 \<le> length d0" using n(1) l0 by linarith
  then have t: "take len (drop 25 (d0 @ rest)) = take len (drop 25 data)" for rest
    using d(2) unfolding d0(2) by simp
  have "ead_decrypt_message r (take (64 * n) c @ rest) (of_nat (64 * n)) = Some (int len, d0 @ rest, r')" for rest
    unfolding decrypt_append [OF a(1) n(3) a(2)] d0(1) by simp
  then show ?thesis using c lc n r' t
    by (intro exI [of _ c] exI [of _ n] exI [of _ s1]) (auto simp del: of_nat_mult)
qed

lemma replied_events: "replied st st' \<Longrightarrow> \<exists>es. events st' = events st @ es"
  using ran_events by blast

lemma run_cmd_exec:
  assumes "run_cmd conf env 0 timeout pkt st = Some (ok, n, pkt', st')" and "e_pipe env" and "e_fork env"
    and "cstr_at pkt (ENC_DATA + 3) = Some cmd"
  shows "\<exists>es. events st' = events st @ [Exec cmd] @ es"
proof -
  let ?s = "st\<lparr>child_pending := True, events := events st @ [Exec cmd]\<rparr>"
  obtain s to where s: "stream_loop conf pkt to (e_rounds env) ?s = Some s"
    "(if child_pending s then Some (False, state s, pkt, s\<lparr>events := events s @ [Kill]\<rparr>) else cmd_done pkt s) = Some (ok, n, pkt', st')"
    using assms unfolding run_cmd_def Let_def by (auto simp: bind_eq_Some_conv)
  obtain es where es: "events s = events st @ [Exec cmd] @ es" using replied_events [OF stream_loop_replied [OF s(1)]] by auto
  show ?thesis
  proof (cases "child_pending s")
    case True
    then show ?thesis using s(2) es by auto
  next
    case False
    then have "replied s st'" using s(2) cmd_done_replied by simp
    then show ?thesis using replied_events es by fastforce
  qed
qed

text \<open>The payload of a command message: type \<open>EAD_CMD_NORMAL\<close>, a timeout, the text with its NUL.\<close>

definition cmd_payload :: "u16 \<Rightarrow> bytes \<Rightarrow> bytes" where
  "cmd_payload timeout cmd = [0] @ be16 timeout @ cmd @ [0]"

lemma length_cmd_payload [simp]: "length (cmd_payload to cmd) = length cmd + 4"
  by (simp add: cmd_payload_def)

lemma idx_take: "take 1 (drop i p) = [x] \<Longrightarrow> idx p i = Some x"
proof -
  assume t: "take 1 (drop i p) = [x]"
  then have i: "i < length p" by (cases "i < length p") auto
  from Cons_nth_drop_Suc [OF this, symmetric] t have "p ! i = x" by simp
  with i show ?thesis by (simp add: idx_def)
qed

lemma take_inner: "take n (drop i p) = xs \<Longrightarrow> k + m \<le> n \<Longrightarrow> take m (drop (i + k) p) = take m (drop k xs)"
  by (auto simp: drop_take add.commute min_absorb1)

lemma get16_take: "take 2 (drop i p) = be16 x \<Longrightarrow> get16 p i = Some x"
proof -
  assume t: "take 2 (drop i p) = be16 x"
  have "min (length p - i) 2 = 2" using arg_cong [OF t, of length] by (simp only: length_take length_drop length_be16)
  then have "i + 2 \<le> length p" by simp
  then show ?thesis using t by (simp add: get16_def peek_def)
qed

text \<open>A message that decrypts to a command runs it.\<close>

lemma handle_send_cmd_run:
  assumes dec: "ead_decrypt_message (crypt st) (drop DATA pkt) mlen = Some (int (length cmd + 4), d, c)" and m: "get32 pkt 46 = Some mlen"
    and pl: "take (length cmd + 4) (drop 25 d) = cmd_payload to cmd" and cmd: "is_cstr cmd" and len: "length cmd \<le> 1024" and l: "DATA + length cmd + 29 < length pkt"
  shows "\<exists>p. handle_send_cmd conf env pkt st = run_cmd conf env 0 (unat to) p (st\<lparr>crypt := c\<rparr>)
    \<and> cstr_at p (ENC_DATA + 3) = Some cmd \<and> length p = length pkt"
proof -
  let ?p = "take DATA pkt @ d"
  have ld: "length d = length pkt - DATA" using decrypt_length [OF dec] by simp
  have p25: "take (length cmd + 4) (drop ENC_DATA ?p) = [0] @ be16 to @ cmd @ [0]"
    using pl l by (simp add: layout_defs cmd_payload_def)
  have lc: "length cmd + 4 < 2 ^ 31" using len by simp
  have im: "int_minus (int (length cmd + 4)) SIZE_cmd = int (length cmd + 1)"
    unfolding SIZE_cmd_def by (subst int_minus_of_nat [OF lc]) simp_all
  have n: "nat (int_minus (int (length cmd + 4)) SIZE_cmd) = length cmd + 1" "\<not> int_minus (int (length cmd + 4)) SIZE_cmd \<le> 0"
    unfolding im by simp_all
  have ty: "idx ?p ENC_DATA = Some 0" using take_inner [OF p25, of 0 1] by (intro idx_take) simp
  have t: "get16 ?p (ENC_DATA + 1) = Some to" using take_inner [OF p25, of 1 2] by (intro get16_take) simp
  have c: "take (length cmd + 1) (drop (ENC_DATA + 3) ?p) = cmd @ [0]" using take_inner [OF p25, of 3 "length cmd + 1"] by simp
  have lp: "ENC_DATA + 3 + (length cmd + 1) < length ?p" using l ld by (simp add: layout_defs)
  then obtain p2 where p2: "poke ?p (ENC_DATA + 3 + (length cmd + 1)) [0] = Some p2" using poke_ex [of "ENC_DATA + 3 + (length cmd + 1)" "[0]" ?p] by auto
  obtain cc where cc: "cstr_at p2 (ENC_DATA + 3) = Some cc" using cstr_at_defined [OF p2] by blast
  have "cc = cstr (cmd @ [0])" using cstr_at_poke [OF p2 cc] c by simp
  then have "cc = cmd" using cmd by simp
  moreover have ty0: "cmd_type conf 0 = 0" by (cases "c_host conf") (simp_all add: cmd_type_def)
  moreover have "handle_send_cmd conf env pkt st = run_cmd conf env (cmd_type conf 0) (unat to) p2 (st\<lparr>crypt := c\<rparr>)"
    unfolding handle_send_cmd_def m bind.bind_lunit dec prod.case Let_def if_not_P [OF n(2)] ty t n(1) p2 ..
  moreover have "length p2 = length pkt" using length_poke [OF p2] ld l by simp
  ultimately show ?thesis using cc by auto
qed

lemma handle_send_cmd_exec:
  assumes dec: "ead_decrypt_message (crypt st) (drop DATA pkt) mlen = Some (int (length cmd + 4), d, c)" and m: "get32 pkt 46 = Some mlen"
    and pl: "take (length cmd + 4) (drop 25 d) = cmd_payload to cmd" and cmd: "is_cstr cmd" and len: "length cmd \<le> 1024" and l: "DATA + length cmd + 29 < length pkt"
    and run: "handle_send_cmd conf env pkt st = Some (ok, n, pkt', st')" and env: "e_pipe env" "e_fork env"
  shows "\<exists>es. events st' = events st @ [Exec cmd] @ es"
proof -
  obtain p where p: "handle_send_cmd conf env pkt st = run_cmd conf env 0 (unat to) p (st\<lparr>crypt := c\<rparr>)" "cstr_at p (ENC_DATA + 3) = Some cmd"
    using handle_send_cmd_run [OF dec m pl cmd len l] by blast
  show ?thesis using run_cmd_exec [OF run [unfolded p(1)] env p(2)] by simp
qed

lemma step_cmd:
  assumes inv: "ead_inv st" and hdr: "to_daemon hdr" and ip: "length ip = 4" and mac: "length (c_ethmac conf) = 6"
    and node: "for_node conf nid sid" and st: "state st = 10" and keys: "aes_enc_ctx s = rijndaelKeySetupEnc key" "aes_dec_ctx (crypt st) = rijndaelKeySetupDec key"
    and iv: "ead_rx_iv (crypt st) < fst (ead_get_tx_iv s)" "fst (ead_get_tx_iv s) \<le> ead_rx_iv (crypt st) + EAD_MAX_IV_INCR"
    and data: "take (length cmd + 4) (drop 25 data) = cmd_payload to cmd" "length cmd + 92 \<le> length data" "length data < 2 ^ 31"
    and cmd: "is_cstr cmd" "length cmd \<le> 1024" and env: "e_pipe env" "e_fork env" and rest: "rest \<noteq> []"
  shows "\<exists>c n s' st'. ead_encrypt_message s data (length cmd + 4) = Some (c, of_nat (64 * n), s') \<and> 64 * n \<le> length c
    \<and> handle_packet conf env (of_nat (62 + 64 * n)) (hdr @ message 10 nid sid ip (take (64 * n) c) @ rest) st = Some st'
    \<and> (\<exists>es. events st' = events st @ [Exec cmd] @ es)"
proof -
  obtain c n s' where e: "ead_encrypt_message s data (length cmd + 4) = Some (c, of_nat (64 * n), s')" "length c = length data"
    "length cmd + 4 + 25 \<le> 64 * n" "64 * n \<le> length cmd + 4 + 88"
    and d: "\<And>rest. \<exists>d r'. ead_decrypt_message (crypt st) (take (64 * n) c @ rest) (of_nat (64 * n)) = Some (int (length cmd + 4), d, r')
         \<and> take (length cmd + 4) (drop 25 d) = take (length cmd + 4) (drop 25 data) \<and> r' = (crypt st)\<lparr>ead_rx_iv := ead_tx_iv s'\<rparr>"
    using message_arrives [OF keys _ data(3) iv, of "length cmd + 4"] data(2) by auto
  let ?body = "take (64 * n) c"
  let ?pkt = "hdr @ message 10 nid sid ip ?body @ rest"
  have lb: "length ?body = 64 * n" "length ?body < 1500" using e(2,4) data(2) cmd(2) by simp_all
  note f = frame_fields [OF hdr ip, of 10 nid sid ?body rest]
  have m: "get32 ?pkt 46 = Some (of_nat (64 * n))" using f(6) unfolding lb(1) .
  have u: "unat (of_nat (62 + 64 * n) :: u32) = 62 + 64 * n" "unat (of_nat (64 * n) :: u32) = 64 * n"
    using lb by (intro unat_of_nat_u32; simp)+
  have "length ?pkt = 62 + 64 * n + length rest" using f(11) unfolding lb(1) .
  moreover have "0 < length rest" using rest by simp
  ultimately have lp: "62 + 64 * n < length ?pkt" by linarith
  have "\<exists>st'. handle_packet conf env (of_nat (62 + 64 * n)) ?pkt st = Some st'"
  proof (rule handle_packet_defined [OF inv mac _ _ _ m])
    show "get32 ?pkt 50 = Some 2 \<longrightarrow> lookup_ok conf env st" using f(7) by simp
    show "unat (of_nat (62 + 64 * n) :: u32) < length ?pkt" unfolding u by (rule lp)
    show "unat (of_nat (62 + 64 * n) :: u32) < 2 ^ 31" unfolding u using lb by simp
    show "0 < unat (of_nat (64 * n) :: u32)" unfolding u using e(3) by simp
    show "62 + unat (of_nat (64 * n) :: u32) < 2 ^ 32" unfolding u using lb by simp
  qed
  then obtain st' where st': "handle_packet conf env (of_nat (62 + 64 * n)) ?pkt st = Some st'" by blast
  obtain b where b: "reply_header conf 10 (be16 sid) (pktbuf st) = Some b"
    using reply_header_msg [of "pktbuf st" "be16 sid" conf 10] inv by (auto simp: inv_defs)
  have mm: "90 \<le> 62 + length ?body" unfolding lb(1) using e(3) by linarith
  have turn: "at_turn (sint (10 :: u32)) st" using st by (simp add: at_turn_def)
  have nd: "nid = 0xffff \<or> nid = c_nid conf" "(10 :: u32) = 0 \<or> unat (drop_bit 12 (sid AND 0xf000)) = c_inst conf"
    using node by (simp_all add: for_node_def)
  note dp = daemon_dispatch [OF hdr ip nd select_types(6) [of conf env] turn mm lb(2) refl b, unfolded lb(1), of rest]
  obtain ok k pkt' s1 s2 where r: "handle_send_cmd conf env ?pkt (st\<lparr>pktbuf := b\<rparr>) = Some (ok, k, pkt', s1)"
    "(if ok then ead_send_packet_clone conf pkt' s1 else Some s1) = Some s2" "set_state conf env k s2 = Some st'"
    using st' unfolding dp by (auto simp: bind_eq_Some_conv)
  obtain dd r' where dd: "ead_decrypt_message (crypt st) (?body @ rest) (of_nat (64 * n)) = Some (int (length cmd + 4), dd, r')"
    "take (length cmd + 4) (drop 25 dd) = cmd_payload to cmd" using d data(1) by metis
  have dr: "ead_decrypt_message (crypt (st\<lparr>pktbuf := b\<rparr>)) (drop DATA ?pkt) (of_nat (64 * n)) = Some (int (length cmd + 4), dd, r')"
    using dd(1) f(10) by (simp add: DATA_def)
  have "DATA + length cmd + 29 < length ?pkt" using lp e(3) by (simp add: DATA_def)
  from handle_send_cmd_exec [OF dr m dd(2) cmd this r(1) env(1,2)]
  obtain es where es: "events s1 = events st @ [Exec cmd] @ es" by auto
  have "\<exists>es'. events s2 = events s1 @ es'"
    using r(2) clone_replied [THEN replied_events] by (cases ok) auto
  then have "\<exists>es. events st' = events st @ [Exec cmd] @ es" using es set_state_events [OF r(3)] by auto
  moreover have "64 * n \<le> length c" using e(2,4) data(2) by simp
  ultimately show ?thesis using e(1) st' by blast
qed

section \<open>A session\<close>

text \<open>After the key is set, the first message sent is inside the window of the receiver.\<close>

lemma first_iv:
  "ead_rx_iv (ead_set_key e key c) < fst (ead_get_tx_iv (ead_set_key e' key c'))"
  "fst (ead_get_tx_iv (ead_set_key e' key c')) \<le> ead_rx_iv (ead_set_key e key c) + EAD_MAX_IV_INCR"
proof -
  define w where "w = of_be32 (take 4 (drop 32 key)) AND 0x00ffffff"
  define k where "k = drop_bit (2 * ivofs_idx c') (dec32 e' (take 4 (drop 36 key))) AND 3"
  have "k \<le> 3" "w \<le> 0x00ffffff" unfolding k_def w_def by (rule word_and_le1)+
  then have u: "unat k \<le> 3" "unat w \<le> 16777215" by (simp_all add: word_le_nat_alt)
  have k1: "unat (1 + k) = 1 + unat k" using u by (subst unat_plus_if') simp
  have s: "unat (w + (1 + k)) = unat w + 1 + unat k" "unat (w + 128) = unat w + 128"
    using u k1 by (subst unat_plus_if'; simp)+
  have f: "fst (ead_get_tx_iv (ead_set_key e' key c')) = w + (1 + k)" "ead_rx_iv (ead_set_key e key c) = w"
    by (simp_all add: ead_get_tx_iv_def ead_set_key_def Let_def w_def k_def)
  show "ead_rx_iv (ead_set_key e key c) < fst (ead_get_tx_iv (ead_set_key e' key c'))"
    unfolding f word_less_nat_alt s by simp
  show "fst (ead_get_tx_iv (ead_set_key e' key c')) \<le> ead_rx_iv (ead_set_key e key c) + EAD_MAX_IV_INCR"
    unfolding f word_le_nat_alt EAD_MAX_IV_INCR_def s using u by simp
qed

definition hdr0 :: bytes where
  "hdr0 = replicate 6 0xff @ replicate 6 0 @ be16 0x0800 @ replicate 9 0 @ [17] @ replicate 12 0 @ be16 EAD_PORT @ replicate 4 0"

lemma hdr0: "to_daemon hdr0"
  by (simp add: to_daemon_def hdr0_def nth_append)

lemma inst_sid: "c_inst conf < 16 \<Longrightarrow> for_node conf 0xffff (push_bit 12 (of_nat (c_inst conf)))"
proof -
  assume "c_inst conf < 16"
  then have "c_inst conf \<in> {0, 1, 2, 3, 4, 5, 6, 7, 8, 9, 10, 11, 12, 13, 14, 15}" by simp presburger
  then show ?thesis unfolding for_node_def by (elim insertE emptyE) (simp_all add: push_bit_eq_mult)
qed

lemma user_field: "is_cstr user \<Longrightarrow> length user \<le> 31 \<Longrightarrow> cstr (take 31 (user @ replicate (32 - length user) 0)) = user"
proof -
  assume u: "is_cstr user" "length user \<le> 31"
  then have "take 31 (user @ replicate (32 - length user) 0) = user @ replicate (31 - length user) 0" by simp
  also have "cstr \<dots> = user"
    using u(1) by (cases "31 - length user") (auto simp: is_cstr_def cstr_def takeWhile_eq_all_conv takeWhile_append)
  finally show ?thesis .
qed

lemma session_runs:
  assumes inv: "ead_inv st" and mac: "length (c_ethmac conf) = 6" and inst: "c_inst conf < 16"
    and user: "is_cstr user" "length user \<le> 31" and pw: "listed env user (pw_saltbuf st) p salt"
    and cmd: "is_cstr cmd" "length cmd \<le> 1024" and env: "e_pipe env" "e_fork env" "lookup_ok conf env st"
  shows "\<exists>a env' hlen pkt st' es. (ead_step conf)\<^sup>*\<^sup>* st a \<and> handle_packet conf env' hlen pkt a = Some st'
    \<and> events st' = events a @ [Exec cmd] @ es"
proof -
  let ?sid = "push_bit 12 (of_nat (c_inst conf)) :: u16" and ?ip = "[0, 0, 0, 0] :: bytes"
  have ip: "length ?ip = 4" by simp
  note node = inst_sid [OF inst]
  obtain t where t: "gettcid tpe_index = Some t" "BigIntegerFromBytes (generator t) = 2" using odd_modulus by metis
  let ?ub = "user @ replicate (32 - length user) 0"
  have ub: "length ?ub = 32" using user(2) by simp
  obtain s1 where s1: "handle_packet conf env (of_nat (62 + length ?ub)) (hdr0 @ message 2 0xffff ?sid ?ip ?ub @ []) st = Some s1"
    "state s1 = 4" "ts s1 = Some (opened conf env user p t)"
    using step_user [OF inv hdr0 ip mac node ub user_field [OF user] pw env(3) t(1), of "[]"] by blast
  have i1: "ead_inv s1" by (rule handle_packet_inv [OF inv s1(1)])
  let ?s = "t_servergenexp (c_host conf) (e_rnd env) (opened conf env user p t)"
  obtain s2 where s2: "handle_packet conf env (of_nat 62) (hdr0 @ message 4 0xffff ?sid ?ip [] @ []) s1 = Some s2"
    "state s2 = 6" "ts s2 = Some ?s"
    using step_prime [OF i1 hdr0 ip mac node s1(2,3), of env "[]"] by blast
  have i2: "ead_inv s2" by (rule handle_packet_inv [OF i1 s2(1)])
  have sn: "ts_n ?s = modulus t" by (simp add: opened_def)
  have sv: "BigIntegerFromBytes (ts_v ?s)
      = 2 ^ BigIntegerFromBytes (password_digest (c_host conf) (e_raw env) [] user p) mod BigIntegerFromBytes (modulus t)"
    using t(2) by (simp add: opened_def BigIntegerModExp_def)
  obtain a s' key where a: "t_servergetkey (c_host conf) (e_raw env) [a] ?s = (s', Some key)"
    using server_key_possible [OF t(1) sn sv] by blast
  obtain s3 where s3: "handle_packet conf env (of_nat (62 + length [0, a])) (hdr0 @ message 6 0xffff ?sid ?ip [0, a] @ []) s2 = Some s3"
    "state s3 = 8" "ts s3 = Some s'" "crypt s3 = ead_set_key (c_host conf) key (crypt s2)"
    using step_a [OF i2 hdr0 ip mac node s2(2,3) _ a, of 0 "[]"] by auto
  have i3: "ead_inv s3" by (rule handle_packet_inv [OF i2 s3(1)])
  let ?auth = "fst (SHA1Final (c_host conf) (ts_oldckhash s'))"
  obtain s'' where v: "t_serververify (c_host conf) ?auth s' = (s'', True)"
  proof -
    have "\<exists>s''. t_serververify (c_host conf) ?auth s' = (s'', True)"
      by (simp add: t_serververify_def Let_def case_prod_unfold)
    then show thesis using that by blast
  qed
  obtain s4 where s4: "handle_packet conf env (of_nat (62 + length ?auth)) (hdr0 @ message 8 0xffff ?sid ?ip ?auth @ []) s3 = Some s4"
    "state s4 = 10" "crypt s4 = crypt s3"
    using step_auth [OF i3 hdr0 ip mac node s3(2,3) length_final v, of env "[]"] by blast
  have i4: "ead_inv s4" by (rule handle_packet_inv [OF i3 s4(1)])
  let ?data = "replicate 25 0 @ cmd_payload 0 cmd @ replicate 88 0"
  have k: "aes_enc_ctx (crypt s4) = rijndaelKeySetupEnc key" "aes_dec_ctx (crypt s4) = rijndaelKeySetupDec key"
    unfolding s4(3) s3(4) by simp_all
  have iv: "ead_rx_iv (crypt s4) < fst (ead_get_tx_iv (crypt s4))" "fst (ead_get_tx_iv (crypt s4)) \<le> ead_rx_iv (crypt s4) + EAD_MAX_IV_INCR"
    unfolding s4(3) s3(4) by (rule first_iv)+
  have d: "take (length cmd + 4) (drop 25 ?data) = cmd_payload 0 cmd" "length cmd + 92 \<le> length ?data" "length ?data < 2 ^ 31"
    using cmd(2) by simp_all
  obtain hlen pkt s5 es where s5: "handle_packet conf env hlen pkt s4 = Some s5" "events s5 = events s4 @ [Exec cmd] @ es"
    using step_cmd [OF i4 hdr0 ip mac node s4(2) k iv d cmd env(1,2), of "[0]"] by blast
  have "(ead_step conf)\<^sup>*\<^sup>* st s4"
    using ead_step.frame [OF s1(1)] ead_step.frame [OF s2(1)] ead_step.frame [OF s3(1)] ead_step.frame [OF s4(1)]
    by (meson converse_rtranclp_into_rtranclp r_into_rtranclp)
  then show ?thesis using s5 by blast
qed

section \<open>Concrete sessions\<close>

text \<open>One node, and a password file with one line.\<close>

definition conf0 :: ead_conf where
  "conf0 = \<lparr>c_host = BE, c_dev_name = str ''RUT2xx'', c_nid = 1, c_ethmac = [0, 0x13, 0x37, 1, 2, 3], c_inst = 0,
     c_rw = True\<rparr>"

definition env0 :: ead_env where
  "env0 = \<lparr>e_raw = raw0, e_passwd = Some (str ''root:$1$s$h:0''), e_dig = replicate 20 1, e_rnd = replicate 32 7,
     e_pipe = True, e_fork = True, e_rounds = []\<rparr>"

lemma fgets_line: "10 \<notin> set l \<Longrightarrow> length l < n - 1 \<Longrightarrow> fgets n l = l"
proof -
  assume l: "10 \<notin> set l" "length l < n - 1"
  then have tw: "takeWhile (\<lambda>c. c \<noteq> 10) l = l" by (auto simp: takeWhile_eq_all_conv)
  have tk: "take (n - 1) l = l" using l(2) by simp
  show "fgets n l = l" unfolding fgets_def Let_def tk tw by simp
qed

lemma listed0: "\<exists>salt. listed env0 (str ''root'') (pw_saltbuf ead_start) (str ''$1$s$h'') salt"
proof -
  define l where "l = str ''root:$1$s$h:0''"
  have l: "l = [114, 111, 111, 116, 58, 36, 49, 36, 115, 36, 104, 58, 48]" by (simp add: l_def str_def)
  have f: "fgets 1023 l = l" unfolding l by (rule fgets_line) simp_all
  have c: "cstr l = l" unfolding l by (simp add: cstr_def)
  have "\<exists>salt'. passwd_line (str ''root'') salt l = (Some (str ''$1$s$h''), salt')" for salt
    unfolding l by (simp add: passwd_line_def str_def strchr_from_def Let_def MAXSALTLEN_def MAXPARAMLEN_def)
  then obtain salt' where "passwd_line (str ''root'') (pw_saltbuf ead_start) l = (Some (str ''$1$s$h''), salt')" by blast
  then have "passwd_loop (str ''root'') (pw_saltbuf ead_start) l = (Some (str ''$1$s$h''), salt')"
    unfolding passwd_loop.simps [of _ _ l] Let_def f c using l by simp
  then show ?thesis unfolding listed_def env0_def l_def by auto
qed

lemma dig0: "lookup_ok conf0 env0 ead_start"
  by (simp add: lookup_ok_def ead_start_def conf0_def env0_def MAXSALTLEN_def SHA_DIGESTSIZE_def numeral_eq_Suc)

lemma run0:
  "\<exists>a env' hlen pkt st' es. (ead_step conf0)\<^sup>*\<^sup>* ead_start a \<and> handle_packet conf0 env' hlen pkt a = Some st'
    \<and> events st' = events a @ [Exec (str ''reboot'')] @ es"
proof -
  obtain salt where l: "listed env0 (str ''root'') (pw_saltbuf ead_start) (str ''$1$s$h'') salt" using listed0 by blast
  show ?thesis
  proof (rule session_runs [OF inv_start _ _ _ _ l])
    show "lookup_ok conf0 env0 ead_start" by (rule dig0)
  qed (simp_all add: conf0_def env0_def str_def)
qed

lemma ead_exec_authenticated_witness:
  "\<exists>(st :: ead) pkt (st' :: ead) a pkt' s. decrypts_to (crypt st) pkt (str ''reboot'') \<and> events st' \<noteq> events st
    \<and> proves_password conf0 pkt' a s \<and> ts st = Some s \<and> aes_dec_ctx (crypt st) = rijndaelKeySetupDec (ts_session_key s)"
proof -
  obtain a env' hlen pkt st' es where r: "(ead_step conf0)\<^sup>*\<^sup>* ead_start a" "handle_packet conf0 env' hlen pkt a = Some st'"
    "events st' = events a @ [Exec (str ''reboot'')] @ es" using run0 by blast
  have "Exec (str ''reboot'') \<in> set ([Exec (str ''reboot'')] @ es)" by simp
  from ead_exec_authenticated [OF r this] obtain b pkt' s where e: "decrypts_to (crypt a) pkt (str ''reboot'')"
    "proves_password conf0 pkt' b s" "ts a = Some s" "aes_dec_ctx (crypt a) = rijndaelKeySetupDec (ts_session_key s)" by blast
  have "events st' \<noteq> events a" using r(3) by simp
  with e show ?thesis by blast
qed

lemma ead_invariant_witness: "\<exists>st. state st = 10 \<and> ead_inv st"
proof -
  obtain a env' hlen pkt st' es where r: "(ead_step conf0)\<^sup>*\<^sup>* ead_start a" "handle_packet conf0 env' hlen pkt a = Some st'"
    "events st' = events a @ [Exec (str ''reboot'')] @ es" using run0 by blast
  have "state a = 10" using packet_effect [OF steps_inv [OF r(1)] r(2)] r(3) by auto
  then show ?thesis using ead_invariant [OF r(1)] by blast
qed

lemma ead_frame_safe_witness:
  "\<exists>st'. handle_packet conf0 env0 94 (hdr0 @ message 2 0xffff 0 [0, 0, 0, 0] (replicate 32 0) @ [0]) ead_start = Some st' \<and> ead_inv st'"
proof (rule ead_frame_safe [OF inv_start])
  have ip: "length [0, 0, 0, 0 :: u8] = 4" by simp
  note f = frame_fields [OF hdr0 ip, of 2 "0xffff" 0 "replicate 32 0" "[0]"]
  show "get32 (hdr0 @ message 2 0xffff 0 [0, 0, 0, 0] (replicate 32 0) @ [0]) 46 = Some 32" using f(6) by simp
  show "unat (94 :: u32) < length (hdr0 @ message 2 0xffff 0 [0, 0, 0, 0] (replicate 32 0) @ [0])" using f(11) by simp
  show "get32 (hdr0 @ message 2 0xffff 0 [0, 0, 0, 0] (replicate 32 0) @ [0]) 50 = Some 2 \<longrightarrow> lookup_ok conf0 env0 ead_start"
    using dig0 by simp
qed (simp_all add: conf0_def)

lemma ead_send_checksums_witness:
  "\<exists>st' out. ead_send_packet_clone conf0 (replicate 62 0) ead_start = Some st' \<and> events st' = [Send out]
    \<and> chksum 0 (take 20 (drop 14 out)) = 0xffff"
proof -
  have "get32 (pktbuf ead_start) 46 = Some 0"
    by (simp add: ead_start_def PCAP_MRU_def get32_def peek_def) (simp add: numeral_eq_Suc)
  then have "reply_ok (pktbuf ead_start)" by (simp add: reply_ok_def ead_start_def PCAP_MRU_def)
  then obtain st' where c: "ead_send_packet_clone conf0 (replicate 62 0) ead_start = Some st'"
    using clone_defined [of conf0 "replicate 62 0" ead_start] by (auto simp: conf0_def)
  have "length (c_ethmac conf0) = 6" "length (pktbuf ead_start) \<le> 1600" by (simp_all add: conf0_def ead_start_def PCAP_MRU_def)
  from ead_send_checksums [OF c this] c show ?thesis by (auto simp: ead_start_def)
qed

end
