(* ===== verification/Lmo.thy ===== *)
theory Lmo
  imports Prelude "HOL-Library.Sublist"
begin

text \<open>
  \<open>custom_feeds/teltonika_luci/libs/lmo/src\<close>: the translation catalogues of the web interface.
  \<open>po2lmo\<close> (\<open>lmo_po2lmo.c\<close>) reads a PO file line by line and writes the texts with an index of
  hashes (\<open>lmo_hash.c\<close>); \<open>lmo_open\<close> and \<open>lmo_lookup\<close> (\<open>lmo_core.c\<close>) read it on the router.

  The four line buffers of \<open>po2lmo\<close> are byte lists of 4096 bytes; what \<open>tmp\<close> holds at the start is an
  argument. A file is its bytes, and writes succeed. \<open>mem\<close> says which allocation sizes can be served.
  \<open>char\<close> is signed, on the build host as on the router. \<^term>\<open>None\<close> is an access outside a buffer.
\<close>

section \<open>The hash\<close>

definition sfh_get16 :: "u8 \<Rightarrow> u8 \<Rightarrow> u32" where
  "sfh_get16 d0 d1 = push_bit 8 (ucast d1) + ucast d0"

text \<open>The main loop takes four bytes per round; what it leaves are the \<open>rem\<close> last bytes.\<close>

fun sfh_main :: "u32 \<Rightarrow> bytes \<Rightarrow> u32 \<times> bytes" where
  "sfh_main hash (d0 # d1 # d2 # d3 # data) =
     (let hash = hash + sfh_get16 d0 d1;
          tmp = push_bit 11 (sfh_get16 d2 d3) XOR hash;
          hash = push_bit 16 hash XOR tmp
      in sfh_main (hash + drop_bit 11 hash) data)"
| "sfh_main hash data = (hash, data)"

fun sfh_end :: "u32 \<Rightarrow> bytes \<Rightarrow> u32" where
  "sfh_end hash [d0, d1, d2] =
     (let hash = hash + sfh_get16 d0 d1;
          hash = hash XOR push_bit 16 hash;
          hash = hash XOR push_bit 18 (scast d2)
      in hash + drop_bit 11 hash)"
| "sfh_end hash [d0, d1] =
     (let hash = hash + sfh_get16 d0 d1; hash = hash XOR push_bit 11 hash in hash + drop_bit 17 hash)"
| "sfh_end hash [d0] =
     (let hash = hash + scast d0; hash = hash XOR push_bit 10 hash in hash + drop_bit 1 hash)"
| "sfh_end hash _ = hash"

definition sfh_avalanche :: "u32 \<Rightarrow> u32" where
  "sfh_avalanche hash =
     (let hash = hash XOR push_bit 3 hash; hash = hash + drop_bit 5 hash;
          hash = hash XOR push_bit 4 hash; hash = hash + drop_bit 17 hash;
          hash = hash XOR push_bit 25 hash
      in hash + drop_bit 6 hash)"

definition sfh_hash :: "bytes \<Rightarrow> u32" where
  "sfh_hash data =
     (if data = [] then 0
      else let (hash, rest) = sfh_main (of_nat (length data)) data in sfh_avalanche (sfh_end hash rest))"

section \<open>Reading a PO file\<close>

definition LINE :: nat where "LINE = 4096"

text \<open>\<open>fgets\<close> with a buffer of \<open>n + 1\<close> bytes: the line and what is left of the file.\<close>

fun fgets :: "nat \<Rightarrow> bytes \<Rightarrow> bytes \<times> bytes" where
  "fgets 0 file = ([], file)"
| "fgets (Suc n) [] = ([], [])"
| "fgets (Suc n) (c # file) =
     (if c = 10 then ([c], file) else let (line, rest) = fgets n file in (c # line, rest))"

text \<open>\<open>off\<close> is \<^term>\<open>None\<close> for \<open>-1\<close>; the source is what is left of it from \<open>pos\<close> on.\<close>

fun extract_loop :: "nat \<Rightarrow> nat \<Rightarrow> bytes \<Rightarrow> nat option \<Rightarrow> bool \<Rightarrow> bytes \<Rightarrow> (nat option \<times> bytes) option" where
  "extract_loop len pos [] off esc dest = Some (off, dest)"
| "extract_loop len pos (c # src) off esc dest =
     (if pos < len then
        case off of
          None \<Rightarrow> extract_loop len (pos + 1) src (if c = 34 then Some (pos + 1) else None) esc dest
        | Some o' \<Rightarrow>
            if esc then do { dest \<leftarrow> poke dest (pos - o') [c]; extract_loop len (pos + 1) src off False dest }
            else if c = 92 then extract_loop len (pos + 1) src (Some (o' + 1)) True dest
            else if c \<noteq> 34 then do { dest \<leftarrow> poke dest (pos - o') [c]; extract_loop len (pos + 1) src off esc dest }
            else do { dest \<leftarrow> poke dest (pos - o') [0]; Some (off, dest) }
      else Some (off, dest))"

definition extract_string :: "bytes \<Rightarrow> bytes \<Rightarrow> nat \<Rightarrow> (int \<times> bytes) option" where
  "extract_string src dest len =
     do { (off, dest) \<leftarrow> extract_loop len 0 src None False dest;
          case off of
            None \<Rightarrow> Some (- 1, dest)
          | Some _ \<Rightarrow> do { s \<leftarrow> cstr_at dest 0; Some (int (length s), dest) } }"

definition strcat :: "bytes \<Rightarrow> bytes \<Rightarrow> bytes option" where
  "strcat dest src =
     do { d \<leftarrow> cstr_at dest 0; s \<leftarrow> cstr_at src 0; poke dest (length d) (s @ [0]) }"

section \<open>The converter\<close>

record lmo_entry =
  le_key :: u32
  le_val :: u32
  le_offset :: u32
  le_length :: u32

record po =
  po_state :: nat
  po_key :: bytes
  po_val :: bytes
  po_tmp :: bytes
  po_offset :: nat
  po_head :: "lmo_entry list"
  po_out :: bytes

definition po_start :: "bytes \<Rightarrow> po" where
  "po_start junk =
     \<lparr>po_state = 0, po_key = replicate LINE 0, po_val = replicate LINE 0, po_tmp = junk, po_offset = 0,
      po_head = [], po_out = []\<rparr>"

text \<open>Each step goes on, or ends the program in \<open>die\<close>.\<close>

datatype po_step = Die | Go po

definition po_msgid :: "bytes \<Rightarrow> po \<Rightarrow> po_step option" where
  "po_msgid line st =
     do { (n, key) \<leftarrow> extract_string line (po_key st) LINE;
          let st = st\<lparr>po_key := key\<rparr>;
          Some (if n = - 1 then Die else if n = 0 then Go (st\<lparr>po_state := 1\<rparr>) else Go (st\<lparr>po_state := 2\<rparr>)) }"

definition po_msgstr :: "bytes \<Rightarrow> po \<Rightarrow> po_step option" where
  "po_msgstr line st =
     (if prefix (str ''msgstr \"'') line \<or> po_state st = 2 then
        do { (n, val) \<leftarrow> extract_string line (po_val st) LINE;
             Some (Go (st\<lparr>po_val := val, po_state := (if n = - 1 then 4 else 3)\<rparr>)) }
      else
        do { (n, tmp) \<leftarrow> extract_string line (po_tmp st) LINE;
             let st = st\<lparr>po_tmp := tmp\<rparr>;
             if n = - 1 then Some (Go (st\<lparr>po_state := 2\<rparr>))
             else do { key \<leftarrow> strcat (po_key st) tmp; Some (Go (st\<lparr>po_key := key\<rparr>)) } })"

definition po_more :: "bytes \<Rightarrow> po \<Rightarrow> po_step option" where
  "po_more line st =
     do { (n, tmp) \<leftarrow> extract_string line (po_tmp st) LINE;
          let st = st\<lparr>po_tmp := tmp\<rparr>;
          if n = - 1 then Some (Go (st\<lparr>po_state := 4\<rparr>))
          else do { val \<leftarrow> strcat (po_val st) tmp; Some (Go (st\<lparr>po_val := val\<rparr>)) } }"

definition po_add :: "(nat \<Rightarrow> bool) \<Rightarrow> bytes \<Rightarrow> bytes \<Rightarrow> po \<Rightarrow> po_step option" where
  "po_add mem key val st =
     (let key_id = sfh_hash key; val_id = sfh_hash val; len = length val + (4 - length val mod 4) mod 4 in
      if key_id \<noteq> val_id then
        if mem 24 then
          do { text \<leftarrow> peek (po_val st) 0 len;
               if po_offset st + len < 2 ^ 31 then
                 Some (Go (st\<lparr>po_out := po_out st @ text, po_offset := po_offset st + len,
                   po_head := \<lparr>le_key = key_id, le_val = val_id, le_offset = of_nat (po_offset st),
                     le_length = of_nat (length val)\<rparr> # po_head st\<rparr>))
               else None }
        else Some Die
      else Some (Go st))"

definition po_flush :: "(nat \<Rightarrow> bool) \<Rightarrow> po \<Rightarrow> po_step option" where
  "po_flush mem st =
     do { key \<leftarrow> cstr_at (po_key st) 0;
          r \<leftarrow> (if key \<noteq> [] then
                do { val \<leftarrow> cstr_at (po_val st) 0; if val \<noteq> [] then po_add mem key val st else Some (Go st) }
              else Some (Go st));
          Some (case r of
              Die \<Rightarrow> Die
            | Go st \<Rightarrow> Go (st\<lparr>po_state := 0, po_key := replicate LINE 0, po_val := replicate LINE 0\<rparr>)) }"

text \<open>The body of the loop of \<open>main\<close>, for one line.\<close>

definition po_line :: "(nat \<Rightarrow> bool) \<Rightarrow> bytes \<Rightarrow> po \<Rightarrow> po_step option" where
  "po_line mem line st =
     do { r \<leftarrow> (if po_state st = 0 \<and> prefix (str ''msgid \"'') line then po_msgid line st
              else if po_state st = 1 \<or> po_state st = 2 then po_msgstr line st
              else if po_state st = 3 then po_more line st
              else Some (Go st));
          case r of
            Die \<Rightarrow> Some Die
          | Go st \<Rightarrow> if po_state st = 4 then po_flush mem st else Some (Go st) }"

text \<open>The loop of \<open>main\<close>: a run that does not return is \<^term>\<open>None\<close>; it returns with a final state, in
  \<open>die\<close>, or by leaving a buffer.\<close>

datatype po_end = Outside | Died | Finished po

partial_function (option) po_loop :: "(nat \<Rightarrow> bool) \<Rightarrow> bytes \<Rightarrow> po \<Rightarrow> po_end option" where
  "po_loop mem file st =
     (if file \<noteq> [] \<or> 2 \<le> po_state st then
        let (line, rest) = fgets (LINE - 1) file in
        case po_line mem (cstr line) st of
          None \<Rightarrow> Some Outside
        | Some Die \<Rightarrow> Some Died
        | Some (Go st) \<Rightarrow> po_loop mem rest st
      else Some (Finished st))"

definition entry_bytes :: "lmo_entry \<Rightarrow> bytes" where
  "entry_bytes en = be32 (le_key en) @ be32 (le_val en) @ be32 (le_offset en) @ be32 (le_length en)"

text \<open>The end of \<open>main\<close>: the file that is written; without texts it is removed.\<close>

definition po_finish :: "po \<Rightarrow> bytes option" where
  "po_finish st =
     (let out = po_out st @ concat (map entry_bytes (po_head st)) in
      if po_offset st > 0 then Some (out @ be32 (of_nat (po_offset st))) else None)"

text \<open>How the program ends: outside a buffer, or with an exit status and the file of a complete run.\<close>

datatype po_exit = Crash | Status nat "bytes option"

definition po2lmo :: "(nat \<Rightarrow> bool) \<Rightarrow> bytes \<Rightarrow> nat \<Rightarrow> bytes option \<Rightarrow> bool \<Rightarrow> po_exit option" where
  "po2lmo mem junk argc input writable =
     (case input of
        None \<Rightarrow> Some (Status 1 None)
      | Some file \<Rightarrow>
          if argc \<noteq> 3 \<or> \<not> writable then Some (Status 1 None)
          else
            do { r \<leftarrow> po_loop mem file (po_start junk);
                 Some (case r of
                     Outside \<Rightarrow> Crash
                   | Died \<Rightarrow> Status 1 None
                   | Finished st \<Rightarrow> Status 0 (po_finish st)) })"

declare po_loop.simps [code]

section \<open>Reading a catalogue\<close>

record lmo_archive =
  ar_length :: u32
  ar_index :: "lmo_entry list"
  ar_mmap :: bytes

definition lmo_read32 :: "bytes \<Rightarrow> nat \<Rightarrow> u32 option" where
  "lmo_read32 file pos = map_option of_be32 (peek file pos 4)"

text \<open>The offset \<open>-sizeof(uint32_t)\<close> is an unsigned number. As an \<open>off_t\<close> of the same width it is
  \<open>-4\<close>; where \<open>off_t\<close> is wider (\<open>wide\<close>) it is \<open>2\<^sup>3\<^sup>2 - 4\<close>.\<close>

definition seek_end :: "bool \<Rightarrow> nat \<Rightarrow> nat option" where
  "seek_end wide n = (if wide then Some (n + (2 ^ 32 - 4)) else if n < 4 then None else Some (n - 4))"

definition seek_set :: "bool \<Rightarrow> u32 \<Rightarrow> nat option" where
  "seek_set wide off = (if wide \<or> unat off < 2 ^ 31 then Some (unat off) else None)"

definition lmo_read_entry :: "bytes \<Rightarrow> nat \<Rightarrow> lmo_entry option" where
  "lmo_read_entry file i =
     do { k \<leftarrow> lmo_read32 file i; v \<leftarrow> lmo_read32 file (i + 4); off \<leftarrow> lmo_read32 file (i + 8);
          len \<leftarrow> lmo_read32 file (i + 12);
          Some \<lparr>le_key = k, le_val = v, le_offset = off, le_length = len\<rparr> }"

text \<open>The index: each entry is put before the others; \<^term>\<open>None\<close> is the way to \<open>cleanup\<close>.\<close>

function lmo_index :: "(nat \<Rightarrow> bool) \<Rightarrow> bytes \<Rightarrow> nat \<Rightarrow> lmo_entry list \<Rightarrow> lmo_entry list option" where
  "lmo_index mem file i head =
     (if i < length file - 4 then
        if mem 20 then do { en \<leftarrow> lmo_read_entry file i; lmo_index mem file (i + 16) (en # head) } else None
      else Some head)"
  by pat_completeness auto
termination by (relation "measure (\<lambda>(mem, file, i, head). length file - i)") auto

declare lmo_index.simps [simp del]

text \<open>The pages a mapping of \<open>n\<close> bytes gives access to: the file is followed by zeros up to the end
  of its last page. A mapping of no bytes fails.\<close>

definition PAGE :: nat where "PAGE = 4096"

definition mmap_file :: "bytes \<Rightarrow> nat \<Rightarrow> bytes option" where
  "mmap_file file n =
     (if n = 0 then None
      else Some (take ((n + PAGE - 1) div PAGE * PAGE) (file @ replicate (nat (- int (length file) mod int PAGE)) 0)))"

text \<open>\<open>lmo_open\<close> returns NULL (\<^term>\<open>None\<close>) or the archive.\<close>

definition lmo_open :: "bool \<Rightarrow> (nat \<Rightarrow> bool) \<Rightarrow> bytes option \<Rightarrow> lmo_archive option" where
  "lmo_open wide mem input =
     do { file \<leftarrow> input;
          p \<leftarrow> seek_end wide (length file);
          idx_offset \<leftarrow> lmo_read32 file p;
          i \<leftarrow> seek_set wide idx_offset;
          if mem 16 then
            do { head \<leftarrow> lmo_index mem file i [];
                 m \<leftarrow> mmap_file file (unat idx_offset);
                 Some \<lparr>ar_length = idx_offset, ar_index = head, ar_mmap = m\<rparr> }
          else None }"

text \<open>\<open>len\<close> is an \<open>int\<close>; it is compared with the length of the entry as an unsigned number.\<close>

fun lmo_find :: "bytes \<Rightarrow> lmo_entry list \<Rightarrow> u32 \<Rightarrow> bytes \<Rightarrow> int \<Rightarrow> (int \<times> bytes) option" where
  "lmo_find m [] look_key dest len = Some (- 1, dest)"
| "lmo_find m (en # index) look_key dest len =
     (if le_key en = look_key then
        let copy_len = (if (of_int (len - 1) :: u32) > le_length en then le_length en else of_int (len - 1)) in
        do { text \<leftarrow> peek m (unat (le_offset en)) (unat copy_len);
             dest \<leftarrow> poke dest 0 text;
             dest \<leftarrow> poke dest (unat copy_len) [0];
             Some (sint copy_len, dest) }
      else lmo_find m index look_key dest len)"

definition lmo_lookup :: "lmo_archive option \<Rightarrow> bytes \<Rightarrow> bytes \<Rightarrow> int \<Rightarrow> (int \<times> bytes) option" where
  "lmo_lookup ar key dest len =
     (case ar of
        None \<Rightarrow> Some (- 1, dest)
      | Some ar \<Rightarrow> lmo_find (ar_mmap ar) (ar_index ar) (sfh_hash key) dest len)"

end
