(* ===== verification/Lmo_Laws.thy ===== *)
theory Lmo_Laws
  imports Lmo
begin

text \<open>
  Laws of the translation catalogues: the converter ends on every input, and a catalogue that was
  written as a PO file, converted and opened answers each lookup with the first text of that hash.
\<close>

section \<open>The converter ends\<close>

lemma fgets_rest: "fgets n inp = (line, rest) \<Longrightarrow> inp \<noteq> [] \<Longrightarrow> 0 < n \<Longrightarrow> length rest < length inp"
proof (induction n inp arbitrary: line rest rule: fgets.induct)
  case (3 n c inp)
  show ?case
  proof (cases "c = 10 \<or> n = 0 \<or> inp = []")
    case True
    then show ?thesis using "3.prems" by (cases n) (auto split: if_splits)
  next
    case False
    obtain l r where lr: "fgets n inp = (l, r)" by fastforce
    with "3.IH" [of l r] False "3.prems" show ?thesis by auto
  qed
qed auto

lemma po_msgid_state: "po_msgid line st = Some (Go st') \<Longrightarrow> po_state st' \<le> 2"
  by (auto simp: po_msgid_def Let_def split: if_splits bind_splits)

lemma po_msgstr_state: "po_msgstr line st = Some (Go st') \<Longrightarrow> po_state st \<le> 4 \<Longrightarrow> po_state st' \<le> 4"
  by (auto simp: po_msgstr_def Let_def split: if_splits bind_splits)

lemma po_more_state: "po_more line st = Some (Go st') \<Longrightarrow> po_state st \<le> 4 \<Longrightarrow> po_state st' \<le> 4"
  by (auto simp: po_more_def Let_def split: if_splits bind_splits)

lemma po_flush_state: "po_flush mem st = Some (Go st') \<Longrightarrow> po_state st' = 0"
  by (auto simp: po_flush_def split: if_splits bind_splits po_step.splits)

lemma po_line_state: "po_line mem line st = Some (Go st') \<Longrightarrow> po_state st \<le> 4 \<Longrightarrow> po_state st' \<le> 4"
  by (auto simp: po_line_def dest!: po_msgid_state po_msgstr_state po_more_state po_flush_state
      split: if_splits bind_splits po_step.splits)

lemma extract_none: "extract_string [] dest len = Some (- 1, dest)"
  by (simp add: extract_string_def)

lemma po_line_eof: "po_line mem [] st = Some (Go st') \<Longrightarrow> 2 \<le> po_state st \<Longrightarrow> po_state st \<le> 4 \<Longrightarrow> po_state st' = 0"
  by (auto simp: po_line_def po_msgstr_def po_more_def extract_none dest!: po_flush_state
      split: if_splits bind_splits po_step.splits)

lemma po_loop_step:
  assumes "inp \<noteq> [] \<or> 2 \<le> po_state st" and "fgets (LINE - 1) inp = (line, rest)"
  shows "po_loop mem inp st =
    (case po_line mem (cstr line) st of
       None \<Rightarrow> Some Outside | Some Die \<Rightarrow> Some Died | Some (Go st) \<Rightarrow> po_loop mem rest st)"
  by (subst po_loop.simps) (simp only: assms Let_def prod.case if_True)

lemma po_loop_stop: "po_state st < 2 \<Longrightarrow> po_loop mem [] st = Some (Finished st)"
  by (subst po_loop.simps) simp

lemma po_loop_ends: "po_state st \<le> 4 \<Longrightarrow> \<exists>r. po_loop mem inp st = Some r"
proof (induction "length inp" arbitrary: inp st rule: less_induct)
  case less
  obtain line rest where lr: "fgets (LINE - 1) inp = (line, rest)" by fastforce
  show ?case
  proof (cases "inp \<noteq> [] \<or> 2 \<le> po_state st")
    case True
    have "\<exists>r. po_loop mem rest st' = Some r" if go: "po_line mem (cstr line) st = Some (Go st')" for st'
    proof (cases "inp = []")
      case False
      then have "length rest < length inp" using fgets_rest [OF lr] by (simp add: LINE_def)
      then show ?thesis using less.hyps po_line_state [OF go less.prems] by blast
    next
      case e: True
      then have "line = []" "rest = []" using lr by (auto simp: LINE_def eval_nat_numeral)
      with True e go less.prems show ?thesis
        using po_line_eof [of mem st st'] po_loop_stop [of st' mem] by (simp add: cstr_def)
    qed
    then show ?thesis unfolding po_loop_step [OF True lr] by (auto split: option.split po_step.split)
  qed (auto simp: po_loop_stop not_le)
qed

text \<open>C25. \<open>po2lmo\<close> ends on every input file. Its loop goes on after the end of the file as long as an
  entry is open (\<open>state >= 2 && feof(in)\<close>), but the empty line it then works on closes the entry, so
  that the loop is left in the next round. The program exits with status 0 or 1, unless a text is too
  long for its buffer.\<close>

theorem po2lmo_ends: "\<exists>r. po2lmo mem junk argc input writable = Some r"
proof -
  obtain r where "\<And>inp. input = Some inp \<Longrightarrow> po_loop mem inp (po_start junk) = Some r"
    using po_loop_ends [of "po_start junk" mem "the input"] by (cases input) (auto simp: po_start_def)
  then show ?thesis by (auto simp: po2lmo_def split: option.split)
qed

section \<open>Lines of a PO file\<close>

definition po_escape :: "bytes \<Rightarrow> bytes" where
  "po_escape s = concat (map (\<lambda>c. if c = 34 \<or> c = 92 then [92, c] else [c]) s)"

lemma po_escape_simps [simp]:
  "po_escape [] = []" "po_escape (c # s) = (if c = 34 \<or> c = 92 then [92, c] else [c]) @ po_escape s"
  by (simp_all add: po_escape_def)

lemma po_escape_in: "x \<in> set (po_escape s) \<Longrightarrow> x = 92 \<or> x \<in> set s"
  by (induction s) (auto split: if_splits)

lemma length_po_escape: "length s \<le> length (po_escape s)"
  by (induction s) auto

lemma extract_skip:
  "34 \<notin> set p \<Longrightarrow> pos + length p < len \<Longrightarrow>
   extract_loop len pos (p @ 34 # src) None esc dest
     = extract_loop len (pos + length p + 1) src (Some (pos + length p + 1)) esc dest"
  by (induction p arbitrary: pos) auto

lemma extract_none_loop: "34 \<notin> set src \<Longrightarrow> extract_loop len pos src None esc dest = Some (None, dest)"
  by (induction src arbitrary: pos) auto

lemma extract_copies:
  "off \<le> pos \<Longrightarrow> pos + length (po_escape s) < len \<Longrightarrow> pos - off + length s < length dest \<Longrightarrow>
   \<exists>off'. extract_loop len pos (po_escape s @ 34 # src) (Some off) False dest
     = Some (Some off', take (pos - off) dest @ s @ 0 # drop (pos - off + length s + 1) dest)"
proof (induction s arbitrary: pos off dest)
  case Nil
  then show ?case by (simp add: poke_def)
next
  case (Cons c s)
  let ?d = "take (pos - off) dest @ [c] @ drop (pos - off + 1) dest"
  have len: "length (take (pos - off) dest) = pos - off" and ld: "length ?d = length dest" using Cons.prems by simp_all
  have t: "take (Suc (pos - off)) ?d = take (pos - off) dest @ [c]" using len by (simp add: take_append)
  have d: "drop (Suc (pos - off) + length s + 1) ?d = drop (pos - off + length (c # s) + 1) dest"
    using len by (simp add: drop_append add_ac)
  have eq: "\<And>off'. Some (Some off', take (Suc (pos - off)) ?d @ s @ 0 # drop (Suc (pos - off) + length s + 1) ?d)
      = Some (Some off', take (pos - off) dest @ (c # s) @ 0 # drop (pos - off + length (c # s) + 1) dest)"
    by (simp only: t d) simp
  have pk: "poke dest (pos - off) [c] = Some ?d" using Cons.prems by (simp add: poke_def)
  show ?case
  proof (cases "c = 34 \<or> c = 92")
    case True
    have "\<exists>off'. extract_loop len (pos + 2) (po_escape s @ 34 # src) (Some (off + 1)) False ?d
        = Some (Some off', take (Suc (pos - off)) ?d @ s @ 0 # drop (Suc (pos - off) + length s + 1) ?d)"
      using Cons.IH [of "off + 1" "pos + 2" ?d] True Cons.prems unfolding ld by (simp add: Suc_diff_le)
    then show ?thesis using True Cons.prems pk unfolding eq by (auto simp: Suc_diff_le)
  next
    case False
    have "\<exists>off'. extract_loop len (pos + 1) (po_escape s @ 34 # src) (Some off) False ?d
        = Some (Some off', take (Suc (pos - off)) ?d @ s @ 0 # drop (Suc (pos - off) + length s + 1) ?d)"
      using Cons.IH [of "off" "pos + 1" ?d] False Cons.prems unfolding ld by (simp add: Suc_diff_le)
    then show ?thesis using False Cons.prems pk unfolding eq by auto
  qed
qed

lemma cstr_at_0: "is_cstr s \<Longrightarrow> cstr_at (s @ 0 # r) 0 = Some s"
  using cstr_at_append [of s "[]" r] by simp

lemma extract_quoted:
  assumes "34 \<notin> set p" and "length p + length (po_escape s) + 1 < len" and "length s < length dest" and "is_cstr s"
  shows "extract_string (p @ 34 # po_escape s @ 34 # src) dest len = Some (int (length s), s @ 0 # drop (length s + 1) dest)"
proof -
  obtain off' where "extract_loop len (length p + 1) (po_escape s @ 34 # src) (Some (length p + 1)) False dest
      = Some (Some off', s @ 0 # drop (length s + 1) dest)"
    using extract_copies [of "length p + 1" "length p + 1" s len dest src] assms(2,3) by auto
  then show ?thesis
    using extract_skip [of p 0 len "po_escape s @ 34 # src" False dest] assms
    by (simp add: extract_string_def cstr_at_0)
qed

text \<open>A text that fits a line: no NUL, no line feed.\<close>

definition po_ok :: "bytes \<Rightarrow> bool" where
  "po_ok s \<longleftrightarrow> is_cstr s \<and> 10 \<notin> set s \<and> length (po_escape s) + 10 < LINE"

definition msgid :: bytes where "msgid = str ''msgid ''"
definition msgstr :: bytes where "msgstr = str ''msgstr ''"

lemma str_snoc: "str (a @ b) = str a @ str b"
  by (simp add: str_def)

lemma prefixes: "str ''msgid \"'' = msgid @ [34]" "str ''msgstr \"'' = msgstr @ [34]"
  by (simp_all add: msgid_def msgstr_def str_def)

lemma lines_plain: "34 \<notin> set msgid" "34 \<notin> set msgstr" "10 \<notin> set msgid" "10 \<notin> set msgstr" "is_cstr msgid" "is_cstr msgstr"
  "length msgid = 6" "length msgstr = 7"
  by (simp_all add: msgid_def msgstr_def str_def is_cstr_def)

definition quoted :: "bytes \<Rightarrow> bytes" where
  "quoted s = 34 # po_escape s @ [34]"

lemma po_fgets_line: "10 \<notin> set l \<Longrightarrow> length l < n \<Longrightarrow> fgets n (l @ 10 # rest) = (l @ [10], rest)"
proof (induction l arbitrary: n)
  case Nil
  then show ?case by (cases n) auto
next
  case (Cons c l)
  then show ?case by (cases n) auto
qed

lemma quoted_line:
  assumes "po_ok s" shows "10 \<notin> set (quoted s)" "is_cstr (quoted s)" "length (quoted s) < LINE - 8"
  using assms po_escape_in [of 10 s] po_escape_in [of 0 s] by (auto simp: po_ok_def quoted_def is_cstr_def)

lemma cstr_line: "is_cstr l \<Longrightarrow> cstr (l @ [10]) = l @ [10]"
  unfolding cstr_def is_cstr_def by (subst takeWhile_eq_all_conv) auto

section \<open>One entry\<close>

abbreviation zeros :: bytes where "zeros \<equiv> replicate LINE 0"

text \<open>Between two entries the buffers are cleared.\<close>

definition idle :: "po \<Rightarrow> bool" where
  "idle st \<longleftrightarrow> po_state st = 0 \<and> po_key st = zeros \<and> po_val st = zeros"

definition buf :: "bytes \<Rightarrow> bytes" where
  "buf s = s @ replicate (LINE - length s) 0"

lemma buf_zeros: "length s < LINE \<Longrightarrow> s @ 0 # drop (length s + 1) zeros = buf s"
proof -
  assume "length s < LINE"
  then have "LINE - length s = Suc (LINE - length s - 1)" by simp
  then show ?thesis unfolding buf_def drop_replicate by (metis Suc_eq_plus1 diff_Suc_eq_diff_pred diff_diff_left replicate_Suc)
qed

lemma cstr_buf: "is_cstr s \<Longrightarrow> length s < LINE \<Longrightarrow> cstr_at (buf s) 0 = Some s"
  using buf_zeros [of s] cstr_at_0 [of s] by metis

lemma po_ok_length: "po_ok s \<Longrightarrow> length s < LINE" "po_ok s \<Longrightarrow> is_cstr s"
  using length_po_escape [of s] by (auto simp: po_ok_def)

lemma extract_line:
  assumes "po_ok s" and "p = msgid \<or> p = msgstr"
  shows "extract_string (p @ quoted s @ [10]) zeros LINE = Some (int (length s), buf s)"
  using extract_quoted [of p s LINE zeros "[10]"] assms po_ok_length [OF assms(1)] buf_zeros [of s] lines_plain
  by (auto simp: quoted_def po_ok_def)

lemma po_line_msgid:
  assumes "po_state st = 0" and "po_key st = zeros" and "po_ok s"
  shows "po_line mem (msgid @ quoted s @ [10]) st =
    Some (Go (st\<lparr>po_key := buf s, po_state := (if s = [] then 1 else 2)\<rparr>))"
proof -
  have "prefix (str ''msgid \"'') (msgid @ quoted s @ [10])" by (simp add: prefixes quoted_def)
  then show ?thesis using assms extract_line [of s msgid] by (simp add: po_line_def po_msgid_def)
qed

lemma po_line_msgstr:
  assumes "po_state st = 1 \<or> po_state st = 2" and "po_val st = zeros" and "po_ok s"
  shows "po_line mem (msgstr @ quoted s @ [10]) st = Some (Go (st\<lparr>po_val := buf s, po_state := 3\<rparr>))"
proof -
  have "prefix (str ''msgstr \"'') (msgstr @ quoted s @ [10])" by (simp add: prefixes quoted_def)
  then show ?thesis using assms extract_line [of s msgstr] by (auto simp: po_line_def po_msgstr_def)
qed

lemma po_line_blank: "po_state st = 3 \<Longrightarrow> po_line mem [10] st = po_flush mem (st\<lparr>po_state := 4\<rparr>)"
proof -
  have "extract_string [10] (po_tmp st) LINE = Some (- 1, po_tmp st)"
    using extract_none_loop [of "[10]"] by (simp add: extract_string_def)
  then show "po_state st = 3 \<Longrightarrow> ?thesis" by (simp add: po_line_def po_more_def)
qed

text \<open>Which entries the converter keeps, and what it adds for them.\<close>

fun kept :: "bytes \<times> bytes \<Rightarrow> bool" where
  "kept (k, v) \<longleftrightarrow> k \<noteq> [] \<and> v \<noteq> [] \<and> sfh_hash k \<noteq> sfh_hash v"

definition padded :: "bytes \<Rightarrow> bytes" where
  "padded v = v @ replicate ((4 - length v mod 4) mod 4) 0"

fun add :: "bytes \<times> bytes \<Rightarrow> po \<Rightarrow> po" where
  "add (k, v) st =
     st\<lparr>po_out := po_out st @ padded v, po_offset := po_offset st + length (padded v),
        po_head := \<lparr>le_key = sfh_hash k, le_val = sfh_hash v, le_offset = of_nat (po_offset st),
          le_length = of_nat (length v)\<rparr> # po_head st\<rparr>"

lemma peek_padded:
  assumes "length v < LINE"
  shows "peek (buf v) 0 (length v + (4 - length v mod 4) mod 4) = Some (padded v)"
proof -
  have "length v mod 4 = 0 \<or> length v mod 4 = 1 \<or> length v mod 4 = 2 \<or> length v mod 4 = 3" by arith
  moreover have "length v = 4 * (length v div 4) + length v mod 4" "length v div 4 < 1024" using assms by (simp_all add: LINE_def)
  ultimately have "(4 - length v mod 4) mod 4 \<le> LINE - length v" unfolding LINE_def by (elim disjE) simp_all
  then show ?thesis by (simp add: peek_def buf_def padded_def)
qed

lemma po_flush_entry:
  assumes "po_key st = buf k" and "po_val st = buf v" and "po_ok k" and "po_ok v" and "mem 24"
    and "po_offset st + length (padded v) < 2 ^ 31"
  shows "po_flush mem st = Some (Go ((if kept (k, v) then add (k, v) st else st)
    \<lparr>po_state := 0, po_key := zeros, po_val := zeros\<rparr>))"
  using assms peek_padded [of v] po_ok_length [of k] po_ok_length [of v]
  by (auto simp: po_flush_def po_add_def cstr_buf Let_def padded_def)

fun po_entry :: "bytes \<times> bytes \<Rightarrow> bytes" where
  "po_entry (k, v) = msgid @ quoted k @ [10] @ msgstr @ quoted v @ [10, 10]"

definition po_text :: "(bytes \<times> bytes) list \<Rightarrow> bytes" where
  "po_text cat = concat (map po_entry cat)"

lemma fgets_msg:
  assumes "po_ok s" and "p = msgid \<or> p = msgstr"
  shows "fgets (LINE - 1) (p @ quoted s @ 10 # rest) = (p @ quoted s @ [10], rest)"
    and "cstr (p @ quoted s @ [10]) = p @ quoted s @ [10]"
  using po_fgets_line [of "p @ quoted s" "LINE - 1" rest] cstr_line [of "p @ quoted s"] quoted_line [OF assms(1)] assms(2) lines_plain
  by auto

lemma po_loop_entry:
  assumes "idle st" and "po_ok k" and "po_ok v" and "mem 24" and "po_offset st + length (padded v) < 2 ^ 31"
  shows "po_loop mem (po_entry (k, v) @ rest) st = po_loop mem rest (if kept (k, v) then add (k, v) st else st)"
proof -
  let ?st1 = "st\<lparr>po_key := buf k, po_state := (if k = [] then 1 else 2)\<rparr>"
  let ?st2 = "?st1\<lparr>po_val := buf v, po_state := 3\<rparr>"
  let ?fin = "(if kept (k, v) then add (k, v) st else st)"
  have "po_loop mem (po_entry (k, v) @ rest) st = po_loop mem (msgstr @ quoted v @ 10 # 10 # rest) ?st1"
    using assms po_line_msgid [of st k mem] fgets_msg(1) [of k msgid "msgstr @ quoted v @ 10 # 10 # rest"] fgets_msg(2) [of k msgid]
      po_loop_step [of "po_entry (k, v) @ rest" st "msgid @ quoted k @ [10]"] by (simp add: idle_def lines_plain)
  also have "\<dots> = po_loop mem (10 # rest) ?st2"
    using assms po_line_msgstr [of ?st1 v mem] fgets_msg(1) [of v msgstr "10 # rest"] fgets_msg(2) [of v msgstr]
      po_loop_step [of "msgstr @ quoted v @ 10 # 10 # rest" ?st1 "msgstr @ quoted v @ [10]"]
    by (simp add: idle_def)
  also have "\<dots> = po_loop mem rest (?fin\<lparr>po_state := 0, po_key := zeros, po_val := zeros\<rparr>)"
  proof -
    have "fgets (LINE - 1) (10 # rest) = ([10], rest)" by (simp add: LINE_def eval_nat_numeral)
    moreover have "cstr [10] = [10]" by (simp add: cstr_def)
    moreover have "po_flush mem (?st2\<lparr>po_state := 4\<rparr>) = Some (Go (?fin\<lparr>po_state := 0, po_key := zeros, po_val := zeros\<rparr>))"
      using assms by (subst po_flush_entry [where k = k and v = v]) auto
    ultimately show ?thesis
      using po_loop_step [of "10 # rest" ?st2 "[10]" rest mem] po_line_blank [of ?st2 mem] by simp
  qed
  also have "?fin\<lparr>po_state := 0, po_key := zeros, po_val := zeros\<rparr> = ?fin"
    using assms(1) by (auto simp: idle_def)
  finally show ?thesis .
qed

section \<open>The whole catalogue\<close>

text \<open>\<open>holds_entry out en kv\<close>: the entry is that of the text, which lies in \<open>out\<close> at its offset.\<close>

fun holds_entry :: "bytes \<Rightarrow> lmo_entry \<Rightarrow> bytes \<times> bytes \<Rightarrow> bool" where
  "holds_entry out en (k, v) \<longleftrightarrow>
     le_key en = sfh_hash k \<and> unat (le_length en) = length v \<and>
     peek out (unat (le_offset en)) (length v) = Some v"

lemma holds_entry_append: "holds_entry out en kv \<Longrightarrow> holds_entry (out @ r) en kv"
  by (cases kv) (auto simp: peek_Some_iff)

lemma padded_length: "length v \<le> length (padded v)"
  by (simp add: padded_def)

definition cat_size :: "(bytes \<times> bytes) list \<Rightarrow> nat" where
  "cat_size cat = sum_list (map (length \<circ> padded \<circ> snd) cat)"

lemma po_loop_text:
  assumes "\<forall>(k, v) \<in> set cat. po_ok k \<and> po_ok v" and "mem 24"
    and "idle st" and "po_offset st = length (po_out st)" and "length (po_out st) + cat_size cat < 2 ^ 31"
    and "list_all2 (holds_entry (po_out st)) (rev (po_head st)) done"
  shows "\<exists>st'. po_loop mem (po_text cat) st = Some (Finished st') \<and> po_offset st' = length (po_out st')
    \<and> length (po_out st') \<le> length (po_out st) + cat_size cat
    \<and> list_all2 (holds_entry (po_out st')) (rev (po_head st')) (done @ filter kept cat)"
  using assms
proof (induction cat arbitrary: st "done")
  case Nil
  then show ?case using po_loop_stop [of st mem] by (simp add: po_text_def idle_def cat_size_def)
next
  case (Cons kv cat)
  obtain k v where kv: "kv = (k, v)" by (cases kv)
  have ok: "po_ok k" "po_ok v" "\<forall>(k, v) \<in> set cat. po_ok k \<and> po_ok v" using Cons.prems(1) kv by auto
  have size: "cat_size (kv # cat) = length (padded v) + cat_size cat" by (simp add: cat_size_def kv)
  let ?st = "if kept (k, v) then add (k, v) st else st"
  have step: "po_loop mem (po_text (kv # cat)) st = po_loop mem (po_text cat) ?st"
    using po_loop_entry [of st k v mem "po_text cat"] Cons.prems(2-5) ok size
    by (simp add: po_text_def kv)
  show ?case
  proof (cases "kept (k, v)")
    case False
    have "\<exists>st'. po_loop mem (po_text cat) st = Some (Finished st') \<and> po_offset st' = length (po_out st')
        \<and> length (po_out st') \<le> length (po_out st) + cat_size cat
        \<and> list_all2 (holds_entry (po_out st')) (rev (po_head st')) (done @ filter kept cat)"
      using Cons.prems(2-6) ok(3) size by (intro Cons.IH) auto
    with False show ?thesis unfolding step size by (auto simp: kv simp del: kept.simps)
  next
    case True
    let ?en = "hd (po_head (add (k, v) st))"
    have "length v < 2 ^ 32" using po_ok_length(1) [OF ok(2)] by (simp add: LINE_def)
    moreover have "po_offset st < 2 ^ 32" using Cons.prems(4,5) by simp
    ultimately have "holds_entry (po_out (add (k, v) st)) ?en (k, v)"
      using Cons.prems(4) by (auto simp: unat_of_nat_u32 peek_Some_iff padded_def)
    moreover have "list_all2 (holds_entry (po_out (add (k, v) st))) (rev (po_head st)) done"
      using Cons.prems(6) by (rule list_all2_mono) (simp add: holds_entry_append)
    ultimately have "list_all2 (holds_entry (po_out (add (k, v) st))) (rev (po_head (add (k, v) st))) (done @ [(k, v)])"
      by (auto intro: list_all2_appendI)
    then have "\<exists>st'. po_loop mem (po_text cat) (add (k, v) st) = Some (Finished st') \<and> po_offset st' = length (po_out st')
        \<and> length (po_out st') \<le> length (po_out (add (k, v) st)) + cat_size cat
        \<and> list_all2 (holds_entry (po_out st')) (rev (po_head st')) ((done @ [(k, v)]) @ filter kept cat)"
      using Cons.prems(2-5) ok(3) size by (intro Cons.IH) (auto simp: idle_def)
    with True show ?thesis unfolding step size by (auto simp: kv simp del: kept.simps)
  qed
qed

section \<open>Opening the file\<close>

lemma length_entry_bytes [simp]: "length (entry_bytes en) = 16"
  by (simp add: entry_bytes_def)

lemma lmo_read32_at: "length a = i \<Longrightarrow> lmo_read32 (a @ be32 w @ r) i = Some w"
  by (auto simp: lmo_read32_def peek_def)

lemma lmo_read_entry_at: "lmo_read_entry (a @ entry_bytes en @ r) (length a) = Some en"
  using lmo_read32_at [of a "length a" "le_key en"]
    lmo_read32_at [of "a @ be32 (le_key en)" "length a + 4" "le_val en"]
    lmo_read32_at [of "a @ be32 (le_key en) @ be32 (le_val en)" "length a + 8" "le_offset en"]
    lmo_read32_at [of "a @ be32 (le_key en) @ be32 (le_val en) @ be32 (le_offset en)" "length a + 12" "le_length en"]
  by (simp add: lmo_read_entry_def entry_bytes_def)

lemma lmo_index_entries:
  assumes "mem 20"
  shows "lmo_index mem (a @ concat (map entry_bytes es) @ be32 x) (length a) head = Some (rev es @ head)"
proof (induction es arbitrary: a head)
  case Nil
  then show ?case by (simp add: lmo_index.simps)
next
  case (Cons en es)
  have "lmo_index mem (a @ entry_bytes en @ concat (map entry_bytes es) @ be32 x) (length a) head
      = lmo_index mem ((a @ entry_bytes en) @ concat (map entry_bytes es) @ be32 x) (length (a @ entry_bytes en)) (en # head)"
    using lmo_read_entry_at [of a en "concat (map entry_bytes es) @ be32 x"] assms
    by (subst lmo_index.simps) simp
  with Cons.IH [of "a @ entry_bytes en" "en # head"] show ?case by simp
qed

lemma mmap_file_prefix: "0 < length a \<Longrightarrow> \<exists>m. mmap_file (a @ r) (length a) = Some (a @ m)"
proof -
  assume "0 < length a"
  have "length a \<le> (length a + PAGE - 1) div PAGE * PAGE"
    using dividend_less_div_times [of PAGE "length a + PAGE - 1"] by (simp add: PAGE_def)
  then show ?thesis using \<open>0 < length a\<close> by (auto simp: mmap_file_def take_append)
qed

lemma lmo_open_file:
  assumes "0 < length out" and "length out < 2 ^ 31" and "mem 16" and "mem 20"
  shows "\<exists>m. lmo_open False mem (Some (out @ concat (map entry_bytes es) @ be32 (of_nat (length out))))
    = Some \<lparr>ar_length = of_nat (length out), ar_index = rev es, ar_mmap = out @ m\<rparr>"
proof -
  let ?f = "out @ concat (map entry_bytes es) @ be32 (of_nat (length out))"
  obtain m where m: "mmap_file ?f (length out) = Some (out @ m)" using mmap_file_prefix [OF assms(1)] by blast
  have l: "unat (of_nat (length out) :: u32) = length out" using assms(2) by (intro unat_of_nat_u32) simp
  have "lmo_read32 ?f (length ?f - 4) = Some (of_nat (length out))"
    using lmo_read32_at [of "out @ concat (map entry_bytes es)" "length ?f - 4" "of_nat (length out)" "[]"] by simp
  moreover have "seek_end False (length ?f) = Some (length ?f - 4)" by (simp add: seek_end_def)
  ultimately show ?thesis
    using lmo_index_entries [of mem out es "of_nat (length out)" "[]"] m l assms(2-4)
    by (simp add: lmo_open_def seek_set_def)
qed

text \<open>Where \<open>off_t\<close> is wider than \<open>size_t\<close>, the first seek goes four gigabytes behind the end and no
  catalogue can be opened.\<close>

lemma lmo_open_wide: "lmo_open True mem input = None"
  by (cases input) (simp_all add: lmo_open_def seek_end_def lmo_read32_def peek_def)

section \<open>Lookups\<close>

lemma poke_text: "length t < length dest \<Longrightarrow> do { d \<leftarrow> poke dest 0 t; poke d (length t) [0] } = Some (t @ 0 # drop (length t + 1) dest)"
  by (simp add: poke_def)

lemma peek_shorter: "peek out i n = Some v \<Longrightarrow> j \<le> n \<Longrightarrow> peek (out @ m) i j = Some (take j v)"
  by (auto simp: peek_Some_iff min_def)

lemma lmo_find_first:
  assumes "list_all2 (holds_entry out) index kvs" and "\<forall>(k, v) \<in> set kvs. length v < 2 ^ 31"
    and "0 < n" and "n < 2 ^ 31" and "length dest = n"
  shows "lmo_find (out @ m) index h dest (int n) =
    (case find (\<lambda>(k, v). sfh_hash k = h) kvs of
       None \<Rightarrow> Some (- 1, dest)
     | Some (k, v) \<Rightarrow> let t = take (n - 1) v in Some (int (length t), t @ 0 # drop (length t + 1) dest))"
  using assms(1,2)
proof (induction rule: list_all2_induct)
  case (Cons en index kv kvs)
  obtain k v where kv: "kv = (k, v)" by (cases kv)
  show ?case
  proof (cases "sfh_hash k = h")
    case True
    let ?c = "if (of_int (int n - 1) :: u32) > le_length en then le_length en else of_int (int n - 1)"
    have e: "le_key en = h" "unat (le_length en) = length v" "peek out (unat (le_offset en)) (length v) = Some v"
      using Cons.hyps(1) True kv by auto
    have n1: "(of_int (int n - 1) :: u32) = of_nat (n - 1)" using assms(3) by (simp add: of_nat_diff)
    have u: "unat (of_nat (n - 1) :: u32) = n - 1" using assms(4) by (intro unat_of_nat_u32) simp
    have c: "unat ?c = length (take (n - 1) v)"
      unfolding n1 using u e(2) by (auto simp: word_less_nat_alt)
    have "unat ?c < 2 ^ 31" using c Cons.prems kv by (auto simp: min_def)
    then have si: "sint ?c = int (length (take (n - 1) v))"
      unfolding c [symmetric] by (rule sint_small)
    have pk: "peek (out @ m) (unat (le_offset en)) (unat ?c) = Some (take (n - 1) v)"
    proof -
      have "take (length (take (n - 1) v)) v = take (n - 1) v" by (simp add: min_def)
      then show ?thesis unfolding c using peek_shorter [OF e(3), of "length (take (n - 1) v)"] by simp
    qed
    have "length (take (n - 1) v) < length dest" using assms(3,5) by auto
    from poke_text [OF this] obtain d where d: "poke dest 0 (take (n - 1) v) = Some d"
      "poke d (length (take (n - 1) v)) [0] = Some (take (n - 1) v @ 0 # drop (length (take (n - 1) v) + 1) dest)"
      by (auto simp: bind_eq_Some_conv)
    have "lmo_find (out @ m) (en # index) h dest (int n)
        = Some (int (length (take (n - 1) v)), take (n - 1) v @ 0 # drop (length (take (n - 1) v) + 1) dest)"
      unfolding lmo_find.simps Let_def pk si using e(1) by (simp only: pk c d bind.bind_lunit if_True) simp
    then show ?thesis using True kv by simp
  next
    case False
    then show ?thesis using Cons kv by auto
  qed
qed simp

text \<open>C24. A catalogue that is written as a PO file (each key and each text on one line, with quotes and
  backslashes escaped; a key continued on a second line is not covered, and gets the wrong text), converted by \<open>po2lmo\<close> and opened by \<open>lmo_open\<close> answers \<open>lmo_lookup\<close> with the first text
  of the catalogue whose key has the hash of the key that is looked up, cut to the size of the buffer
  and terminated, and with -1 if there is none. Entries with an empty key or text, and entries whose
  text has the hash of the key, are left out. The converter and \<open>lmo_open\<close> each reverse the order of
  the entries, so that the first of several entries wins.\<close>

theorem lmo_roundtrip:
  assumes "\<forall>(k, v) \<in> set cat. po_ok k \<and> po_ok v" and "cat_size cat < 2 ^ 31" and "\<exists>kv \<in> set cat. kept kv"
    and "mem 24" and "mem' 16" and "mem' 20"
  shows "\<exists>lmo. po2lmo mem junk 3 (Some (po_text cat)) True = Some (Status 0 (Some lmo)) \<and>
    (\<forall>key n dest. 0 < n \<longrightarrow> n < 2 ^ 31 \<longrightarrow> length dest = n \<longrightarrow>
       lmo_lookup (lmo_open False mem' (Some lmo)) key dest (int n) =
         (case find (\<lambda>(k, v). sfh_hash k = sfh_hash key) (filter kept cat) of
            None \<Rightarrow> Some (- 1, dest)
          | Some (k, v) \<Rightarrow> let t = take (n - 1) v in Some (int (length t), t @ 0 # drop (length t + 1) dest)))"
proof -
  obtain st where st: "po_loop mem (po_text cat) (po_start junk) = Some (Finished st)"
    "po_offset st = length (po_out st)" "length (po_out st) \<le> cat_size cat"
    "list_all2 (holds_entry (po_out st)) (rev (po_head st)) (filter kept cat)"
    using po_loop_text [of cat mem "po_start junk" "[]"] assms(1,2,4) by (auto simp: po_start_def idle_def)
  let ?lmo = "po_out st @ concat (map entry_bytes (po_head st)) @ be32 (of_nat (length (po_out st)))"
  have "0 < length (po_out st)"
  proof -
    obtain k v where kv: "(k, v) \<in> set (filter kept cat)" using assms(3) by auto
    then obtain i where "i < length (filter kept cat)" "filter kept cat ! i = (k, v)" unfolding in_set_conv_nth by blast
    then have "holds_entry (po_out st) (rev (po_head st) ! i) (k, v)" using list_all2_nthD2 [OF st(4)] by metis
    then show ?thesis using kv by (auto simp: peek_Some_iff)
  qed
  note pos = this
  have run: "po2lmo mem junk 3 (Some (po_text cat)) True = Some (Status 0 (Some ?lmo))"
    using st(1,2) pos by (simp add: po2lmo_def po_finish_def)
  obtain m where m: "lmo_open False mem' (Some ?lmo)
      = Some \<lparr>ar_length = of_nat (length (po_out st)), ar_index = rev (po_head st), ar_mmap = po_out st @ m\<rparr>"
    using lmo_open_file [of "po_out st" mem' "po_head st"] pos st(3) assms(2,5,6) by auto
  have "\<forall>(k, v) \<in> set (filter kept cat). length v < 2 ^ 31"
    using assms(1) po_ok_length(1) by (fastforce simp: LINE_def)
  from lmo_find_first [OF st(4) this, of _ _ m] run m show ?thesis by (auto simp: lmo_lookup_def)
qed

theorem lmo_roundtrip_witness:
  "\<exists>lmo. po2lmo (\<lambda>_. True) [] 3 (Some (po_text [(str ''Hello'', str ''Salut''), (str ''Hello'', str ''Bonjour'')])) True
      = Some (Status 0 (Some lmo)) \<and>
    lmo_lookup (lmo_open False (\<lambda>_. True) (Some lmo)) (str ''Hello'') (replicate 5 0) 5 = Some (4, str ''Salu'' @ [0])"
proof -
  let ?cat = "[(str ''Hello'', str ''Salut''), (str ''Hello'', str ''Bonjour'')]"
  have h: "sfh_hash (str ''Hello'') \<noteq> sfh_hash (str ''Salut'')" by code_simp
  have "\<forall>(k, v) \<in> set ?cat. po_ok k \<and> po_ok v" by (simp add: po_ok_def is_cstr_def str_def LINE_def)
  moreover have "cat_size ?cat < 2 ^ 31" by (simp add: cat_size_def padded_def)
  moreover have k: "kept (str ''Hello'', str ''Salut'')" using h by (simp add: str_def)
  then have "\<exists>kv \<in> set ?cat. kept kv" by simp
  ultimately obtain lmo where l: "po2lmo (\<lambda>_. True) [] 3 (Some (po_text ?cat)) True = Some (Status 0 (Some lmo))"
    "\<And>key n dest. 0 < n \<Longrightarrow> n < 2 ^ 31 \<Longrightarrow> length dest = n \<Longrightarrow>
       lmo_lookup (lmo_open False (\<lambda>_. True) (Some lmo)) key dest (int n) =
         (case find (\<lambda>(k, v). sfh_hash k = sfh_hash key) (filter kept ?cat) of
            None \<Rightarrow> Some (- 1, dest)
          | Some (k, v) \<Rightarrow> let t = take (n - 1) v in Some (int (length t), t @ 0 # drop (length t + 1) dest))"
    using lmo_roundtrip [of ?cat "\<lambda>_. True" "\<lambda>_. True" "[]"] by blast
  have "find (\<lambda>(k, v). sfh_hash k = sfh_hash (str ''Hello'')) (filter kept ?cat) = Some (str ''Hello'', str ''Salut'')"
    using k by simp
  with l(1) l(2) [of 5 "replicate 5 0" "str ''Hello''"] show ?thesis by (auto simp: str_def)
qed

end
