(* ===== verification/Md5.thy ===== *)
theory Md5
  imports Block_Hash
begin

text \<open>
  \<open>package/network/services/ead/src/pw_encrypt_md5.c\<close>: MD5 and the password hash built on it, which
  the client of the emergency access daemon includes. The transform is compiled with
  \<open>MD5_SIZE_OVER_SPEED == 3\<close> (one loop, the branch of line 313); the unrolled text of the last branch,
  which is that of RFC 1321, is kept as \<open>md5_unrolled\<close>.

  The state is a tuple, a text is its bytes; \<open>pw\<close> is a string without its NUL, \<open>salt\<close> a buffer.
  \<^term>\<open>None\<close> is an access outside a buffer.
\<close>

section \<open>The transform\<close>

type_synonym md5_state = "u32 \<times> u32 \<times> u32 \<times> u32"

definition md5_F :: "u32 \<Rightarrow> u32 \<Rightarrow> u32 \<Rightarrow> u32" where "md5_F x y z = (x AND y) OR (NOT x AND z)"
definition md5_G :: "u32 \<Rightarrow> u32 \<Rightarrow> u32 \<Rightarrow> u32" where "md5_G x y z = (x AND z) OR (y AND NOT z)"
definition md5_H :: "u32 \<Rightarrow> u32 \<Rightarrow> u32 \<Rightarrow> u32" where "md5_H x y z = x XOR y XOR z"
definition md5_I :: "u32 \<Rightarrow> u32 \<Rightarrow> u32 \<Rightarrow> u32" where "md5_I x y z = y XOR (x OR NOT z)"

definition ROTATE_LEFT :: "u32 \<Rightarrow> nat \<Rightarrow> u32" where
  "ROTATE_LEFT x n = push_bit n x OR drop_bit (32 - n) x"

definition md5_S :: "nat list" where
  "md5_S = [7, 12, 17, 22, 5, 9, 14, 20, 4, 11, 16, 23, 6, 10, 15, 21]"

definition md5_C :: "u32 list" where
  "md5_C =
    [0xd76aa478, 0xe8c7b756, 0x242070db, 0xc1bdceee,
     0xf57c0faf, 0x4787c62a, 0xa8304613, 0xfd469501,
     0x698098d8, 0x8b44f7af, 0xffff5bb1, 0x895cd7be,
     0x6b901122, 0xfd987193, 0xa679438e, 0x49b40821,
     0xf61e2562, 0xc040b340, 0x265e5a51, 0xe9b6c7aa,
     0xd62f105d, 0x2441453, 0xd8a1e681, 0xe7d3fbc8,
     0x21e1cde6, 0xc33707d6, 0xf4d50d87, 0x455a14ed,
     0xa9e3e905, 0xfcefa3f8, 0x676f02d9, 0x8d2a4c8a,
     0xfffa3942, 0x8771f681, 0x6d9d6122, 0xfde5380c,
     0xa4beea44, 0x4bdecfa9, 0xf6bb4b60, 0xbebfbc70,
     0x289b7ec6, 0xeaa127fa, 0xd4ef3085, 0x4881d05,
     0xd9d4d039, 0xe6db99e5, 0x1fa27cf8, 0xc4ac5665,
     0xf4292244, 0x432aff97, 0xab9423a7, 0xfc93a039,
     0x655b59c3, 0x8f0ccc92, 0xffeff47d, 0x85845dd1,
     0x6fa87e4f, 0xfe2ce6e0, 0xa3014314, 0x4e0811a1,
     0xf7537e82, 0xbd3af235, 0x2ad7d2bb, 0xeb86d391]"

definition md5_P :: "nat list" where
  "md5_P =
    [0, 1, 2, 3, 4, 5, 6, 7, 8, 9, 10, 11, 12, 13, 14, 15,
     1, 6, 11, 0, 5, 10, 15, 4, 9, 14, 3, 8, 13, 2, 7, 12,
     5, 8, 11, 14, 1, 4, 7, 10, 13, 0, 3, 6, 9, 12, 15, 2,
     0, 7, 14, 5, 12, 3, 10, 1, 8, 15, 6, 13, 4, 11, 2, 9]"

text \<open>\<open>__md5_Encode\<close> and \<open>__md5_Decode\<close>: words as little-endian bytes.\<close>

definition md5_Encode :: "u32 list \<Rightarrow> bytes" where
  "md5_Encode ws = concat (map (\<lambda>w. [ucast w, ucast (drop_bit 8 w), ucast (drop_bit 16 w), ucast (drop_bit 24 w)]) ws)"

fun md5_Decode :: "bytes \<Rightarrow> u32 list" where
  "md5_Decode (b0 # b1 # b2 # b3 # bs) =
     (ucast b0 OR push_bit 8 (ucast b1) OR push_bit 16 (ucast b2) OR push_bit 24 (ucast b3)) # md5_Decode bs"
| "md5_Decode _ = []"

text \<open>One round of the loop. The pointer \<open>ps\<close> moves on by four every sixteen rounds.\<close>

definition md5_round :: "u32 list \<Rightarrow> md5_state \<Rightarrow> nat \<Rightarrow> md5_state" where
  "md5_round x = (\<lambda>(a, b, c, d) i.
     let temp = a;
         temp = temp + (if i div 16 = 0 then md5_F b c d else if i div 16 = 1 then md5_G b c d
                        else if i div 16 = 2 then md5_H b c d else md5_I b c d);
         temp = temp + (x ! (md5_P ! i) + md5_C ! i);
         temp = ROTATE_LEFT temp (md5_S ! (4 * (i div 16) + i mod 4));
         temp = temp + b
     in (d, temp, b, c))"

definition md5_add :: "md5_state \<Rightarrow> md5_state \<Rightarrow> md5_state" where
  "md5_add = (\<lambda>(s0, s1, s2, s3) (a, b, c, d). (s0 + a, s1 + b, s2 + c, s3 + d))"

definition md5_Transform :: "md5_state \<Rightarrow> bytes \<Rightarrow> md5_state" where
  "md5_Transform state block = md5_add state (foldl (md5_round (md5_Decode block)) state [0..<64])"

section \<open>The unrolled transform\<close>

text \<open>The macros \<open>FF\<close> to \<open>II\<close> give the new value of their first argument.\<close>

definition md5_op :: "(u32 \<Rightarrow> u32 \<Rightarrow> u32 \<Rightarrow> u32) \<Rightarrow> u32 \<Rightarrow> u32 \<Rightarrow> u32 \<Rightarrow> u32 \<Rightarrow> u32 \<Rightarrow> nat \<Rightarrow> u32 \<Rightarrow> u32" where
  "md5_op f a b c d x s ac =
     (let a = a + (f b c d + x + ac); a = ROTATE_LEFT a s in a + b)"

definition FF :: "u32 \<Rightarrow> u32 \<Rightarrow> u32 \<Rightarrow> u32 \<Rightarrow> u32 \<Rightarrow> nat \<Rightarrow> u32 \<Rightarrow> u32" where "FF = md5_op md5_F"
definition GG :: "u32 \<Rightarrow> u32 \<Rightarrow> u32 \<Rightarrow> u32 \<Rightarrow> u32 \<Rightarrow> nat \<Rightarrow> u32 \<Rightarrow> u32" where "GG = md5_op md5_G"
definition HH :: "u32 \<Rightarrow> u32 \<Rightarrow> u32 \<Rightarrow> u32 \<Rightarrow> u32 \<Rightarrow> nat \<Rightarrow> u32 \<Rightarrow> u32" where "HH = md5_op md5_H"
definition II :: "u32 \<Rightarrow> u32 \<Rightarrow> u32 \<Rightarrow> u32 \<Rightarrow> u32 \<Rightarrow> nat \<Rightarrow> u32 \<Rightarrow> u32" where "II = md5_op md5_I"

text \<open>Four lines, on \<open>a, b, c, d\<close>, then \<open>d, a, b, c\<close>, \<open>c, d, a, b\<close> and \<open>b, c, d, a\<close>; each has the index
  of its word, its rotation and its constant.\<close>

definition quad :: "(u32 \<Rightarrow> u32 \<Rightarrow> u32 \<Rightarrow> u32 \<Rightarrow> u32 \<Rightarrow> nat \<Rightarrow> u32 \<Rightarrow> u32) \<Rightarrow> u32 list
    \<Rightarrow> nat \<times> nat \<times> u32 \<Rightarrow> nat \<times> nat \<times> u32 \<Rightarrow> nat \<times> nat \<times> u32 \<Rightarrow> nat \<times> nat \<times> u32 \<Rightarrow> md5_state \<Rightarrow> md5_state" where
  "quad line x = (\<lambda>(k1, s1, c1) (k2, s2, c2) (k3, s3, c3) (k4, s4, c4) (a, b, c, d).
     let a = line a b c d (x ! k1) s1 c1;
         d = line d a b c (x ! k2) s2 c2;
         c = line c d a b (x ! k3) s3 c3;
         b = line b c d a (x ! k4) s4 c4
     in (a, b, c, d))"

definition md5_unrolled :: "md5_state \<Rightarrow> bytes \<Rightarrow> md5_state" where
  "md5_unrolled state block =
     (let x = md5_Decode block;
          s = state;
          s = quad FF x (0, 7, 0xd76aa478) (1, 12, 0xe8c7b756) (2, 17, 0x242070db) (3, 22, 0xc1bdceee) s;
          s = quad FF x (4, 7, 0xf57c0faf) (5, 12, 0x4787c62a) (6, 17, 0xa8304613) (7, 22, 0xfd469501) s;
          s = quad FF x (8, 7, 0x698098d8) (9, 12, 0x8b44f7af) (10, 17, 0xffff5bb1) (11, 22, 0x895cd7be) s;
          s = quad FF x (12, 7, 0x6b901122) (13, 12, 0xfd987193) (14, 17, 0xa679438e) (15, 22, 0x49b40821) s;
          s = quad GG x (1, 5, 0xf61e2562) (6, 9, 0xc040b340) (11, 14, 0x265e5a51) (0, 20, 0xe9b6c7aa) s;
          s = quad GG x (5, 5, 0xd62f105d) (10, 9, 0x2441453) (15, 14, 0xd8a1e681) (4, 20, 0xe7d3fbc8) s;
          s = quad GG x (9, 5, 0x21e1cde6) (14, 9, 0xc33707d6) (3, 14, 0xf4d50d87) (8, 20, 0x455a14ed) s;
          s = quad GG x (13, 5, 0xa9e3e905) (2, 9, 0xfcefa3f8) (7, 14, 0x676f02d9) (12, 20, 0x8d2a4c8a) s;
          s = quad HH x (5, 4, 0xfffa3942) (8, 11, 0x8771f681) (11, 16, 0x6d9d6122) (14, 23, 0xfde5380c) s;
          s = quad HH x (1, 4, 0xa4beea44) (4, 11, 0x4bdecfa9) (7, 16, 0xf6bb4b60) (10, 23, 0xbebfbc70) s;
          s = quad HH x (13, 4, 0x289b7ec6) (0, 11, 0xeaa127fa) (3, 16, 0xd4ef3085) (6, 23, 0x4881d05) s;
          s = quad HH x (9, 4, 0xd9d4d039) (12, 11, 0xe6db99e5) (15, 16, 0x1fa27cf8) (2, 23, 0xc4ac5665) s;
          s = quad II x (0, 6, 0xf4292244) (7, 10, 0x432aff97) (14, 15, 0xab9423a7) (5, 21, 0xfc93a039) s;
          s = quad II x (12, 6, 0x655b59c3) (3, 10, 0x8f0ccc92) (10, 15, 0xffeff47d) (1, 21, 0x85845dd1) s;
          s = quad II x (8, 6, 0x6fa87e4f) (15, 10, 0xfe2ce6e0) (6, 15, 0xa3014314) (13, 21, 0x4e0811a1) s;
          s = quad II x (4, 6, 0xf7537e82) (11, 10, 0xbd3af235) (2, 15, 0x2ad7d2bb) (9, 21, 0xeb86d391) s
      in md5_add state s)"

section \<open>Contexts\<close>

record md5_ctx =
  m_state :: md5_state
  m_count0 :: u32
  m_count1 :: u32
  m_buffer :: bytes

definition md5_Init :: "md5_ctx \<Rightarrow> md5_ctx" where
  "md5_Init context =
     context\<lparr>m_count0 := 0, m_count1 := 0, m_state := (0x67452301, 0xefcdab89, 0x98badcfe, 0x10325476)\<rparr>"

text \<open>The sum in the loop has 32 bits. \<^term>\<open>None\<close> is an access outside \<open>buffer\<close> or \<open>input\<close>.\<close>

definition md5_Update :: "md5_ctx \<Rightarrow> bytes \<Rightarrow> md5_ctx option" where
  "md5_Update context input =
     (let inputLen = (of_nat (length input) :: u32);
          ix = unat (drop_bit 3 (m_count0 context) AND 0x3F);
          count0 = m_count0 context + push_bit 3 inputLen;
          count1 = (if count0 < push_bit 3 inputLen then m_count1 context + 1 else m_count1 context) + drop_bit 29 inputLen;
          context = context\<lparr>m_count0 := count0, m_count1 := count1\<rparr>;
          partLen = 64 - ix
      in do {
        (context, i, ix) \<leftarrow>
          (if partLen \<le> length input then do {
             buffer \<leftarrow> buf_copy (m_buffer context) ix (take partLen input);
             (st, i) \<leftarrow> block_loop md5_Transform (md5_Transform (m_state context) buffer) input partLen;
             Some (context\<lparr>m_state := st, m_buffer := buffer\<rparr>, i, 0) }
           else Some (context, 0, ix));
        buffer \<leftarrow> buf_copy (m_buffer context) ix (drop i input);
        Some (context\<lparr>m_buffer := buffer\<rparr>) })"

text \<open>The update as the rest of the file uses it, on pieces of a few hundred bytes, where it has a value.\<close>

definition md5_upd :: "md5_ctx \<Rightarrow> bytes \<Rightarrow> md5_ctx" where
  "md5_upd context input = the (md5_Update context input)"

definition md5_Pad :: "md5_ctx \<Rightarrow> md5_ctx" where
  "md5_Pad context =
     (let PADDING = 0x80 # replicate 63 0;
          bits = md5_Encode [m_count0 context, m_count1 context];
          ix = unat (drop_bit 3 (m_count0 context) AND 0x3f);
          padLen = (if ix < 56 then 56 - ix else 120 - ix);
          context = md5_upd context (take padLen PADDING)
      in md5_upd context bits)"

text \<open>The digest, and the wiped context.\<close>

definition md5_Final :: "md5_ctx \<Rightarrow> bytes \<times> md5_ctx" where
  "md5_Final context =
     (let context = md5_Pad context;
          digest = (case m_state context of (a, b, c, d) \<Rightarrow> md5_Encode [a, b, c, d])
      in (digest, context\<lparr>m_state := (0, 0, 0, 0), m_count0 := 0, m_count1 := 0, m_buffer := replicate 64 0\<rparr>))"

section \<open>The password hash\<close>

definition ascii64 :: bytes where
  "ascii64 = str ''./0123456789ABCDEFGHIJKLMNOPQRSTUVWXYZabcdefghijklmnopqrstuvwxyz''"

definition md5_magic :: bytes where "md5_magic = str ''$1$''"
definition MD5_OUT_BUFSIZE :: nat where "MD5_OUT_BUFSIZE = 36"

text \<open>The characters \<open>__md5_to64\<close> writes.\<close>

fun md5_to64 :: "u32 \<Rightarrow> nat \<Rightarrow> bytes" where
  "md5_to64 v 0 = []"
| "md5_to64 v (Suc n) = ascii64 ! unat (v AND 0x3f) # md5_to64 (drop_bit 6 v) n"

text \<open>The true salt: up to the first NUL or dollar sign, at most \<open>n\<close> characters. The character is read
  before the length is compared.\<close>

fun true_salt :: "nat \<Rightarrow> bytes \<Rightarrow> bytes option" where
  "true_salt n [] = None"
| "true_salt n (c # cs) =
     (if c \<noteq> 0 \<and> c \<noteq> 36 \<and> n \<noteq> 0 then map_option ((#) c) (true_salt (n - 1) cs) else Some [])"

text \<open>The loop over \<open>pl\<close>, and the loop over the bits of the length.\<close>

function md5_take :: "md5_ctx \<Rightarrow> bytes \<Rightarrow> nat \<Rightarrow> md5_ctx" where
  "md5_take ctx final pl =
     (if pl > 0 then md5_take (md5_upd ctx (take (if pl > 16 then 16 else pl) final)) final (pl - 16) else ctx)"
  by pat_completeness auto
termination by (relation "measure (\<lambda>(ctx, final, pl). pl)") auto

declare md5_take.simps [simp del]

function md5_weird :: "md5_ctx \<Rightarrow> bytes \<Rightarrow> bytes \<Rightarrow> nat \<Rightarrow> md5_ctx" where
  "md5_weird ctx final pw i =
     (if i \<noteq> 0 then md5_weird (md5_upd ctx (take 1 (if odd i then final else pw))) final pw (i div 2) else ctx)"
  by pat_completeness auto
termination by (relation "measure (\<lambda>(ctx, final, pw, i). i)") auto

declare md5_weird.simps [simp del]

text \<open>One of the thousand rounds.\<close>

definition md5_slow :: "bytes \<Rightarrow> bytes \<Rightarrow> md5_ctx \<times> bytes \<Rightarrow> nat \<Rightarrow> md5_ctx \<times> bytes" where
  "md5_slow pw sp = (\<lambda>(ctx1, final) i.
     let ctx1 = md5_Init ctx1;
         ctx1 = (if odd i then md5_upd ctx1 pw else md5_upd ctx1 final);
         ctx1 = (if i mod 3 \<noteq> 0 then md5_upd ctx1 sp else ctx1);
         ctx1 = (if i mod 7 \<noteq> 0 then md5_upd ctx1 pw else ctx1);
         ctx1 = (if odd i then md5_upd ctx1 final else md5_upd ctx1 pw);
         (final, ctx1) = md5_Final ctx1
     in (ctx1, final))"

text \<open>The 22 characters of the hash; \<open>final[16]\<close> is \<open>final[5]\<close>.\<close>

definition md5_text :: "bytes \<Rightarrow> bytes" where
  "md5_text final =
     (let final = final @ [final ! 5];
          l = (\<lambda>i. push_bit 16 (ucast (final ! i)) OR push_bit 8 (ucast (final ! (i + 6))) OR ucast (final ! (i + 12)))
      in concat (map (\<lambda>i. md5_to64 (l i) 4) [0..<5]) @ md5_to64 (ucast (final ! 11)) 2)"

text \<open>What is in \<open>final\<close> after the thousand rounds. \<open>ctx\<close> and \<open>ctx1\<close> are the contexts on the stack.\<close>

definition md5_digest :: "md5_ctx \<Rightarrow> md5_ctx \<Rightarrow> bytes \<Rightarrow> bytes \<Rightarrow> bytes" where
  "md5_digest ctx ctx1 pw sp =
     (let ctx = md5_Init ctx;
          ctx = md5_upd ctx pw;
          ctx = md5_upd ctx md5_magic;
          ctx = md5_upd ctx sp;
          ctx1 = md5_Init ctx1;
          ctx1 = md5_upd ctx1 pw;
          ctx1 = md5_upd ctx1 sp;
          ctx1 = md5_upd ctx1 pw;
          (final, ctx1) = md5_Final ctx1;
          ctx = md5_take ctx final (length pw);
          final = replicate 17 0;
          ctx = md5_weird ctx final pw (length pw);
          (final, ctx) = md5_Final ctx
      in snd (foldl (md5_slow pw sp) (ctx1, final) [0..<1000]))"

text \<open>The result is the buffer \<open>passwd\<close>.\<close>

definition md5_crypt :: "md5_ctx \<Rightarrow> md5_ctx \<Rightarrow> bytes \<Rightarrow> bytes \<Rightarrow> bytes \<Rightarrow> bytes option" where
  "md5_crypt ctx ctx1 passwd pw salt =
     do { sp \<leftarrow> true_salt 8 (drop (length md5_magic) salt);
          passwd \<leftarrow> poke passwd 0 (str ''$1$'' @ sp @ str ''$'');
          poke passwd (length sp + 4) (md5_text (md5_digest ctx ctx1 pw sp) @ [0]) }"

end
