(* ===== verification/Md5_Laws.thy ===== *)
theory Md5_Laws
  imports Md5
begin

text \<open>
  Laws of the MD5 code: the compiled loop is the unrolled transform, a context that was fed any
  sequence of pieces gives the MD5 digest of their concatenation, and \<open>md5_crypt\<close> writes the
  password hash that the description of the algorithm gives.
\<close>

section \<open>The transform\<close>

definition md5_fun :: "nat \<Rightarrow> u32 \<Rightarrow> u32 \<Rightarrow> u32 \<Rightarrow> u32" where
  "md5_fun q = (if q = 0 then md5_F else if q = 1 then md5_G else if q = 2 then md5_H else md5_I)"

lemma round_op: "md5_round x (a, b, c, d) i =
    (d, md5_op (md5_fun (i div 16)) a b c d (x ! (md5_P ! i)) (md5_S ! (4 * (i div 16) + i mod 4)) (md5_C ! i), b, c)"
  by (simp add: md5_round_def md5_op_def md5_fun_def Let_def add.assoc)

definition param :: "nat \<Rightarrow> nat \<times> nat \<times> u32" where
  "param i = (md5_P ! i, md5_S ! (4 * (i div 16) + i mod 4), md5_C ! i)"

text \<open>The four rounds from round \<open>i\<close> on bring the variables back to their places.\<close>

definition four :: "u32 list \<Rightarrow> md5_state \<Rightarrow> nat \<Rightarrow> md5_state" where
  "four x s i = quad (md5_op (md5_fun (i div 16))) x (param i) (param (i + 1)) (param (i + 2)) (param (i + 3)) s"

lemma four_rounds: "foldl (md5_round x) s [4 * n..<4 * n + 4] = four x s (4 * n)"
proof -
  have "[4 * n..<4 * n + 4] = [4 * n, 4 * n + 1, 4 * n + 2, 4 * n + 3]"
    by (simp add: upt_rec numeral_eq_Suc)
  moreover have "(4 * n + 1) div 16 = 4 * n div 16" "(4 * n + 2) div 16 = 4 * n div 16" "(4 * n + 3) div 16 = 4 * n div 16"
    by simp_all
  ultimately show ?thesis by (cases s) (simp add: round_op param_def four_def quad_def Let_def)
qed

lemma rounds_four: "foldl (md5_round x) s [0..<4 * n] = foldl (\<lambda>s n. four x s (4 * n)) s [0..<n]"
proof (induction n)
  case (Suc n)
  have "[0..<4 * Suc n] = [0..<4 * n] @ [4 * n..<4 * n + 4]" using upt_add_eq_append [of 0 "4 * n" 4] by (simp add: add.commute)
  then show ?case using Suc four_rounds by simp
qed simp

lemma md5_lines: "md5_op (md5_fun 0) = FF" "md5_op (md5_fun 1) = GG" "md5_op (md5_fun 2) = HH" "md5_op (md5_fun 3) = II"
  by (simp_all add: md5_fun_def FF_def GG_def HH_def II_def)

lemma md5_Transform_unrolled: "md5_Transform = md5_unrolled"
proof (intro ext)
  fix state block
  let ?x = "md5_Decode block"
  have u: "[0..<16] = [0, 1, 2, 3, 4, 5, 6, 7, 8, 9, 10, 11, 12, 13, 14, 15]" by (simp add: upt_conv_Cons)
  have r: "foldl (md5_round ?x) state [0..<64] = foldl (\<lambda>s n. four ?x s (4 * n)) state [0..<16]"
    using rounds_four [of ?x state 16] by simp
  show "md5_Transform state block = md5_unrolled state block"
    unfolding md5_Transform_def md5_unrolled_def Let_def r u
    by (simp add: four_def param_def md5_P_def md5_S_def md5_C_def md5_lines md5_lines(2) [simplified])
qed

section \<open>Contexts\<close>

definition md5_init :: md5_state where
  "md5_init = (0x67452301, 0xefcdab89, 0x98badcfe, 0x10325476)"

lemma md5_update_counts:
  assumes "md5_Update ctx d = Some ctx'"
  shows "m_count0 ctx' = m_count0 ctx + push_bit 3 (of_nat (length d))"
    and "m_count1 ctx' = (if m_count0 ctx + push_bit 3 (of_nat (length d)) < push_bit 3 (of_nat (length d))
      then m_count1 ctx + 1 else m_count1 ctx) + drop_bit 29 (of_nat (length d))"
  using assms by (auto simp: md5_Update_def Let_def bind_eq_Some_conv split: if_splits)

lemma md5_Update_few:
  assumes "j = unat (drop_bit 3 (m_count0 ctx) AND 63)" and "j + length d \<le> 63"
  shows "\<exists>ctx'. md5_Update ctx d = Some ctx' \<and> m_state ctx' = m_state ctx \<and> m_buffer ctx' = buf_put (m_buffer ctx) j d"
proof -
  have "\<not> 64 - j \<le> length d" using assms(2) by linarith
  then show ?thesis
    using assms(2) unfolding md5_Update_def Let_def assms(1) [symmetric] by (simp add: buf_copy_def)
qed

lemma md5_Update_blocks:
  assumes j: "j = unat (drop_bit 3 (m_count0 ctx) AND 63)" and long: "63 < j + length d" and "j + length d < 2 ^ 32"
    and "length (m_buffer ctx) = 64" and b: "b = buf_put (m_buffer ctx) j (take (64 - j) d)"
    and loop: "block_loop md5_unrolled (md5_unrolled (m_state ctx) b) d (64 - j) = Some (s, i)" and i: "length d \<le> i + 64"
  shows "\<exists>ctx'. md5_Update ctx d = Some ctx' \<and> m_state ctx' = s \<and> m_buffer ctx' = buf_put b 0 (drop i d)"
proof -
  have "j < 64" unfolding j buf_index by simp
  then have "buf_copy (m_buffer ctx) j (take (64 - j) d) = Some b" by (simp add: buf_copy_def b)
  moreover have "buf_copy b 0 (drop i d) = Some (buf_put b 0 (drop i d))" using i by (simp add: buf_copy_def)
  moreover have "64 - j \<le> length d" using long by linarith
  ultimately show ?thesis
    using loop unfolding md5_Update_def Let_def j [symmetric] md5_Transform_unrolled by simp
qed

text \<open>A piece with which the 32-bit sum of the loop wraps: the loop reads past its end.\<close>

lemma md5_Update_overrun:
  assumes "length d < 2 ^ 32" and "2 ^ 32 \<le> unat (drop_bit 3 (m_count0 ctx) AND 63) + length d"
  shows "md5_Update ctx d = None"
proof -
  define j where "j = unat (drop_bit 3 (m_count0 ctx) AND 63)"
  have j: "j < 64" unfolding j_def buf_index by simp
  have a: "2 ^ 32 \<le> j + length d" using assms(2) by (simp add: j_def)
  have "64 dvd 64 - j + j" "64 - j \<le> length d" using j a by simp_all
  note o = block_loop_overrun [OF this(1) j this(2) assms(1) a]
  have "64 - j \<le> length d" using a by simp
  then show ?thesis unfolding md5_Update_def Let_def j_def [symmetric] o by simp
qed

interpretation md5: block_hash md5_unrolled md5_init m_state m_count0 m_count1 m_buffer md5_Update
  by unfold_locales (erule md5_update_counts | erule (1) md5_Update_few | rule md5_Update_blocks; assumption)+

lemma md5_upd_absorbed:
  "md5.absorbed ctx M \<Longrightarrow> length d \<le> 2 ^ 32 - 64 \<Longrightarrow> length M + length d < 2 ^ 61 \<Longrightarrow> md5.absorbed (md5_upd ctx d) (M @ d)"
  unfolding md5_upd_def by (rule md5.absorbed_the)

lemma md5_absorbed_init: "length (m_buffer ctx) = 64 \<Longrightarrow> md5.absorbed (md5_Init ctx) []"
  by (rule md5.absorbed_init) (simp_all add: md5_Init_def md5_init_def)

text \<open>Padding and digest of RFC 1321 for a message of whole bytes.\<close>

definition md5_pad :: "bytes \<Rightarrow> bytes" where
  "md5_pad M = M @ [0x80] @ replicate ((119 - length M mod 64) mod 64) 0
     @ md5_Encode [of_nat (8 * length M), of_nat (8 * length M div 2 ^ 32)]"

definition rfc_md5 :: "bytes \<Rightarrow> bytes" where
  "rfc_md5 M = (case md5.absorb (md5_pad M) (length (md5_pad M) div 64) of (a, b, c, d) \<Rightarrow> md5_Encode [a, b, c, d])"

lemma length_md5_Encode [simp]: "length (md5_Encode ws) = 4 * length ws"
  by (induction ws) (simp_all add: md5_Encode_def)

lemma length_rfc_md5 [simp]: "length (rfc_md5 M) = 16"
  by (simp add: rfc_md5_def split: prod.split)

lemma md5_padding:
  assumes "k < 64"
  shows "take (if k < 56 then 56 - k else 120 - k) (0x80 # replicate 63 0) = (0x80 :: u8) # replicate ((119 - k) mod 64) 0"
proof (cases "k < 56")
  case True
  then have "119 - k = 55 - k + 64" by simp
  then have "(119 - k) mod 64 = 55 - k" using assms by (simp only: mod_add_self2) simp
  then show ?thesis using True by (simp add: take_Cons' min_def)
next
  case False
  then show ?thesis using assms by (simp add: take_Cons' min_def)
qed

lemma md5_pad_absorbed:
  assumes "md5.absorbed ctx M" and "length M + 200 < 2 ^ 61"
  shows "md5.absorbed (md5_Pad ctx) (md5_pad M)"
proof -
  let ?k = "length M mod 64"
  let ?p = "0x80 # replicate ((119 - ?k) mod 64) (0 :: u8)"
  let ?bits = "md5_Encode [m_count0 ctx, m_count1 ctx]"
  have "md5.absorbed (md5_upd ctx ?p) (M @ ?p)"
    using assms by (intro md5_upd_absorbed) auto
  then have "md5.absorbed (md5_upd (md5_upd ctx ?p) ?bits) ((M @ ?p) @ ?bits)"
    by (rule md5_upd_absorbed) (use assms(2) in auto)
  moreover have "md5_Pad ctx = md5_upd (md5_upd ctx ?p) ?bits"
    using md5_padding [of ?k] by (simp add: md5_Pad_def Let_def md5.absorbed_index [OF assms(1)])
  moreover have "(M @ ?p) @ ?bits = md5_pad M"
    using md5.absorbed_counts [OF assms(1)] assms(2) by (simp add: md5_pad_def)
  ultimately show ?thesis by simp
qed

lemma md5_final:
  assumes "md5.absorbed ctx M" and "length M + 200 < 2 ^ 61"
  shows "\<exists>c. md5_Final ctx = (rfc_md5 M, c) \<and> length (m_buffer c) = 64"
  using md5_pad_absorbed [OF assms] by (simp add: md5_Final_def Let_def rfc_md5_def md5.absorbed_def)

text \<open>C36. The pieces in which a message reaches the hash do not matter: initialising a context, feeding it
  the pieces and finishing it gives the MD5 digest (RFC 1321: the unrolled transform, padding and
  length) of the concatenation, and no update leaves the buffers; the compiled transform is the loop
  with tables. The pieces have at most 2^32 - 64 bytes, all together less than 2^61 - 200; with a
  longer piece the 32-bit sum of the loop can wrap (\<open>md5_Update_overrun\<close>).\<close>

theorem md5_stream_rfc:
  assumes "length (m_buffer ctx) = 64" and "\<forall>c \<in> set cs. length c \<le> 2 ^ 32 - 64"
    and "length (concat cs) + 200 < 2 ^ 61"
  shows "\<exists>ctx'. feed md5_Update (md5_Init ctx) cs = Some ctx' \<and> fst (md5_Final ctx') = rfc_md5 (concat cs)"
proof -
  obtain ctx' where "feed md5_Update (md5_Init ctx) cs = Some ctx'" "md5.absorbed ctx' ([] @ concat cs)"
    using md5.absorbed_pieces [OF md5_absorbed_init [OF assms(1)] assms(2)] assms(3) by auto
  then show ?thesis using md5_final [of ctx' "concat cs"] assms(3) by auto
qed

lemma md5_stream_rfc_witness:
  "\<exists>ctx'. feed md5_Update (md5_Init \<lparr>m_state = (0, 0, 0, 0), m_count0 = 0, m_count1 = 0,
     m_buffer = replicate 64 0\<rparr>) [[97], [98, 99]] = Some ctx' \<and> fst (md5_Final ctx') = rfc_md5 [97, 98, 99]"
  using md5_stream_rfc [of "\<lparr>m_state = (0, 0, 0, 0), m_count0 = 0, m_count1 = 0, m_buffer = replicate 64 0\<rparr>"
      "[[97], [98, 99]]"] by simp

section \<open>The password hash\<close>

text \<open>The algorithm as it is described: digests of concatenations. \<open>mixed\<close> is the first digest of the
  password cut to the length of the password; \<open>odd_bytes\<close> has one byte for each bit of the length.\<close>

definition mixed :: "bytes \<Rightarrow> nat \<Rightarrow> bytes" where
  "mixed d n = map (\<lambda>i. d ! (i mod 16)) [0..<n]"

fun odd_bytes :: "u8 \<Rightarrow> nat \<Rightarrow> bytes" where
  "odd_bytes c n = (if n = 0 then [] else (if odd n then 0 else c) # odd_bytes c (n div 2))"

declare odd_bytes.simps [simp del]

definition slow_text :: "bytes \<Rightarrow> bytes \<Rightarrow> bytes \<Rightarrow> nat \<Rightarrow> bytes" where
  "slow_text pw sp d i =
     (if odd i then pw else d) @ (if i mod 3 \<noteq> 0 then sp else []) @ (if i mod 7 \<noteq> 0 then pw else [])
       @ (if odd i then d else pw)"

definition md5_crypt_hash :: "bytes \<Rightarrow> bytes \<Rightarrow> bytes" where
  "md5_crypt_hash pw sp =
     (let d = rfc_md5 (pw @ md5_magic @ sp @ mixed (rfc_md5 (pw @ sp @ pw)) (length pw) @ odd_bytes (hd pw) (length pw))
      in foldl (\<lambda>d i. rfc_md5 (slow_text pw sp d i)) d [0..<1000])"

abbreviation fresh :: "md5_ctx \<Rightarrow> bool" where
  "fresh ctx \<equiv> length (m_buffer ctx) = 64"

text \<open>Feeding a context whose message stays short.\<close>

lemma md5_feed: "md5.absorbed ctx M \<Longrightarrow> length c < 2 ^ 31 \<Longrightarrow> length M < 2 ^ 40 \<Longrightarrow> md5.absorbed (md5_upd ctx c) (M @ c)"
  by (rule md5_upd_absorbed) simp_all

lemma length_odd_bytes: "length (odd_bytes c n) \<le> n"
proof (induction c n rule: odd_bytes.induct)
  case (1 c n)
  then show ?case by (subst odd_bytes.simps) (auto simp: Suc_le_eq intro: le_less_trans)
qed

lemma md5_take_mixed:
  "md5.absorbed ctx M \<Longrightarrow> length d = 16 \<Longrightarrow> length M + n < 2 ^ 40 \<Longrightarrow> md5.absorbed (md5_take ctx d n) (M @ mixed d n)"
proof (induction n arbitrary: ctx M rule: less_induct)
  case (less n)
  show ?case
  proof (cases "n > 16")
    case True
    have "mixed d n = d @ mixed d (n - 16)"
    proof -
      have "[0..<n] = [0..<16] @ map (\<lambda>i. i + 16) [0..<n - 16]"
        using True upt_add_eq_append [of 0 16 "n - 16"] by (simp add: map_add_upt)
      moreover have "map (\<lambda>i. d ! (i mod 16)) [0..<16] = d"
        using less.prems(2) by (intro nth_equalityI) simp_all
      ultimately show ?thesis by (simp add: mixed_def)
    qed
    moreover have "md5.absorbed (md5_upd ctx d) (M @ d)" using less.prems True by (intro md5_feed) auto
    then have "md5.absorbed (md5_take (md5_upd ctx d) d (n - 16)) ((M @ d) @ mixed d (n - 16))"
      using less.prems True by (intro less.IH) auto
    ultimately show ?thesis using True less.prems(2) by (subst md5_take.simps) simp
  next
    case False
    have "mixed d n = take n d" using False less.prems(2) by (intro nth_equalityI) (simp_all add: mixed_def)
    moreover have "md5.absorbed (md5_upd ctx (take n d)) (M @ take n d)" using less.prems False by (intro md5_feed) auto
    moreover have "md5_take c d 0 = c" for c by (subst md5_take.simps) simp
    ultimately show ?thesis using False less.prems(1) by (subst md5_take.simps) (auto simp: mixed_def)
  qed
qed

lemma md5_weird_bytes:
  "md5.absorbed ctx M \<Longrightarrow> length M + n < 2 ^ 40 \<Longrightarrow> n = 0 \<or> pw \<noteq> [] \<Longrightarrow>
   md5.absorbed (md5_weird ctx (replicate 17 0) pw n) (M @ odd_bytes (hd pw) n)"
proof (induction n arbitrary: ctx M rule: less_induct)
  case (less n)
  show ?case
  proof (cases "n = 0")
    case False
    let ?b = "if odd n then 0 else hd pw"
    have b: "take 1 (if odd n then replicate 17 0 else pw) = [?b]" using less.prems(3) False by (cases pw) auto
    have "md5.absorbed (md5_upd ctx [?b]) (M @ [?b])" using less.prems by (intro md5_feed) auto
    then have "md5.absorbed (md5_weird (md5_upd ctx [?b]) (replicate 17 0) pw (n div 2)) ((M @ [?b]) @ odd_bytes (hd pw) (n div 2))"
      using less.prems False by (intro less.IH) auto
    then show ?thesis using False b by (subst md5_weird.simps, subst odd_bytes.simps) simp
  next
    case True
    then show ?thesis using less.prems(1) by (subst md5_weird.simps, subst odd_bytes.simps) simp
  qed
qed

lemma md5_slow_step:
  assumes "fresh ctx" and "length d = 16" and "length pw < 2 ^ 30" and "length sp \<le> 8"
  shows "\<exists>ctx'. md5_slow pw sp (ctx, d) i = (ctx', rfc_md5 (slow_text pw sp d i)) \<and> fresh ctx'"
proof -
  define c1 where "c1 = (if odd i then md5_upd (md5_Init ctx) pw else md5_upd (md5_Init ctx) d)"
  define c2 where "c2 = (if i mod 3 \<noteq> 0 then md5_upd c1 sp else c1)"
  define c3 where "c3 = (if i mod 7 \<noteq> 0 then md5_upd c2 pw else c2)"
  define c4 where "c4 = (if odd i then md5_upd c3 d else md5_upd c3 pw)"
  let ?m1 = "if odd i then pw else d" and ?m2 = "if i mod 3 \<noteq> 0 then sp else []" and ?m3 = "if i mod 7 \<noteq> 0 then pw else []"
    and ?m4 = "if odd i then d else pw"
  have l: "length ?m1 < 2 ^ 31" "length ?m2 \<le> 8" "length ?m3 < 2 ^ 30" "length ?m4 < 2 ^ 31" using assms by auto
  have "md5.absorbed c1 ?m1" using md5_feed [OF md5_absorbed_init [OF assms(1)], of ?m1] l by (simp add: c1_def split: if_splits)
  then have "md5.absorbed c2 (?m1 @ ?m2)" using md5_feed [of c1 ?m1 sp] l assms by (simp add: c2_def)
  then have "md5.absorbed c3 ((?m1 @ ?m2) @ ?m3)" using md5_feed [of c2 "?m1 @ ?m2" pw] l assms by (simp add: c3_def)
  then have "md5.absorbed c4 (((?m1 @ ?m2) @ ?m3) @ ?m4)"
    using md5_feed [of c3 "(?m1 @ ?m2) @ ?m3" ?m4] l assms by (simp add: c4_def split: if_splits)
  then have "md5.absorbed c4 (slow_text pw sp d i)" by (simp only: slow_text_def append_assoc)
  moreover have "length (slow_text pw sp d i) + 200 < 2 ^ 61" using assms by (auto simp: slow_text_def)
  ultimately obtain c where "md5_Final c4 = (rfc_md5 (slow_text pw sp d i), c)" "fresh c" using md5_final by blast
  then show ?thesis unfolding md5_slow_def prod.case Let_def c1_def [symmetric] c2_def [symmetric] c3_def [symmetric] c4_def [symmetric]
    by simp
qed

lemma md5_slow_rounds:
  assumes "length pw < 2 ^ 30" and "length sp \<le> 8"
  shows "fresh ctx \<Longrightarrow> length d = 16 \<Longrightarrow>
    snd (foldl (md5_slow pw sp) (ctx, d) is) = foldl (\<lambda>d i. rfc_md5 (slow_text pw sp d i)) d is"
proof (induction "is" arbitrary: ctx d)
  case (Cons i "is")
  obtain ctx' where "md5_slow pw sp (ctx, d) i = (ctx', rfc_md5 (slow_text pw sp d i))" "fresh ctx'"
    using md5_slow_step Cons.prems assms by blast
  then show ?case using Cons.IH [of ctx' "rfc_md5 (slow_text pw sp d i)"] by simp
qed simp

lemma md5_digest_hash:
  assumes "fresh ctx" and "fresh ctx1" and "length pw < 2 ^ 30" and "length sp \<le> 8"
  shows "md5_digest ctx ctx1 pw sp = md5_crypt_hash pw sp"
proof -
  define c1 where "c1 = md5_upd (md5_upd (md5_upd (md5_Init ctx1) pw) sp) pw"
  define c2 where "c2 = md5_upd (md5_upd (md5_upd (md5_Init ctx) pw) md5_magic) sp"
  have m: "length md5_magic = 3" by (simp add: md5_magic_def)
  have "md5.absorbed c1 ((([] @ pw) @ sp) @ pw)" unfolding c1_def
    using assms by (intro md5_feed md5_absorbed_init) auto
  then obtain e1 where e1: "md5_Final c1 = (rfc_md5 (pw @ sp @ pw), e1)" "fresh e1"
    using md5_final [of c1] assms by fastforce
  let ?d = "rfc_md5 (pw @ sp @ pw)"
  define c3 where "c3 = md5_weird (md5_take c2 ?d (length pw)) (replicate 17 0) pw (length pw)"
  have "md5.absorbed c2 ((([] @ pw) @ md5_magic) @ sp)" unfolding c2_def
    using assms m by (intro md5_feed md5_absorbed_init) auto
  then have "md5.absorbed (md5_take c2 ?d (length pw)) ((pw @ md5_magic @ sp) @ mixed ?d (length pw))"
    using assms m by (intro md5_take_mixed) auto
  then have "md5.absorbed c3 (((pw @ md5_magic @ sp) @ mixed ?d (length pw)) @ odd_bytes (hd pw) (length pw))"
    unfolding c3_def using assms m by (intro md5_weird_bytes) (auto simp: mixed_def)
  moreover have "length (((pw @ md5_magic @ sp) @ mixed ?d (length pw)) @ odd_bytes (hd pw) (length pw)) + 200 < 2 ^ 61"
    using assms m length_odd_bytes [of "hd pw" "length pw"] by (simp add: mixed_def)
  ultimately obtain e3 where "md5_Final c3 = (rfc_md5 (((pw @ md5_magic @ sp) @ mixed ?d (length pw)) @ odd_bytes (hd pw) (length pw)), e3)"
    using md5_final by blast
  then show ?thesis
    using e1 md5_slow_rounds [OF assms(3,4) e1(2)]
    unfolding md5_digest_def md5_crypt_hash_def Let_def c1_def [symmetric] c2_def [symmetric]
    by (simp add: c3_def)
qed

lemma true_salt_prefix:
  "true_salt n salt = Some sp \<longleftrightarrow>
     (\<exists>c r. salt = sp @ c # r \<and> length sp \<le> n \<and> 0 \<notin> set sp \<and> 36 \<notin> set sp \<and> (c = 0 \<or> c = 36 \<or> length sp = n))"
proof (induction salt arbitrary: n sp)
  case (Cons x salt)
  show ?case
  proof (cases "x \<noteq> 0 \<and> x \<noteq> 36 \<and> n \<noteq> 0")
    case True
    then show ?thesis using Cons.IH [of "n - 1"] by (cases sp) auto
  next
    case False
    then show ?thesis by (cases sp) auto
  qed
qed simp

lemma length_ascii64: "length ascii64 = 64"
  by (simp add: ascii64_def)

lemma length_to64 [simp]: "length (md5_to64 v n) = n"
  by (induction n arbitrary: v) simp_all

lemma to64_chars: "set (md5_to64 v n) \<subseteq> set ascii64"
proof (induction n arbitrary: v)
  case (Suc n)
  have "unat (take_bit 6 v) = take_bit 6 (unat v)" by (rule unsigned_take_bit_eq)
  then have "unat (v AND 0x3f) < length ascii64" unfolding length_ascii64 using and_63 [of v]
    by (simp add: take_bit_eq_mod)
  then show ?case using Suc by auto
qed simp

lemma md5_text_chars: "length (md5_text d) = 22" "set (md5_text d) \<subseteq> set ascii64"
proof -
  have u: "[0..<5] = [0, 1, 2, 3, 4 :: nat]" by (simp add: upt_conv_Cons)
  show "length (md5_text d) = 22" by (simp add: md5_text_def Let_def u)
  show "set (md5_text d) \<subseteq> set ascii64" using to64_chars unfolding md5_text_def Let_def u by force
qed

text \<open>C37. \<open>md5_crypt\<close> with a salt string of the form magic, true salt, then NUL, dollar sign or at least
  eight characters, writes magic, salt, dollar sign and 22 characters of \<open>ascii64\<close>, which encode the
  hash that the description of the algorithm gives (\<open>md5_crypt_hash\<close>: digests of concatenations, a
  thousand rounds), and a NUL; it stays inside its buffer of 36 bytes, and the rest of the buffer keeps
  its content.\<close>

theorem md5_crypt_correct:
  assumes "length salt = 3" and "true_salt 8 rest = Some sp" and "length pw < 2 ^ 30"
    and "fresh ctx" and "fresh ctx1" and "length passwd = MD5_OUT_BUFSIZE"
  shows "md5_crypt ctx ctx1 passwd pw (salt @ rest) =
      Some (str ''$1$'' @ sp @ str ''$'' @ md5_text (md5_crypt_hash pw sp) @ [0] @ drop (length sp + 27) passwd)
    \<and> length (md5_text (md5_crypt_hash pw sp)) = 22 \<and> set (md5_text (md5_crypt_hash pw sp)) \<subseteq> set ascii64"
proof -
  have sp: "length sp \<le> 8" using assms(2) by (auto simp: true_salt_prefix)
  have m: "drop (length md5_magic) (salt @ rest) = rest" using assms(1) by (simp add: md5_magic_def)
  let ?a = "str ''$1$'' @ sp @ str ''$''"
  have la: "length ?a = length sp + 4" by simp
  have p1: "poke passwd 0 ?a = Some (?a @ drop (length sp + 4) passwd)"
    unfolding poke_def la using sp assms(6) by (simp only: MD5_OUT_BUFSIZE_def add_0 take_0 append_Nil) simp
  have p2: "poke (?a @ drop (length sp + 4) passwd) (length sp + 4) (md5_text (md5_crypt_hash pw sp) @ [0])
      = Some (?a @ (md5_text (md5_crypt_hash pw sp) @ [0]) @ drop (length sp + 27) passwd)"
    using sp assms(6) by (simp add: poke_def MD5_OUT_BUFSIZE_def md5_text_chars add.commute [of 27])
  show ?thesis
    unfolding md5_crypt_def m assms(2) bind.bind_lunit p1 md5_digest_hash [OF assms(4,5,3) sp] p2
    using md5_text_chars by simp
qed

theorem md5_crypt_correct_witness:
  "\<exists>ctx. md5_crypt ctx ctx (replicate 36 0) (str ''pw'') (str ''$1$abc$'') =
     Some (str ''$1$'' @ str ''abc'' @ str ''$'' @ md5_text (md5_crypt_hash (str ''pw'') (str ''abc'')) @ [0] @ replicate 6 0)"
proof -
  let ?c = "\<lparr>m_state = (0, 0, 0, 0), m_count0 = 0, m_count1 = 0, m_buffer = replicate 64 0\<rparr>"
  have "true_salt 8 (str ''abc$'') = Some (str ''abc'')" by (simp add: str_def)
  then have "md5_crypt ?c ?c (replicate 36 0) (str ''pw'') (str ''$1$'' @ str ''abc$'') =
     Some (str ''$1$'' @ str ''abc'' @ str ''$'' @ md5_text (md5_crypt_hash (str ''pw'') (str ''abc'')) @ [0] @ replicate 6 0)"
    using md5_crypt_correct [of "str ''$1$''" "str ''abc$''" "str ''abc''" "str ''pw''" ?c ?c "replicate 36 0"]
    by (simp add: MD5_OUT_BUFSIZE_def)
  moreover have "str ''$1$'' @ str ''abc$'' = str ''$1$abc$''" by (simp add: str_def)
  ultimately show ?thesis by (metis (no_types))
qed

end
