(* ===== verification/Ead_Client.thy ===== *)
theory Ead_Client
  imports Ead Md5 Libc
begin

text \<open>
  \<open>package/network/services/ead/src/ead-client.c\<close>: the client of the emergency access daemon.

  The static variables are the record \<open>client\<close>; \<open>msgbuf\<close> holds the message that is sent and is then
  overwritten by each datagram that is read. What the run is given (byte order, random bytes, the
  hash contexts on the stack, the source address, whether the socket opens) is \<open>client_env\<close>. The
  network is a parameter with a state of its own: for each datagram that is sent it gives those that
  arrive before the timeout. Datagrams that are left when \<open>send_packet\<close> returns stay in the socket.
  \<open>size_t\<close> has 32 bits. \<^term>\<open>None\<close> is an access outside a buffer or through NULL.
\<close>

section \<open>State\<close>

definition MSGBUF :: nat where "MSGBUF = 1500"

text \<open>Offsets in \<open>msgbuf\<close> and the types of the answers.\<close>

definition CL_DATA :: nat where "CL_DATA = 20"
definition CL_ENC :: nat where "CL_ENC = CL_DATA + ENC_HDR"

definition EAD_TYPE_PONG :: u32 where "EAD_TYPE_PONG = 1"
definition EAD_TYPE_ACK_USERNAME :: u32 where "EAD_TYPE_ACK_USERNAME = 3"
definition EAD_TYPE_PRIME :: u32 where "EAD_TYPE_PRIME = 5"
definition EAD_TYPE_SEND_B :: u32 where "EAD_TYPE_SEND_B = 7"
definition EAD_TYPE_DONE_AUTH :: u32 where "EAD_TYPE_DONE_AUTH = 9"
definition EAD_TYPE_RESULT_CMD :: u32 where "EAD_TYPE_RESULT_CMD = 11"

definition EAD_AUTH_DEFAULT :: u16 where "EAD_AUTH_DEFAULT = 0"
definition EAD_AUTH_MD5 :: u16 where "EAD_AUTH_MD5 = 1"

record client_env =
  k_host :: endian
  k_raw :: sha_ctx
  k_rnd :: bytes
  k_ctx :: md5_ctx
  k_ctx1 :: md5_ctx
  k_serverip :: bytes
  k_socket :: bool
  k_bind :: bool

text \<open>What the client prints on its standard output.\<close>

datatype print = Node u16 bytes | Output bytes

record 'n client =
  cl_msgbuf :: bytes
  cl_nid :: u16
  cl_skey :: "bytes option"
  cl_bbuf :: bytes
  cl_saltbuf :: bytes
  cl_username :: bytes
  cl_password :: bytes
  cl_pw_md5 :: bytes
  cl_pw_salt :: bytes
  cl_tc :: "t_client option"
  cl_salt_len :: nat
  cl_B_len :: nat
  cl_auth_type :: u16
  cl_sid :: u16
  cl_crypt :: ead_crypt
  cl_inbox :: "bytes list"
  cl_net :: 'n
  cl_prints :: "print list"

definition client_start :: "'n \<Rightarrow> 'n client" where
  "client_start n =
     \<lparr>cl_msgbuf = replicate MSGBUF 0, cl_nid = 0xffff, cl_skey = None, cl_bbuf = replicate MAXPARAMLEN 0,
      cl_saltbuf = replicate MAXSALTLEN 0, cl_username = [], cl_password = [],
      cl_pw_md5 = replicate MD5_OUT_BUFSIZE 0, cl_pw_salt = replicate MAXSALTLEN 0, cl_tc = None,
      cl_salt_len = 0, cl_B_len = 0, cl_auth_type = EAD_AUTH_DEFAULT, cl_sid = 0,
      cl_crypt = \<lparr>aes_enc_ctx = [], aes_dec_ctx = [], ead_rx_iv = 0, ead_tx_iv = 0, ivofs_vec = 0, ivofs_idx = 0\<rparr>,
      cl_inbox = [], cl_net = n, cl_prints = []\<rparr>"

section \<open>Sending and receiving\<close>

type_synonym 'n net = "'n \<Rightarrow> bytes \<Rightarrow> 'n \<times> bytes list"
type_synonym 'n reply_handler = "'n client \<Rightarrow> (bool \<times> 'n client) option"

text \<open>Whether the datagram of \<open>len\<close> bytes in \<open>msgbuf\<close> is an answer of type \<open>ty\<close> from the node.\<close>

definition accepts :: "u32 \<Rightarrow> u16 \<Rightarrow> nat \<Rightarrow> bytes \<Rightarrow> bool option" where
  "accepts ty nid len b =
     (if len < CL_DATA then Some False
      else do {
        mlen \<leftarrow> get32 b 4;
        magic \<leftarrow> get32 b 0;
        mnid \<leftarrow> get16 b 12;
        mty \<leftarrow> get32 b 8;
        Some (if of_nat len < of_nat CL_DATA + mlen then False
              else if magic \<noteq> EAD_MAGIC then False
              else if nid \<noteq> 0xffff \<and> mnid \<noteq> nid then False
              else mty = ty) })"

text \<open>The receiving loop: the datagrams that are still to be read, and the number of answers so far.\<close>

fun recv_loop :: "u32 \<Rightarrow> 'n reply_handler \<Rightarrow> nat \<Rightarrow> nat \<Rightarrow> bytes list \<Rightarrow> 'n client \<Rightarrow> (nat \<times> 'n client) option" where
  "recv_loop ty handler max_res res [] st = Some (res, st\<lparr>cl_inbox := []\<rparr>)"
| "recv_loop ty handler max_res res (p # ps) st =
     do {
       let p = take MSGBUF p;
       b \<leftarrow> poke (cl_msgbuf st) 0 p;
       let st = st\<lparr>cl_msgbuf := b\<rparr>;
       ok \<leftarrow> accepts ty (cl_nid st) (length p) b;
       if \<not> ok then recv_loop ty handler max_res res ps st
       else do {
         (done, st) \<leftarrow> handler st;
         let res = (if done then res + 1 else res);
         if max_res > 0 \<and> res \<ge> max_res then Some (res, st\<lparr>cl_inbox := ps\<rparr>)
         else recv_loop ty handler max_res res ps st } }"

definition send_packet :: "'n net \<Rightarrow> client_env \<Rightarrow> u32 \<Rightarrow> 'n reply_handler \<Rightarrow> nat \<Rightarrow> 'n client \<Rightarrow> (nat \<times> 'n client) option" where
  "send_packet net env ty handler max_res st =
     do {
       b \<leftarrow> poke (cl_msgbuf st) 16 (k_serverip env);
       mlen \<leftarrow> get32 b 4;
       out \<leftarrow> peek b 0 (unat (of_nat CL_DATA + mlen));
       let (n, arrived) = net (cl_net st) out;
       recv_loop ty handler max_res 0 (cl_inbox st @ arrived) (st\<lparr>cl_msgbuf := b, cl_net := n\<rparr>) }"

text \<open>The fields \<open>type\<close> and \<open>len\<close> of the message that is sent.\<close>

definition put_head :: "nat \<Rightarrow> u32 \<Rightarrow> bytes \<Rightarrow> bytes option" where
  "put_head ty len b = do { b \<leftarrow> poke b 8 (be32 (of_nat ty)); poke b 4 (be32 len) }"

section \<open>Handlers of the answers\<close>

definition handle_pong :: "'n reply_handler" where
  "handle_pong st =
     do {
       mlen \<leftarrow> get32 (cl_msgbuf st) 4;
       let len = sint (mlen - of_nat SIZE_pong);
       if len \<le> 0 then Some (False, st)
       else do {
         b \<leftarrow> poke (cl_msgbuf st) (CL_DATA + 2 + nat len) [0];
         auth \<leftarrow> get16 b CL_DATA;
         mnid \<leftarrow> get16 b 12;
         name \<leftarrow> cstr_at b (CL_DATA + 2);
         sid \<leftarrow> get16 b 14;
         Some (True, st\<lparr>cl_msgbuf := b, cl_auth_type := auth, cl_sid := sid,
           cl_prints := (if cl_nid st = 0xffff then cl_prints st @ [Node mnid name] else cl_prints st)\<rparr>) } }"

text \<open>The built-in groups, as \<open>t_clientopen\<close> looks through them.\<close>

definition built_in :: "t_confent list" where
  "built_in = concat (map (\<lambda>i. case t_getpreparam i of None \<Rightarrow> [] | Some t \<Rightarrow> [t]) [0..<length pre_params])"

definition handle_prime :: "client_env \<Rightarrow> 'n reply_handler" where
  "handle_prime env st =
     do {
       slen \<leftarrow> idx (cl_msgbuf st) (CL_DATA + 1);
       s \<leftarrow> peek (cl_msgbuf st) (CL_DATA + 2) (unat slen);
       sb \<leftarrow> poke (cl_saltbuf st) 0 s;
       ext \<leftarrow> peek (cl_msgbuf st) (CL_DATA + 2 + MAXSALTLEN) MAXSALTLEN;
       let st = st\<lparr>cl_salt_len := unat slen, cl_saltbuf := sb,
                   cl_pw_salt := (if cl_auth_type st = EAD_AUTH_MD5 then take (MAXSALTLEN - 1) ext @ [0] else cl_pw_salt st)\<rparr>;
       prime \<leftarrow> idx (cl_msgbuf st) CL_DATA;
       tcp \<leftarrow> t_getpreparam (unat prime);
       tc \<leftarrow> t_clientopen (k_host env) (k_raw env) built_in (cl_username st) (modulus tcp) (generator tcp)
               (take (cl_salt_len st) (cl_saltbuf st));
       Some (tc \<noteq> None, st\<lparr>cl_tc := tc\<rparr>) }"

definition handle_b :: "'n reply_handler" where
  "handle_b st =
     do {
       mlen \<leftarrow> get32 (cl_msgbuf st) 4;
       let len = sint (mlen - of_nat SIZE_number);
       if len < 0 then None
       else do {
         d \<leftarrow> peek (cl_msgbuf st) (CL_DATA + 1) (nat len);
         bb \<leftarrow> poke (cl_bbuf st) 0 d;
         Some (True, st\<lparr>cl_B_len := nat len, cl_bbuf := bb\<rparr>) } }"

definition handle_none :: "'n reply_handler" where
  "handle_none st = Some (True, st)"

definition handle_done_auth :: "client_env \<Rightarrow> 'n reply_handler" where
  "handle_done_auth env st =
     do {
       auth \<leftarrow> peek (cl_msgbuf st) CL_DATA SIZE_auth;
       tc \<leftarrow> cl_tc st;
       let (tc, ok) = t_clientverify (k_host env) auth tc;
       Some (ok, st\<lparr>cl_tc := Some tc\<rparr>) }"

definition handle_cmd_data :: "'n reply_handler" where
  "handle_cmd_data st =
     do {
       mlen \<leftarrow> get32 (cl_msgbuf st) 4;
       (n, data, c) \<leftarrow> ead_decrypt_message (cl_crypt st) (drop CL_DATA (cl_msgbuf st)) mlen;
       let b = take CL_DATA (cl_msgbuf st) @ data;
       let st = st\<lparr>cl_msgbuf := b, cl_crypt := c\<rparr>;
       let datalen = int_minus n SIZE_cmd_data;
       if datalen < 0 then Some (False, st)
       else do {
         out \<leftarrow> peek b (CL_ENC + 1) (nat datalen);
         done \<leftarrow> idx b CL_ENC;
         Some (done \<noteq> 0, st\<lparr>cl_prints := (if datalen > 0 then cl_prints st @ [Output out] else cl_prints st)\<rparr>) } }"

section \<open>The requests\<close>

definition send_ping :: "'n net \<Rightarrow> client_env \<Rightarrow> 'n client \<Rightarrow> (nat \<times> 'n client) option" where
  "send_ping net env st =
     do {
       b \<leftarrow> put_head EAD_TYPE_PING 0 (cl_msgbuf st);
       send_packet net env EAD_TYPE_PONG handle_pong (if cl_nid st = 0xffff then 0 else 1) (st\<lparr>cl_msgbuf := b\<rparr>) }"

definition send_username :: "'n net \<Rightarrow> client_env \<Rightarrow> 'n client \<Rightarrow> (nat \<times> 'n client) option" where
  "send_username net env st =
     do {
       b \<leftarrow> put_head EAD_TYPE_SET_USERNAME (of_nat SIZE_user) (cl_msgbuf st);
       b \<leftarrow> poke b CL_DATA (cl_username st @ [0]);
       send_packet net env EAD_TYPE_ACK_USERNAME handle_none 1 (st\<lparr>cl_msgbuf := b\<rparr>) }"

definition get_prime :: "'n net \<Rightarrow> client_env \<Rightarrow> 'n client \<Rightarrow> (nat \<times> 'n client) option" where
  "get_prime net env st =
     do {
       b \<leftarrow> put_head EAD_TYPE_GET_PRIME 0 (cl_msgbuf st);
       send_packet net env EAD_TYPE_PRIME (handle_prime env) 1 (st\<lparr>cl_msgbuf := b\<rparr>) }"

definition send_a :: "'n net \<Rightarrow> client_env \<Rightarrow> 'n client \<Rightarrow> (nat \<times> 'n client) option" where
  "send_a net env st =
     do {
       tc \<leftarrow> cl_tc st;
       let tc = t_clientgenexp (k_host env) (k_rnd env) tc;
       b \<leftarrow> put_head EAD_TYPE_SEND_A (of_nat (SIZE_number + length (tc_A tc))) (cl_msgbuf st);
       b \<leftarrow> poke b (CL_DATA + 1) (tc_A tc);
       send_packet net env EAD_TYPE_SEND_B handle_b 1 (st\<lparr>cl_tc := Some tc, cl_msgbuf := b\<rparr>) }"

text \<open>\<open>prepare_password\<close>; the password is the string in its buffer.\<close>

definition prepare_client_password :: "client_env \<Rightarrow> 'n client \<Rightarrow> 'n client option" where
  "prepare_client_password env st =
     (if cl_auth_type st = EAD_AUTH_MD5 then
        do {
          h \<leftarrow> md5_crypt (k_ctx env) (k_ctx1 env) (cl_pw_md5 st) (cl_password st) (cl_pw_salt st);
          s \<leftarrow> cstr_at h 0;
          Some (st\<lparr>cl_pw_md5 := h, cl_password := s\<rparr>) }
      else Some st)"

definition send_auth :: "'n net \<Rightarrow> client_env \<Rightarrow> 'n client \<Rightarrow> (nat \<times> 'n client) option" where
  "send_auth net env st =
     do {
       st \<leftarrow> prepare_client_password env st;
       tc \<leftarrow> cl_tc st;
       let tc = t_clientpasswd (k_host env) (k_raw env) (cl_password st) tc;
       let (tc, skey) = t_clientgetkey (k_host env) (k_raw env) (take (cl_B_len st) (cl_bbuf st)) tc;
       let st = st\<lparr>cl_tc := Some tc, cl_skey := skey\<rparr>;
       (case skey of
          None \<Rightarrow> Some (0, st)
        | Some key \<Rightarrow>
            do {
              b \<leftarrow> put_head EAD_TYPE_SEND_AUTH (of_nat SIZE_auth) (cl_msgbuf st);
              b \<leftarrow> poke b CL_DATA (take SIZE_auth (t_clientresponse tc));
              send_packet net env EAD_TYPE_DONE_AUTH (handle_done_auth env) 1
                (st\<lparr>cl_crypt := ead_set_key (k_host env) key (cl_crypt st), cl_msgbuf := b\<rparr>) }) }"

definition send_command :: "'n net \<Rightarrow> client_env \<Rightarrow> bytes \<Rightarrow> 'n client \<Rightarrow> (nat \<times> 'n client) option" where
  "send_command net env command st =
     do {
       b \<leftarrow> poke (cl_msgbuf st) 8 (be32 (of_nat EAD_TYPE_SEND_CMD));
       b \<leftarrow> poke b CL_ENC [0];
       b \<leftarrow> poke b (CL_ENC + 1) (be16 10);
       b \<leftarrow> poke b (CL_ENC + 3) (take 1024 command @ replicate (1024 - length command) 0);
       (data, mlen, c) \<leftarrow> ead_encrypt_message (cl_crypt st) (drop CL_DATA b) (SIZE_cmd + length command + 1);
       b \<leftarrow> poke (take CL_DATA b @ data) 4 (be32 mlen);
       send_packet net env EAD_TYPE_RESULT_CMD handle_cmd_data 1 (st\<lparr>cl_msgbuf := b, cl_crypt := c\<rparr>) }"

section \<open>The program\<close>

text \<open>\<open>main\<close> after its options: the arguments that are left. The user name ends at a colon, behind
  which the password starts.\<close>

definition parse_args :: "bytes list \<Rightarrow> (u16 \<times> bytes option \<times> bytes \<times> bytes option) option" where
  "parse_args args =
     (if length args > 3 then None
      else
        let command = (if length args = 3 then Some (args ! 2) else None);
            user = (if 2 \<le> length args then Some (takeWhile (\<lambda>c. c \<noteq> 58) (args ! 1)) else None);
            pw = (if 2 \<le> length args then take (MAXPARAMLEN - 1) (drop 1 (dropWhile (\<lambda>c. c \<noteq> 58) (args ! 1))) else [])
        in if args = [] then Some (0xffff, user, pw, command)
           else (let (v, rest) = strtoul 32 16 (args ! 0)
                 in if rest \<noteq> [] then None else Some (of_nat v, user, pw, command)))"

text \<open>The steps after the answer to the ping, with the exit status of the program.\<close>

definition login :: "'n net \<Rightarrow> client_env \<Rightarrow> bytes option \<Rightarrow> 'n client \<Rightarrow> (int \<times> 'n client) option" where
  "login net env command st =
     do {
       (r, st) \<leftarrow> send_username net env st;
       if r = 0 then Some (1, st)
       else do {
         (r, st) \<leftarrow> get_prime net env st;
         if r = 0 then Some (1, st)
         else do {
           (r, st) \<leftarrow> send_a net env st;
           if r = 0 then Some (1, st)
           else do {
             (r, st) \<leftarrow> send_auth net env st;
             if r = 0 then Some (1, st)
             else (case command of
                 None \<Rightarrow> Some (0, st)
               | Some c \<Rightarrow>
                   do {
                     (r, st) \<leftarrow> send_command net env c st;
                     Some (if r = 0 then 1 else 0, st) }) } } } }"

definition client_main :: "'n net \<Rightarrow> client_env \<Rightarrow> bytes list \<Rightarrow> 'n \<Rightarrow> (int \<times> 'n client) option" where
  "client_main net env args n =
     (let st = client_start n in
      case parse_args args of
        None \<Rightarrow> Some (- 1, st)
      | Some (nid, user, pw, command) \<Rightarrow>
          do {
            b \<leftarrow> poke (cl_msgbuf st) 0 (be32 EAD_MAGIC);
            b \<leftarrow> poke b 12 (be16 nid);
            let st = st\<lparr>cl_msgbuf := b, cl_nid := nid, cl_username := (case user of None \<Rightarrow> [] | Some u \<Rightarrow> u),
                        cl_password := pw\<rparr>;
            if \<not> k_socket env \<or> \<not> k_bind env then Some (- 1, st)
            else do {
              (r, st) \<leftarrow> send_ping net env st;
              if r = 0 then Some (1, st)
              else if nid = 0xffff then Some (0, st)
              else if user = None \<or> pw = [] then Some (0, st)
              else login net env command st } })"

end
