(* ===== verification/Ead_Answer.thy ===== *)
theory Ead_Answer
  imports Ead_Session
begin

text \<open>
  The daemon's answers to a command: what it forwards of the command's output arrives at a peer that
  has the session key, message by message and in order.
\<close>

section \<open>Encrypted messages\<close>

text \<open>A receiver and a sender with the same key, the receiver's counter where the sender's is.\<close>

definition paired :: "bytes \<Rightarrow> ead_crypt \<Rightarrow> ead_crypt \<Rightarrow> bool" where
  "paired key c s \<longleftrightarrow> aes_enc_ctx s = rijndaelKeySetupEnc key \<and> aes_dec_ctx c = rijndaelKeySetupDec key \<and> ead_rx_iv c = ead_tx_iv s"

text \<open>The receiver finds the payload in the body of a message, whatever follows it in memory.\<close>

definition delivered :: "ead_crypt \<Rightarrow> bytes \<Rightarrow> bytes \<Rightarrow> ead_crypt \<Rightarrow> bool" where
  "delivered c body pl c' \<longleftrightarrow> length pl + 25 \<le> length body \<and> length body \<le> length pl + 88 \<and>
     (\<forall>rest. \<exists>d. ead_decrypt_message c (body @ rest) (of_nat (length body)) = Some (int (length pl), d, c') \<and> take (length pl) (drop 25 d) = pl)"

fun delivers :: "ead_crypt \<Rightarrow> bytes list \<Rightarrow> bytes list \<Rightarrow> ead_crypt \<Rightarrow> bool" where
  "delivers c [] [] c' \<longleftrightarrow> c' = c"
| "delivers c (b # bs) (p # ps) c' \<longleftrightarrow> (\<exists>c1. delivered c b p c1 \<and> delivers c1 bs ps c')"
| "delivers c _ _ c' \<longleftrightarrow> False"

lemma delivers_snoc: "delivers c bs ps c1 \<Longrightarrow> delivered c1 b p c2 \<Longrightarrow> delivers c (bs @ [b]) (ps @ [p]) c2"
  by (induction c bs ps c1 rule: delivers.induct) auto

lemma next_iv:
  assumes "unat (ead_tx_iv s) + 4 < 2 ^ 32" and "ead_get_tx_iv s = (iv, s')"
  shows "ead_tx_iv s < iv" "iv \<le> ead_tx_iv s + EAD_MAX_IV_INCR \<or> 2 ^ 32 \<le> unat (ead_tx_iv s) + 128"
    "unat iv \<le> unat (ead_tx_iv s) + 4" "ead_tx_iv s' = iv"
    "aes_enc_ctx s' = aes_enc_ctx s" "aes_dec_ctx s' = aes_dec_ctx s" "ead_rx_iv s' = ead_rx_iv s"
proof -
  define w where "w = ead_tx_iv s"
  define k where "k = drop_bit (2 * ivofs_idx s) (ivofs_vec s) AND 3"
  have "k \<le> 3" unfolding k_def by (rule word_and_le1)
  then have u: "unat k \<le> 3" by (simp add: word_le_nat_alt)
  have k1: "unat (1 + k) = 1 + unat k" using u by (subst unat_plus_if') simp
  have s: "unat (w + (1 + k)) = unat w + 1 + unat k"
    using u k1 assms(1) unfolding w_def by (subst unat_plus_if') simp
  have f: "iv = w + (1 + k)" using assms(2) by (auto simp: ead_get_tx_iv_def Let_def w_def k_def)
  show "ead_tx_iv s < iv" unfolding f word_less_nat_alt s w_def [symmetric] by simp
  show "iv \<le> ead_tx_iv s + EAD_MAX_IV_INCR \<or> 2 ^ 32 \<le> unat (ead_tx_iv s) + 128"
  proof (cases "unat w + 128 < 2 ^ 32")
    case True
    then have "unat (w + 128) = unat w + 128" by (subst unat_plus_if') simp
    then show ?thesis unfolding f word_le_nat_alt EAD_MAX_IV_INCR_def w_def [symmetric] s using u by simp
  qed (simp add: w_def)
  show "unat iv \<le> unat (ead_tx_iv s) + 4" unfolding f s using u by (simp add: w_def)
  show "ead_tx_iv s' = iv" "aes_enc_ctx s' = aes_enc_ctx s" "aes_dec_ctx s' = aes_dec_ctx s" "ead_rx_iv s' = ead_rx_iv s"
    using assms(2) by (auto simp: ead_get_tx_iv_def Let_def)
qed

lemma encrypt_next: "ead_encrypt_message st data n = Some (d, mlen, st') \<Longrightarrow> st' = snd (ead_get_tx_iv st)"
  unfolding ead_encrypt_message_def Let_def case_prod_unfold by (auto simp: bind_eq_Some_conv)

text \<open>What one side encrypts the other side finds, and they stay together.\<close>

lemma message_delivered:
  assumes p: "paired key c s" and iv: "unat (ead_tx_iv s) + 128 < 2 ^ 32"
    and data: "len + 88 \<le> length data" "length data < 2 ^ 31"
  shows "\<exists>d n s' c'. ead_encrypt_message s data len = Some (d, of_nat (64 * n), s') \<and> length d = length data
    \<and> 64 * n \<le> len + 88 \<and> 0 < n \<and> delivered c (take (64 * n) d) (take len (drop 25 data)) c' \<and> paired key c' s'
    \<and> unat (ead_tx_iv s') \<le> unat (ead_tx_iv s) + 4 \<and> aes_dec_ctx s' = aes_dec_ctx s \<and> ead_rx_iv s' = ead_rx_iv s
    \<and> c' = c\<lparr>ead_rx_iv := ead_rx_iv c'\<rparr>"
proof -
  obtain iv s1 where g: "ead_get_tx_iv s = (iv, s1)" by (meson surj_pair)
  have "unat (ead_tx_iv s) + 4 < 2 ^ 32" using iv by simp
  note nx = next_iv [OF this g]
  have k: "aes_enc_ctx s = rijndaelKeySetupEnc key" "aes_dec_ctx c = rijndaelKeySetupDec key" "ead_rx_iv c = ead_tx_iv s"
    using p by (simp_all add: paired_def)
  have w: "ead_rx_iv c < fst (ead_get_tx_iv s)" "fst (ead_get_tx_iv s) \<le> ead_rx_iv c + EAD_MAX_IV_INCR"
    using nx(1,2) iv unfolding k(3) g by auto
  obtain d n s' where e: "ead_encrypt_message s data len = Some (d, of_nat (64 * n), s')" "length d = length data"
    "len + 25 \<le> 64 * n" "64 * n \<le> len + 88"
    and dec: "\<And>rest. \<exists>dd r'. ead_decrypt_message c (take (64 * n) d @ rest) (of_nat (64 * n)) = Some (int len, dd, r')
         \<and> take len (drop 25 dd) = take len (drop 25 data) \<and> r' = c\<lparr>ead_rx_iv := ead_tx_iv s'\<rparr>"
    using message_arrives [OF k(1,2) data w] by blast
  have s': "s' = s1" using encrypt_next [OF e(1)] g by simp
  have l: "length (take (64 * n) d) = 64 * n" "length (take len (drop 25 data)) = len" using e(2,4) data(1) by simp_all
  let ?c = "c\<lparr>ead_rx_iv := ead_tx_iv s'\<rparr>"
  have "delivered c (take (64 * n) d) (take len (drop 25 data)) ?c"
    unfolding delivered_def l using e(3,4) dec by blast
  moreover have "paired key ?c s'" using k nx unfolding s' paired_def by simp
  moreover have "0 < n" using e(3) by (cases n) auto
  moreover note e nx [folded s']
  ultimately show ?thesis
    by - (rule exI [of _ d], rule exI [of _ n], rule exI [of _ s'], rule exI [of _ "c\<lparr>ead_rx_iv := ead_tx_iv s'\<rparr>"], simp)
qed

section \<open>The answers to a command\<close>

text \<open>The message in \<open>pktbuf\<close> is encrypted and sent.\<close>

lemma encrypted_answer:
  assumes m: "msg_in (pktbuf st) x l y r" and mac: "length (c_ethmac conf) = 6" and pkt: "62 \<le> length pkt"
    and p: "paired key c (crypt st)" and iv: "unat (ead_tx_iv (crypt st)) + 128 < 2 ^ 32" and len: "len \<le> 1400"
  shows "\<exists>st1 b body s' c' out l' r'. encrypt_reply len st = Some st1
    \<and> ead_send_packet_clone conf pkt st1 = Some (st\<lparr>pktbuf := b, crypt := s', events := events st @ [Send out]\<rparr>)
    \<and> st1 = st\<lparr>pktbuf := pktbuf st1, crypt := s'\<rparr>
    \<and> drop 42 out = x @ be32 (of_nat (length body)) @ y @ body \<and> msg_in b x l' y r'
    \<and> delivered c body (take len (drop 25 r)) c' \<and> paired key c' s' \<and> unat (ead_tx_iv s') \<le> unat (ead_tx_iv (crypt st)) + 4"
proof -
  note ml = msg_in_length [OF m]
  note ms = msg_split [OF m]
  define h where "h = take 42 (pktbuf st) @ x @ l @ y"
  have "length h = DATA" using m ms(2) by (simp add: msg_in_def DATA_def h_def)
  moreover have "pktbuf st = h @ r" using ms(1) by (simp add: h_def)
  ultimately have r: "drop DATA (pktbuf st) = r" "take DATA (pktbuf st) = take 42 (pktbuf st) @ x @ l @ y"
    by (metis append_eq_conv_conj, metis append_eq_conv_conj h_def)
  obtain d n s' c' where e: "ead_encrypt_message (crypt st) r len = Some (d, of_nat (64 * n), s')" "length d = length r"
    "64 * n \<le> len + 88" "0 < n" "delivered c (take (64 * n) d) (take len (drop 25 r)) c'" "paired key c' s'"
    "unat (ead_tx_iv s') \<le> unat (ead_tx_iv (crypt st)) + 4"
    using message_delivered [OF p iv, of len r] ml len by auto
  have "msg_in (take DATA (pktbuf st) @ d) x l y d"
    using m ms(2) e(2) ml unfolding r(2) by (simp add: msg_in_def PCAP_MRU_def)
  then obtain b1 where b1: "poke (take DATA (pktbuf st) @ d) 46 (be32 (of_nat (64 * n))) = Some b1" "msg_in b1 x (be32 (of_nat (64 * n))) y d"
    using msg_poke_len [of "take DATA (pktbuf st) @ d" x l y d "be32 (of_nat (64 * n))"] by auto
  let ?st1 = "st\<lparr>pktbuf := b1, crypt := s'\<rparr>"
  have er: "encrypt_reply len st = Some ?st1" unfolding encrypt_reply_def r(1) e(1) by (simp add: b1(1) del: of_nat_mult)
  have n: "64 * n \<le> length d" using e(2,3) ml len by simp
  obtain b2 out where c: "ead_send_packet_clone conf pkt ((st\<lparr>crypt := s'\<rparr>)\<lparr>pktbuf := b1\<rparr>) = Some ((st\<lparr>crypt := s'\<rparr>)\<lparr>pktbuf := b2, events := events (st\<lparr>crypt := s'\<rparr>) @ [Send out]\<rparr>)"
    "msg_in b2 x (be32 (of_nat (64 * n))) y d" "drop 42 out = x @ be32 (of_nat (64 * n)) @ y @ take (64 * n) d"
    using msg_clone [OF b1(2) n mac pkt, of "st\<lparr>crypt := s'\<rparr>"] by blast
  have c1: "ead_send_packet_clone conf pkt ?st1 = Some (st\<lparr>pktbuf := b2, crypt := s', events := events st @ [Send out]\<rparr>)"
    using c(1) by (cases st) simp
  define body where "body = take (64 * n) d"
  have lb: "length body = 64 * n" using n by (simp add: body_def)
  show ?thesis
    using er c1 c(2,3) [folded body_def] e(5-7) [folded body_def]
    by - (rule exI [of _ ?st1], rule exI [of _ b2], rule exI [of _ body], rule exI [of _ s'], rule exI [of _ c'], rule exI [of _ out], rule exI [of _ "be32 (of_nat (64 * n))"], rule exI [of _ d],
        simp add: lb del: of_nat_mult)
qed

text \<open>What the passes of the loop forward, up to the end of the output.\<close>

fun outputs :: "round list \<Rightarrow> bytes list" where
  "outputs [] = []"
| "outputs (r # rs) = (if r_out r = [] \<and> \<not> r_pending r then [] else take 1024 (r_out r) # outputs rs)"

text \<open>The messages of frames that are sent: one header, the bodies.\<close>

definition carries :: "bytes \<Rightarrow> bytes \<Rightarrow> bytes list \<Rightarrow> bytes list \<Rightarrow> bool" where
  "carries x y frames bodies \<longleftrightarrow> map (drop 42) frames = map (\<lambda>b. x @ be32 (of_nat (length b)) @ y @ b) bodies"

lemma stream_delivers:
  assumes "msg_in (pktbuf st) x l y r" and "paired key c (crypt st)" and "unat (ead_tx_iv (crypt st)) + 4 * length rs + 128 < 2 ^ 32"
    and "\<forall>r \<in> set rs. r_time r < timeout" and "length (c_ethmac conf) = 6" and "62 \<le> length pkt"
  shows "\<exists>b s' frames bodies c' l' r'. stream_loop conf pkt timeout rs st
      = Some (st\<lparr>pktbuf := b, crypt := s', events := events st @ map Send frames, child_pending := False\<rparr>)
    \<and> msg_in b x l' y r' \<and> carries x y frames bodies \<and> delivers c bodies (map ((#) 0) (outputs rs)) c' \<and> paired key c' s'
    \<and> unat (ead_tx_iv s') \<le> unat (ead_tx_iv (crypt st)) + 4 * length rs"
  using assms
proof (induction rs arbitrary: st l r c)
  case Nil
  obtain b r' where b: "poke (pktbuf st) ENC_DATA [0] = Some b" "msg_in b x l y r'"
    using msg_poke_data [OF Nil.prems(1), of 25 "[0]"] msg_in_length [OF Nil.prems(1)] by (auto simp: layout_defs)
  then show ?case using Nil.prems(2)
    by - (rule exI [of _ b], rule exI [of _ "crypt st"], rule exI [of _ "[]"], rule exI [of _ "[]"], rule exI [of _ c], rule exI [of _ l], rule exI [of _ r'],
      simp add: carries_def)
next
  case (Cons a rs)
  have lr: "length r = 1538" using msg_in_length [OF Cons.prems(1)] by simp
  obtain b where b: "poke (pktbuf st) ENC_DATA [0] = Some b" "msg_in b x l y (take 25 r @ [0] @ drop 26 r)"
    using msg_poke_data [OF Cons.prems(1), of 25 "[0]"] lr by (auto simp: layout_defs)
  define out where "out = take 1024 (r_out a)"
  have lo: "length out \<le> 1024" by (simp add: out_def)
  define r2 where "r2 = (take 25 r @ [0]) @ out @ drop (26 + length out) r"
  obtain b2 where b2: "poke b (ENC_DATA + 1) out = Some b2" "msg_in b2 x l y r2"
    using msg_poke_data [OF b(2), of 26 out] lr lo by (auto simp: layout_defs r2_def add.commute)
  have pl: "take (1 + length out) (drop 25 r2) = 0 # out" using lr by (simp add: r2_def)
  let ?st = "st\<lparr>pktbuf := b2\<rparr>"
  show ?case
  proof (cases "out = [] \<and> \<not> r_pending a")
    case True
    then have "r_out a = []" by (simp add: out_def)
    then have "stream_loop conf pkt timeout (a # rs) st = Some (?st\<lparr>child_pending := False\<rparr>)" "outputs (a # rs) = []"
      using True b(1) b2(1) by (simp_all add: out_def)
    then show ?thesis using Cons.prems(2) b2(2)
      by - (rule exI [of _ b2], rule exI [of _ "crypt st"], rule exI [of _ "[]"], rule exI [of _ "[]"], rule exI [of _ c], rule exI [of _ l], rule exI [of _ r2],
        simp add: carries_def)
  next
    case False
    then have o: "outputs (a # rs) = out # outputs rs" by (auto simp: out_def)
    have m2: "msg_in (pktbuf ?st) x l y r2" and p2: "paired key c (crypt ?st)" and iv2: "unat (ead_tx_iv (crypt ?st)) + 128 < 2 ^ 32"
      and l2: "1 + length out \<le> 1400"
      using b2(2) Cons.prems(2,3) lo by simp_all
    obtain st1 b3 body s' c' fr l' r' where e: "encrypt_reply (1 + length out) ?st = Some st1"
      "ead_send_packet_clone conf pkt st1 = Some (?st\<lparr>pktbuf := b3, crypt := s', events := events ?st @ [Send fr]\<rparr>)"
      "drop 42 fr = x @ be32 (of_nat (length body)) @ y @ body" "msg_in b3 x l' y r'"
      "delivered c body (0 # out) c'" "paired key c' s'" "unat (ead_tx_iv s') \<le> unat (ead_tx_iv (crypt st)) + 4"
      using encrypted_answer [OF m2 Cons.prems(5,6) p2 iv2 l2] unfolding pl by auto
    let ?st3 = "st\<lparr>pktbuf := b3, crypt := s', events := events st @ [Send fr]\<rparr>"
    have step: "stream_loop conf pkt timeout (a # rs) st = stream_loop conf pkt timeout rs ?st3"
      using b(1) b2(1) e(1,2) False Cons.prems(4) by (auto simp: out_def SIZE_cmd_data_def Let_def)
    have "unat (ead_tx_iv (crypt ?st3)) + 4 * length rs + 128 < 2 ^ 32" using e(7) Cons.prems(3) by simp
    then obtain b4 s4 frames bodies c4 l4 r4 where ih: "stream_loop conf pkt timeout rs ?st3
        = Some (?st3\<lparr>pktbuf := b4, crypt := s4, events := events ?st3 @ map Send frames, child_pending := False\<rparr>)"
      "msg_in b4 x l4 y r4" "carries x y frames bodies" "delivers c' bodies (map ((#) 0) (outputs rs)) c4" "paired key c4 s4"
      "unat (ead_tx_iv s4) \<le> unat (ead_tx_iv (crypt ?st3)) + 4 * length rs"
      using Cons.IH [of ?st3 l' r' c'] e(4,6) Cons.prems(4-6) by auto
    show ?thesis unfolding step ih(1) o using ih(2-6) e(3,5,7)
      by - (rule exI [of _ b4], rule exI [of _ s4], rule exI [of _ "fr # frames"], rule exI [of _ "body # bodies"], rule exI [of _ c4], rule exI [of _ l4], rule exI [of _ r4],
        auto simp: carries_def)
  qed
qed

lemma run_cmd_delivers:
  assumes m: "msg_in (pktbuf st) x l y r" and p: "paired key kc (crypt st)"
    and iv: "unat (ead_tx_iv (crypt st)) + 4 * length (e_rounds env) + 128 < 2 ^ 32"
    and quick: "\<forall>r \<in> set (e_rounds env). r_time r < timeout" "timeout \<noteq> 0" and mac: "length (c_ethmac conf) = 6"
    and pkt: "62 \<le> length pkt" "cstr_at pkt (ENC_DATA + 3) = Some cmd" and env: "e_pipe env" "e_fork env"
  shows "\<exists>st1 b s' frames bodies kc'. run_cmd conf env 0 timeout pkt st = Some (True, state st, pkt, st1)
    \<and> ead_send_packet_clone conf pkt st1
      = Some (st\<lparr>pktbuf := b, crypt := s', events := events st @ Exec cmd # map Send frames, child_pending := False\<rparr>)
    \<and> carries x y frames bodies \<and> delivers kc bodies (map ((#) 0) (outputs (e_rounds env)) @ [[1]]) kc'"
proof -
  let ?st = "st\<lparr>child_pending := True, events := events st @ [Exec cmd]\<rparr>"
  have "msg_in (pktbuf ?st) x l y r" "paired key kc (crypt ?st)" "unat (ead_tx_iv (crypt ?st)) + 4 * length (e_rounds env) + 128 < 2 ^ 32"
    using m p iv by simp_all
  from stream_delivers [OF this quick(1) mac pkt(1)] obtain b s' frames bodies c' l' r' where s:
    "stream_loop conf pkt timeout (e_rounds env) ?st
      = Some (?st\<lparr>pktbuf := b, crypt := s', events := events ?st @ map Send frames, child_pending := False\<rparr>)"
    "msg_in b x l' y r'" "carries x y frames bodies" "delivers kc bodies (map ((#) 0) (outputs (e_rounds env))) c'" "paired key c' s'"
    "unat (ead_tx_iv s') \<le> unat (ead_tx_iv (crypt ?st)) + 4 * length (e_rounds env)" by blast
  let ?s = "?st\<lparr>pktbuf := b, crypt := s', events := events ?st @ map Send frames, child_pending := False\<rparr>"
  have lr: "length r' = 1538" using msg_in_length [OF s(2)] by simp
  obtain b2 where b2: "poke b ENC_DATA [1] = Some b2" "msg_in b2 x l' y (take 25 r' @ [1] @ drop 26 r')"
    using msg_poke_data [OF s(2), of 25 "[1]"] lr by (auto simp: layout_defs)
  let ?s2 = "?s\<lparr>pktbuf := b2\<rparr>"
  have pl: "take 1 (drop 25 (take 25 r' @ [1] @ drop 26 r')) = [1]" using lr by simp
  have "msg_in (pktbuf ?s2) x l' y (take 25 r' @ [1] @ drop 26 r')" "paired key c' (crypt ?s2)" "unat (ead_tx_iv (crypt ?s2)) + 128 < 2 ^ 32"
    using b2(2) s(5,6) iv by simp_all
  from encrypted_answer [OF this(1) mac pkt(1) this(2,3), of 1, unfolded pl] obtain st1 b3 body s3 c3 out where e:
    "encrypt_reply 1 ?s2 = Some st1"
    "ead_send_packet_clone conf pkt st1 = Some (?s2\<lparr>pktbuf := b3, crypt := s3, events := events ?s2 @ [Send out]\<rparr>)"
    "st1 = ?s2\<lparr>pktbuf := pktbuf st1, crypt := s3\<rparr>"
    "drop 42 out = x @ be32 (of_nat (length body)) @ y @ body" "delivered c' body [1] c3" by auto
  have "state st1 = state st" by (subst e(3)) simp
  moreover have "cmd_done pkt ?s = Some (True, state st1, pkt, st1)"
    using b2(1) e(1) by (simp add: cmd_done_def SIZE_cmd_data_def)
  ultimately have run: "run_cmd conf env 0 timeout pkt st = Some (True, state st, pkt, st1)"
    using s(1) env pkt(2) quick(2) by (simp add: run_cmd_def Let_def)
  have ev: "?s2\<lparr>pktbuf := b3, crypt := s3, events := events ?s2 @ [Send out]\<rparr>
      = st\<lparr>pktbuf := b3, crypt := s3, events := events st @ Exec cmd # map Send (frames @ [out]), child_pending := False\<rparr>"
    by (cases st) simp
  have "carries x y (frames @ [out]) (bodies @ [body])" using s(3) e(4) by (simp add: carries_def)
  moreover have "delivers kc (bodies @ [body]) (map ((#) 0) (outputs (e_rounds env)) @ [[1]]) c3"
    by (rule delivers_snoc [OF s(4) e(5)])
  ultimately show ?thesis using run e(2) unfolding ev by blast
qed

text \<open>The daemon's side of a command: it is run, and its output is sent to the peer.\<close>

lemma step_cmd_answers:
  assumes inv: "ead_inv st" and hdr: "to_daemon hdr" and ip: "length ip = 4" and mac: "length (c_ethmac conf) = 6"
    and node: "for_node conf nid sid" and st: "state st = 10" and body: "delivered (crypt st) body (cmd_payload to cmd) c"
    and p: "paired key kc c" and iv: "unat (ead_tx_iv c) + 4 * length (e_rounds env) + 128 < 2 ^ 32"
    and quick: "\<forall>r \<in> set (e_rounds env). r_time r < unat to" "unat to \<noteq> 0"
    and cmd: "is_cstr cmd" "length cmd \<le> 1024" and env: "e_pipe env" "e_fork env" and rest: "rest \<noteq> []"
  shows "\<exists>st' frames bodies kc' ip'. handle_packet conf env (of_nat (62 + length body)) (hdr @ message 10 nid sid ip body @ rest) st = Some st'
    \<and> events st' = events st @ Exec cmd # map Send frames \<and> length ip' = 4
    \<and> map (drop 42) frames = map (message 11 (c_nid conf) sid ip') bodies
    \<and> delivers kc bodies (map ((#) 0) (outputs (e_rounds env)) @ [[1]]) kc'"
proof -
  let ?pkt = "hdr @ message 10 nid sid ip body @ rest"
  have lb: "length (cmd_payload to cmd) + 25 \<le> length body" "length body \<le> length (cmd_payload to cmd) + 88"
    using body by (simp_all only: delivered_def)
  note f = frame_fields [OF hdr ip, of 10 nid sid body rest]
  have lp: "DATA + length cmd + 29 < length ?pkt" unfolding f(11) using lb(1) rest by (cases rest) (simp_all add: DATA_def)
  obtain b ip' r where b: "reply_header conf 10 (be16 sid) (pktbuf st) = Some b" "length ip' = 4"
    "msg_in b (be32 EAD_MAGIC) (be32 0) (be32 (10 + 1) @ be16 (c_nid conf) @ be16 sid @ ip') r"
    using reply_header_msg [of "pktbuf st" "be16 sid" conf 10] inv by (auto simp: inv_defs)
  let ?st = "st\<lparr>pktbuf := b\<rparr>"
  have turn: "at_turn (sint (10 :: u32)) st" using st by (simp add: at_turn_def)
  have nd: "nid = 0xffff \<or> nid = c_nid conf" "(10 :: u32) = 0 \<or> unat (drop_bit 12 (sid AND 0xf000)) = c_inst conf"
    using node by (simp_all add: for_node_def)
  have "90 \<le> 62 + length body" "length body < 1500" using lb cmd(2) by simp_all
  note dp = daemon_dispatch [OF hdr ip nd select_types(6) [of conf env] turn this refl b(1), of rest]
  obtain d where d: "ead_decrypt_message (crypt ?st) (drop DATA ?pkt) (of_nat (length body)) = Some (int (length cmd + 4), d, c)"
    "take (length cmd + 4) (drop 25 d) = cmd_payload to cmd"
    using body f(10) unfolding delivered_def by (auto simp: DATA_def)
  obtain pk where pk: "handle_send_cmd conf env ?pkt ?st = run_cmd conf env 0 (unat to) pk (?st\<lparr>crypt := c\<rparr>)"
    "cstr_at pk (ENC_DATA + 3) = Some cmd" "length pk = length ?pkt"
    using handle_send_cmd_run [OF d(1) f(6) d(2) cmd lp] by blast
  have lpk: "62 \<le> length pk" unfolding pk(3) f(11) by simp
  note t0 = quick(2)
  let ?s = "?st\<lparr>crypt := c\<rparr>"
  have "msg_in (pktbuf ?s) (be32 EAD_MAGIC) (be32 0) (be32 (10 + 1) @ be16 (c_nid conf) @ be16 sid @ ip') r" "paired key kc (crypt ?s)"
    "unat (ead_tx_iv (crypt ?s)) + 4 * length (e_rounds env) + 128 < 2 ^ 32" using b(3) p iv by simp_all
  from run_cmd_delivers [OF this quick(1) t0 mac lpk pk(2) env] obtain st1 b2 s' frames bodies kc' where r:
    "run_cmd conf env 0 (unat to) pk ?s = Some (True, state ?s, pk, st1)"
    "ead_send_packet_clone conf pk st1
      = Some (?s\<lparr>pktbuf := b2, crypt := s', events := events ?s @ Exec cmd # map Send frames, child_pending := False\<rparr>)"
    "carries (be32 EAD_MAGIC) (be32 (10 + 1) @ be16 (c_nid conf) @ be16 sid @ ip') frames bodies"
    "delivers kc bodies (map ((#) 0) (outputs (e_rounds env)) @ [[1]]) kc'" by blast
  have "handle_packet conf env (of_nat (62 + length body)) ?pkt st
      = Some (?s\<lparr>pktbuf := b2, crypt := s', events := events ?s @ Exec cmd # map Send frames, child_pending := False\<rparr>)"
    unfolding dp pk(1) r(1) using r(2) st by (simp add: set_state_def)
  moreover have "map (drop 42) frames = map (message 11 (c_nid conf) sid ip') bodies"
    using r(3) by (simp add: carries_def message_def)
  ultimately show ?thesis using r(4) b(2) by (intro exI conjI) (assumption | simp)+
qed

end
