(* ===== verification/Ead_Client_Msg.thy ===== *)
theory Ead_Client_Msg
  imports Ead_Client Ead_Answer Md5_Laws
begin

text \<open>
  The client of the emergency access daemon, one request at a time: \<open>msgbuf\<close> before and after a
  request, the daemon as the network of the client, and the ping.
\<close>

section \<open>Exchanges\<close>

text \<open>The header of the message in \<open>msgbuf\<close>.\<close>

definition chead :: "u32 \<Rightarrow> u32 \<Rightarrow> u16 \<Rightarrow> bytes \<Rightarrow> bytes" where
  "chead len ty nid ip = be32 EAD_MAGIC @ be32 len @ be32 ty @ be16 nid @ be16 0 @ ip"

text \<open>\<open>msgbuf\<close> between two requests: a message of the node (or the first header), session id 0.\<close>

definition cmsg :: "bytes \<Rightarrow> u16 \<Rightarrow> bytes \<Rightarrow> bool" where
  "cmsg b nid r \<longleftrightarrow> length r = 1480 \<and> (\<exists>len ty ip. length ip = 4 \<and> b = chead len ty nid ip @ r)"

lemma length_chead: "length ip = 4 \<Longrightarrow> length (chead len ty nid ip) = 20"
  by (simp add: chead_def)

lemma message_chead: "message ty nid 0 ip body = chead (of_nat (length body)) ty nid ip @ body"
  by (simp add: message_def chead_def)

lemma chead_fields:
  assumes "length ip = 4"
  shows "get32 (chead len ty nid ip @ r) 0 = Some EAD_MAGIC" "get32 (chead len ty nid ip @ r) 4 = Some len"
    "get32 (chead len ty nid ip @ r) 8 = Some ty" "get16 (chead len ty nid ip @ r) 12 = Some nid"
    "get16 (chead len ty nid ip @ r) 14 = Some 0" "drop 20 (chead len ty nid ip @ r) = r"
    "take 20 (chead len ty nid ip @ r) = chead len ty nid ip"
  using assms by (simp_all add: chead_def get32_def get16_def peek_def)

lemma put_head_chead:
  assumes "length ip = 4"
  shows "put_head ty len (chead len' ty' nid ip @ r) = Some (chead len (of_nat ty) nid ip @ r)"
    and "poke (chead len' ty' nid ip @ r) 4 (be32 len) = Some (chead len ty' nid ip @ r)"
    and "length ip2 = 4 \<Longrightarrow> poke (chead len' ty' nid ip @ r) 16 ip2 = Some (chead len' ty' nid ip2 @ r)"
  using assms by (simp_all add: put_head_def chead_def poke_def)

lemma poke_after: "length h = n \<Longrightarrow> k + length d \<le> length r \<Longrightarrow>
    poke (h @ r) (n + k) d = Some (h @ take k r @ d @ drop (k + length d) r)"
  by (auto simp: poke_def)

lemma peek_after: "length h = n \<Longrightarrow> peek (h @ r) (n + k) m = peek r k m"
  by (auto simp: peek_def)

lemma idx_after: "length h = n \<Longrightarrow> idx (h @ r) (n + k) = idx r k"
  by (auto simp: idx_def nth_append)

text \<open>The message of a request leaves; the answers are read.\<close>

lemma send_packet_out:
  assumes ip: "length ip = 4" "length (k_serverip env) = 4" and r: "length r = 1480" "n \<le> 1480"
    and b: "cl_msgbuf st = chead (of_nat n) ty nid ip @ r" and box: "cl_inbox st = []"
    and net: "net (cl_net st) (message ty nid 0 (k_serverip env) (take n r)) = (d', ps)"
  shows "send_packet net env ty' h k st
    = recv_loop ty' h k 0 ps (st\<lparr>cl_msgbuf := chead (of_nat n) ty nid (k_serverip env) @ r, cl_net := d'\<rparr>)"
proof -
  let ?b = "chead (of_nat n) ty nid (k_serverip env) @ r"
  have "(of_nat CL_DATA + of_nat n :: u32) = of_nat (20 + n)" by (simp add: CL_DATA_def)
  also have "unat (of_nat (20 + n) :: u32) = 20 + n" using r(2) by (intro unat_of_nat_u32) simp
  finally have un: "unat (of_nat CL_DATA + of_nat n :: u32) = 20 + n" .
  have out: "peek ?b 0 (20 + n) = Some (message ty nid 0 (k_serverip env) (take n r))"
    using length_chead [OF ip(2)] r by (simp add: peek_def message_chead)
  show ?thesis
    unfolding send_packet_def b put_head_chead(3) [OF ip] bind.bind_lunit chead_fields(2) [OF ip(2)] un out net Let_def
      prod.case box append_Nil ..
qed

text \<open>One answer of the expected type is read over the request and handled.\<close>

lemma recv_message:
  assumes ip: "length ip = 4" "length ip' = 4" and r: "length r = 1480" and reply: "length reply \<le> 1480"
    and b: "cl_msgbuf st = chead len ty nid ip @ r" and nid: "cl_nid st = 0xffff \<or> cl_nid st = nid"
  shows "recv_loop ty' h k res (message ty' nid 0 ip' reply # ps) st =
    do { (done, st) \<leftarrow> h (st\<lparr>cl_msgbuf := message ty' nid 0 ip' reply @ drop (length reply) r\<rparr>);
         let res = (if done then res + 1 else res);
         if k > 0 \<and> res \<ge> k then Some (res, st\<lparr>cl_inbox := ps\<rparr>) else recv_loop ty' h k res ps st }"
proof -
  let ?p = "message ty' nid 0 ip' reply"
  have lp: "length ?p = 20 + length reply" using ip(2) by (simp add: message_chead length_chead)
  have tp: "take MSGBUF ?p = ?p" using lp reply by (simp add: MSGBUF_def)
  have pk: "poke (cl_msgbuf st) 0 ?p = Some (?p @ drop (length reply) r)"
    using length_chead [OF ip(1)] lp reply r by (simp add: poke_def b)
  have ur: "(of_nat CL_DATA + of_nat (length reply) :: u32) = of_nat (20 + length reply)" by (simp add: CL_DATA_def)
  have acc: "accepts ty' (cl_nid st) (length ?p) (?p @ drop (length reply) r) = Some True"
    unfolding accepts_def lp using chead_fields [OF ip(2)] nid ur
    by (auto simp: message_chead CL_DATA_def)
  show ?thesis using pk acc by (simp add: tp Let_def)
qed

lemma send_packet_one:
  assumes ip: "length ip = 4" "length (k_serverip env) = 4" "length ip' = 4" and r: "length r = 1480" "n \<le> 1480"
    and b: "cl_msgbuf st = chead (of_nat n) ty nid ip @ r" and box: "cl_inbox st = []"
    and net: "net (cl_net st) (message ty nid 0 (k_serverip env) (take n r)) = (d', [message ty' nid 0 ip' reply])"
    and reply: "length reply \<le> 1480" and nid: "cl_nid st = 0xffff \<or> cl_nid st = nid"
    and h: "h (st\<lparr>cl_net := d', cl_msgbuf := message ty' nid 0 ip' reply @ drop (length reply) r\<rparr>) = Some (ok, st')"
  shows "send_packet net env ty' h 1 st = Some (of_bool ok, st'\<lparr>cl_inbox := []\<rparr>)"
  unfolding send_packet_out [where net = net, OF ip(1,2) r b box net]
  using recv_message [OF ip(2,3) r(1) reply, of "st\<lparr>cl_msgbuf := chead (of_nat n) ty nid (k_serverip env) @ r, cl_net := d'\<rparr>"] nid h
  by simp

section \<open>The daemon as the network\<close>

text \<open>The daemon receives each datagram in a frame with the headers \<open>hdr\<close>, and sends its answers back.\<close>

fun datagram :: "event \<Rightarrow> bytes list" where
  "datagram (Send out) = [drop MSG out]"
| "datagram _ = []"

definition daemon_net :: "ead_conf \<Rightarrow> ead_env \<Rightarrow> bytes \<Rightarrow> ead net" where
  "daemon_net conf env hdr st out =
     (case handle_packet conf env (of_nat (MSG + length out)) (hdr @ out @ [0]) st of
        None \<Rightarrow> (st, [])
      | Some st' \<Rightarrow> (st', concat (map datagram (drop (length (events st)) (events st')))))"

lemma daemon_net_sends:
  assumes "handle_packet conf env (of_nat (62 + length body)) (hdr @ message ty nid sid ip body @ [0]) st = Some st'"
    and "length ip = 4" and "events st' = events st @ es"
  shows "daemon_net conf env hdr st (message ty nid sid ip body) = (st', concat (map datagram es))"
proof -
  have l: "MSG + length (message ty nid sid ip body) = 62 + length body" using assms(2) by (simp add: message_def MSG_def)
  show ?thesis unfolding daemon_net_def l using assms by simp
qed

lemma answered_net:
  assumes "handle_packet conf env (of_nat (62 + length body)) (hdr @ message ty nid sid ip body @ [0]) st = Some st'"
    and "length ip = 4" and "answered conf st st' ty' sid reply"
  shows "\<exists>ip'. length ip' = 4 \<and> daemon_net conf env hdr st (message ty nid sid ip body) = (st', [message ty' (c_nid conf) sid ip' reply])"
  using assms(3) daemon_net_sends [OF assms(1,2)] by (auto simp: answered_def MSG_def)

section \<open>The steps of the client\<close>

text \<open>A node the client can reach by its number; the client's messages name instance 0.\<close>

definition node_up :: "ead_conf \<Rightarrow> bytes \<Rightarrow> client_env \<Rightarrow> bool" where
  "node_up conf hdr cenv \<longleftrightarrow> to_daemon hdr \<and> length (c_ethmac conf) = 6 \<and> c_nid conf \<noteq> 0xffff \<and> length (k_serverip cenv) = 4"

definition node_ok :: "ead_conf \<Rightarrow> bytes \<Rightarrow> client_env \<Rightarrow> bool" where
  "node_ok conf hdr cenv \<longleftrightarrow> node_up conf hdr cenv \<and> c_inst conf = 0"

lemma node_okD: "node_ok conf hdr cenv \<Longrightarrow> node_up conf hdr cenv"
  by (simp add: node_ok_def)

definition linked :: "ead_conf \<Rightarrow> 'n client \<Rightarrow> bool" where
  "linked conf st \<longleftrightarrow> cl_nid st = c_nid conf \<and> cl_inbox st = [] \<and> (\<exists>r. cmsg (cl_msgbuf st) (c_nid conf) r)"

lemma node0: "node_ok conf hdr cenv \<Longrightarrow> for_node conf (c_nid conf) 0"
  by (simp add: node_ok_def for_node_def)

lemma net_msgbuf: "st\<lparr>cl_net := d, cl_msgbuf := m\<rparr> = st\<lparr>cl_msgbuf := m, cl_net := d\<rparr>"
  by (cases st) simp

lemma request:
  assumes ok: "node_up conf hdr cenv" and ip: "length ip = 4" and r: "length r = 1480" "n \<le> 1480"
    and b: "cl_msgbuf st = chead (of_nat n) ty (c_nid conf) ip @ r" and box: "cl_inbox st = []" and nid: "cl_nid st = c_nid conf"
    and d: "handle_packet conf env (of_nat (62 + n)) (hdr @ message ty (c_nid conf) 0 (k_serverip cenv) (take n r) @ [0]) (cl_net st) = Some d'"
    and a: "answered conf (cl_net st) d' ty' 0 reply" and reply: "length reply \<le> 1480"
  shows "\<exists>ip'. length ip' = 4 \<and> (\<forall>h ok st'.
    h (st\<lparr>cl_msgbuf := chead (of_nat (length reply)) ty' (c_nid conf) ip' @ reply @ drop (length reply) r, cl_net := d'\<rparr>) = Some (ok, st')
      \<longrightarrow> send_packet (daemon_net conf env hdr) cenv ty' h 1 st = Some (of_bool ok, st'\<lparr>cl_inbox := []\<rparr>))"
proof -
  have sip: "length (k_serverip cenv) = 4" using ok by (simp add: node_up_def)
  have tn: "length (take n r) = n" using r by simp
  have d': "handle_packet conf env (of_nat (62 + length (take n r))) (hdr @ message ty (c_nid conf) 0 (k_serverip cenv) (take n r) @ [0]) (cl_net st) = Some d'"
    unfolding tn by (rule d)
  obtain ip' where ip': "length ip' = 4"
    "daemon_net conf env hdr (cl_net st) (message ty (c_nid conf) 0 (k_serverip cenv) (take n r)) = (d', [message ty' (c_nid conf) 0 ip' reply])"
    using answered_net [OF d' sip a] by blast
  show ?thesis
    using send_packet_one [where net = "daemon_net conf env hdr", OF ip sip ip'(1) r b box ip'(2) reply] nid ip'(1)
    by (intro exI [of _ ip']) (auto simp: message_chead net_msgbuf)
qed

text \<open>A request that the daemon does not answer.\<close>

lemma request_silent:
  assumes ok: "node_up conf hdr cenv" and ip: "length ip = 4" and r: "length r = 1480" "n \<le> 1480"
    and b: "cl_msgbuf st = chead (of_nat n) ty (c_nid conf) ip @ r" and box: "cl_inbox st = []"
    and d: "handle_packet conf env (of_nat (62 + n)) (hdr @ message ty (c_nid conf) 0 (k_serverip cenv) (take n r) @ [0]) (cl_net st) = Some (cl_net st)"
  shows "\<exists>b. send_packet (daemon_net conf env hdr) cenv ty' h k st = Some (0, st\<lparr>cl_msgbuf := b\<rparr>)"
proof -
  have sip: "length (k_serverip cenv) = 4" using ok by (simp add: node_up_def)
  have tn: "length (take n r) = n" using r by simp
  have "daemon_net conf env hdr (cl_net st) (message ty (c_nid conf) 0 (k_serverip cenv) (take n r)) = (cl_net st, concat (map datagram []))"
    using d by (intro daemon_net_sends [OF _ sip]) (simp_all only: tn append_Nil2)
  from send_packet_out [where net = "daemon_net conf env hdr", OF ip sip r b box this] show ?thesis
    using box by (intro exI [of _ "chead (of_nat n) ty (c_nid conf) (k_serverip cenv) @ r"]) simp
qed

lemma linkedE:
  assumes "linked conf st"
  obtains len ty ip r where "length ip = 4" "length r = 1480" "cl_msgbuf st = chead len ty (c_nid conf) ip @ r"
    "cl_inbox st = []" "cl_nid st = c_nid conf"
  using assms unfolding linked_def cmsg_def by blast

lemma linkedI: "length ip = 4 \<Longrightarrow> length r = 1480 \<Longrightarrow> cl_msgbuf st = chead len ty (c_nid conf) ip @ r \<Longrightarrow>
    cl_inbox st = [] \<Longrightarrow> cl_nid st = c_nid conf \<Longrightarrow> linked conf st"
  unfolding linked_def cmsg_def by blast

text \<open>The ping; the daemon keeps its state.\<close>

lemma daemon_ping:
  assumes inv: "ead_inv d" and ok: "node_up conf hdr cenv"
  shows "\<exists>b es. handle_packet conf env (of_nat 62) (hdr @ message 0 (c_nid conf) 0 (k_serverip cenv) [] @ [0]) d
      = Some (d\<lparr>pktbuf := b, events := events d @ es\<rparr>)
    \<and> answered conf d (d\<lparr>pktbuf := b, events := events d @ es\<rparr>) 1 0 (be16 1 @ take 1024 (c_dev_name conf)) \<and> (\<forall>c. Exec c \<notin> set es)"
proof -
  have h: "to_daemon hdr" "length (c_ethmac conf) = 6" "length (k_serverip cenv) = 4" using ok by (simp_all add: node_up_def)
  have b: "length (pktbuf d) = PCAP_MRU" using inv by (simp add: inv_defs)
  have "\<exists>b' out ip' reply. handle_packet conf env (of_nat (62 + length ([] :: bytes)))
        (hdr @ message 0 (c_nid conf) 0 (k_serverip cenv) [] @ [0]) d
      = set_state conf env (state d) (d\<lparr>pktbuf := b', events := events d @ [Send out]\<rparr>)
    \<and> drop 42 out = message (0 + 1) (c_nid conf) 0 ip' reply \<and> length ip' = 4 \<and> length b' = PCAP_MRU
    \<and> reply = be16 1 @ take 1024 (c_dev_name conf)"
    by (rule daemon_answer [OF h(1,3,2) b _ _ select_types(1) _ _ _ refl ping_answers refl]) (simp_all add: at_turn_def type_defs)
  then obtain b' out ip' where a: "handle_packet conf env (of_nat 62) (hdr @ message 0 (c_nid conf) 0 (k_serverip cenv) [] @ [0]) d
      = Some (d\<lparr>pktbuf := b', events := events d @ [Send out]\<rparr>)"
    "drop 42 out = message 1 (c_nid conf) 0 ip' (be16 1 @ take 1024 (c_dev_name conf))" "length ip' = 4"
    by (auto simp: set_state_def)
  then show ?thesis by - (rule exI [of _ b'], rule exI [of _ "[Send out]"], auto simp: answered_def)
qed

text \<open>An empty device name is not accepted; the client must see at least one byte of it.\<close>

lemma handle_pong_name:
  assumes b: "cl_msgbuf st = chead (of_nat (2 + length name)) ty nid ip @ be16 1 @ name @ z # r" and ip: "length ip = 4"
    and n: "0 < length name" "length name < 2000" and nid: "cl_nid st \<noteq> 0xffff"
  shows "handle_pong st = Some (True, st\<lparr>cl_msgbuf := chead (of_nat (2 + length name)) ty nid ip @ be16 1 @ name @ 0 # r,
      cl_auth_type := EAD_AUTH_MD5, cl_sid := 0\<rparr>)"
proof -
  let ?h = "chead (of_nat (2 + length name)) ty nid ip"
  have lh: "length ?h = 20" by (rule length_chead [OF ip])
  have len: "sint ((of_nat (2 + length name) :: u32) - of_nat SIZE_pong) = int (length name)"
    using sint_of_nat_u32 [of "length name"] n by (simp add: SIZE_pong_def)
  have pk: "poke (?h @ be16 1 @ name @ z # r) (20 + 2 + length name) [0] = Some (?h @ be16 1 @ name @ 0 # r)"
    using lh by (simp add: poke_def)
  let ?b = "?h @ be16 1 @ name @ 0 # r"
  note g = chead_fields [OF ip, where len = "of_nat (2 + length name)" and ty = ty and nid = nid]
  have a: "get16 ?b 20 = Some 1" using lh by (simp add: get16_def peek_def)
  obtain nm where nm: "cstr_at ?b (20 + 2) = Some nm"
    using cstr_at_defined [OF pk] by auto
  have nz: "\<not> int (length name) \<le> 0" using n by simp
  show ?thesis
    unfolding handle_pong_def b g(2) bind.bind_lunit Let_def len if_not_P [OF nz] nat_int CL_DATA_def pk a g(4) nm g(5)
    using nid by (simp add: EAD_AUTH_MD5_def)
qed

lemma client_ping:
  assumes inv: "ead_inv (cl_net st)" and ok: "node_up conf hdr cenv" and l: "linked conf st" and name: "c_dev_name conf \<noteq> []"
  shows "\<exists>m b es. send_ping (daemon_net conf env hdr) cenv st
      = Some (1, st\<lparr>cl_msgbuf := m, cl_auth_type := EAD_AUTH_MD5, cl_sid := 0,
          cl_net := (cl_net st)\<lparr>pktbuf := b, events := events (cl_net st) @ es\<rparr>\<rparr>)
    \<and> (\<exists>r. cmsg m (c_nid conf) r) \<and> length b = PCAP_MRU \<and> (\<forall>c. Exec c \<notin> set es)"
proof -
  obtain len ty ip r where s: "length ip = 4" "length r = 1480" "cl_msgbuf st = chead len ty (c_nid conf) ip @ r"
    "cl_inbox st = []" "cl_nid st = c_nid conf" using linkedE [OF l] .
  have nid: "c_nid conf \<noteq> 0xffff" using ok by (simp add: node_up_def)
  let ?st = "st\<lparr>cl_msgbuf := chead (of_nat 0) 0 (c_nid conf) ip @ r\<rparr>"
  define name where "name = take 1024 (c_dev_name conf)"
  obtain b es where d: "handle_packet conf env (of_nat 62) (hdr @ message 0 (c_nid conf) 0 (k_serverip cenv) [] @ [0]) (cl_net st)
      = Some ((cl_net st)\<lparr>pktbuf := b, events := events (cl_net st) @ es\<rparr>)"
    "answered conf (cl_net st) ((cl_net st)\<lparr>pktbuf := b, events := events (cl_net st) @ es\<rparr>) 1 0 (be16 1 @ name)"
    "\<forall>c. Exec c \<notin> set es"
    using daemon_ping [OF inv ok] unfolding name_def by blast
  let ?d = "(cl_net st)\<lparr>pktbuf := b, events := events (cl_net st) @ es\<rparr>"
  have lb: "length b = PCAP_MRU" using handle_packet_inv [OF inv d(1)] by (simp add: inv_defs)
  have n: "0 < length name" "length name \<le> 1024" using name by (simp_all add: name_def)
  have d0: "handle_packet conf env (of_nat (62 + 0)) (hdr @ message 0 (c_nid conf) 0 (k_serverip cenv) (take 0 r) @ [0]) (cl_net ?st)
      = Some ?d" using d(1) by simp
  have a0: "answered conf (cl_net ?st) ?d 1 0 (be16 1 @ name)" using d(2) by simp
  obtain ip' where ip': "length ip' = 4" "\<And>h ok st'. h (?st\<lparr>
        cl_msgbuf := chead (of_nat (length (be16 1 @ name))) 1 (c_nid conf) ip' @ (be16 1 @ name) @ drop (length (be16 1 @ name)) r,
        cl_net := ?d\<rparr>)
        = Some (ok, st')
      \<Longrightarrow> send_packet (daemon_net conf env hdr) cenv 1 h 1 ?st = Some (of_bool ok, st'\<lparr>cl_inbox := []\<rparr>)"
    using request [OF ok s(1,2) _ _ _ _ d0 a0] s(4,5) n by auto
  obtain z r' where z: "drop (length (be16 1 @ name)) r = z # r'" using n(2) s(2) by (cases "drop (length (be16 1 @ name)) r") auto
  have "1480 - (2 + length name) = Suc (length r')" using arg_cong [OF z, of length] s(2) by simp
  then have lz: "length (be16 1 @ name) + Suc (length r') = 1480" using n by simp
  have "handle_pong (?st\<lparr>
      cl_msgbuf := chead (of_nat (length (be16 1 @ name))) 1 (c_nid conf) ip' @ (be16 1 @ name) @ drop (length (be16 1 @ name)) r,
      cl_net := ?d\<rparr>)
    = Some (True, ?st\<lparr>cl_net := ?d, cl_msgbuf := chead (of_nat (2 + length name)) 1 (c_nid conf) ip' @ be16 1 @ name @ 0 # r',
      cl_auth_type := EAD_AUTH_MD5, cl_sid := 0\<rparr>)"
    by (subst handle_pong_name [OF _ ip'(1), where z = z and r = r']) (use n s(5) nid in \<open>simp_all add: z [simplified]\<close>)
  from ip'(2) [of handle_pong, OF this] have
    "send_packet (daemon_net conf env hdr) cenv EAD_TYPE_PONG handle_pong 1 ?st
      = Some (1, st\<lparr>cl_msgbuf := chead (of_nat (2 + length name)) 1 (c_nid conf) ip' @ be16 1 @ name @ 0 # r',
          cl_auth_type := EAD_AUTH_MD5, cl_sid := 0, cl_net := ?d\<rparr>)"
    using s(4) by (simp add: EAD_TYPE_PONG_def)
  moreover have "put_head EAD_TYPE_PING 0 (cl_msgbuf st) = Some (chead (of_nat 0) 0 (c_nid conf) ip @ r)"
    unfolding s(3) put_head_chead(1) [OF s(1)] by (simp add: EAD_TYPE_PING_def)
  moreover have "cmsg (chead (of_nat (2 + length name)) 1 (c_nid conf) ip' @ be16 1 @ name @ 0 # r') (c_nid conf) (be16 1 @ name @ 0 # r')"
    using ip'(1) lz unfolding cmsg_def by auto
  ultimately show ?thesis using s(5) nid lb d(3) unfolding send_ping_def by auto
qed

end
