(* ===== verification/Ead_Client_Steps.thy ===== *)
theory Ead_Client_Steps
  imports Ead_Client_Msg
begin

text \<open>
  The steps of a login against the daemon: user name, group and salt, the public values, the proof of
  the password. For each one the client's state after the request and the daemon's.
\<close>

section \<open>The built-in group\<close>

lemma group_of_client:
  obtains t where "gettcid tpe_index = Some t" "t_getpreparam 0 = Some t" "t \<in> set built_in" "64 \<le> length (modulus t)"
    "length (modulus t) \<le> 256" "length (generator t) < 256" "0 < BigIntegerFromBytes (modulus t)"
proof -
  obtain r where r: "idx pre_params 0 = Some (50 # r, [50])" "length r = 341" using pre_params_first by blast
  define n where "n = number64 (2 # b64_digits r)"
  have t: "t_getpreparam 0 = Some \<lparr>modulus = BigIntegerToBytes n, generator = BigIntegerToBytes (number64 [2])\<rparr>"
    using r b64_text_2 [of "[]"] by (simp add: t_getpreparam_def t_fromb64_number b64_text_2 n_def)
  obtain r' where m: "idx pre_params 0 = Some (50 # r' @ [112], [50])" "list_all (\<lambda>c. c \<in> set b64table) r'" "length r' = 340"
    using modulus_text by blast
  have rr: "r = r' @ [112]" using m(1) r(1) by simp
  have "length (b64_digits r) = 341"
    unfolding rr using m(2,3) by (subst b64_digits_all) (simp_all add: b64table_words)
  then have n: "2 * 64 ^ 341 \<le> n" unfolding n_def number64_Cons by simp
  have lm: "64 \<le> length (BigIntegerToBytes n)"
  proof (rule ccontr)
    assume "\<not> ?thesis"
    then have "(256 :: nat) ^ length (BigIntegerToBytes n) \<le> 256 ^ 63" by (intro power_increasing) simp_all
    then have "n < 256 ^ 63" using from_bytes_less [of "BigIntegerToBytes n"] by simp
    also have "(256 :: nat) ^ 63 \<le> 2 * 64 ^ 341" by simp
    finally show False using n by simp
  qed
  obtain t' where t': "gettcid tpe_index = Some t'" "length (modulus t') \<le> MAXPARAMLEN" "0 < BigIntegerFromBytes (modulus t')"
    using gettcid_1 by blast
  have g: "gettcid tpe_index = t_getpreparam 0"
    by (simp add: gettcid_def tpe_index_def t_getprecount_def pre_params_def)
  have l: "0 < length pre_params" by (simp add: pre_params_def)
  have b: "t' \<in> set built_in"
    unfolding built_in_def set_concat set_map UN_iff
    by (rule bexI [of _ "case t_getpreparam 0 of None \<Rightarrow> [] | Some t \<Rightarrow> [t]"], use t' g l in \<open>simp_all add: image_iff, force\<close>)
  have "number64 [2] = 2" using number64_snoc [of "[]" 2] by simp
  then have "length (BigIntegerToBytes (number64 [2])) < 256" by (simp add: BigIntegerToBytes.simps)
  moreover have "t' = \<lparr>modulus = BigIntegerToBytes n, generator = BigIntegerToBytes (number64 [2])\<rparr>" using t t'(1) g by simp
  ultimately show thesis using that [of t'] t t' g b lm by (simp add: MAXPARAMLEN_def)
qed

section \<open>The first steps\<close>

text \<open>The daemon went on without running anything.\<close>

definition quiet :: "ead \<Rightarrow> ead \<Rightarrow> bool" where
  "quiet d d' \<longleftrightarrow> (\<exists>es. events d' = events d @ es \<and> (\<forall>c. Exec c \<notin> set es))"

lemma quiet_refl [simp]: "quiet d d"
  by (simp add: quiet_def)

lemma quiet_trans [trans]: "quiet d d' \<Longrightarrow> quiet d' d'' \<Longrightarrow> quiet d d''"
  by (auto simp: quiet_def)

lemma answered_quiet: "answered conf d d' ty sid reply \<Longrightarrow> quiet d d'"
  by (auto simp: answered_def quiet_def)

lemma cmsgI: "length ip = 4 \<Longrightarrow> length r = 1480 \<Longrightarrow> cmsg (chead len ty nid ip @ r) nid r"
  unfolding cmsg_def by blast

lemma client_user:
  assumes inv: "ead_inv (cl_net st)" and ok: "node_ok conf hdr cenv" and l: "linked conf st"
    and user: "is_cstr (cl_username st)" "length (cl_username st) \<le> 31"
    and pw: "listed env (cl_username st) (pw_saltbuf (cl_net st)) p salt" and dig: "lookup_ok conf env (cl_net st)" and t: "gettcid tpe_index = Some t"
  shows "\<exists>m d. send_username (daemon_net conf env hdr) cenv st = Some (1, st\<lparr>cl_msgbuf := m, cl_net := d, cl_inbox := []\<rparr>)
    \<and> (\<exists>r. cmsg m (c_nid conf) r) \<and> ead_inv d \<and> state d = 4 \<and> ts d = Some (opened conf env (cl_username st) p t)
    \<and> pw_saltbuf d = salt \<and> quiet (cl_net st) d"
proof -
  obtain len ty ip r where s: "length ip = 4" "length r = 1480" "cl_msgbuf st = chead len ty (c_nid conf) ip @ r"
    "cl_inbox st = []" "cl_nid st = c_nid conf" using linkedE [OF l] .
  have h: "to_daemon hdr" "length (c_ethmac conf) = 6" "length (k_serverip cenv) = 4" using ok by (simp_all add: node_ok_def node_up_def)
  let ?u = "cl_username st"
  define r' where "r' = ?u @ 0 # drop (length ?u + 1) r"
  have lr: "length r' = 1480" "length (take 32 r') = 32" using s(2) user(2) by (simp_all add: r'_def)
  have u: "cstr (take 31 (take 32 r')) = ?u"
  proof -
    have "take 31 (take 32 r') = ?u @ take (31 - length ?u) (0 # drop (length ?u + 1) r)" using user(2) by (simp add: r'_def)
    then show ?thesis using user by (cases "31 - length ?u") (auto simp: cstr_append_nul cstr_def [of "cl_username st"] is_cstr_def takeWhile_eq_all_conv)
  qed
  let ?b = "chead (of_nat 32) 2 (c_nid conf) ip @ r'"
  have b: "put_head EAD_TYPE_SET_USERNAME (of_nat SIZE_user) (cl_msgbuf st) = Some (chead (of_nat 32) 2 (c_nid conf) ip @ r)"
    "poke (chead (of_nat 32) 2 (c_nid conf) ip @ r) CL_DATA (?u @ [0]) = Some ?b"
    using put_head_chead(1) [OF s(1)] length_chead [OF s(1)] s(2,3) user(2)
    by (simp_all add: type_defs SIZE_user_def CL_DATA_def poke_def r'_def)
  obtain d where d: "handle_packet conf env (of_nat (62 + length (take 32 r'))) (hdr @ message 2 (c_nid conf) 0 (k_serverip cenv) (take 32 r') @ [0]) (cl_net st) = Some d"
    "state d = 4" "ts d = Some (opened conf env ?u p t)" "pw_saltbuf d = salt" "answered conf (cl_net st) d 3 0 []"
    using step_user [OF inv h(1,3,2) node0 [OF ok] lr(2) u pw dig t, of "[0]"] by blast
  let ?st = "st\<lparr>cl_msgbuf := ?b\<rparr>"
  obtain ip' where ip': "length ip' = 4" "\<And>h ok st'. h (?st\<lparr>
        cl_msgbuf := chead (of_nat (length ([] :: bytes))) 3 (c_nid conf) ip' @ [] @ drop (length ([] :: bytes)) r', cl_net := d\<rparr>) = Some (ok, st')
      \<Longrightarrow> send_packet (daemon_net conf env hdr) cenv 3 h 1 ?st = Some (of_bool ok, st'\<lparr>cl_inbox := []\<rparr>)"
    using request [OF node_okD [OF ok] s(1) lr(1), of 32 ?st 2 env d 3 "[]"] d(1,5) s(4,5) unfolding lr(2) by auto
  have "send_username (daemon_net conf env hdr) cenv st
      = Some (1, st\<lparr>cl_msgbuf := chead 0 3 (c_nid conf) ip' @ r', cl_net := d, cl_inbox := []\<rparr>)"
    unfolding send_username_def b(1) bind.bind_lunit b(2) EAD_TYPE_ACK_USERNAME_def
    by (subst ip'(2) [OF handle_none_def]) simp
  then show ?thesis using handle_packet_inv [OF inv d(1)] d(2-4) answered_quiet [OF d(5)] cmsgI [OF ip'(1) lr(1)] by blast
qed

text \<open>The client's SRP object, once opened.\<close>

definition opened_client :: "client_env \<Rightarrow> bytes \<Rightarrow> t_confent \<Rightarrow> t_client" where
  "opened_client cenv user t = the (the (t_clientopen (k_host cenv) (k_raw cenv) built_in user (modulus t) (generator t) []))"

lemma opened_client:
  assumes "t \<in> set built_in" and "64 \<le> length (modulus t)" and "length user \<le> 31"
  shows "t_clientopen (k_host cenv) (k_raw cenv) built_in user (modulus t) (generator t) [] = Some (Some (opened_client cenv user t))"
proof -
  have "list_ex (\<lambda>tpc. modulus tpc = modulus t \<and> generator tpc = generator t) built_in"
    using assms(1) by (auto simp: list_ex_iff)
  then show ?thesis using assms(2,3) unfolding opened_client_def
    by (simp add: t_clientopen_def MIN_MOD_BYTES_def MAXUSERLEN_def Let_def)
qed

lemma poke_nothing [simp]: "poke b 0 [] = Some b"
  by (simp add: poke_def)

lemma handle_prime_reply:
  assumes b: "cl_msgbuf st = chead len ty nid ip @ [0, 0] @ old @ salt @ r" and ip: "length ip = 4"
    and l: "length old = 32" "length salt = 32" and auth: "cl_auth_type st = EAD_AUTH_MD5" and t: "t_getpreparam 0 = Some t"
    and tc: "t_clientopen (k_host cenv) (k_raw cenv) built_in (cl_username st) (modulus t) (generator t) [] = Some (Some tc)"
  shows "handle_prime cenv st
    = Some (True, st\<lparr>cl_salt_len := 0, cl_saltbuf := cl_saltbuf st, cl_pw_salt := take 31 salt @ [0], cl_tc := Some tc\<rparr>)"
proof -
  have lh: "length (chead len ty nid ip) = 20" by (rule length_chead [OF ip])
  have g: "idx (cl_msgbuf st) (CL_DATA + 1) = Some 0" "peek (cl_msgbuf st) (CL_DATA + 2) 0 = Some []"
    "peek (cl_msgbuf st) (CL_DATA + 2 + MAXSALTLEN) MAXSALTLEN = Some salt" "idx (cl_msgbuf st) CL_DATA = Some 0"
    using lh l unfolding b by (simp_all add: CL_DATA_def MAXSALTLEN_def peek_def idx_def nth_append)
  show ?thesis
    unfolding handle_prime_def g(1) bind.bind_lunit using g(2-4) auth t tc by (simp add: MAXSALTLEN_def Let_def)
qed

lemma client_prime:
  assumes inv: "ead_inv (cl_net st)" and ok: "node_ok conf hdr cenv" and l: "linked conf st"
    and d4: "state (cl_net st) = 4" "ts (cl_net st) = Some s" and auth: "cl_auth_type st = EAD_AUTH_MD5" and user: "length (cl_username st) \<le> 31"
    and t: "t_getpreparam 0 = Some t" "t \<in> set built_in" "64 \<le> length (modulus t)"
  shows "\<exists>m d. get_prime (daemon_net conf env hdr) cenv st = Some (1, st\<lparr>cl_msgbuf := m, cl_net := d, cl_salt_len := 0, cl_saltbuf := cl_saltbuf st,
        cl_pw_salt := take 31 (pw_saltbuf (cl_net st)) @ [0], cl_tc := Some (opened_client cenv (cl_username st) t), cl_inbox := []\<rparr>)
    \<and> (\<exists>r. cmsg m (c_nid conf) r) \<and> ead_inv d \<and> state d = 6 \<and> ts d = Some (t_servergenexp (c_host conf) (e_rnd env) s)
    \<and> quiet (cl_net st) d"
proof -
  obtain len ty ip r where s: "length ip = 4" "length r = 1480" "cl_msgbuf st = chead len ty (c_nid conf) ip @ r"
    "cl_inbox st = []" "cl_nid st = c_nid conf" using linkedE [OF l] .
  have h: "to_daemon hdr" "length (c_ethmac conf) = 6" "length (k_serverip cenv) = 4" using ok by (simp_all add: node_ok_def node_up_def)
  let ?b = "chead (of_nat 0) 4 (c_nid conf) ip @ r"
  let ?st = "st\<lparr>cl_msgbuf := ?b\<rparr>"
  have b: "put_head EAD_TYPE_GET_PRIME 0 (cl_msgbuf st) = Some ?b"
    using put_head_chead(1) [OF s(1)] s(3) by (simp add: type_defs)
  obtain d old where d: "handle_packet conf env (of_nat 62) (hdr @ message 4 (c_nid conf) 0 (k_serverip cenv) [] @ [0]) (cl_net st) = Some d"
    "state d = 6" "ts d = Some (t_servergenexp (c_host conf) (e_rnd env) s)" "length old = 32"
    "answered conf (cl_net st) d 5 0 ([0, 0] @ old @ pw_saltbuf (cl_net st))"
    using step_prime [OF inv h(1,3,2) node0 [OF ok] d4, of env "[0]"] by blast
  define salt where "salt = pw_saltbuf (cl_net st)"
  have ls: "length salt = 32" using inv by (simp add: inv_defs salt_def MAXSALTLEN_def)
  let ?reply = "[0, 0] @ old @ salt"
  have lr: "length ?reply = 66" using ls d(4) by simp
  obtain ip' where ip': "length ip' = 4" "\<And>h ok st'. h (?st\<lparr>
        cl_msgbuf := chead (of_nat (length ?reply)) 5 (c_nid conf) ip' @ ?reply @ drop (length ?reply) r, cl_net := d\<rparr>) = Some (ok, st')
      \<Longrightarrow> send_packet (daemon_net conf env hdr) cenv 5 h 1 ?st = Some (of_bool ok, st'\<lparr>cl_inbox := []\<rparr>)"
    using request [OF node_okD [OF ok] s(1,2), of 0 ?st 4 env d 5 ?reply] d(1,5) s(4,5) lr by (auto simp: salt_def)
  let ?m = "chead (of_nat (length ?reply)) 5 (c_nid conf) ip' @ ?reply @ drop (length ?reply) r"
  have m: "cl_msgbuf (?st\<lparr>cl_msgbuf := ?m, cl_net := d\<rparr>) = chead (of_nat (length ?reply)) 5 (c_nid conf) ip' @ [0, 0] @ old @ salt @ drop (length ?reply) r"
    by simp
  have o: "t_clientopen (k_host cenv) (k_raw cenv) built_in (cl_username (?st\<lparr>cl_msgbuf := ?m, cl_net := d\<rparr>)) (modulus t) (generator t) []
      = Some (Some (opened_client cenv (cl_username st) t))" using opened_client [OF t(2,3) user] by simp
  have au: "cl_auth_type (?st\<lparr>cl_msgbuf := ?m, cl_net := d\<rparr>) = EAD_AUTH_MD5" using auth by simp
  have "get_prime (daemon_net conf env hdr) cenv st = Some (1, st\<lparr>cl_msgbuf := ?m, cl_net := d, cl_salt_len := 0, cl_saltbuf := cl_saltbuf st,
      cl_pw_salt := take 31 salt @ [0], cl_tc := Some (opened_client cenv (cl_username st) t), cl_inbox := []\<rparr>)"
    unfolding get_prime_def b bind.bind_lunit EAD_TYPE_PRIME_def
    by (subst ip'(2) [of "handle_prime cenv", OF handle_prime_reply [OF m ip'(1) d(4) ls au t(1) o]]) simp
  moreover have "cmsg ?m (c_nid conf) (?reply @ drop (length ?reply) r)" using s(2) lr by (intro cmsgI [OF ip'(1)]) simp
  ultimately show ?thesis using handle_packet_inv [OF inv d(1)] d(2,3) answered_quiet [OF d(5)] unfolding salt_def by blast
qed

lemma client_a:
  assumes inv: "ead_inv (cl_net st)" and ok: "node_ok conf hdr cenv" and l: "linked conf st"
    and d6: "state (cl_net st) = 6" "ts (cl_net st) = Some s" and tc: "cl_tc st = Some tc0" "tc = t_clientgenexp (k_host cenv) (k_rnd cenv) tc0"
    and A: "length (tc_A tc) \<le> 256" and bb: "length (cl_bbuf st) = 256"
    and key: "t_servergetkey (c_host conf) (e_raw env) (tc_A tc) s = (s', k)"
  shows "\<exists>m d. send_a (daemon_net conf env hdr) cenv st = Some (1, st\<lparr>cl_tc := Some tc, cl_msgbuf := m, cl_net := d,
        cl_B_len := length (ts_B s), cl_bbuf := ts_B s @ drop (length (ts_B s)) (cl_bbuf st), cl_inbox := []\<rparr>)
    \<and> (\<exists>r. cmsg m (c_nid conf) r) \<and> ead_inv d \<and> state d = (if k = None then 6 else 8) \<and> ts d = Some s'
    \<and> crypt d = (case k of None \<Rightarrow> crypt (cl_net st) | Some key \<Rightarrow> ead_set_key (c_host conf) key (crypt (cl_net st)))
    \<and> quiet (cl_net st) d"
proof -
  obtain len ty ip r where s: "length ip = 4" "length r = 1480" "cl_msgbuf st = chead len ty (c_nid conf) ip @ r"
    "cl_inbox st = []" "cl_nid st = c_nid conf" using linkedE [OF l] .
  have h: "to_daemon hdr" "length (c_ethmac conf) = 6" "length (k_serverip cenv) = 4" using ok by (simp_all add: node_ok_def node_up_def)
  let ?n = "1 + length (tc_A tc)"
  obtain x r0 where x: "r = x # r0" using s(2) by (cases r) auto
  define r' where "r' = x # tc_A tc @ drop (length (tc_A tc)) r0"
  have lr: "length r' = 1480" "take ?n r' = x # tc_A tc" using s(2) A x by (simp_all add: r'_def)
  let ?b = "chead (of_nat ?n) 6 (c_nid conf) ip @ r'"
  have b: "put_head EAD_TYPE_SEND_A (of_nat (SIZE_number + length (tc_A tc))) (cl_msgbuf st) = Some (chead (of_nat ?n) 6 (c_nid conf) ip @ r)"
    "poke (chead (of_nat ?n) 6 (c_nid conf) ip @ r) (CL_DATA + 1) (tc_A tc) = Some ?b"
    using put_head_chead(1) [OF s(1)] length_chead [OF s(1)] s(2,3) A
    by (simp_all add: type_defs SIZE_number_def CL_DATA_def poke_def r'_def x)
  let ?st = "st\<lparr>cl_tc := Some tc, cl_msgbuf := ?b\<rparr>"
  have A': "length (tc_A tc) \<le> 257" using A by simp
  obtain d y where d: "handle_packet conf env (of_nat (62 + length (x # tc_A tc))) (hdr @ message 6 (c_nid conf) 0 (k_serverip cenv) (x # tc_A tc) @ [0]) (cl_net st) = Some d"
    "state d = (if k = None then 6 else 8)" "ts d = Some s'"
    "crypt d = (case k of None \<Rightarrow> crypt (cl_net st) | Some key \<Rightarrow> ead_set_key (c_host conf) key (crypt (cl_net st)))"
    "answered conf (cl_net st) d 7 0 (y # ts_B s)"
    using step_a [OF inv h(1,3,2) node0 [OF ok] d6 A' key, of x "[0]"] by blast
  have lB: "length (ts_B s) \<le> 256" using inv d6 by (simp add: inv_defs type_defs MAXPARAMLEN_def)
  let ?reply = "y # ts_B s"
  have e: "62 + length (x # tc_A tc) = 62 + ?n" by simp
  obtain ip' where ip': "length ip' = 4" "\<And>h ok st'. h (?st\<lparr>
        cl_msgbuf := chead (of_nat (length ?reply)) 7 (c_nid conf) ip' @ ?reply @ drop (length ?reply) r', cl_net := d\<rparr>) = Some (ok, st')
      \<Longrightarrow> send_packet (daemon_net conf env hdr) cenv 7 h 1 ?st = Some (of_bool ok, st'\<lparr>cl_inbox := []\<rparr>)"
    using request [OF node_okD [OF ok] s(1) lr(1), of ?n ?st 6 env d 7 ?reply] d(1,5) s(4,5) A lB unfolding e lr(2) by auto
  let ?m = "chead (of_nat (length ?reply)) 7 (c_nid conf) ip' @ ?reply @ drop (length ?reply) r'"
  let ?st' = "?st\<lparr>cl_msgbuf := ?m, cl_net := d\<rparr>"
  have hb: "handle_b ?st' = Some (True, ?st'\<lparr>cl_B_len := length (ts_B s), cl_bbuf := ts_B s @ drop (length (ts_B s)) (cl_bbuf st)\<rparr>)"
  proof -
    have g: "get32 (cl_msgbuf ?st') 4 = Some (of_nat (length ?reply))" using chead_fields(2) [OF ip'(1)] by simp
    have n: "sint (of_nat (length ?reply) - of_nat SIZE_number :: u32) = int (length (ts_B s))"
      using lB sint_of_nat_u32 [of "length (ts_B s)"] by (simp add: SIZE_number_def)
    have p: "peek (cl_msgbuf ?st') (CL_DATA + 1) (length (ts_B s)) = Some (ts_B s)"
      "poke (cl_bbuf ?st') 0 (ts_B s) = Some (ts_B s @ drop (length (ts_B s)) (cl_bbuf st))"
      using length_chead [OF ip'(1)] lB bb by (simp_all add: CL_DATA_def peek_def poke_def)
    have nn: "\<not> int (length (ts_B s)) < 0" by simp
    show ?thesis unfolding handle_b_def g bind.bind_lunit Let_def n if_not_P [OF nn] nat_int p ..
  qed
  have "send_a (daemon_net conf env hdr) cenv st = Some (1, st\<lparr>cl_tc := Some tc, cl_msgbuf := ?m, cl_net := d,
      cl_B_len := length (ts_B s), cl_bbuf := ts_B s @ drop (length (ts_B s)) (cl_bbuf st), cl_inbox := []\<rparr>)"
    unfolding send_a_def tc(1) bind.bind_lunit tc(2) [symmetric] Let_def b EAD_TYPE_SEND_B_def by (subst ip'(2) [of handle_b, OF hb]) simp
  moreover have "cmsg ?m (c_nid conf) (?reply @ drop (length ?reply) r')" using lr lB by (intro cmsgI [OF ip'(1)]) simp
  ultimately show ?thesis using handle_packet_inv [OF inv d(1)] d(2-4) answered_quiet [OF d(5)] by blast
qed

section \<open>The password\<close>

text \<open>The salt that the daemon finds in the password file is the client's.\<close>

lemma take_prefix: "take m s = p \<Longrightarrow> k \<le> length p \<Longrightarrow> take k s = take k p"
  by (auto simp: min_absorb1)

lemma passwd_line_salt:
  assumes l: "passwd_line user old l = (Some p, salt)" and p: "p = str ''$1$'' @ sp @ str ''$'' @ q" and sp: "36 \<notin> set sp"
  shows "take (4 + length sp) salt = str ''$1$'' @ sp @ [0]"
proof -
  define s where "s = drop (length user + 1) l"
  obtain k m where k: "strchr_from s 3 36 = Some k" "salt = take k s @ [0] @ drop (k + 1) old" "strchr_from s k 58 = Some m" "p = take m s"
    using l unfolding passwd_line_def Let_def s_def by (auto split: if_splits option.splits)
  have "s = p @ drop m s" using k(4) by simp
  then have "drop 3 s = drop 3 (p @ drop m s)" by simp
  also have "\<dots> = sp @ 36 # q @ drop m s" by (simp add: p str_def)
  moreover have "takeWhile (\<lambda>x. x \<noteq> 36) (sp @ 36 # z) = sp" for z using sp by (induction sp) auto
  ultimately have "takeWhile (\<lambda>x. x \<noteq> 36) (drop 3 s) = sp" by simp
  then have kk: "k = 3 + length sp" using k(1) by (auto simp: strchr_from_def Let_def split: if_splits)
  have "take k s = take k p" by (rule take_prefix [OF k(4) [symmetric]]) (simp add: kk p)
  also have "\<dots> = str ''$1$'' @ sp" by (simp add: kk p)
  finally show ?thesis unfolding k(2) by (simp add: kk)
qed

lemma listed_salt:
  assumes "listed env user old p salt" and "p = str ''$1$'' @ sp @ str ''$'' @ q" and "36 \<notin> set sp"
  shows "take (4 + length sp) salt = str ''$1$'' @ sp @ [0]"
proof -
  have "passwd_loop user old f = (Some p, salt) \<Longrightarrow> ?thesis" for f
  proof (induction user old f rule: passwd_loop.induct)
    case (1 user old f)
    then show ?case
      by (subst (asm) (2) passwd_loop.simps) (auto simp: Let_def dest: passwd_line_salt [OF _ assms(2,3)] split: if_splits prod.splits option.splits)
  qed
  then show ?thesis using assms(1) by (auto simp: listed_def)
qed

text \<open>The entry of the password file for a password.\<close>

definition md5_entry :: "bytes \<Rightarrow> bytes \<Rightarrow> bytes" where
  "md5_entry pw sp = str ''$1$'' @ sp @ str ''$'' @ md5_text (md5_crypt_hash pw sp)"

lemma prepared:
  assumes auth: "cl_auth_type st = EAD_AUTH_MD5" and salt: "cl_pw_salt st = take 31 salt @ [0]" "take (4 + length sp) salt = str ''$1$'' @ sp @ [0]"
    and sp: "is_cstr sp" "36 \<notin> set sp" "length sp \<le> 8" and pw: "length (cl_password st) < 256"
    and ctx: "length (m_buffer (k_ctx cenv)) = 64" "length (m_buffer (k_ctx1 cenv)) = 64" and buf: "length (cl_pw_md5 st) = MD5_OUT_BUFSIZE"
  shows "\<exists>h. prepare_client_password cenv st = Some (st\<lparr>cl_pw_md5 := h, cl_password := md5_entry (cl_password st) sp\<rparr>)"
proof -
  let ?n = "4 + length sp"
  have "cl_pw_salt st = take ?n (take 31 salt) @ drop ?n (take 31 salt) @ [0]"
    unfolding salt(1) by (metis append.assoc append_take_drop_id)
  also have "take ?n (take 31 salt) = take ?n salt" using sp(3) by (simp add: min_absorb2)
  finally have s: "cl_pw_salt st = str ''$1$'' @ (sp @ 0 # drop ?n (take 31 salt) @ [0])" unfolding salt(2) by simp
  have t: "true_salt 8 (sp @ 0 # drop ?n (take 31 salt) @ [0]) = Some sp"
    using sp unfolding true_salt_prefix is_cstr_def by blast
  have l: "length (str ''$1$'') = 3" "length (cl_password st) < 2 ^ 30" using pw by simp_all
  note c = md5_crypt_correct [OF l(1) t l(2) ctx buf]
  let ?h = "md5_entry (cl_password st) sp @ [0] @ drop (length sp + 27) (cl_pw_md5 st)"
  have "set ascii64 \<subseteq> - {0}" by (simp add: ascii64_def str_def)
  then have "is_cstr (md5_entry (cl_password st) sp)" using c sp(1) by (auto simp: md5_entry_def is_cstr_def str_def)
  then have "cstr_at ?h 0 = Some (md5_entry (cl_password st) sp)" by (simp add: cstr_at_def)
  moreover have "md5_crypt (k_ctx cenv) (k_ctx1 cenv) (cl_pw_md5 st) (cl_password st) (cl_pw_salt st) = Some ?h"
    using c unfolding s by (simp add: md5_entry_def)
  ultimately show ?thesis using auth by (auto simp: prepare_client_password_def)
qed

section \<open>An instance that is not addressed\<close>

text \<open>The user name with instance 0 is ignored by an instance of another number, and the client gives up.\<close>

lemma user_ignored:
  assumes hdr: "to_daemon hdr" and ip: "length ip = 4" and inst: "c_inst conf \<noteq> 0" and nid: "nid = c_nid conf" and body: "length body = 32"
  shows "handle_packet conf env (of_nat (62 + length body)) (hdr @ message 2 nid 0 ip body @ rest) st = Some st"
proof -
  note f = frame_fields [OF hdr ip, of 2 nid 0 body rest]
  show ?thesis
    unfolding handle_packet_def f(1-6,8) parse_message_def f(7,9) bind.bind_lunit
    using inst nid body by (simp add: type_defs DATA_def)
qed

lemma client_user_ignored:
  assumes ok: "node_up conf hdr cenv" and inst: "c_inst conf \<noteq> 0" and l: "linked conf st" and user: "length (cl_username st) \<le> 31"
  shows "\<exists>b. send_username (daemon_net conf env hdr) cenv st = Some (0, st\<lparr>cl_msgbuf := b\<rparr>)"
proof -
  obtain len ty ip r where s: "length ip = 4" "length r = 1480" "cl_msgbuf st = chead len ty (c_nid conf) ip @ r"
    "cl_inbox st = []" "cl_nid st = c_nid conf" using linkedE [OF l] .
  have h: "to_daemon hdr" "length (k_serverip cenv) = 4" using ok by (simp_all add: node_up_def)
  let ?u = "cl_username st"
  define r' where "r' = ?u @ 0 # drop (length ?u + 1) r"
  have lr: "length r' = 1480" "length (take 32 r') = 32" using s(2) user by (simp_all add: r'_def)
  let ?b = "chead (of_nat 32) 2 (c_nid conf) ip @ r'"
  have b: "put_head EAD_TYPE_SET_USERNAME (of_nat SIZE_user) (cl_msgbuf st) = Some (chead (of_nat 32) 2 (c_nid conf) ip @ r)"
    "poke (chead (of_nat 32) 2 (c_nid conf) ip @ r) CL_DATA (?u @ [0]) = Some ?b"
    using put_head_chead(1) [OF s(1)] length_chead [OF s(1)] s(2,3) user
    by (simp_all add: type_defs SIZE_user_def CL_DATA_def poke_def r'_def)
  let ?st = "st\<lparr>cl_msgbuf := ?b\<rparr>"
  have "handle_packet conf env (of_nat (62 + 32)) (hdr @ message 2 (c_nid conf) 0 (k_serverip cenv) (take 32 r') @ [0]) (cl_net ?st) = Some (cl_net ?st)"
    using user_ignored [OF h inst refl lr(2), of env "[0]" "cl_net st"] unfolding lr(2) by simp
  from request_silent [OF ok s(1) lr(1) _ _ _ this, of 3 handle_none 1] obtain m where
    "send_packet (daemon_net conf env hdr) cenv 3 handle_none 1 ?st = Some (0, ?st\<lparr>cl_msgbuf := m\<rparr>)" using s(4) by auto
  then show ?thesis unfolding send_username_def b(1) bind.bind_lunit b(2) EAD_TYPE_ACK_USERNAME_def by auto
qed

section \<open>The proof of the password\<close>

text \<open>A message of a later step is ignored.\<close>

lemma auth_ignored:
  assumes hdr: "to_daemon hdr" and ip: "length ip = 4" and st: "state st \<noteq> 8" and auth: "length auth = 20" and nid: "nid = c_nid conf"
  shows "handle_packet conf env (of_nat (62 + length auth)) (hdr @ message 8 nid sid ip auth @ rest) st = Some st"
proof -
  note f = frame_fields [OF hdr ip, of 8 nid sid auth rest]
  show ?thesis
    unfolding handle_packet_def f(1-6,8) parse_message_def f(7) bind.bind_lunit
    using st nid auth by (simp add: type_defs DATA_def)
qed

text \<open>The client's last object of the key exchange.\<close>

lemma client_auth:
  assumes inv: "ead_inv (cl_net st)" and ok: "node_ok conf hdr cenv" and l: "linked conf st"
    and prep: "prepare_client_password cenv st = Some (st\<lparr>cl_pw_md5 := h, cl_password := p\<rparr>)" and tc: "cl_tc st = Some tc"
    and key: "t_clientgetkey (k_host cenv) (k_raw cenv) (take (cl_B_len st) (cl_bbuf st)) (t_clientpasswd (k_host cenv) (k_raw cenv) p tc) = (tc', Some K)"
    and resp: "length (t_clientresponse tc') = 20"
  shows "state (cl_net st) \<noteq> 8 \<Longrightarrow> \<exists>st'. send_auth (daemon_net conf env hdr) cenv st = Some (0, st') \<and> cl_net st' = cl_net st"
    and "state (cl_net st) = 8 \<Longrightarrow> ts (cl_net st) = Some s \<Longrightarrow> t_serververify (c_host conf) (t_clientresponse tc') s = (s', True) \<Longrightarrow>
      \<exists>m d. send_auth (daemon_net conf env hdr) cenv st = Some (of_bool (snd (t_clientverify (k_host cenv) (t_serverresponse s') tc')),
        st\<lparr>cl_pw_md5 := h, cl_password := p, cl_tc := Some (fst (t_clientverify (k_host cenv) (t_serverresponse s') tc')), cl_skey := Some K,
          cl_crypt := ead_set_key (k_host cenv) K (cl_crypt st), cl_msgbuf := m, cl_net := d, cl_inbox := []\<rparr>)
      \<and> (\<exists>r. cmsg m (c_nid conf) r) \<and> ead_inv d \<and> state d = 10 \<and> crypt d = crypt (cl_net st) \<and> quiet (cl_net st) d"
proof -
  obtain len ty ip r where s: "length ip = 4" "length r = 1480" "cl_msgbuf st = chead len ty (c_nid conf) ip @ r"
    "cl_inbox st = []" "cl_nid st = c_nid conf" using linkedE [OF l] .
  have hh: "to_daemon hdr" "length (c_ethmac conf) = 6" "length (k_serverip cenv) = 4" using ok by (simp_all add: node_ok_def node_up_def)
  define auth where "auth = t_clientresponse tc'"
  have la: "length auth = 20" "take SIZE_auth (t_clientresponse tc') = auth" using resp by (simp_all add: auth_def SIZE_auth_def)
  define r' where "r' = auth @ drop 20 r"
  have lr: "length r' = 1480" "take 20 r' = auth" using s(2) la(1) by (simp_all add: r'_def)
  let ?b = "chead (of_nat 20) 8 (c_nid conf) ip @ r'"
  have b: "put_head EAD_TYPE_SEND_AUTH (of_nat SIZE_auth) (cl_msgbuf st) = Some (chead (of_nat 20) 8 (c_nid conf) ip @ r)"
    "poke (chead (of_nat 20) 8 (c_nid conf) ip @ r) CL_DATA auth = Some ?b"
    using put_head_chead(1) [OF s(1)] length_chead [OF s(1)] s(2,3) la(1)
    by (simp_all add: type_defs SIZE_auth_def CL_DATA_def poke_def r'_def)
  let ?st = "st\<lparr>cl_pw_md5 := h, cl_password := p, cl_tc := Some tc', cl_skey := Some K,
    cl_crypt := ead_set_key (k_host cenv) K (cl_crypt st), cl_msgbuf := ?b\<rparr>"
  have run: "send_auth (daemon_net conf env hdr) cenv st = send_packet (daemon_net conf env hdr) cenv 9 (handle_done_auth cenv) 1 ?st"
    using tc key b la(2) unfolding send_auth_def prep bind.bind_lunit by (simp add: EAD_TYPE_DONE_AUTH_def)
  {
    assume "state (cl_net st) \<noteq> 8"
    then have "handle_packet conf env (of_nat (62 + 20)) (hdr @ message 8 (c_nid conf) 0 (k_serverip cenv) (take 20 r') @ [0]) (cl_net ?st) = Some (cl_net ?st)"
      using auth_ignored [OF hh(1,3) _ la(1) refl, of "cl_net st" conf env 0 "[0]"] unfolding lr(2) la(1) by simp
    from request_silent [OF node_okD [OF ok] s(1) lr(1) _ _ _ this, of 9 "handle_done_auth cenv" 1]
    show "\<exists>st'. send_auth (daemon_net conf env hdr) cenv st = Some (0, st') \<and> cl_net st' = cl_net st"
      unfolding run using s(4) by auto
  }
  assume d8: "state (cl_net st) = 8" "ts (cl_net st) = Some s" and v: "t_serververify (c_host conf) (t_clientresponse tc') s = (s', True)"
  obtain d where d: "handle_packet conf env (of_nat (62 + length auth)) (hdr @ message 8 (c_nid conf) 0 (k_serverip cenv) auth @ [0]) (cl_net st) = Some d"
    "state d = 10" "crypt d = crypt (cl_net st)" "answered conf (cl_net st) d 9 0 (t_serverresponse s')"
    using step_auth [OF inv hh(1,3,2) node0 [OF ok] d8 la(1) v [folded auth_def], of env "[0]"] by blast
  let ?reply = "t_serverresponse s'"
  have lp: "length ?reply = 20" by (rule length_serververify [OF v])
  obtain ip' where ip': "length ip' = 4" "\<And>h ok st'. h (?st\<lparr>
        cl_msgbuf := chead (of_nat (length ?reply)) 9 (c_nid conf) ip' @ ?reply @ drop (length ?reply) r', cl_net := d\<rparr>) = Some (ok, st')
      \<Longrightarrow> send_packet (daemon_net conf env hdr) cenv 9 h 1 ?st = Some (of_bool ok, st'\<lparr>cl_inbox := []\<rparr>)"
    using request [OF node_okD [OF ok] s(1) lr(1), of 20 ?st 8 env d 9 ?reply] d(1,4) s(4,5) lp unfolding lr(2) la(1) by auto
  let ?m = "chead (of_nat (length ?reply)) 9 (c_nid conf) ip' @ ?reply @ drop (length ?reply) r'"
  let ?st' = "?st\<lparr>cl_msgbuf := ?m, cl_net := d\<rparr>"
  have "peek (cl_msgbuf ?st') CL_DATA SIZE_auth = Some ?reply"
    using length_chead [OF ip'(1)] lp by (simp add: CL_DATA_def SIZE_auth_def peek_def)
  then have hd: "handle_done_auth cenv ?st' = Some (snd (t_clientverify (k_host cenv) ?reply tc'),
      ?st'\<lparr>cl_tc := Some (fst (t_clientverify (k_host cenv) ?reply tc'))\<rparr>)"
    unfolding handle_done_auth_def by (simp add: case_prod_unfold Let_def)
  have "send_auth (daemon_net conf env hdr) cenv st = Some (of_bool (snd (t_clientverify (k_host cenv) ?reply tc')),
        st\<lparr>cl_pw_md5 := h, cl_password := p, cl_tc := Some (fst (t_clientverify (k_host cenv) (t_serverresponse s') tc')), cl_skey := Some K,
          cl_crypt := ead_set_key (k_host cenv) K (cl_crypt st), cl_msgbuf := ?m, cl_net := d, cl_inbox := []\<rparr>)"
    unfolding run by (subst ip'(2) [of "handle_done_auth cenv", OF hd]) simp
  moreover have "cmsg ?m (c_nid conf) (?reply @ drop (length ?reply) r')" using lr lp by (intro cmsgI [OF ip'(1)]) simp
  ultimately show "\<exists>m d. send_auth (daemon_net conf env hdr) cenv st = Some (of_bool (snd (t_clientverify (k_host cenv) (t_serverresponse s') tc')),
        st\<lparr>cl_pw_md5 := h, cl_password := p, cl_tc := Some (fst (t_clientverify (k_host cenv) (t_serverresponse s') tc')), cl_skey := Some K,
          cl_crypt := ead_set_key (k_host cenv) K (cl_crypt st), cl_msgbuf := m, cl_net := d, cl_inbox := []\<rparr>)
      \<and> (\<exists>r. cmsg m (c_nid conf) r) \<and> ead_inv d \<and> state d = 10 \<and> crypt d = crypt (cl_net st) \<and> quiet (cl_net st) d"
    using handle_packet_inv [OF inv d(1)] d(2,3) answered_quiet [OF d(4)] by blast
qed

end
