(* ===== verification/Ead_Client_Session.thy ===== *)
theory Ead_Client_Session
  imports Ead_Client_Steps
begin

text \<open>
  The composition: a command and its output between client and daemon, the agreement of the key
  exchange, a run of the client program from any state the daemon can be in, and a concrete one.
\<close>

section \<open>The command\<close>

lemma peek_take: "take n (drop i p) = xs \<Longrightarrow> length xs = n \<Longrightarrow> i \<le> length p \<Longrightarrow> peek p i n = Some xs"
  by (auto simp: peek_def)

lemma cmd_data_reply:
  assumes ip: "length ip = 4" and b: "cl_msgbuf st = message 11 nid 0 ip body @ rest" and body: "delivered (cl_crypt st) body (z # out) c"
    and len: "length out \<le> 1024"
  shows "\<exists>d. handle_cmd_data st = Some (z \<noteq> 0, st\<lparr>cl_msgbuf := chead (of_nat (length body)) 11 nid ip @ d, cl_crypt := c,
      cl_prints := (if out = [] then cl_prints st else cl_prints st @ [Output out])\<rparr>) \<and> length d = length body + length rest"
proof -
  let ?h = "chead (of_nat (length body)) 11 nid ip"
  note g = chead_fields [OF ip, of "of_nat (length body)" 11 nid "body @ rest"]
  have m: "cl_msgbuf st = ?h @ body @ rest" using b by (simp add: message_chead)
  obtain d where d: "ead_decrypt_message (cl_crypt st) (body @ rest) (of_nat (length body)) = Some (int (Suc (length out)), d, c)"
    "take (Suc (length out)) (drop 25 d) = z # out"
    using body unfolding delivered_def by auto
  have ld: "length d = length body + length rest" using decrypt_length [OF d(1)] by simp
  have lh: "length ?h = 20" by (rule length_chead [OF ip])
  have dc: "drop CL_DATA (?h @ body @ rest) = body @ rest" "take CL_DATA (?h @ body @ rest) = ?h" using lh by (simp_all add: CL_DATA_def)
  have "Suc (length out) < 2 ^ 31" using len by simp
  then have n: "int_minus (int (Suc (length out))) SIZE_cmd_data = int (length out)" "\<not> int (length out) < 0"
    unfolding SIZE_cmd_data_def by (subst int_minus_of_nat) simp_all
  note nn = n(2)
  have e: "drop CL_ENC (?h @ d) = drop 25 d" using lh by (simp add: CL_ENC_def CL_DATA_def ENC_HDR_def)
  have b25: "take (Suc (length out)) (drop CL_ENC (?h @ d)) = z # out" unfolding e by (rule d(2))
  have i: "idx (?h @ d) CL_ENC = Some z" using take_inner [OF b25, of 0 1] by (intro idx_take) simp
  have t: "take (length out) (drop (CL_ENC + 1) (?h @ d)) = out" using take_inner [OF b25, of 1 "length out"] by simp
  have "CL_ENC < length (?h @ d)" using i by (simp only: idx_Some_iff)
  then have p: "peek (?h @ d) (CL_ENC + 1) (length out) = Some out" by (intro peek_take [OF t]) simp_all
  have "handle_cmd_data st = Some (z \<noteq> 0, st\<lparr>cl_msgbuf := ?h @ d, cl_crypt := c,
      cl_prints := (if out = [] then cl_prints st else cl_prints st @ [Output out])\<rparr>)"
    unfolding handle_cmd_data_def m g(2) bind.bind_lunit dc d(1) prod.case Let_def n(1) if_not_P [OF nn] nat_int i p
    by simp
  then show ?thesis using ld by blast
qed

text \<open>The client prints what arrives until the last answer.\<close>

lemma recv_results:
  assumes "delivers (cl_crypt st) bodies (map ((#) 0) outs @ [[1]]) c" and "cl_nid st = nid" and "\<exists>r. cmsg (cl_msgbuf st) nid r"
    and "\<forall>x \<in> set outs. length x \<le> 1024" and ip: "length ip = 4"
  shows "\<exists>st'. recv_loop 11 handle_cmd_data 1 0 (map (message 11 nid 0 ip) bodies) st = Some (1, st') \<and> cl_net st' = cl_net st
    \<and> cl_prints st' = cl_prints st @ map Output (filter (\<lambda>x. x \<noteq> []) outs)"
  using assms(1-4)
proof (induction outs arbitrary: st bodies)
  case Nil
  then obtain body where b: "bodies = [body]" "delivered (cl_crypt st) body [1] c" by (cases bodies; cases "tl bodies") auto
  then have l: "length body \<le> 1480" by (simp add: delivered_def)
  obtain len ty ip0 r where m: "length r = 1480" "length ip0 = 4" "cl_msgbuf st = chead len ty nid ip0 @ r"
    using Nil.prems(3) unfolding cmsg_def by blast
  let ?st = "st\<lparr>cl_msgbuf := message 11 nid 0 ip body @ drop (length body) r\<rparr>"
  obtain d where d: "handle_cmd_data ?st = Some (True, ?st\<lparr>cl_msgbuf := d, cl_crypt := c\<rparr>)"
    using cmd_data_reply [OF ip, of ?st nid body "drop (length body) r" 1 "[]" c] b(2) by auto
  show ?case unfolding b(1) using recv_message [OF m(2) ip m(1) l m(3), of 11 handle_cmd_data 1 0 "[]"] Nil.prems(2) d by simp
next
  case (Cons out outs)
  obtain body bs c1 where b: "bodies = body # bs" "delivered (cl_crypt st) body (0 # out) c1" "delivers c1 bs (map ((#) 0) outs @ [[1]]) c"
    using Cons.prems(1) by (cases bodies) auto
  have l: "length body \<le> 1480" using b(2) Cons.prems(4) by (simp add: delivered_def)
  obtain len ty ip0 r where m: "length r = 1480" "length ip0 = 4" "cl_msgbuf st = chead len ty nid ip0 @ r"
    using Cons.prems(3) unfolding cmsg_def by blast
  let ?st = "st\<lparr>cl_msgbuf := message 11 nid 0 ip body @ drop (length body) r\<rparr>"
  obtain d where d: "handle_cmd_data ?st = Some (False, ?st\<lparr>cl_msgbuf := chead (of_nat (length body)) 11 nid ip @ d, cl_crypt := c1,
      cl_prints := (if out = [] then cl_prints ?st else cl_prints ?st @ [Output out])\<rparr>)" "length d = length body + length (drop (length body) r)"
    using cmd_data_reply [OF ip, of ?st nid body "drop (length body) r" 0 out c1] b(2) Cons.prems(4) by auto
  let ?st' = "?st\<lparr>cl_msgbuf := chead (of_nat (length body)) 11 nid ip @ d, cl_crypt := c1,
      cl_prints := (if out = [] then cl_prints ?st else cl_prints ?st @ [Output out])\<rparr>"
  have "recv_loop 11 handle_cmd_data 1 0 (map (message 11 nid 0 ip) bodies) st
      = recv_loop 11 handle_cmd_data 1 0 (map (message 11 nid 0 ip) bs) ?st'"
    unfolding b(1) using recv_message [OF m(2) ip m(1) l m(3), of 11 handle_cmd_data 1 0] Cons.prems(2) d(1) by simp
  moreover have ld: "length d = 1480" using d(2) l m(1) by simp
  then have "\<exists>r. cmsg (cl_msgbuf ?st') nid r" using cmsgI [OF ip ld, of "of_nat (length body)" 11 nid] by auto
  moreover have "delivers (cl_crypt ?st') bs (map ((#) 0) outs @ [[1]]) c" "cl_nid ?st' = nid" "\<forall>x \<in> set outs. length x \<le> 1024"
    using b(3) Cons.prems(2,4) by simp_all
  ultimately show ?case using Cons.IH [of ?st' bs] by auto
qed

lemma outputs_short: "\<forall>x \<in> set (outputs rs). length x \<le> 1024"
  by (induction rs) auto

lemma client_command:
  assumes inv: "ead_inv (cl_net st)" and ok: "node_ok conf hdr cenv" and l: "linked conf st" and d10: "state (cl_net st) = 10"
    and keys: "paired key (crypt (cl_net st)) (cl_crypt st)" "paired key (cl_crypt st) (crypt (cl_net st))"
    and iv: "unat (ead_tx_iv (cl_crypt st)) + 128 < 2 ^ 32" "unat (ead_tx_iv (crypt (cl_net st))) + 4 * length (e_rounds env) + 128 < 2 ^ 32"
    and quick: "\<forall>r \<in> set (e_rounds env). r_time r < 10" and cmd: "is_cstr cmd" "length cmd < 1024" and env: "e_pipe env" "e_fork env"
  shows "\<exists>st' es. send_command (daemon_net conf env hdr) cenv cmd st = Some (1, st') \<and> events (cl_net st') = events (cl_net st) @ es
    \<and> Exec cmd \<in> set es \<and> cl_prints st' = cl_prints st @ map Output (filter (\<lambda>x. x \<noteq> []) (outputs (e_rounds env)))"
proof -
  obtain len ty ip r where s: "length ip = 4" "length r = 1480" "cl_msgbuf st = chead len ty (c_nid conf) ip @ r"
    "cl_inbox st = []" "cl_nid st = c_nid conf" using linkedE [OF l] .
  have hh: "to_daemon hdr" "length (c_ethmac conf) = 6" "length (k_serverip cenv) = 4" using ok by (simp_all add: node_ok_def node_up_def)
  define field where "field = take 1024 cmd @ replicate (1024 - length cmd) 0"
  have lf: "length field = 1024" "take (length cmd + 1) field = cmd @ [0]" using cmd(2) by (simp_all add: field_def)
  define r1 where "r1 = take 25 r @ [0] @ drop 26 r"
  define r2 where "r2 = take 26 r1 @ be16 10 @ drop 28 r1"
  define r' where "r' = take 28 r2 @ field @ drop 1052 r2"
  have l12: "length r1 = 1480" "length r2 = 1480" using s(2) by (simp_all add: r1_def r2_def)
  have lr: "length r' = 1480" using l12 lf by (simp add: r'_def)
  have pl: "take (length cmd + 4) (drop 25 r') = cmd_payload 10 cmd"
  proof -
    have n: "length cmd + 4 = Suc (Suc (Suc (Suc (length cmd))))" by simp
    show ?thesis unfolding n using s(2) l12(1) lf cmd(2) by (simp add: r'_def r2_def r1_def cmd_payload_def)
  qed
  let ?h = "chead len 10 (c_nid conf) ip"
  have lh: "length ?h = 20" by (rule length_chead [OF s(1)])
  have b0: "poke (cl_msgbuf st) 8 (be32 (of_nat EAD_TYPE_SEND_CMD)) = Some (?h @ r)"
    using s(1,3) by (simp add: chead_def poke_def type_defs)
  have b: "poke (?h @ r) CL_ENC [0] = Some (?h @ r1)" "poke (?h @ r1) (CL_ENC + 1) (be16 10) = Some (?h @ r2)"
    "poke (?h @ r2) (CL_ENC + 3) field = Some (?h @ r')"
    using poke_after [OF lh, of 25 "[0]" r] poke_after [OF lh, of 26 "be16 10" r1] poke_after [OF lh, of 28 field r2] s(2) l12 lf(1)
    by (simp_all add: CL_ENC_def CL_DATA_def ENC_HDR_def r1_def r2_def r'_def)
  obtain dd n kc c where e: "ead_encrypt_message (cl_crypt st) r' (length cmd + 4) = Some (dd, of_nat (64 * n), kc)" "length dd = length r'"
    "64 * n \<le> length cmd + 4 + 88" "delivered (crypt (cl_net st)) (take (64 * n) dd) (cmd_payload 10 cmd) c" "paired key c kc"
    "aes_dec_ctx kc = aes_dec_ctx (cl_crypt st)" "ead_rx_iv kc = ead_rx_iv (cl_crypt st)"
    "c = (crypt (cl_net st))\<lparr>ead_rx_iv := ead_rx_iv c\<rparr>"
    using message_delivered [OF keys(1) iv(1), of "length cmd + 4" r'] lr cmd(2) unfolding pl by auto
  have cc: "aes_enc_ctx c = aes_enc_ctx (crypt (cl_net st))" "ead_tx_iv c = ead_tx_iv (crypt (cl_net st))"
    by (subst e(8), simp)+
  have pk: "paired key kc c" using keys(2) e(6,7) cc by (simp add: paired_def)
  have ivc: "unat (ead_tx_iv c) + 4 * length (e_rounds env) + 128 < 2 ^ 32" using iv(2) cc by simp
  define body where "body = take (64 * n) dd"
  have lb: "length body = 64 * n" "64 * n \<le> 1480" using e(2,3) lr cmd(2) by (simp_all add: body_def)
  have q: "\<forall>r \<in> set (e_rounds env). r_time r < unat (10 :: u16)" "unat (10 :: u16) \<noteq> 0" using quick by simp_all
  have c1: "length cmd \<le> 1024" using cmd(2) by simp
  obtain d frames bodies kc' ip' where d: "handle_packet conf env (of_nat (62 + length body)) (hdr @ message 10 (c_nid conf) 0 (k_serverip cenv) body @ [0]) (cl_net st) = Some d"
    "events d = events (cl_net st) @ Exec cmd # map Send frames" "length ip' = 4"
    "map (drop 42) frames = map (message 11 (c_nid conf) 0 ip') bodies"
    "delivers kc bodies (map ((#) 0) (outputs (e_rounds env)) @ [[1]]) kc'"
    using step_cmd_answers [OF inv hh(1,3,2) node0 [OF ok] d10 e(4) [folded body_def] pk ivc q cmd(1) c1 env, of "[0]"] by blast
  have "concat (map datagram (Exec cmd # map Send frames)) = map (drop 42) frames"
    by (simp add: MSG_def map_concat [symmetric]) (induction frames, simp_all add: MSG_def)
  then have net: "daemon_net conf env hdr (cl_net st) (message 10 (c_nid conf) 0 (k_serverip cenv) (take (64 * n) dd)) = (d, map (message 11 (c_nid conf) 0 ip') bodies)"
    using daemon_net_sends [OF d(1) hh(3) d(2)] d(4) by (simp add: body_def)
  let ?st = "st\<lparr>cl_msgbuf := chead (of_nat (64 * n)) 10 (c_nid conf) ip @ dd, cl_crypt := kc\<rparr>"
  let ?st' = "?st\<lparr>cl_msgbuf := chead (of_nat (64 * n)) 10 (c_nid conf) (k_serverip cenv) @ dd, cl_net := d\<rparr>"
  have net': "daemon_net conf env hdr (cl_net ?st) (message 10 (c_nid conf) 0 (k_serverip cenv) (take (64 * n) dd)) = (d, map (message 11 (c_nid conf) 0 ip') bodies)"
    using net by simp
  have ldd: "length dd = 1480" using e(2) lr by simp
  have sz: "SIZE_cmd + length cmd + 1 = length cmd + 4" by (simp add: SIZE_cmd_def)
  have hd: "drop CL_DATA (?h @ r') = r'" "take CL_DATA (?h @ r') = ?h" using lh by (simp_all add: CL_DATA_def)
  have "send_command (daemon_net conf env hdr) cenv cmd st
      = send_packet (daemon_net conf env hdr) cenv 11 handle_cmd_data 1 ?st"
    unfolding send_command_def field_def [symmetric] b0 b bind.bind_lunit hd sz e(1) prod.case put_head_chead(2) [OF s(1)] EAD_TYPE_RESULT_CMD_def ..
  also have "\<dots> = recv_loop 11 handle_cmd_data 1 0 (map (message 11 (c_nid conf) 0 ip') bodies) ?st'"
    by (rule send_packet_out [where net = "daemon_net conf env hdr" and r = dd, OF s(1) hh(3) ldd lb(2) _ _ net']) (use s(4) in simp_all)
  finally have run: "send_command (daemon_net conf env hdr) cenv cmd st = \<dots>" .
  have "\<exists>r. cmsg (cl_msgbuf ?st') (c_nid conf) r" using cmsgI [OF hh(3) ldd, of "of_nat (64 * n)" 10 "c_nid conf"] by auto
  moreover have "delivers (cl_crypt ?st') bodies (map ((#) 0) (outputs (e_rounds env)) @ [[1]]) kc'" "cl_nid ?st' = c_nid conf"
    using d(5) s(5) by simp_all
  ultimately obtain st' where "recv_loop 11 handle_cmd_data 1 0 (map (message 11 (c_nid conf) 0 ip') bodies) ?st' = Some (1, st')" "cl_net st' = d"
    "cl_prints st' = cl_prints st @ map Output (filter (\<lambda>x. x \<noteq> []) (outputs (e_rounds env)))"
    using recv_results [OF _ _ _ outputs_short d(3), of ?st' bodies "e_rounds env" kc' "c_nid conf"] by auto
  then show ?thesis unfolding run using d(2) by (intro exI [of _ st'] exI [of _ "Exec cmd # map Send frames"]) simp
qed

section \<open>The key exchange\<close>

text \<open>The outcomes of the exchange in which the two sides give up: one of them refuses the other's
  number, or the server takes the proof of the password for one of the older form of the protocol.\<close>

definition exchange :: "ead_conf \<Rightarrow> ead_env \<Rightarrow> client_env \<Rightarrow> bytes \<Rightarrow> bytes \<Rightarrow> t_confent \<Rightarrow> (t_server \<times> bytes option) \<times> t_client \<times> bytes option" where
  "exchange conf env cenv user p t =
     (let s = t_servergenexp (c_host conf) (e_rnd env) (opened conf env user p t);
          tc = t_clientgenexp (k_host cenv) (k_rnd cenv) (opened_client cenv user t)
      in (t_servergetkey (c_host conf) (e_raw env) (tc_A tc) s,
          t_clientgetkey (k_host cenv) (k_raw cenv) (ts_B s) (t_clientpasswd (k_host cenv) (k_raw cenv) p tc)))"

definition weak_exchange :: "ead_conf \<Rightarrow> ead_env \<Rightarrow> client_env \<Rightarrow> bytes \<Rightarrow> bytes \<Rightarrow> bool" where
  "weak_exchange conf env cenv user p =
     (case gettcid tpe_index of
        None \<Rightarrow> False
      | Some t \<Rightarrow>
          (let ((s, k), tc, k') = exchange conf env cenv user p t
           in k = None \<or> k' = None \<or> fst (SHA1Final (c_host conf) (ts_oldckhash s)) = t_clientresponse tc))"

lemma clientgetkey_fields: "t_clientgetkey e raw b tc = (tc', Some K) \<Longrightarrow> length (t_clientresponse tc') = 20"
  by (auto simp: t_clientgetkey_def t_clientresponse_def Let_def case_prod_unfold split: if_splits)

lemma clientopen_n: "t_clientopen e raw pre u n g s = Some (Some tc) \<Longrightarrow> tc_n tc = n"
  by (auto simp: t_clientopen_def Let_def split: if_splits)

lemma client_A_short:
  assumes "length (modulus t) \<le> 256" and "0 < BigIntegerFromBytes (modulus t)" and "t \<in> set built_in" and "64 \<le> length (modulus t)"
    and "length user \<le> 31"
  shows "length (tc_A (t_clientgenexp e rnd (opened_client cenv user t))) \<le> 256"
proof -
  have "tc_n (opened_client cenv user t) = modulus t"
    using opened_client [OF assms(3-5), of cenv] by (rule clientopen_n)
  then have "tc_A (t_clientgenexp e rnd (opened_client cenv user t)) = BigIntegerToBytes
      (BigIntegerModExp (BigIntegerFromBytes (tc_g (opened_client cenv user t)))
        (BigIntegerFromBytes (tc_a (t_clientgenexp e rnd (opened_client cenv user t)))) (BigIntegerFromBytes (modulus t)))"
    by (simp add: t_clientgenexp_def Let_def)
  moreover have "BigIntegerModExp x y (BigIntegerFromBytes (modulus t)) < BigIntegerFromBytes (modulus t)" for x y
    using assms(2) by (simp add: BigIntegerModExp_def)
  ultimately show ?thesis using less_mod_length assms(1) by (metis le_trans)
qed

section \<open>The session\<close>

lemma key_iv: "unat (ead_tx_iv (ead_set_key e key c)) < 2 ^ 24"
proof -
  have "of_be32 (take 4 (drop 32 key)) AND 0x00ffffff \<le> (0x00ffffff :: u32)" by (rule word_and_le1)
  then show ?thesis by (simp add: ead_set_key_def Let_def word_le_nat_alt)
qed

lemma key_paired: "paired key (ead_set_key e key c) (ead_set_key e' key c')"
  by (simp add: paired_def ead_set_key_def Let_def)

lemma exchange_agrees:
  assumes raw: "ready (e_raw env)" "ready (k_raw cenv)" and t: "t \<in> set built_in" "64 \<le> length (modulus t)" "length (modulus t) \<le> 256"
      "length (generator t) < 256" and user: "length user \<le> 31" and sp: "length sp \<le> 8"
    and tc: "tc = t_clientgenexp (k_host cenv) (k_rnd cenv) (opened_client cenv user t)"
    and sk: "t_servergetkey (c_host conf) (e_raw env) (tc_A tc)
        (t_servergenexp (c_host conf) (e_rnd env) (opened conf env user (md5_entry pw sp) t)) = (s', Some K)"
    and ck: "t_clientgetkey (k_host cenv) (k_raw cenv) (ts_B (t_servergenexp (c_host conf) (e_rnd env) (opened conf env user (md5_entry pw sp) t)))
        (t_clientpasswd (k_host cenv) (k_raw cenv) (md5_entry pw sp) tc) = (tc', Some K')"
  shows "K' = K \<and> (\<exists>s''. t_serververify (c_host conf) (t_clientresponse tc') s' = (s'', True)
    \<and> (fst (SHA1Final (c_host conf) (ts_oldckhash s')) \<noteq> t_clientresponse tc' \<longrightarrow> snd (t_clientverify (k_host cenv) (t_serverresponse s'') tc')))"
proof -
  have lens: "length (modulus t) < 2 ^ 31" "length (generator t) < 2 ^ 31" "length ([] :: bytes) < 2 ^ 31" "length (md5_entry pw sp) < 2 ^ 31"
    using t(3,4) sp md5_text_chars(1) by (simp_all add: md5_entry_def)
  have op: "opened conf env user (md5_entry pw sp) t = t_serveropenraw (c_host conf) (e_raw env)
     \<lparr>pw_name = user, pw_password = BigIntegerToBytes (BigIntegerModExp (BigIntegerFromBytes (generator t))
          (BigIntegerFromBytes (password_digest (c_host conf) (e_raw env) [] user (md5_entry pw sp))) (BigIntegerFromBytes (modulus t))),
      pw_salt = []\<rparr> \<lparr>modulus = modulus t, generator = generator t\<rparr>"
    by (cases t) (simp add: opened_def)
  have A: "tc_A (t_clientpasswd (k_host cenv) (k_raw cenv) (md5_entry pw sp) tc) = tc_A tc"
    by (simp add: t_clientpasswd_def Let_def)
  show ?thesis
    by (rule srp_agreement [OF raw lens opened_client [OF t(1,2) user] refl arg_cong [OF op] arg_cong [OF tc] _ ck])
      (use sk in \<open>simp only: A\<close>)
qed

text \<open>The states in which the client starts the exchange.\<close>

definition client_ready :: "ead_conf \<Rightarrow> client_env \<Rightarrow> bytes \<Rightarrow> bytes \<Rightarrow> 'n client \<Rightarrow> bool" where
  "client_ready conf cenv user pw st \<longleftrightarrow> linked conf st \<and> cl_auth_type st = EAD_AUTH_MD5 \<and> cl_username st = user \<and> cl_password st = pw
     \<and> length (cl_bbuf st) = 256 \<and> length (cl_pw_md5 st) = MD5_OUT_BUFSIZE
     \<and> ready (k_raw cenv) \<and> length (m_buffer (k_ctx cenv)) = 64 \<and> length (m_buffer (k_ctx1 cenv)) = 64"

text \<open>What the daemon can do for the user: the entry of the password file is the password's, and a child
  process can be created whose output ends in time.\<close>

definition daemon_ready :: "ead_conf \<Rightarrow> ead_env \<Rightarrow> bytes \<Rightarrow> bytes \<Rightarrow> bytes \<Rightarrow> ead \<Rightarrow> bool" where
  "daemon_ready conf env user pw sp d \<longleftrightarrow> (\<exists>salt. listed env user (pw_saltbuf d) (md5_entry pw sp) salt) \<and> is_cstr sp \<and> 36 \<notin> set sp \<and> length sp \<le> 8
     \<and> lookup_ok conf env d \<and> ready (e_raw env) \<and> e_pipe env \<and> e_fork env \<and> length (e_rounds env) < 2 ^ 28
     \<and> list_all (\<lambda>r. r_time r < 10) (e_rounds env)"

lemma login_runs:
  assumes inv: "ead_inv (cl_net st)" and ok: "node_ok conf hdr cenv" and cr: "client_ready conf cenv user pw st"
    and dr: "daemon_ready conf env user pw sp (cl_net st)" and user: "is_cstr user" "length user \<le> 31" and pw: "length pw < 256"
    and cmd: "is_cstr cmd" "length cmd < 1024"
  shows "\<exists>r st' es. login (daemon_net conf env hdr) cenv (Some cmd) st = Some (r, st') \<and> events (cl_net st') = events (cl_net st) @ es
    \<and> (r = 0 \<and> Exec cmd \<in> set es \<and> cl_prints st' = cl_prints st @ map Output (filter (\<lambda>x. x \<noteq> []) (outputs (e_rounds env)))
       \<or> r = 1 \<and> (\<forall>c. Exec c \<notin> set es) \<and> weak_exchange conf env cenv user (md5_entry pw sp))"
proof -
  let ?net = "daemon_net conf env hdr" and ?p = "md5_entry pw sp"
  obtain t where t: "gettcid tpe_index = Some t" "t_getpreparam 0 = Some t" "t \<in> set built_in" "64 \<le> length (modulus t)"
    "length (modulus t) \<le> 256" "length (generator t) < 256" "0 < BigIntegerFromBytes (modulus t)" by (rule group_of_client)
  obtain salt where salt: "listed env user (pw_saltbuf (cl_net st)) ?p salt" using dr by (auto simp: daemon_ready_def)
  have sp: "is_cstr sp" "36 \<notin> set sp" "length sp \<le> 8" and dig: "lookup_ok conf env (cl_net st)" and raw: "ready (e_raw env)"
    and denv: "e_pipe env" "e_fork env" and rounds: "length (e_rounds env) < 2 ^ 28" "\<forall>r \<in> set (e_rounds env). r_time r < 10"
    using dr by (simp_all add: daemon_ready_def list_all_iff)
  have c: "linked conf st" "cl_auth_type st = EAD_AUTH_MD5" "cl_username st = user" "cl_password st = pw"
    "length (cl_bbuf st) = 256" "length (cl_pw_md5 st) = MD5_OUT_BUFSIZE" "ready (k_raw cenv)"
    "length (m_buffer (k_ctx cenv)) = 64" "length (m_buffer (k_ctx1 cenv)) = 64" using cr by (simp_all add: client_ready_def)
  have nid: "cl_nid st = c_nid conf" using c(1) by (simp add: linked_def)
  let ?s0 = "opened conf env user ?p t"
  obtain m1 d1 where u: "send_username ?net cenv st = Some (1, st\<lparr>cl_msgbuf := m1, cl_net := d1, cl_inbox := []\<rparr>)"
    "\<exists>r. cmsg m1 (c_nid conf) r" "ead_inv d1" "state d1 = 4" "ts d1 = Some ?s0" "pw_saltbuf d1 = salt" "quiet (cl_net st) d1"
    using client_user [OF inv ok c(1), unfolded c(3), OF user salt dig t(1)] by blast
  let ?st1 = "st\<lparr>cl_msgbuf := m1, cl_net := d1, cl_inbox := []\<rparr>"
  have l1: "linked conf ?st1" using u(2) nid by (simp add: linked_def)
  have i1: "ead_inv (cl_net ?st1)" "state (cl_net ?st1) = 4" "ts (cl_net ?st1) = Some ?s0" "cl_auth_type ?st1 = EAD_AUTH_MD5"
    "length (cl_username ?st1) \<le> 31" using u(3-5) c(2,3) user(2) by simp_all
  let ?s = "t_servergenexp (c_host conf) (e_rnd env) ?s0"
  obtain m2 d2 where pr: "get_prime ?net cenv ?st1 = Some (1, ?st1\<lparr>cl_msgbuf := m2, cl_net := d2, cl_salt_len := 0, cl_saltbuf := cl_saltbuf ?st1,
        cl_pw_salt := take 31 (pw_saltbuf (cl_net ?st1)) @ [0], cl_tc := Some (opened_client cenv (cl_username ?st1) t), cl_inbox := []\<rparr>)"
    "\<exists>r. cmsg m2 (c_nid conf) r" "ead_inv d2" "state d2 = 6" "ts d2 = Some ?s" "quiet (cl_net ?st1) d2"
    using client_prime [OF i1(1) ok l1 i1(2-5) t(2-4)] by blast
  define st2 where "st2 = ?st1\<lparr>cl_msgbuf := m2, cl_net := d2, cl_salt_len := 0, cl_saltbuf := cl_saltbuf ?st1,
        cl_pw_salt := take 31 (pw_saltbuf (cl_net ?st1)) @ [0], cl_tc := Some (opened_client cenv (cl_username ?st1) t), cl_inbox := []\<rparr>"
  have f2: "linked conf st2" "cl_net st2 = d2" "cl_tc st2 = Some (opened_client cenv user t)" "length (cl_bbuf st2) = 256"
    "cl_pw_salt st2 = take 31 salt @ [0]" "cl_auth_type st2 = EAD_AUTH_MD5" "cl_password st2 = pw" "length (cl_pw_md5 st2) = MD5_OUT_BUFSIZE"
    "cl_prints st2 = cl_prints st" "cl_nid st2 = c_nid conf"
    using pr(2) nid c u(6) by (simp_all add: st2_def linked_def)
  define tc where "tc = t_clientgenexp (k_host cenv) (k_rnd cenv) (opened_client cenv user t)"
  have lA: "length (tc_A tc) \<le> 256" unfolding tc_def by (rule client_A_short [OF t(5,7,3,4) user(2)])
  have i2: "ead_inv (cl_net st2)" "state (cl_net st2) = 6" "ts (cl_net st2) = Some ?s" using pr(3-5) f2(2) by simp_all
  obtain s' k where sk: "t_servergetkey (c_host conf) (e_raw env) (tc_A tc) ?s = (s', k)" by (meson surj_pair)
  obtain tc' k' where ck: "t_clientgetkey (k_host cenv) (k_raw cenv) (ts_B ?s) (t_clientpasswd (k_host cenv) (k_raw cenv) ?p tc) = (tc', k')"
    by (meson surj_pair)
  have weak: "weak_exchange conf env cenv user ?p \<longleftrightarrow> k = None \<or> k' = None \<or> fst (SHA1Final (c_host conf) (ts_oldckhash s')) = t_clientresponse tc'"
    by (simp add: weak_exchange_def exchange_def t(1) Let_def tc_def [symmetric] sk ck)
  obtain m3 d3 where a: "send_a ?net cenv st2 = Some (1, st2\<lparr>cl_tc := Some tc, cl_msgbuf := m3, cl_net := d3,
        cl_B_len := length (ts_B ?s), cl_bbuf := ts_B ?s @ drop (length (ts_B ?s)) (cl_bbuf st2), cl_inbox := []\<rparr>)"
    "\<exists>r. cmsg m3 (c_nid conf) r" "ead_inv d3" "state d3 = (if k = None then 6 else 8)" "ts d3 = Some s'"
    "crypt d3 = (case k of None \<Rightarrow> crypt d2 | Some key \<Rightarrow> ead_set_key (c_host conf) key (crypt d2))" "quiet d2 d3"
    using client_a [OF i2(1) ok f2(1) i2(2,3) f2(3) tc_def lA f2(4) sk] unfolding f2(2) by blast
  define st3 where "st3 = st2\<lparr>cl_tc := Some tc, cl_msgbuf := m3, cl_net := d3,
        cl_B_len := length (ts_B ?s), cl_bbuf := ts_B ?s @ drop (length (ts_B ?s)) (cl_bbuf st2), cl_inbox := []\<rparr>"
  have f3: "linked conf st3" "cl_net st3 = d3" "cl_tc st3 = Some tc" "take (cl_B_len st3) (cl_bbuf st3) = ts_B ?s" "cl_prints st3 = cl_prints st"
    "cl_pw_salt st3 = take 31 salt @ [0]" "cl_auth_type st3 = EAD_AUTH_MD5" "cl_password st3 = pw" "length (cl_pw_md5 st3) = MD5_OUT_BUFSIZE"
    "cl_nid st3 = c_nid conf"
    using a(2) f2 by (simp_all add: st3_def linked_def)
  have q3: "quiet (cl_net st) d3" using quiet_trans [OF quiet_trans [OF u(7) _] a(7)] pr(6) by simp
  obtain h where prep: "prepare_client_password cenv st3 = Some (st3\<lparr>cl_pw_md5 := h, cl_password := ?p\<rparr>)"
    using prepared [OF f3(7,6) listed_salt [OF salt _ sp(2), of "md5_text (md5_crypt_hash pw sp)"] sp _ c(8,9) f3(9)] pw unfolding f3(8)
    by (auto simp: md5_entry_def)
  have steps: "login ?net cenv (Some cmd) st = do { (r, st) \<leftarrow> send_auth ?net cenv st3;
      if r = 0 then Some (1, st) else do { (r, st) \<leftarrow> send_command ?net cenv cmd st; Some (if r = 0 then 1 else 0, st) } }"
    unfolding login_def u(1) bind.bind_lunit prod.case pr(1) st2_def [symmetric] a(1) st3_def [symmetric] option.case by simp
  consider (refused) "k' = None" | (server) K' where "k' = Some K'" "k = None" | (keys) K K' where "k' = Some K'" "k = Some K" by fastforce
  then show ?thesis
  proof cases
    case refused
    have "\<exists>st'. send_auth ?net cenv st3 = Some (0, st') \<and> cl_net st' = d3"
      unfolding send_auth_def prep bind.bind_lunit using f3(2-4) ck refused by simp
    then obtain st' where st': "send_auth ?net cenv st3 = Some (0, st')" "cl_net st' = d3" by blast
    then show ?thesis unfolding steps weak using q3 refused by (auto simp: quiet_def)
  next
    case server
    have "t_clientgetkey (k_host cenv) (k_raw cenv) (take (cl_B_len st3) (cl_bbuf st3)) (t_clientpasswd (k_host cenv) (k_raw cenv) ?p tc) = (tc', Some K')"
      using ck server f3(4) by simp
    from client_auth(1) [OF _ ok f3(1) prep f3(3) this] obtain st' where st': "send_auth ?net cenv st3 = Some (0, st')" "cl_net st' = d3"
      using a(3,4) server(2) f3(2) clientgetkey_fields [OF ck [unfolded server(1)]] by auto
    then show ?thesis unfolding steps weak using q3 server(2) by (auto simp: quiet_def)
  next
    case keys
    note ck' = ck [unfolded keys(1)] and sk' = sk [unfolded keys(2)]
    obtain s'' where agree: "K' = K" "t_serververify (c_host conf) (t_clientresponse tc') s' = (s'', True)"
      "fst (SHA1Final (c_host conf) (ts_oldckhash s')) \<noteq> t_clientresponse tc' \<Longrightarrow> snd (t_clientverify (k_host cenv) (t_serverresponse s'') tc')"
      using exchange_agrees [OF raw c(7) t(3-6) user(2) sp(3) tc_def sk' ck'] by blast
    have key: "t_clientgetkey (k_host cenv) (k_raw cenv) (take (cl_B_len st3) (cl_bbuf st3)) (t_clientpasswd (k_host cenv) (k_raw cenv) ?p tc) = (tc', Some K)"
      using ck' f3(4) agree(1) by simp
    have d3: "ead_inv (cl_net st3)" "state (cl_net st3) = 8" "ts (cl_net st3) = Some s'" using a(3-5) f3(2) keys(2) by simp_all
    define vf where "vf = t_clientverify (k_host cenv) (t_serverresponse s'') tc'"
    define ok' where "ok' = snd vf"
    obtain m4 d4 where au: "send_auth ?net cenv st3 = Some (of_bool ok',
        st3\<lparr>cl_pw_md5 := h, cl_password := ?p, cl_tc := Some (fst vf), cl_skey := Some K, cl_crypt := ead_set_key (k_host cenv) K (cl_crypt st3),
          cl_msgbuf := m4, cl_net := d4, cl_inbox := []\<rparr>)"
      "\<exists>r. cmsg m4 (c_nid conf) r" "ead_inv d4" "state d4 = 10" "crypt d4 = crypt (cl_net st3)" "quiet (cl_net st3) d4"
      using client_auth(2) [OF d3(1) ok f3(1) prep f3(3) key clientgetkey_fields [OF ck'] d3(2,3) agree(2)] unfolding ok'_def vf_def by blast
    define st4 where "st4 = st3\<lparr>cl_pw_md5 := h, cl_password := ?p, cl_tc := Some (fst vf), cl_skey := Some K,
      cl_crypt := ead_set_key (k_host cenv) K (cl_crypt st3), cl_msgbuf := m4, cl_net := d4, cl_inbox := []\<rparr>"
    have q4: "quiet (cl_net st) d4" using quiet_trans [OF q3] au(6) f3(2) by simp
    show ?thesis
    proof (cases ok')
      case False
      then have "fst (SHA1Final (c_host conf) (ts_oldckhash s')) = t_clientresponse tc'" using agree(3) by (auto simp: ok'_def vf_def)
      then show ?thesis unfolding steps weak au(1) st4_def [symmetric] using q4 False by (auto simp: quiet_def st4_def)
    next
      case True
      have f4: "ead_inv (cl_net st4)" "linked conf st4" "state (cl_net st4) = 10" "cl_net st4 = d4" "cl_prints st4 = cl_prints st"
        "cl_crypt st4 = ead_set_key (k_host cenv) K (cl_crypt st3)" "crypt (cl_net st4) = ead_set_key (c_host conf) K (crypt d2)"
        using au(2-5) f3 a(6) keys(2) by (simp_all add: st4_def linked_def)
      have p4: "paired K (crypt (cl_net st4)) (cl_crypt st4)" "paired K (cl_crypt st4) (crypt (cl_net st4))"
        unfolding f4(6,7) by (rule key_paired)+
      have iv: "unat (ead_tx_iv (cl_crypt st4)) + 128 < 2 ^ 32" "unat (ead_tx_iv (crypt (cl_net st4))) + 4 * length (e_rounds env) + 128 < 2 ^ 32"
        unfolding f4(6,7) using key_iv [of "k_host cenv" K "cl_crypt st3"] key_iv [of "c_host conf" K "crypt d2"] rounds(1) by simp_all
      obtain st5 es5 where sc: "send_command ?net cenv cmd st4 = Some (1, st5)" "events (cl_net st5) = events (cl_net st4) @ es5"
        "Exec cmd \<in> set es5" "cl_prints st5 = cl_prints st4 @ map Output (filter (\<lambda>x. x \<noteq> []) (outputs (e_rounds env)))"
        using client_command [OF f4(1) ok f4(2,3) p4 iv rounds(2) cmd denv] by blast
      obtain es where "events d4 = events (cl_net st) @ es" using q4 by (auto simp: quiet_def)
      then show ?thesis unfolding steps au(1) st4_def [symmetric] using sc f4(4,5) True
        by - (rule exI [of _ 0], rule exI [of _ st5], rule exI [of _ "es @ es5"], simp)
    qed
  qed
qed

section \<open>The program\<close>

lemma split_user: "58 \<notin> set user \<Longrightarrow> takeWhile (\<lambda>c. c \<noteq> 58) (user @ 58 # pw) = user \<and> dropWhile (\<lambda>c. c \<noteq> 58) (user @ 58 # pw) = 58 # pw"
  by (induction user) auto

lemma parse_session:
  assumes "strtoul 32 16 node = (unat nid, [])" and "58 \<notin> set user" and "length pw < 256"
  shows "parse_args [node, user @ 58 # pw, cmd] = Some (nid, Some user, pw, Some cmd)"
  using assms split_user [OF assms(2), of pw] by (simp add: parse_args_def MAXPARAMLEN_def)

lemma start_message: "poke (cl_msgbuf (client_start d)) 0 (be32 EAD_MAGIC) = Some (be32 EAD_MAGIC @ replicate 1496 0)"
  by (simp add: client_start_def poke_def MSGBUF_def)

text \<open>C1. The client program run against the daemon. The client is given the number of a node it can reach,
  a user, a password and a command; the network loses nothing. The daemon is in any reachable state;
  its password file lists the user with the MD5-crypt entry of the password, its lookup is defined, and
  it can create the child, whose output ends in time. If the daemon is instance 0, the client ends with
  status 0, the daemon has started the command, and the client has printed its output piece by piece;
  or the exchange is degenerate (one side refuses the other's number, or the proof is also the digest of
  the older form), and the client ends with status 1 without a command having been started. If the
  daemon is another instance, the client, whose messages name instance 0, always ends with status 1 and
  no command is started.\<close>

theorem ead_client_session:
  fixes conf :: ead_conf and d :: ead
  assumes reach: "(ead_step conf)\<^sup>*\<^sup>* ead_start d" and ok: "node_up conf hdr cenv" and name: "c_dev_name conf \<noteq> []"
    and cenv: "k_socket cenv" "k_bind cenv" "ready (k_raw cenv)" "length (m_buffer (k_ctx cenv)) = 64" "length (m_buffer (k_ctx1 cenv)) = 64"
    and node: "strtoul 32 16 node = (unat (c_nid conf), [])" and user: "is_cstr user" "58 \<notin> set user" "length user \<le> 31"
    and pw: "pw \<noteq> []" "length pw < 256" and dr: "daemon_ready conf env user pw sp d" and cmd: "is_cstr cmd" "length cmd < 1024"
  shows "\<exists>r st es. client_main (daemon_net conf env hdr) cenv [node, user @ 58 # pw, cmd] d = Some (r, st) \<and> events (cl_net st) = events d @ es
    \<and> (if c_inst conf = 0 then
         r = 0 \<and> Exec cmd \<in> set es \<and> cl_prints st = map Output (filter (\<lambda>x. x \<noteq> []) (outputs (e_rounds env)))
         \<or> r = 1 \<and> (\<forall>c. Exec c \<notin> set es) \<and> weak_exchange conf env cenv user (md5_entry pw sp)
       else r = 1 \<and> (\<forall>c. Exec c \<notin> set es))"
proof -
  have inv: "ead_inv d" by (rule steps_inv [OF reach])
  have nid: "c_nid conf \<noteq> 0xffff" using ok by (simp add: node_up_def)
  let ?b = "chead 0 0 (c_nid conf) [0, 0, 0, 0] @ replicate 1480 0"
  have b: "poke (be32 EAD_MAGIC @ replicate 1496 0) 12 (be16 (c_nid conf)) = Some ?b"
  proof -
    have z: "replicate 8 (0 :: u8) = be32 0 @ be32 0" "replicate 6 (0 :: u8) = be16 0 @ [0, 0, 0, 0]"
      by (simp_all add: be32_def be16_def numeral_eq_Suc)
    have "replicate 1486 (0 :: u8) = replicate 6 0 @ replicate 1480 0" by (simp add: replicate_add [symmetric])
    then show ?thesis by (simp add: poke_def chead_def z)
  qed
  let ?st = "(client_start d)\<lparr>cl_msgbuf := ?b, cl_nid := c_nid conf, cl_username := user, cl_password := pw\<rparr>"
  have f: "cl_net ?st = d" "cl_prints ?st = []" "cl_inbox ?st = []" by (simp_all add: client_start_def)
  have l: "linked conf ?st" by (rule linkedI [where ip = "[0, 0, 0, 0]" and r = "replicate 1480 0"]) (simp_all add: f(3))
  obtain m bb es0 where p: "send_ping (daemon_net conf env hdr) cenv ?st = Some (1, ?st\<lparr>cl_msgbuf := m, cl_auth_type := EAD_AUTH_MD5, cl_sid := 0,
      cl_net := (cl_net ?st)\<lparr>pktbuf := bb, events := events (cl_net ?st) @ es0\<rparr>\<rparr>)"
    "\<exists>r. cmsg m (c_nid conf) r" "length bb = PCAP_MRU" "\<forall>c. Exec c \<notin> set es0"
    using client_ping [OF _ ok l name, of env] inv f(1) by auto
  let ?d = "d\<lparr>pktbuf := bb, events := events d @ es0\<rparr>"
  define st1 where "st1 = ?st\<lparr>cl_msgbuf := m, cl_auth_type := EAD_AUTH_MD5, cl_sid := 0,
      cl_net := (cl_net ?st)\<lparr>pktbuf := bb, events := events (cl_net ?st) @ es0\<rparr>\<rparr>"
  have n1: "cl_net st1 = ?d" "cl_prints st1 = []" using f by (simp_all add: st1_def)
  have i1: "ead_inv (cl_net st1)" using inv p(3) unfolding n1 by (simp add: inv_defs)
  have c1: "client_ready conf cenv user pw st1"
    using p(2) cenv f(3) by (simp add: client_ready_def st1_def linked_def client_start_def MAXPARAMLEN_def)
  have d1: "daemon_ready conf env user pw sp (cl_net st1)" using dr unfolding n1 by (simp add: daemon_ready_def lookup_ok_def)
  have "client_main (daemon_net conf env hdr) cenv [node, user @ 58 # pw, cmd] d = login (daemon_net conf env hdr) cenv (Some cmd) st1"
    using parse_session [OF node user(2) pw(2), of cmd] start_message [of d] b cenv(1,2) p(1) nid pw(1)
    unfolding client_main_def st1_def [symmetric] by (simp add: Let_def)
  moreover obtain r st' es where "login (daemon_net conf env hdr) cenv (Some cmd) st1 = Some (r, st')" "events (cl_net st') = events (cl_net st1) @ es"
    "if c_inst conf = 0 then r = 0 \<and> Exec cmd \<in> set es \<and> cl_prints st' = cl_prints st1 @ map Output (filter (\<lambda>x. x \<noteq> []) (outputs (e_rounds env)))
       \<or> r = 1 \<and> (\<forall>c. Exec c \<notin> set es) \<and> weak_exchange conf env cenv user (md5_entry pw sp)
     else r = 1 \<and> (\<forall>c. Exec c \<notin> set es)"
  proof (cases "c_inst conf = 0")
    case True
    then have "node_ok conf hdr cenv" using ok by (simp add: node_ok_def)
    from login_runs [OF i1 this c1 d1 user(1,3) pw(2) cmd] True that show thesis by auto
  next
    case False
    have "linked conf st1" "length (cl_username st1) \<le> 31" using c1 user(3) by (simp_all add: client_ready_def)
    from client_user_ignored [OF ok False this, of env] obtain b where
      "send_username (daemon_net conf env hdr) cenv st1 = Some (0, st1\<lparr>cl_msgbuf := b\<rparr>)" by blast
    then have "login (daemon_net conf env hdr) cenv (Some cmd) st1 = Some (1, st1\<lparr>cl_msgbuf := b\<rparr>)" by (simp add: login_def)
    with that [of 1 "st1\<lparr>cl_msgbuf := b\<rparr>" "[]"] False show thesis by simp
  qed
  ultimately show ?thesis using p(4) n1
    by - (rule exI [of _ r], rule exI [of _ st'], rule exI [of _ "es0 @ es"], cases "c_inst conf = 0", auto)
qed

section \<open>A concrete session\<close>

text \<open>A line of the password file.\<close>

lemma md5_entry_chars: "is_cstr sp \<Longrightarrow> 10 \<notin> set sp \<Longrightarrow> is_cstr (md5_entry pw sp) \<and> 10 \<notin> set (md5_entry pw sp) \<and> length (md5_entry pw sp) = 26 + length sp"
proof -
  have "0 \<notin> set ascii64" "10 \<notin> set ascii64" by (simp_all add: ascii64_def str_def)
  then show "is_cstr sp \<Longrightarrow> 10 \<notin> set sp \<Longrightarrow> is_cstr (md5_entry pw sp) \<and> 10 \<notin> set (md5_entry pw sp) \<and> length (md5_entry pw sp) = 26 + length sp"
    using md5_text_chars [of "md5_crypt_hash pw sp"] by (auto simp: md5_entry_def is_cstr_def str_def)
qed

lemma strchr_from_at: "drop i s = a @ c # b \<Longrightarrow> c \<notin> set a \<Longrightarrow> strchr_from s i c = Some (i + length a)"
proof -
  assume d: "drop i s = a @ c # b" "c \<notin> set a"
  have "takeWhile (\<lambda>x. x \<noteq> c) (a @ c # b) = a" using d(2) by (induction a) auto
  moreover have "i + length a < length s" using arg_cong [OF d(1), of length] by simp
  ultimately show ?thesis unfolding strchr_from_def d(1) by simp
qed

lemma passwd_line_entry:
  assumes sp: "36 \<notin> set sp" "length sp \<le> 8"
  shows "\<exists>salt. passwd_line user old (user @ 58 # md5_entry pw sp @ 58 # rest) = (Some (md5_entry pw sp), salt)"
proof -
  let ?e = "md5_entry pw sp" and ?h = "md5_text (md5_crypt_hash pw sp)"
  let ?s = "?e @ 58 # rest"
  have "58 \<notin> set ascii64" by (simp add: ascii64_def str_def)
  then have h: "58 \<notin> set ?h" "length ?h = 22" using md5_text_chars [of "md5_crypt_hash pw sp"] by auto
  have d3: "drop 3 ?s = sp @ 36 # ?h @ 58 # rest" by (simp add: md5_entry_def str_def)
  have k: "strchr_from ?s 3 36 = Some (3 + length sp)" by (rule strchr_from_at [OF d3 sp(1)])
  have "drop (3 + length sp) ?s = drop (length sp) (drop 3 ?s)" by (simp only: drop_drop add.commute)
  also have "\<dots> = (36 # ?h) @ 58 # rest" unfolding d3 by simp
  finally have "strchr_from ?s (3 + length sp) 58 = Some (3 + length sp + length (36 # ?h))" by (rule strchr_from_at) (use h in simp)
  then have m: "strchr_from ?s (3 + length sp) 58 = Some (length ?e)" using h by (simp add: md5_entry_def)
  have t: "take 3 ?s = [36, 49, 36]" by (simp add: md5_entry_def str_def)
  have le: "\<not> MAXSALTLEN \<le> 3 + length sp" "\<not> MAXPARAMLEN \<le> length ?e" "take (length ?e) ?s = ?e"
    using sp(2) h by (simp_all add: MAXSALTLEN_def MAXPARAMLEN_def md5_entry_def)
  have u: "take (length user) (user @ 58 # ?s) = user" "take 1 (drop (length user) (user @ 58 # ?s)) = [58]"
    "drop (length user + 1) (user @ 58 # ?s) = ?s" by simp_all
  show ?thesis unfolding passwd_line_def Let_def u t k m option.case if_not_P [OF le(1)] if_not_P [OF le(2)] le(3) by simp
qed

lemma listed_entry:
  assumes e: "e_passwd env = Some (user @ 58 # md5_entry pw sp @ 58 # rest)" and user: "is_cstr user" "10 \<notin> set user" "length user \<le> 31"
    and sp: "is_cstr sp" "10 \<notin> set sp" "36 \<notin> set sp" "length sp \<le> 8" and rest: "is_cstr rest" "10 \<notin> set rest" "length rest < 900"
  shows "\<exists>salt. listed env user old (md5_entry pw sp) salt"
proof -
  let ?l = "user @ 58 # md5_entry pw sp @ 58 # rest"
  note c = md5_entry_chars [OF sp(1,2), of pw]
  have "fgets 1023 ?l = ?l" using c user rest sp(4) by (intro fgets_line) auto
  moreover have "cstr ?l = ?l" using c user rest by (auto simp: cstr_def is_cstr_def takeWhile_eq_all_conv)
  moreover obtain salt where "passwd_line user old ?l = (Some (md5_entry pw sp), salt)" using passwd_line_entry [OF sp(3,4)] by blast
  ultimately have "passwd_loop user old ?l = (Some (md5_entry pw sp), salt)"
    unfolding passwd_loop.simps [of _ _ ?l] Let_def by simp
  then show ?thesis using e by (auto simp: listed_def)
qed

definition env1 :: ead_env where
  "env1 = \<lparr>e_raw = raw0, e_passwd = Some (str ''root'' @ 58 # md5_entry (str ''pw'') (str ''abc'') @ 58 # str ''0''), e_dig = replicate 20 1,
     e_rnd = replicate 32 7, e_pipe = True, e_fork = True,
     e_rounds = [\<lparr>r_out = str ''ok'', r_pending = True, r_time = 0, r_alive = True\<rparr>]\<rparr>"

definition cenv1 :: client_env where
  "cenv1 = (let c = \<lparr>m_state = (0, 0, 0, 0), m_count0 = 0, m_count1 = 0, m_buffer = replicate 64 0\<rparr>
     in \<lparr>k_host = LE, k_raw = raw0, k_rnd = replicate 32 9, k_ctx = c, k_ctx1 = c, k_serverip = [192, 168, 1, 1], k_socket = True, k_bind = True\<rparr>)"

lemma ead_client_session_witness:
  "\<exists>r st es. client_main (daemon_net conf0 env1 hdr0) cenv1 [str ''1'', str ''root:pw'', str ''ls''] ead_start = Some (r, st)
    \<and> events (cl_net st) = es
    \<and> (r = 0 \<and> Exec (str ''ls'') \<in> set es \<and> cl_prints st = [Output (str ''ok'')]
       \<or> r = 1 \<and> (\<forall>c. Exec c \<notin> set es) \<and> weak_exchange conf0 env1 cenv1 (str ''root'') (md5_entry (str ''pw'') (str ''abc'')))"
proof -
  have c: "k_socket cenv1" "k_bind cenv1" "ready (k_raw cenv1)" "length (m_buffer (k_ctx cenv1)) = 64" "length (m_buffer (k_ctx1 cenv1)) = 64"
    "length (k_serverip cenv1) = 4" using ready_raw0 by (simp_all add: cenv1_def Let_def)
  have ok: "node_up conf0 hdr0 cenv1" using hdr0 c(6) by (simp add: node_up_def conf0_def)
  have l: "\<exists>salt. listed env1 (str ''root'') (pw_saltbuf ead_start) (md5_entry (str ''pw'') (str ''abc'')) salt"
    by (rule listed_entry [where rest = "str ''0''"]) (simp_all add: env1_def str_def)
  have dig: "lookup_ok conf0 env1 ead_start" using dig0 by (simp add: lookup_ok_def env0_def env1_def)
  have d: "daemon_ready conf0 env1 (str ''root'') (str ''pw'') (str ''abc'') ead_start"
    using l dig ready_raw0 unfolding daemon_ready_def by (simp add: env1_def str_def)
  have n: "strtoul 32 16 (str ''1'') = (unat (c_nid conf0), [])"
    by (simp add: strtoul_def scan_prefix_def isspace_def is_digit_def digit_val_def digits_value_def str_def conf0_def Let_def)
  have a: "str ''root:pw'' = str ''root'' @ 58 # str ''pw''" by (simp add: str_def)
  have o: "map Output (filter (\<lambda>x. x \<noteq> []) (outputs (e_rounds env1))) = [Output (str ''ok'')]" "events ead_start = []"
    by (simp_all add: env1_def str_def ead_start_def)
  show ?thesis
    using ead_client_session [OF rtranclp.rtrancl_refl ok _ c(1-5) n _ _ _ _ _ d, of "str ''ls''"] unfolding a o
    by (simp add: conf0_def str_def)
qed

end
