(* ===== verification/Ead_Login.thy ===== *)
theory Ead_Login
  imports Ead_Client_Session
begin

text \<open>
  A login frame by frame, on any instance of the daemon and from any of its states: the frames are what
  the functions of the client make of the password and of the daemon's answers.
\<close>

section \<open>The frames\<close>

definition inst_field :: "ead_conf \<Rightarrow> u16" where
  "inst_field conf = push_bit 12 (of_nat (c_inst conf))"

definition login_frame :: "ead_conf \<Rightarrow> bytes \<Rightarrow> u32 \<Rightarrow> bytes \<Rightarrow> bytes" where
  "login_frame conf hdr ty body = hdr @ message ty 0xffff (inst_field conf) [0, 0, 0, 0] body @ [0]"

text \<open>The client's object after its public value, and what it makes of the daemon's.\<close>

definition client_public :: "client_env \<Rightarrow> bytes \<Rightarrow> t_confent \<Rightarrow> t_client" where
  "client_public cenv user t = t_clientgenexp (k_host cenv) (k_rnd cenv) (opened_client cenv user t)"

definition client_key :: "client_env \<Rightarrow> bytes \<Rightarrow> bytes \<Rightarrow> t_confent \<Rightarrow> bytes \<Rightarrow> t_client \<times> bytes option" where
  "client_key cenv user p t bs =
     t_clientgetkey (k_host cenv) (k_raw cenv) bs (t_clientpasswd (k_host cenv) (k_raw cenv) p (client_public cenv user t))"

text \<open>The random numbers with which one of the sides refuses the other's number: \<open>u\<close> or \<open>B\<close> is zero, or
  the base of the secret is 1 or -1.\<close>

definition degenerate :: "client_env \<Rightarrow> bytes \<Rightarrow> bytes \<Rightarrow> t_confent \<Rightarrow> bytes \<Rightarrow> bool" where
  "degenerate cenv user p t bs \<longleftrightarrow>
     (let n = BigIntegerFromBytes (modulus t);
          x = BigIntegerFromBytes (password_digest (k_host cenv) (k_raw cenv) [] user p);
          a = BigIntegerFromBytes (tc_a (client_public cenv user t));
          u = scramble (k_host cenv) (k_raw cenv) bs
      in u = 0 \<or> n dvd BigIntegerFromBytes bs \<or> 2 ^ (a + unat u * x) mod n \<in> {1, n - 1})"

section \<open>Both sides derive a key\<close>

lemma clientopen_group: "t_clientopen e raw pre u n g s = Some (Some tc) \<Longrightarrow> tc_n tc = n \<and> tc_g tc = g"
  by (auto simp: t_clientopen_def Let_def split: if_splits)

lemma server_derives:
  assumes n: "odd n" "4 < n" "BigIntegerFromBytes (ts_n s) = n" and v: "BigIntegerFromBytes (ts_v s) = 2 ^ x mod n"
    and A: "BigIntegerFromBytes av = 2 ^ a mod n"
    and strong: "2 ^ (a + unat (scramble e raw (ts_B s)) * x) mod n \<notin> {1, n - 1}"
  shows "\<exists>s' K. t_servergetkey e raw av s = (s', Some K)"
proof -
  let ?u = "unat (scramble e raw (ts_B s))"
  define w where "w = 2 ^ (a + ?u * x) mod n"
  have "(2 ^ x mod n) ^ ?u mod n * (2 ^ a mod n) mod n = (2 ^ x) ^ ?u * 2 ^ a mod n" by (simp add: mod_simps)
  also have "(2 :: nat) ^ (a + ?u * x) = (2 ^ x) ^ ?u * 2 ^ a" by (simp add: power_add power_mult [symmetric] mult.commute)
  then have "(2 ^ x) ^ ?u * 2 ^ a mod n = w" by (simp add: w_def)
  finally have res: "(2 ^ x mod n) ^ ?u mod n * (2 ^ a mod n) mod n = w" .
  have "coprime ((2 :: nat) ^ (a + ?u * x)) n" using n(1) by simp
  then have "coprime w n" unfolding w_def using n(2) by (simp add: coprime_mod_left_iff del: coprime_power_left_iff)
  then have "w \<noteq> 0" using n(2) by (intro notI) simp
  moreover have "w \<noteq> 1" "w \<noteq> n - 1" using strong by (simp_all add: w_def)
  ultimately have "\<not> w \<le> 1" "w + 1 \<noteq> n" using n(2) by linarith+
  then show ?thesis
    by (simp add: t_servergetkey_def Let_def n(3) v A BigIntegerModExpInt_def BigIntegerModMul_def BigIntegerAdd_def res)
qed

lemma public_value_bound: "w < n \<Longrightarrow> v < n \<Longrightarrow> (if w + v > n then w + v - n else w + v) \<le> (n :: nat)"
  by (cases "w + v > n") (simp_all add: le_diff_conv)

lemma keys_derived:
  assumes raw: "ready (e_raw env)" "ready (k_raw cenv)" and t: "gettcid tpe_index = Some t" "t \<in> set built_in" "64 \<le> length (modulus t)"
      "length (modulus t) \<le> 256" and user: "length user \<le> 31" and p: "length p < 2 ^ 31"
    and s: "s = t_servergenexp (c_host conf) (e_rnd env) (opened conf env user p t)"
    and strong: "\<not> degenerate cenv user p t (ts_B s)"
  obtains s' K tc' K' where "t_servergetkey (c_host conf) (e_raw env) (tc_A (client_public cenv user t)) s = (s', Some K)"
    "client_key cenv user p t (ts_B s) = (tc', Some K')"
proof -
  let ?n = "BigIntegerFromBytes (modulus t)" and ?tc = "client_public cenv user t"
  have n: "odd ?n" "4 < ?n" and g: "BigIntegerFromBytes (generator t) = 2" using odd_modulus t(1) by (metis option.inject)+
  define x where "x = BigIntegerFromBytes (password_digest (k_host cenv) (k_raw cenv) [] user p)"
  define a where "a = BigIntegerFromBytes (tc_a ?tc)"
  define b where "b = BigIntegerFromBytes (ts_b s)"
  have x: "BigIntegerFromBytes (password_digest (c_host conf) (e_raw env) [] user p) = x"
    unfolding x_def using raw user p by (subst password_digest_host [where ?e2.0 = "k_host cenv" and ?r2.0 = "k_raw cenv"]) simp_all
  have tc: "tc_n (opened_client cenv user t) = modulus t" "tc_g (opened_client cenv user t) = generator t"
    using clientopen_group [OF opened_client [OF t(2,3) user, of cenv]] by simp_all
  have A: "BigIntegerFromBytes (tc_A ?tc) = 2 ^ a mod ?n"
    by (simp add: a_def client_public_def t_clientgenexp_def Let_def tc g BigIntegerModExp_def)
  have sv: "BigIntegerFromBytes (ts_n s) = ?n" "BigIntegerFromBytes (ts_v s) = 2 ^ x mod ?n"
    by (simp_all add: s opened_def t_servergenexp_def t_serveropenraw_def Let_def BigIntegerModExp_def g x)
  have B: "BigIntegerFromBytes (ts_B s) = (let w = 2 ^ b mod ?n + 2 ^ x mod ?n in if w > ?n then w - ?n else w)"
    by (simp add: s b_def opened_def t_servergenexp_def t_serveropenraw_def Let_def BigIntegerModExp_def BigIntegerAdd_def
        BigIntegerSub_def g x)
  have "2 ^ b mod ?n < ?n" "2 ^ x mod ?n < ?n" using n(2) by simp_all
  from public_value_bound [OF this] have Bn: "BigIntegerFromBytes (ts_B s) \<le> ?n" unfolding B by (simp only: Let_def)
  have lB: "length (ts_B s) < 2 ^ 31"
  proof -
    obtain m where "ts_B s = BigIntegerToBytes m" by (auto simp: s t_servergenexp_def Let_def)
    moreover have "length (BigIntegerToBytes ?n) \<le> length (modulus t)"
      by (rule length_to_bytes) (rule from_bytes_less)
    ultimately show ?thesis using Bn t(4) length_to_bytes [of m "length (modulus t)"] from_bytes_less [of "modulus t"] by simp
  qed
  let ?u = "scramble (k_host cenv) (k_raw cenv) (ts_B s)"
  have u: "scramble (c_host conf) (e_raw env) (ts_B s) = ?u" using raw lB by (intro scramble_host)
  note d = strong [unfolded degenerate_def Let_def, folded x_def a_def]
  obtain s' K where sk: "t_servergetkey (c_host conf) (e_raw env) (tc_A ?tc) s = (s', Some K)"
    using server_derives [OF n sv A, of "c_host conf" "e_raw env"] d unfolding u by blast
  have nd: "\<not> ?n dvd BigIntegerFromBytes (ts_B s)" and "?u \<noteq> 0" using d by blast+
  moreover have "BigIntegerFromBytes (ts_B s) \<noteq> 0" using nd by (metis dvd_0_right)
  moreover have "BigIntegerFromBytes (ts_B s) \<noteq> ?n" using nd by (metis dvd_refl)
  moreover have "tc_n (t_clientpasswd (k_host cenv) (k_raw cenv) p ?tc) = modulus t"
    by (simp add: client_public_def t_clientpasswd_def t_clientgenexp_def Let_def tc)
  ultimately obtain tc' K' where "client_key cenv user p t (ts_B s) = (tc', Some K')"
    using client_derives [of "k_host cenv" "k_raw cenv" "ts_B s" "t_clientpasswd (k_host cenv) (k_raw cenv) p ?tc"] Bn
    unfolding client_key_def by auto
  with sk show thesis by (rule that)
qed

text \<open>So an exchange that fails has degenerate numbers, or a proof that is also one of the older form.\<close>

lemma weak_exchange_degenerate:
  assumes "weak_exchange conf env cenv user p" and "ready (e_raw env)" "ready (k_raw cenv)" and "length user \<le> 31" and "length p < 2 ^ 31"
  shows "\<exists>t s. gettcid tpe_index = Some t \<and> s = t_servergenexp (c_host conf) (e_rnd env) (opened conf env user p t)
    \<and> (degenerate cenv user p t (ts_B s)
       \<or> fst (SHA1Final (c_host conf) (ts_oldckhash (fst (t_servergetkey (c_host conf) (e_raw env) (tc_A (client_public cenv user t)) s))))
           = t_clientresponse (fst (client_key cenv user p t (ts_B s))))"
proof -
  obtain t where t: "gettcid tpe_index = Some t" "t_getpreparam 0 = Some t" "t \<in> set built_in" "64 \<le> length (modulus t)"
    "length (modulus t) \<le> 256" "length (generator t) < 256" "0 < BigIntegerFromBytes (modulus t)" by (rule group_of_client)
  define s where "s = t_servergenexp (c_host conf) (e_rnd env) (opened conf env user p t)"
  have "degenerate cenv user p t (ts_B s)
       \<or> fst (SHA1Final (c_host conf) (ts_oldckhash (fst (t_servergetkey (c_host conf) (e_raw env) (tc_A (client_public cenv user t)) s))))
           = t_clientresponse (fst (client_key cenv user p t (ts_B s)))"
  proof (cases "degenerate cenv user p t (ts_B s)")
    case False
    then obtain s' K tc' K' where k: "t_servergetkey (c_host conf) (e_raw env) (tc_A (client_public cenv user t)) s = (s', Some K)"
      "client_key cenv user p t (ts_B s) = (tc', Some K')"
      using keys_derived [OF assms(2,3) t(1,3,4,5) assms(4,5) s_def] by metis
    then have e: "exchange conf env cenv user p t = ((s', Some K), tc', Some K')"
      unfolding exchange_def Let_def client_public_def [symmetric] s_def [symmetric] client_key_def [symmetric] by simp
    show ?thesis using assms(1) unfolding weak_exchange_def t(1) option.case e by (simp add: k)
  qed simp
  then show ?thesis using t(1) s_def by blast
qed

section \<open>The login\<close>

text \<open>The client finds the entry of the password file from the password and the salt of the answer.\<close>

lemma client_entry:
  fixes cenv :: client_env
  assumes "take (4 + length sp) salt = str ''$1$'' @ sp @ [0]" and "is_cstr sp" "36 \<notin> set sp" "length sp \<le> 8" and "length pw < 256"
    and "length (m_buffer (k_ctx cenv)) = 64" "length (m_buffer (k_ctx1 cenv)) = 64"
  shows "\<exists>h. md5_crypt (k_ctx cenv) (k_ctx1 cenv) (replicate MD5_OUT_BUFSIZE 0) pw (take 31 salt @ [0]) = Some h
    \<and> cstr_at h 0 = Some (md5_entry pw sp)"
proof -
  let ?st = "(client_start ())\<lparr>cl_auth_type := EAD_AUTH_MD5, cl_password := pw, cl_pw_salt := take 31 salt @ [0]\<rparr>"
  obtain h where h: "prepare_client_password cenv ?st = Some (?st\<lparr>cl_pw_md5 := h, cl_password := md5_entry (cl_password ?st) sp\<rparr>)"
    using prepared [of ?st salt sp cenv] assms by (auto simp: client_start_def)
  then have "\<exists>h'. md5_crypt (k_ctx cenv) (k_ctx1 cenv) (replicate MD5_OUT_BUFSIZE 0) pw (take 31 salt @ [0]) = Some h'
    \<and> cstr_at h' 0 = Some (md5_entry pw sp)"
    by (auto simp: prepare_client_password_def client_start_def bind_eq_Some_conv)
  then show ?thesis .
qed

text \<open>C2. Every state of the daemon allows a login. Let the user be listed with the MD5-crypt entry of the
  password, the lookup be defined, and the system be able to create the child. Then, in any reachable
  state and on any of the sixteen instances, the daemon handles the frames of a client that knows the
  password: the user name; the request for the group, whose answer carries the salt from which the
  client makes the entry of its password; the client's public value, which the daemon answers with its
  own; and, unless the random numbers are degenerate, the client's response and a message with any
  command of at most 1024 bytes, encrypted under the key the client has derived, at which the daemon
  starts the command. What the client sends is computed from the password, its own random number and
  the two answers alone.\<close>

theorem ead_session_possible:
  assumes "(ead_step conf)\<^sup>*\<^sup>* ead_start st" and "length (c_ethmac conf) = 6" and "c_inst conf < 16" and "to_daemon hdr"
    and "is_cstr user" and "length user \<le> 31" and "length pw < 256"
    and "is_cstr sp" and "36 \<notin> set sp" and "length sp \<le> 8" and "listed env user (pw_saltbuf st) (md5_entry pw sp) salt"
    and "lookup_ok conf env st" and "ready (e_raw env)" and "e_pipe env" and "e_fork env"
    and "ready (k_raw cenv)" and "length (m_buffer (k_ctx cenv)) = 64" and "length (m_buffer (k_ctx1 cenv)) = 64"
    and "is_cstr cmd" and "length cmd \<le> 1024"
  shows "\<exists>t s1 s2 s3 old slt h p y bs tc k. gettcid tpe_index = Some t
    \<and> handle_packet conf env 94 (login_frame conf hdr 2 (user @ replicate (32 - length user) 0)) st = Some s1
    \<and> handle_packet conf env 62 (login_frame conf hdr 4 []) s1 = Some s2
    \<and> answered conf s1 s2 5 (inst_field conf) ([0, 0] @ old @ slt) \<and> length old = 32
    \<and> md5_crypt (k_ctx cenv) (k_ctx1 cenv) (replicate MD5_OUT_BUFSIZE 0) pw (take 31 slt @ [0]) = Some h \<and> cstr_at h 0 = Some p
    \<and> handle_packet conf env (of_nat (63 + length (tc_A (client_public cenv user t))))
        (login_frame conf hdr 6 (0 # tc_A (client_public cenv user t))) s2 = Some s3
    \<and> answered conf s2 s3 7 (inst_field conf) (y # bs)
    \<and> client_key cenv user p t bs = (tc, k)
    \<and> (degenerate cenv user p t bs
       \<or> (\<exists>key s4 c n c' s5 es. k = Some key
            \<and> handle_packet conf env 82 (login_frame conf hdr 8 (t_clientresponse tc)) s3 = Some s4
            \<and> ead_encrypt_message (ead_set_key (k_host cenv) key (crypt ead_start))
                (replicate 25 0 @ cmd_payload 10 cmd @ replicate 88 0) (length cmd + 4) = Some (c, of_nat (64 * n), c')
            \<and> handle_packet conf env (of_nat (62 + 64 * n)) (login_frame conf hdr 10 (take (64 * n) c)) s4 = Some s5
            \<and> events s5 = events s4 @ [Exec cmd] @ es))"
proof -
  let ?sid = "inst_field conf" and ?ip = "[0, 0, 0, 0] :: bytes" and ?p = "md5_entry pw sp"
  have inv: "ead_inv st" by (rule steps_inv [OF assms(1)])
  note mac = assms(2) and hdr = assms(4)
  have ip: "length ?ip = 4" by simp
  have node: "for_node conf 0xffff ?sid" unfolding inst_field_def by (rule inst_sid [OF assms(3)])
  obtain t where t: "gettcid tpe_index = Some t" "t_getpreparam 0 = Some t" "t \<in> set built_in" "64 \<le> length (modulus t)"
    "length (modulus t) \<le> 256" "length (generator t) < 256" "0 < BigIntegerFromBytes (modulus t)" by (rule group_of_client)
  have lp: "length ?p < 2 ^ 31" using assms(10) md5_text_chars(1) by (simp add: md5_entry_def)
  let ?ub = "user @ replicate (32 - length user) 0" and ?s0 = "opened conf env user ?p t"
  have ub: "length ?ub = 32" using assms(6) by simp
  obtain s1 where s1: "handle_packet conf env 94 (login_frame conf hdr 2 ?ub) st = Some s1"
    "state s1 = 4" "ts s1 = Some ?s0" "pw_saltbuf s1 = salt"
    using step_user [OF inv hdr ip mac node ub user_field [OF assms(5,6)] assms(11,12) t(1), of "[0]"]
    unfolding ub login_frame_def by auto
  have i1: "ead_inv s1" by (rule handle_packet_inv [OF inv s1(1)])
  let ?s = "t_servergenexp (c_host conf) (e_rnd env) ?s0"
  obtain s2 old where s2: "handle_packet conf env 62 (login_frame conf hdr 4 []) s1 = Some s2"
    "state s2 = 6" "ts s2 = Some ?s" "length old = 32" "answered conf s1 s2 5 ?sid ([0, 0] @ old @ salt)"
    using step_prime [OF i1 hdr ip mac node s1(2,3), of env "[0]"] unfolding s1(4) login_frame_def by auto
  have i2: "ead_inv s2" by (rule handle_packet_inv [OF i1 s2(1)])
  have "take (4 + length sp) salt = str ''$1$'' @ sp @ [0]"
    by (rule listed_salt [OF assms(11) _ assms(9), of "md5_text (md5_crypt_hash pw sp)"]) (simp add: md5_entry_def)
  then obtain h where h: "md5_crypt (k_ctx cenv) (k_ctx1 cenv) (replicate MD5_OUT_BUFSIZE 0) pw (take 31 salt @ [0]) = Some h"
    "cstr_at h 0 = Some ?p" using client_entry assms(7-10,17,18) by blast
  let ?tc = "client_public cenv user t"
  have lA: "length (tc_A ?tc) \<le> 257"
    using client_A_short [OF t(5,7,3,4) assms(6), of "k_host cenv" "k_rnd cenv" cenv] unfolding client_public_def by linarith
  obtain s' k where sk: "t_servergetkey (c_host conf) (e_raw env) (tc_A ?tc) ?s = (s', k)" by (meson surj_pair)
  obtain s3 y where s3: "handle_packet conf env (of_nat (62 + length (0 # tc_A ?tc))) (login_frame conf hdr 6 (0 # tc_A ?tc)) s2 = Some s3"
    "state s3 = (if k = None then 6 else 8)" "ts s3 = Some s'"
    "crypt s3 = (case k of None \<Rightarrow> crypt s2 | Some key \<Rightarrow> ead_set_key (c_host conf) key (crypt s2))"
    "answered conf s2 s3 7 ?sid (y # ts_B ?s)"
    using step_a [OF i2 hdr ip mac node s2(2,3) lA sk, of 0 "[0]"] unfolding login_frame_def by blast
  have i3: "ead_inv s3" by (rule handle_packet_inv [OF i2 s3(1)])
  have lf: "62 + length (0 # tc_A ?tc) = 63 + length (tc_A ?tc)" by simp
  obtain tc' k' where ck: "client_key cenv user ?p t (ts_B ?s) = (tc', k')" by (meson surj_pair)
  have "degenerate cenv user ?p t (ts_B ?s) \<or> (\<exists>key s4 c n c' s5 es. k' = Some key
            \<and> handle_packet conf env 82 (login_frame conf hdr 8 (t_clientresponse tc')) s3 = Some s4
            \<and> ead_encrypt_message (ead_set_key (k_host cenv) key (crypt ead_start))
                (replicate 25 0 @ cmd_payload 10 cmd @ replicate 88 0) (length cmd + 4) = Some (c, of_nat (64 * n), c')
            \<and> handle_packet conf env (of_nat (62 + 64 * n)) (login_frame conf hdr 10 (take (64 * n) c)) s4 = Some s5
            \<and> events s5 = events s4 @ [Exec cmd] @ es)"
  proof (cases "degenerate cenv user ?p t (ts_B ?s)")
    case False
    then obtain K K' where K: "k = Some K" "k' = Some K'"
      using keys_derived [OF assms(13,16) t(1,3,4,5) assms(6) lp refl, of conf] sk ck by (metis prod.inject)
    note agree = exchange_agrees [OF assms(13,16) t(3-6) assms(6,10) client_public_def sk [unfolded K(1)]
        ck [unfolded K(2) client_key_def]]
    obtain s'' where KK: "K' = K" and v: "t_serververify (c_host conf) (t_clientresponse tc') s' = (s'', True)" using agree by blast
    have la: "length (t_clientresponse tc') = 20"
      by (rule clientgetkey_fields) (rule ck [unfolded K(2) client_key_def])
    have s38: "state s3 = 8" using s3(2) K(1) by simp
    obtain s4 where s4: "handle_packet conf env 82 (login_frame conf hdr 8 (t_clientresponse tc')) s3 = Some s4"
      "state s4 = 10" "crypt s4 = crypt s3"
      using step_auth [OF i3 hdr ip mac node s38 s3(3) la v, of env "[0]"] unfolding la login_frame_def by auto
    have i4: "ead_inv s4" by (rule handle_packet_inv [OF i3 s4(1)])
    let ?c0 = "ead_set_key (k_host cenv) K (crypt ead_start)"
    let ?data = "replicate 25 0 @ cmd_payload 10 cmd @ replicate 88 0"
    have c4: "crypt s4 = ead_set_key (c_host conf) K (crypt s2)" using s4(3) s3(4) K(1) by simp
    have keys: "aes_enc_ctx ?c0 = rijndaelKeySetupEnc K" "aes_dec_ctx (crypt s4) = rijndaelKeySetupDec K" unfolding c4 by simp_all
    have iv: "ead_rx_iv (crypt s4) < fst (ead_get_tx_iv ?c0)" "fst (ead_get_tx_iv ?c0) \<le> ead_rx_iv (crypt s4) + EAD_MAX_IV_INCR"
      unfolding c4 by (rule first_iv)+
    have d: "take (length cmd + 4) (drop 25 ?data) = cmd_payload 10 cmd" "length cmd + 92 \<le> length ?data" "length ?data < 2 ^ 31"
      using assms(20) by simp_all
    obtain c n c' s5 where "ead_encrypt_message ?c0 ?data (length cmd + 4) = Some (c, of_nat (64 * n), c')"
      "handle_packet conf env (of_nat (62 + 64 * n)) (login_frame conf hdr 10 (take (64 * n) c)) s4 = Some s5"
      "\<exists>es. events s5 = events s4 @ [Exec cmd] @ es"
      using step_cmd [OF i4 hdr ip mac node s4(2) keys iv d assms(19,20,14,15), of "[0]"] unfolding login_frame_def by blast
    then show ?thesis using s4(1) K(2) KK by blast
  qed simp
  then show ?thesis using t(1) s1(1) s2(1,4,5) h s3(1) [unfolded lf] s3(5) ck by blast
qed

text \<open>Instance 3 of the node, the password file and the client of the concrete session.\<close>

lemma ead_session_possible_witness:
  "\<exists>t s1 s2 s3 old slt h p y bs tc k. gettcid tpe_index = Some t
    \<and> handle_packet (conf0\<lparr>c_inst := 3\<rparr>) env1 94 (login_frame (conf0\<lparr>c_inst := 3\<rparr>) hdr0 2 (str ''root'' @ replicate 28 0)) ead_start = Some s1
    \<and> handle_packet (conf0\<lparr>c_inst := 3\<rparr>) env1 62 (login_frame (conf0\<lparr>c_inst := 3\<rparr>) hdr0 4 []) s1 = Some s2
    \<and> answered (conf0\<lparr>c_inst := 3\<rparr>) s1 s2 5 (inst_field (conf0\<lparr>c_inst := 3\<rparr>)) ([0, 0] @ old @ slt) \<and> length old = 32
    \<and> md5_crypt (k_ctx cenv1) (k_ctx1 cenv1) (replicate MD5_OUT_BUFSIZE 0) (str ''pw'') (take 31 slt @ [0]) = Some h \<and> cstr_at h 0 = Some p
    \<and> handle_packet (conf0\<lparr>c_inst := 3\<rparr>) env1 (of_nat (63 + length (tc_A (client_public cenv1 (str ''root'') t))))
        (login_frame (conf0\<lparr>c_inst := 3\<rparr>) hdr0 6 (0 # tc_A (client_public cenv1 (str ''root'') t))) s2 = Some s3
    \<and> answered (conf0\<lparr>c_inst := 3\<rparr>) s2 s3 7 (inst_field (conf0\<lparr>c_inst := 3\<rparr>)) (y # bs)
    \<and> client_key cenv1 (str ''root'') p t bs = (tc, k)
    \<and> (degenerate cenv1 (str ''root'') p t bs
       \<or> (\<exists>key s4 c n c' s5 es. k = Some key
            \<and> handle_packet (conf0\<lparr>c_inst := 3\<rparr>) env1 82 (login_frame (conf0\<lparr>c_inst := 3\<rparr>) hdr0 8 (t_clientresponse tc)) s3 = Some s4
            \<and> ead_encrypt_message (ead_set_key (k_host cenv1) key (crypt ead_start))
                (replicate 25 0 @ cmd_payload 10 (str ''reboot'') @ replicate 88 0) 10 = Some (c, of_nat (64 * n), c')
            \<and> handle_packet (conf0\<lparr>c_inst := 3\<rparr>) env1 (of_nat (62 + 64 * n)) (login_frame (conf0\<lparr>c_inst := 3\<rparr>) hdr0 10 (take (64 * n) c)) s4 = Some s5
            \<and> events s5 = events s4 @ [Exec (str ''reboot'')] @ es))"
proof -
  let ?conf = "conf0\<lparr>c_inst := 3\<rparr>"
  have c: "ready (k_raw cenv1)" "length (m_buffer (k_ctx cenv1)) = 64" "length (m_buffer (k_ctx1 cenv1)) = 64"
    using ready_raw0 by (simp_all add: cenv1_def Let_def)
  have e: "ready (e_raw env1)" "e_pipe env1" "e_fork env1" using ready_raw0 by (simp_all add: env1_def)
  obtain salt where l: "listed env1 (str ''root'') (pw_saltbuf ead_start) (md5_entry (str ''pw'') (str ''abc'')) salt"
    using listed_entry [of env1 "str ''root''" "str ''pw''" "str ''abc''" "str ''0''" "pw_saltbuf ead_start"]
    by (auto simp: env1_def str_def)
  have dig: "lookup_ok ?conf env1 ead_start" using dig0 by (simp add: lookup_ok_def env0_def env1_def)
  have n: "length (str ''root'') = 4" "length (str ''reboot'') + 4 = 10" "(32 :: nat) - 4 = 28" by simp_all
  have mac: "length (c_ethmac ?conf) = 6" "c_inst ?conf < 16" by (simp_all add: conf0_def)
  have s: "is_cstr (str ''root'')" "length (str ''root'') \<le> 31" "length (str ''pw'') < 256" "is_cstr (str ''abc'')" "36 \<notin> set (str ''abc'')"
    "length (str ''abc'') \<le> 8" "is_cstr (str ''reboot'')" "length (str ''reboot'') \<le> 1024" by (simp_all add: str_def)
  show ?thesis
    using ead_session_possible [OF rtranclp.rtrancl_refl mac hdr0 s(1-6) l dig e c s(7,8)] unfolding n .
qed

end
