(* ===== verification/Spec2Isabelle.thy ===== *)
theory Spec2Isabelle
  imports Prelude Contracts Libc Crc Nvram_Cli_Laws Owipcalc_Laws Template_Laws Buffalo_Laws Otrx_Laws Aes_Laws Sha1 Ead_Crypt_Laws Tsha_Laws Srp_Laws T_Conv_Laws Ead_Session Lmo_Laws Md5_Laws Ead_Client_Session Ead_Login
begin

text \<open>
  The host and router utilities of the firmware tree: a verification library for the C programs of
  the tree that are its own (the rest of it is vendored code, kernel drivers and scripts).

  \<^bold>\<open>The programs.\<close> They are of four kinds. (1) Stores and containers: the NVRAM variable store
  (\<open>package/utils/nvram/src\<close>), the TRX tool (\<open>package/utils/otrx/src/otrx.c\<close>) and the Buffalo image
  library (\<open>tools/firmware-utils/src/buffalo-lib.c\<close>) keep data under checksums. (2) Text tools of the
  web interface: the template filters (\<open>custom_feeds/teltonika_luci/libs/web/src/template_utils.c\<close>) and
  the translation catalogues (\<open>libs/lmo/src\<close>). (3) The IP calculator
  (\<open>package/network/utils/owipcalc/src/owipcalc.c\<close>). (4) The emergency access daemon and its client
  (\<open>package/network/services/ead/src\<close>): over raw frames a client proves a password of \<open>/etc/passwd\<close>
  with SRP, both sides get a session key, and the daemon runs the commands of encrypted messages. Of
  these, \<open>ead.c\<close> and \<open>ead-client.c\<close> call the message encryption \<open>ead-crypt.c\<close>, which calls \<open>aes.c\<close> and
  \<open>sha1.c\<close>; both call \<open>tinysrp\<close> (\<open>t_server.c\<close>, \<open>t_client.c\<close>, \<open>t_conv.c\<close>, \<open>t_sha.c\<close>); the client calls
  \<open>pw_encrypt_md5.c\<close>.

  \<^bold>\<open>Conventions\<close> (\<open>Prelude\<close>). Machine integers are words of their width, buffers are byte lists
  read and written by \<open>peek\<close>, \<open>poke\<close> and \<open>idx\<close>, which have no value outside the buffer. So the value
  \<^term>\<open>None\<close> of a model of a C function is an access outside a buffer or through NULL (or a loop that
  does not end), never an error the program reports: those are values. Byte order of the host is an
  argument where the code depends on it. \<open>Libc\<close> models the functions of the C library that are used;
  \<open>Crc\<close> and \<open>Word_Bytes\<close> hold facts on CRC tables and on words as bytes.

  \<^bold>\<open>Interfaces.\<close> \<open>Contracts\<close> and \<open>Block_Hash\<close> state them as locales, each interpreted on the code's model:
  \<^item> \<open>stream_sum\<close>, extended by \<open>tabled_sum\<close> (a running checksum, by table or bit by bit): \<open>crc8\<close> in \<open>Nvram\<close>,
    \<open>bcrc\<close> and \<open>bsum\<close> in \<open>Buffalo_Laws\<close>, \<open>trxcrc\<close> in \<open>Otrx_Laws\<close>
  \<^item> \<open>kv_store\<close> (what a lookup returns after an update that succeeded or failed): \<open>nv\<close> in \<open>Nvram\<close>
  \<^item> \<open>stream_cipher\<close>: \<open>bcrypt\<close> in \<open>Buffalo_Laws\<close>
  \<^item> \<open>machine\<close> (initial states, steps, an invariant; reachable states): \<open>ead\<close> in \<open>Ead_Laws\<close>
  \<^item> \<open>block_hash\<close> (a context with a bit counter and a buffer of 64 bytes): \<open>sha\<close> in \<open>Tsha_Laws\<close>, \<open>md5\<close> in
    \<open>Md5_Laws\<close>

  \<^bold>\<open>Theories.\<close>
  \<^item> \<open>Nvram\<close> (\<open>nvram.c\<close>, \<open>nvram.h\<close>, \<open>crc.c\<close>): hash table with its list of dead entries, get, set, unset, getall;
    the invariant \<open>nv_inv\<close> and that every operation keeps it; \<open>Nvram_Commit\<close>: the image that \<open>nvram_commit\<close> writes and
    \<open>_nvram_rehash\<close> reads; \<open>Nvram_Props\<close>: refinement to a finite map, round trips of commit, rehash, open and
    staging, the checksum, and the image that fills its space and cannot be opened again.
    \<open>Nvram_Cli\<close>, \<open>Nvram_Cli_Laws\<close>: the command line tool (\<open>cli.c\<close>), and that a later run reads what a run has set.
  \<^item> \<open>Owipcalc\<close>, \<open>Owipcalc_Laws\<close> (\<open>owipcalc.c\<close>): all operations on IPv4 and IPv6 prefixes, exact on the numbers the
    addresses stand for; network, broadcast, next and previous network; the exit status of the program, also when an
    allocation fails (the answers of \<open>malloc\<close> are an argument, and \<open>Quit\<close> is the \<open>exit\<close> of \<open>cidr_clone\<close>).
  \<^item> \<open>Template_Utils\<close>, \<open>Template_Laws\<close>: the growing output buffer and the two filters; what they write is a
    sequence of encoded code points up to 0x1FFFFF (what the code lets pass, surrogates included where it does), unchanged
    where it already was, and free of unescaped markup.
  \<^item> \<open>Lmo\<close>, \<open>Lmo_Laws\<close> (\<open>po2lmo.c\<close>, \<open>lmo_hash.c\<close>, \<open>lmo_core.c\<close>): converter and lookup; a catalogue answers with the
    texts of the file it was made of, and the converter ends on every input.
  \<^item> \<open>Buffalo\<close>, \<open>Buffalo_Laws\<close>; \<open>Otrx\<close>, \<open>Otrx_Laws\<close>: the containers, their checksums, and the way from creation
    to extraction.
  \<^item> \<open>Aes\<close>, \<open>Aes_Laws\<close> (\<open>aes.c\<close>): decryption undoes encryption for every key, from what the tables contain.
    \<open>Sha1\<close>, \<open>Sha1_Eval\<close> (\<open>sha1.c\<close>), \<open>Tsha\<close>, \<open>Tsha_Laws\<close> (\<open>t_sha.c\<close>), \<open>Md5\<close>, \<open>Md5_Laws\<close> (\<open>pw_encrypt_md5.c\<close>): the hash functions are those of FIPS 180-1
    and RFC 1321, however the message is cut into pieces of at most \<open>2^32 - 64\<close> bytes; the update functions have no value
    where the 32-bit sums of the code would let them leave the block buffer; \<open>md5_crypt\<close>.
  \<^item> \<open>Srp\<close>, \<open>Srp_Laws\<close> (\<open>t_math.c\<close>, \<open>t_misc.c\<close>, \<open>t_server.c\<close>, \<open>t_client.c\<close>): both sides of the exchange agree; \<open>T_Conv\<close>,
    \<open>T_Conv_Laws\<close> (\<open>t_conv.c\<close>, \<open>t_getconf.c\<close>): number texts and the built-in groups.
  \<^item> \<open>Ead_Crypt\<close>, \<open>Ead_Crypt_Laws\<close> (\<open>ead-crypt.c\<close>): round trip, no replay, bounds for every length, negative ones included.
  \<^item> \<open>Ead\<close> (\<open>ead.c\<close>, \<open>ead.h\<close>): from a captured frame to the frames sent and the commands started. \<open>Ead_Inv\<close>: the
    invariant; \<open>Ead_Step\<close>: what a handler can change; \<open>Ead_Laws\<close>: the daemon as a machine whose step is any frame
    in any environment, and who can run commands; \<open>Ead_Safe\<close>: memory safety; \<open>Ead_Send\<close>: checksums of answers;
    \<open>Ead_Msg\<close>: messages on the wire; \<open>Ead_Session\<close>: the four frames of a session, one after the other; \<open>Ead_Answer\<close>: the
    output of a command arrives at the peer.
  \<^item> \<open>Ead_Client\<close> (\<open>ead-client.c\<close>): the client, over a network that is a parameter; \<open>Ead_Client_Msg\<close>, \<open>Ead_Client_Steps\<close>,
    \<open>Ead_Client_Session\<close>: the daemon is put in the place of the network, and the whole program runs against it;
    \<open>Ead_Login\<close>: from every state and at every instance the frames that the client's functions make of the password
    get a command run, unless the random numbers are \<open>degenerate\<close>.

  \<^bold>\<open>Termination and bounds.\<close> No definition has fuel. Loops are structural recursions or \<open>function\<close>s with a
  measure (bytes left, rounds left); the converter's loop \<open>po_loop\<close>, which does not end by its text alone (it
  goes on after the end of the file), is a \<open>partial_function\<close>, and \<open>po2lmo_ends\<close> proves that it returns. Bounds in
  hypotheses are those of the code's types: sizes below \<open>2^31\<close> or \<open>2^32\<close> where the code computes with \<open>int\<close> or
  \<open>uint32_t\<close>, 31 bytes of user name, 1023 bytes of command typed at the client (1024 in a frame), pieces of
  at most \<open>2^32 - 64\<close> bytes for the hash functions, and \<open>2^28\<close> pieces of output per command (counters of
  messages start below \<open>2^24\<close>, grow by at most 4 and may not wrap around).

  \<^bold>\<open>Parameters.\<close> Code outside the tree is an argument: \<open>inet_pton\<close> and \<open>inet_ntop\<close> of the IP calculator, the
  allocator where a failure matters, random bytes, the content of uninitialised memory the code reads (the 20 bytes \<open>dig\<close>
  of the daemon, compared by \<open>memcmp\<close> byte for byte until the first difference), whether the \<open>const\<close> password buffer
  can be written (\<open>c_rw\<close>), the answers of
  \<open>pipe\<close> and \<open>fork\<close> and what a child process writes and when, and the network of the client. Pointers of the NVRAM table have the 4
  bytes of the 32-bit router. The big numbers of
  \<open>tinysrp\<close> are natural numbers.

  \<^bold>\<open>Not modelled.\<close> Of the programs above: pcap handles, packet filter, process handling and \<open>main\<close> of the daemon
  (system calls), the option parsing and the plain file helpers of \<open>otrx\<close> and \<open>buffalo-lib\<close>, the scan for the flash
  partition in \<open>nvram.c\<close>, the bignum code and entropy collection of \<open>tinysrp\<close>. Of the tree: \<open>teltonika-snmpd\<close>,
  \<open>coova-chilli\<close>, \<open>shellinabox\<close>, the boot loaders, \<open>libcgi\<close>, \<open>libnl-tiny\<close>, the TLS libraries and \<open>libmodbus\<close> clients are third
  party; kernel drivers depend on the kernel's interfaces and on device registers; the modem tools talk to vendor
  firmware; the other image tools write one vendor header each; \<open>nixio\<close> and the template parser are bindings to Lua.
\<close>

end
